(* ===== verification/Coz_Prelude.thy ===== *)
theory Coz_Prelude
  imports Main "HOL-Library.Word" "HOL-Library.Multiset" "HOL-Library.Signed_Division"
begin

unbundle bit_operations_syntax

text \<open>
  The prelude of the development: the C integer types at their widths, the faults a C
  program can run into as values of a sum type, signed arithmetic that reports overflow,
  the truncating division of C, and the lemmas on words, lists and work partitions that
  the components share.
\<close>

section \<open>Machine integers\<close>

type_synonym u8 = "8 word"
type_synonym u16 = "16 word"
type_synonym u32 = "32 word"
type_synonym u64 = "64 word"

text \<open>
  A signed C integer is the same bit pattern, read with \<open>sint\<close>; the synonyms only record
  which reading the source declares.
\<close>

type_synonym i8 = "8 word"
type_synonym i16 = "16 word"
type_synonym i32 = "32 word"
type_synonym i64 = "64 word"

section \<open>Faults and results\<close>

text \<open>
  What ends a C computation other than a return: undefined behaviour of the arithmetic,
  an access outside an array, a failed \<^verbatim>\<open>assert\<close>, a call of \<^verbatim>\<open>exit\<close> or \<^verbatim>\<open>abort\<close>.
\<close>

datatype c_fault =
    Signed_Overflow
  | Division_By_Zero
  | Shift_Out_Of_Range
  | Out_Of_Bounds
  | Assert_Failed
  | Exited int
  | Aborted

text \<open>Sequencing of computations that can fault.\<close>

fun ebind :: "'e + 'a \<Rightarrow> ('a \<Rightarrow> 'e + 'b) \<Rightarrow> 'e + 'b" where
  "ebind (Inl e) f = Inl e"
| "ebind (Inr x) f = f x"

lemma ebind_Inr_iff: "ebind m f = Inr y \<longleftrightarrow> (\<exists>x. m = Inr x \<and> f x = Inr y)"
  by (cases m) auto

lemma ebind_Inl_iff:
  "ebind m f = Inl e \<longleftrightarrow> m = Inl e \<or> (\<exists>x. m = Inr x \<and> f x = Inl e)"
  by (cases m) auto

lemma ebind_cong [fundef_cong]:
  "m = m' \<Longrightarrow> (\<And>x. m' = Inr x \<Longrightarrow> f x = g x) \<Longrightarrow> ebind m f = ebind m' g"
  by (cases m') auto

section \<open>Signed arithmetic\<close>

definition fits_signed :: "nat \<Rightarrow> int \<Rightarrow> bool" where
  "fits_signed w r \<longleftrightarrow> - (2 ^ (w - 1)) \<le> r \<and> r < 2 ^ (w - 1)"

definition s_result :: "int \<Rightarrow> c_fault + 'a::len word" where
  "s_result r =
     (if fits_signed LENGTH('a) r then Inr (word_of_int r) else Inl Signed_Overflow)"

lemma sint_fits: "fits_signed LENGTH('a) (sint (w :: 'a::len word))"
  unfolding fits_signed_def using sint_greater_eq [of w] sint_less [of w] by simp

lemma sint_word_of_int_fits:
  "fits_signed LENGTH('a) r \<Longrightarrow> sint (word_of_int r :: 'a::len word) = r"
  unfolding fits_signed_def
  by (simp add: signed_of_int signed_take_bit_int_eq_self_iff)

lemma s_result_Inr_iff:
  "s_result r = Inr (w :: 'a::len word) \<longleftrightarrow> fits_signed LENGTH('a) r \<and> sint w = r"
  by (auto simp: s_result_def sint_word_of_int_fits)

lemma s_result_Inl_iff:
  "(s_result r :: c_fault + 'a::len word) = Inl e
     \<longleftrightarrow> e = Signed_Overflow \<and> \<not> fits_signed LENGTH('a) r"
  by (auto simp: s_result_def)

text \<open>C's \<^verbatim>\<open>/\<close> and \<^verbatim>\<open>%\<close> round towards zero; a zero divisor is a fault.\<close>

definition c_div :: "int \<Rightarrow> int \<Rightarrow> int" where "c_div a b = a sdiv b"
definition c_mod :: "int \<Rightarrow> int \<Rightarrow> int" where "c_mod a b = a smod b"

lemma c_div_mod: "c_div a b * b + c_mod a b = a"
  by (simp add: c_div_def c_mod_def sdiv_mult_smod_eq)

lemma c_div_nonneg: "0 \<le> a \<Longrightarrow> 0 < b \<Longrightarrow> c_div a b = a div b"
  by (simp add: c_div_def signed_divide_int_def sgn_if)

lemma c_mod_nonneg: "0 \<le> a \<Longrightarrow> 0 < b \<Longrightarrow> c_mod a b = a mod b"
  by (simp add: c_mod_def signed_modulo_int_def sgn_if)

lemma abs_c_div: "\<bar>c_div a b\<bar> \<le> \<bar>a\<bar> div \<bar>b\<bar>"
  by (simp add: c_div_def signed_divide_int_def abs_mult abs_sgn_eq pos_imp_zdiv_nonneg_iff)

lemma c_div_small: "\<bar>a\<bar> < b \<Longrightarrow> c_div a b = 0"
  using abs_c_div [of a b] by (simp add: div_pos_pos_trivial)

text \<open>A C \<^verbatim>\<open>int\<close> kept as its value: a result out of range is a fault.\<close>

definition c_int :: "int \<Rightarrow> c_fault + int" where
  "c_int z = (if fits_signed 32 z then Inr z else Inl Signed_Overflow)"

lemma c_int_ok [simp]: "- (2 ^ 31) \<le> z \<Longrightarrow> z < 2 ^ 31 \<Longrightarrow> c_int z = Inr z"
  by (simp add: c_int_def fits_signed_def)

lemma c_int_nat: "n < 2 ^ 31 \<Longrightarrow> c_int (int n) = Inr (int n)"
proof -
  assume "n < 2 ^ 31"
  then have "int n < int (2 ^ 31)" by (simp only: of_nat_less_iff)
  then show ?thesis by (intro c_int_ok) simp_all
qed

text \<open>The same for a 64-bit \<^verbatim>\<open>long\<close>; and the value an integer has after conversion to \<^verbatim>\<open>int\<close>.\<close>

definition c_long :: "int \<Rightarrow> c_fault + int" where
  "c_long z = (if fits_signed 64 z then Inr z else Inl Signed_Overflow)"

lemma c_long_ok [simp]: "- (2 ^ 63) \<le> z \<Longrightarrow> z < 2 ^ 63 \<Longrightarrow> c_long z = Inr z"
  by (simp add: c_long_def fits_signed_def)

definition to_int :: "int \<Rightarrow> int" where
  "to_int z = sint (word_of_int z :: i32)"

lemma to_int_id [simp]: "- (2 ^ 31) \<le> z \<Longrightarrow> z < 2 ^ 31 \<Longrightarrow> to_int z = z"
  using sint_word_of_int_fits [where 'a = 32, of z] by (simp add: to_int_def fits_signed_def)

text \<open>A read of an array outside it is a fault.\<close>

definition at_index :: "'a list \<Rightarrow> int \<Rightarrow> c_fault + 'a" where
  "at_index xs i = (if 0 \<le> i \<and> i < int (length xs) then Inr (xs ! nat i) else Inl Out_Of_Bounds)"

lemma at_index_ok [simp]: "0 \<le> i \<Longrightarrow> i < int (length xs) \<Longrightarrow> at_index xs i = Inr (xs ! nat i)"
  by (simp add: at_index_def)

lemma at_index_nat: "z = int i \<Longrightarrow> i < length xs \<Longrightarrow> at_index xs z = Inr (xs ! i)"
  by simp

text \<open>A computation over a list that stops at the first fault.\<close>

primrec emap :: "('a \<Rightarrow> 'e + 'b) \<Rightarrow> 'a list \<Rightarrow> 'e + 'b list" where
  "emap f [] = Inr []"
| "emap f (x # xs) = ebind (f x) (\<lambda>y. ebind (emap f xs) (\<lambda>ys. Inr (y # ys)))"

primrec efold :: "('a \<Rightarrow> 's \<Rightarrow> 'e + 's) \<Rightarrow> 'a list \<Rightarrow> 's \<Rightarrow> 'e + 's" where
  "efold f [] s = Inr s"
| "efold f (x # xs) s = ebind (f x s) (efold f xs)"

lemma efold_cong [fundef_cong]:
  "xs = ys \<Longrightarrow> s = t \<Longrightarrow> (\<And>x u. x \<in> set ys \<Longrightarrow> f x u = g x u) \<Longrightarrow> efold f xs s = efold g ys t"
proof -
  assume "xs = ys" "s = t" and eq: "\<And>x u. x \<in> set ys \<Longrightarrow> f x u = g x u"
  have "efold f ys t = efold g ys t"
    using eq
  proof (induction ys arbitrary: t)
    case (Cons y ys)
    then show ?case by (cases "g y t") simp_all
  qed simp
  with \<open>xs = ys\<close> \<open>s = t\<close> show ?thesis by simp
qed

lemma emap_Inr: "(\<And>x. x \<in> set xs \<Longrightarrow> f x = Inr (g x)) \<Longrightarrow> emap f xs = Inr (map g xs)"
  by (induction xs) auto

lemma efold_Inr:
  "(\<And>x s. x \<in> set xs \<Longrightarrow> P s \<Longrightarrow> f x s = Inr (g x s) \<and> P (g x s)) \<Longrightarrow> P s \<Longrightarrow>
   efold f xs s = Inr (fold g xs s) \<and> P (fold g xs s)"
  by (induction xs arbitrary: s) auto

lemma efold_append: "efold f (xs @ ys) s = ebind (efold f xs s) (efold f ys)"
proof (induction xs arbitrary: s)
  case (Cons x xs)
  show ?case by (cases "f x s") (simp_all add: Cons.IH)
qed simp

lemma efold_map: "efold f (map g xs) s = efold (\<lambda>x. f (g x)) xs s"
proof (induction xs arbitrary: s)
  case (Cons x xs)
  show ?case by (cases "f (g x) s") (simp_all add: Cons.IH)
qed simp

text \<open>A loop over an index, by the state it has reached before each step.\<close>

lemma efold_steps:
  "a \<le> b \<Longrightarrow> (\<And>k. a \<le> k \<Longrightarrow> k < b \<Longrightarrow> f (int k) (G k) = Inr (G (Suc k))) \<Longrightarrow>
   efold f (map int [a..<b]) (G a) = Inr (G b)"
proof (induction b)
  case (Suc b)
  show ?case
  proof (cases "a \<le> b")
    case True
    then show ?thesis using Suc by (simp add: efold_append)
  next
    case False
    then show ?thesis using Suc.prems(1) by (simp add: le_Suc_eq)
  qed
qed simp

section \<open>Sums over a list of threads\<close>

text \<open>One element is replaced: what a sum over the places of all threads becomes.\<close>

lemma sum_list_replace:
  "t < length xs \<Longrightarrow> sum_list (map f (xs[t := x])) + f (xs ! t) = sum_list (map f xs) + f x" for f :: "'a \<Rightarrow> nat"
  using elem_le_sum_list [of t "map f xs"] by (simp add: map_update sum_list_update)

section \<open>Prefixes up to an element\<close>

lemma takeWhile_absent: "x \<notin> set w \<Longrightarrow> takeWhile (\<lambda>c. c \<noteq> x) w = w"
  by (auto simp: takeWhile_eq_all_conv)

lemma takeWhile_upto: "x \<notin> set w \<Longrightarrow> takeWhile (\<lambda>c. c \<noteq> x) (w @ x # r) = w"
  by (induction w) auto

lemma dropWhile_absent: "x \<notin> set w \<Longrightarrow> dropWhile (\<lambda>c. c \<noteq> x) w = []"
  by (auto simp: dropWhile_eq_Nil_conv)

lemma dropWhile_upto: "x \<notin> set w \<Longrightarrow> dropWhile (\<lambda>c. c \<noteq> x) (w @ x # r) = x # r"
  by (induction w) auto

section \<open>Words\<close>

named_theorems word_nat \<open>readings of word operations on natural numbers\<close>

lemma unat_Suc_mod: "unat (w + 1 :: 'a::len word) = Suc (unat w) mod 2 ^ LENGTH('a)"
  by (simp add: unat_word_ariths)

lemma unat_bound: "unat (w :: 'a::len word) < 2 ^ LENGTH('a)"
  by (rule unsigned_less)

lemma unat_of_nat_small: "n < 2 ^ LENGTH('a) \<Longrightarrow> unat (of_nat n :: 'a::len word) = n"
  by (simp add: unsigned_of_nat take_bit_nat_eq_self)

lemma of_nat_unat_add:
  "of_nat (unat a + n) = (a + of_nat n :: 'a::len word)"
  by simp

section \<open>Work partitions\<close>

text \<open>
  The threaded programs hand each thread a range \<open>(start, length)\<close>. What they rely on is
  one law: the ranges, in thread order, list every index below the total exactly once.
\<close>

definition range_of :: "nat \<times> nat \<Rightarrow> nat list" where
  "range_of c = [fst c ..< fst c + snd c]"

locale work_partition =
  fixes chunks :: "nat \<Rightarrow> nat \<Rightarrow> (nat \<times> nat) list"
  assumes cover: "0 < p \<Longrightarrow> concat (map range_of (chunks p n)) = [0..<n]"
begin

lemma sum_list_chunks:
  fixes f :: "nat \<Rightarrow> 'b::comm_monoid_add"
  assumes "0 < p"
  shows "sum_list (map (\<lambda>c. sum_list (map f (range_of c))) (chunks p n)) = sum f {0..<n}"
proof -
  have "sum_list (map (\<lambda>c. sum_list (map f (range_of c))) cs)
        = sum_list (map f (concat (map range_of cs)))" for cs
    by (induction cs) auto
  then show ?thesis using cover [OF assms, of n] by (simp add: interv_sum_list_conv_sum_set_nat)
qed

lemma fold_chunks:
  "0 < p \<Longrightarrow> fold (\<lambda>c. fold f (range_of c)) (chunks p n) s = fold f [0..<n] s"
proof -
  have *: "fold (\<lambda>c. fold f (range_of c)) cs s = fold f (concat (map range_of cs)) s" for cs s
    by (induction cs arbitrary: s) auto
  assume "0 < p"
  then show ?thesis by (simp add: * cover)
qed

lemma efold_chunks:
  "0 < p \<Longrightarrow> efold (\<lambda>c. efold f (map g (range_of c))) (chunks p n) s = efold f (map g [0..<n]) s"
proof -
  have *: "efold (\<lambda>c. efold f (map g (range_of c))) cs s = efold f (map g (concat (map range_of cs))) s" for cs s
  proof (induction cs arbitrary: s)
    case (Cons c cs)
    show ?case
      by (cases "efold f (map g (range_of c)) s") (simp_all add: efold_append Cons.IH)
  qed simp
  assume "0 < p"
  then show ?thesis by (simp add: * cover)
qed

lemma index_in_chunk: "0 < p \<Longrightarrow> i < n \<longleftrightarrow> (\<exists>c\<in>set (chunks p n). i \<in> set (range_of c))"
proof -
  assume "0 < p"
  then have "set (concat (map range_of (chunks p n))) = {0..<n}" by (simp add: cover)
  then show ?thesis by auto
qed

lemma chunks_disjoint: "0 < p \<Longrightarrow> distinct (concat (map range_of (chunks p n)))"
  by (simp add: cover)

end

end
