(* ===== verification/Request_Credit.thy ===== *)
theory Request_Credit
  imports Coz_Prelude
begin

text \<open>
  The kernel half of request-credit mode: the BPF programs of
  \<^verbatim>\<open>hostctl_cpp/bpf/request_credit.bpf.c\<close> over the records of
  \<^verbatim>\<open>hostctl_cpp/request_credit_shared.h\<close>. Each BPF map is a field of the state; a hash map is
  a partial function, an array map of one entry is an option (a lookup can fail in the code).
  What the kernel helpers return at one hook (cgroup id, time, pid, whether the ring buffer
  and a full hash map accept one more entry) is the argument \<open>bpf_env\<close>.
\<close>

section \<open>Shared records\<close>

definition MCOZ_MAX_SOURCE_SLOTS :: nat where "MCOZ_MAX_SOURCE_SLOTS = 8"

definition MCOZ_INVALID_SOURCE_SLOT :: u32 where "MCOZ_INVALID_SOURCE_SLOT = 0xFFFFFFFF"

record source_credit_slot =
  source_key :: u64
  delay_ns :: u64
  credits :: i64

record victim_cfg =
  enabled :: u8
  rr_cursor :: u32
  slots :: "source_credit_slot list"

record consume_event =
  ts_ns :: u64
  ev_cgroup_id :: u64
  ev_delay_ns :: u64
  ev_source_key :: u64
  tid :: u32
  tgid :: u32
  ev_syscall_id :: u32
  slot_index :: u32

text \<open>The array bound is the type's: every configuration holds exactly eight slots.\<close>

definition wf_cfg :: "victim_cfg \<Rightarrow> bool" where
  "wf_cfg cfg \<longleftrightarrow> length (slots cfg) = MCOZ_MAX_SOURCE_SLOTS"

section \<open>BPF constants and maps\<close>

definition NR_read :: u32 where "NR_read = 0"
definition NR_pread64 :: u32 where "NR_pread64 = 17"
definition NR_readv :: u32 where "NR_readv = 19"
definition NR_recvfrom :: u32 where "NR_recvfrom = 45"
definition NR_recvmsg :: u32 where "NR_recvmsg = 47"
definition NR_recvmmsg :: u32 where "NR_recvmmsg = 299"
definition NR_io_uring_setup :: u32 where "NR_io_uring_setup = 425"
definition NR_io_uring_enter :: u32 where "NR_io_uring_enter = 426"

definition MCOZ_CONSUME_RECVFROM :: u32 where "MCOZ_CONSUME_RECVFROM = push_bit 0 1"
definition MCOZ_CONSUME_RECVMSG :: u32 where "MCOZ_CONSUME_RECVMSG = push_bit 1 1"
definition MCOZ_CONSUME_RECVMMSG :: u32 where "MCOZ_CONSUME_RECVMMSG = push_bit 2 1"
definition MCOZ_CONSUME_READ :: u32 where "MCOZ_CONSUME_READ = push_bit 3 1"
definition MCOZ_CONSUME_READV :: u32 where "MCOZ_CONSUME_READV = push_bit 4 1"
definition MCOZ_CONSUME_PREAD64 :: u32 where "MCOZ_CONSUME_PREAD64 = push_bit 5 1"
definition MCOZ_CONSUME_IO_URING :: u32 where "MCOZ_CONSUME_IO_URING = push_bit 6 1"

definition MCOZ_CONSUME_DEFAULT_FLAGS :: u32 where
  "MCOZ_CONSUME_DEFAULT_FLAGS =
     MCOZ_CONSUME_RECVFROM OR MCOZ_CONSUME_RECVMSG OR MCOZ_CONSUME_RECVMMSG"

lemmas syscall_nr_defs =
  NR_read_def NR_pread64_def NR_readv_def NR_recvfrom_def NR_recvmsg_def NR_recvmmsg_def
  NR_io_uring_setup_def NR_io_uring_enter_def

lemmas consume_flag_defs =
  MCOZ_CONSUME_RECVFROM_def MCOZ_CONSUME_RECVMSG_def MCOZ_CONSUME_RECVMMSG_def
  MCOZ_CONSUME_READ_def MCOZ_CONSUME_READV_def MCOZ_CONSUME_PREAD64_def
  MCOZ_CONSUME_IO_URING_def MCOZ_CONSUME_DEFAULT_FLAGS_def

record global_stats =
  bpf_events :: u64
  ringbuf_drops :: u64
  consume_triggers :: u64

record runtime_flags =
  rf_raw_consume_enabled :: u8
  rf_read_exit_hook_enabled :: u8

record bpf_state =
  victim_map :: "u64 \<rightharpoonup> victim_cfg"
  events :: "consume_event list"
  global_stats_map :: "global_stats option"
  runtime_flags_map :: "runtime_flags option"
  probe_targets :: "u64 \<rightharpoonup> u8"
  syscall_hist_map :: "(u64 \<times> u32) \<rightharpoonup> u64"
  consume_policy_map :: "u64 \<rightharpoonup> u32"

record bpf_env =
  current_cgroup_id :: u64
  current_pid_tgid :: u64
  ktime_ns :: u64
  ringbuf_room :: bool
  hist_room :: bool

section \<open>Helpers\<close>

definition get_stats :: "bpf_state \<Rightarrow> global_stats option" where
  "get_stats st = global_stats_map st"

definition map_stats :: "(global_stats \<Rightarrow> global_stats) \<Rightarrow> bpf_state \<Rightarrow> bpf_state" where
  "map_stats f st =
     (case get_stats st of None \<Rightarrow> st | Some g \<Rightarrow> st\<lparr>global_stats_map := Some (f g)\<rparr>)"

definition maybe_record_syscall :: "bpf_env \<Rightarrow> u64 \<Rightarrow> u32 \<Rightarrow> bpf_state \<Rightarrow> bpf_state" where
  "maybe_record_syscall env cg sid st =
     (case probe_targets st cg of
        None \<Rightarrow> st
      | Some en \<Rightarrow>
          if en = 0 then st
          else (case syscall_hist_map st (cg, sid) of
                  Some cur \<Rightarrow>
                    st\<lparr>syscall_hist_map := (syscall_hist_map st)((cg, sid) \<mapsto> cur + 1)\<rparr>
                | None \<Rightarrow>
                    if hist_room env
                    then st\<lparr>syscall_hist_map := (syscall_hist_map st)((cg, sid) \<mapsto> 1)\<rparr>
                    else st))"

definition should_consume_raw :: "bpf_state \<Rightarrow> u64 \<Rightarrow> u32 \<Rightarrow> bool" where
  "should_consume_raw st cg sid =
     (let flags = (case consume_policy_map st cg of
                     None \<Rightarrow> MCOZ_CONSUME_DEFAULT_FLAGS | Some f \<Rightarrow> f)
      in if sid = NR_recvfrom \<and> flags AND MCOZ_CONSUME_RECVFROM \<noteq> 0 then True
         else if sid = NR_recvmsg \<and> flags AND MCOZ_CONSUME_RECVMSG \<noteq> 0 then True
         else if sid = NR_recvmmsg \<and> flags AND MCOZ_CONSUME_RECVMMSG \<noteq> 0 then True
         else if sid = NR_read \<and> flags AND MCOZ_CONSUME_READ \<noteq> 0 then True
         else if sid = NR_readv \<and> flags AND MCOZ_CONSUME_READV \<noteq> 0 then True
         else if sid = NR_pread64 \<and> flags AND MCOZ_CONSUME_PREAD64 \<noteq> 0 then True
         else if (sid = NR_io_uring_setup \<or> sid = NR_io_uring_enter) \<and>
                 flags AND MCOZ_CONSUME_IO_URING \<noteq> 0 then True
         else False)"

definition raw_consume_enabled :: "bpf_state \<Rightarrow> bool" where
  "raw_consume_enabled st =
     (case runtime_flags_map st of None \<Rightarrow> False | Some f \<Rightarrow> rf_raw_consume_enabled f \<noteq> 0)"

definition read_exit_hook_enabled :: "bpf_state \<Rightarrow> bool" where
  "read_exit_hook_enabled st =
     (case runtime_flags_map st of None \<Rightarrow> False | Some f \<Rightarrow> rf_read_exit_hook_enabled f \<noteq> 0)"

section \<open>Consuming one credit\<close>

text \<open>
  The scan of the slots from the round-robin cursor: the unrolled \<^verbatim>\<open>for\<close> loop of
  \<^verbatim>\<open>consume_once\<close>, over the list of its steps, with the \<^verbatim>\<open>continue\<close> guard and the
  \<^verbatim>\<open>break\<close> at the first slot that passes it. The result is the index; \<open>None\<close> is the
  loop that leaves \<^verbatim>\<open>chosen\<close> at the invalid index.
\<close>

definition slot_skipped :: "source_credit_slot \<Rightarrow> bool" where
  "slot_skipped s \<longleftrightarrow> source_key s = 0 \<or> delay_ns s = 0 \<or> sint (credits s) \<le> 0"

primrec scan_slots :: "source_credit_slot list \<Rightarrow> u32 \<Rightarrow> nat list \<Rightarrow> u32 option" where
  "scan_slots ss start [] = None"
| "scan_slots ss start (step # steps) =
     (let idx = (start + of_nat step) mod of_nat MCOZ_MAX_SOURCE_SLOTS
      in if slot_skipped (ss ! unat idx) then scan_slots ss start steps else Some idx)"

definition consume_once :: "bpf_env \<Rightarrow> u32 \<Rightarrow> bpf_state \<Rightarrow> bpf_state" where
  "consume_once env sid st =
     (let cg = current_cgroup_id env
      in case victim_map st cg of
           None \<Rightarrow> st
         | Some cfg \<Rightarrow>
             if enabled cfg = 0 then st
             else
               (case scan_slots (slots cfg) (rr_cursor cfg) [0..<MCOZ_MAX_SOURCE_SLOTS] of
                  None \<Rightarrow> st
                | Some idx \<Rightarrow>
                    let slot = slots cfg ! unat idx;
                        cfg' = cfg\<lparr>rr_cursor := (idx + 1) mod of_nat MCOZ_MAX_SOURCE_SLOTS\<rparr>;
                        st1 = st\<lparr>victim_map := (victim_map st)(cg \<mapsto> cfg')\<rparr>
                    in if idx = MCOZ_INVALID_SOURCE_SLOT \<or> delay_ns slot = 0 then st1
                       else
                         let st2 = map_stats (\<lambda>g. g\<lparr>consume_triggers := consume_triggers g + 1\<rparr>) st1
                         in if \<not> ringbuf_room env
                            then map_stats (\<lambda>g. g\<lparr>ringbuf_drops := ringbuf_drops g + 1\<rparr>) st2
                            else
                              let ev = \<lparr>ts_ns = ktime_ns env, ev_cgroup_id = cg,
                                        ev_delay_ns = delay_ns slot,
                                        ev_source_key = source_key slot,
                                        tid = ucast (current_pid_tgid env),
                                        tgid = ucast (drop_bit 32 (current_pid_tgid env)),
                                        ev_syscall_id = sid, slot_index = idx\<rparr>;
                                  st3 = st2\<lparr>events := events st2 @ [ev]\<rparr>
                              in map_stats (\<lambda>g. g\<lparr>bpf_events := bpf_events g + 1\<rparr>) st3))"

definition consume_if_policy_allows :: "bpf_env \<Rightarrow> u32 \<Rightarrow> bpf_state \<Rightarrow> bpf_state" where
  "consume_if_policy_allows env sid st =
     (if \<not> should_consume_raw st (current_cgroup_id env) sid then st
      else consume_once env sid st)"

section \<open>The hooks\<close>

text \<open>
  A hook gets the fields of its context that the code reads: the syscall id (64 bits,
  truncated to 32) or the return value. Every hook returns 0; the result is the state.
\<close>

definition mcoz_on_recvfrom :: "bpf_env \<Rightarrow> i64 \<Rightarrow> bpf_state \<Rightarrow> bpf_state" where
  "mcoz_on_recvfrom env ctx_id st =
     (if raw_consume_enabled st then st else consume_if_policy_allows env (ucast ctx_id) st)"

definition mcoz_on_recvmsg :: "bpf_env \<Rightarrow> i64 \<Rightarrow> bpf_state \<Rightarrow> bpf_state" where
  "mcoz_on_recvmsg env ctx_id st =
     (if raw_consume_enabled st then st else consume_if_policy_allows env (ucast ctx_id) st)"

definition mcoz_on_read :: "bpf_env \<Rightarrow> i64 \<Rightarrow> bpf_state \<Rightarrow> bpf_state" where
  "mcoz_on_read env ctx_ret st =
     (if sint ctx_ret \<le> 0 then st
      else if raw_consume_enabled st \<and> \<not> read_exit_hook_enabled st then st
      else consume_if_policy_allows env NR_read st)"

definition mcoz_on_raw_sys_enter :: "bpf_env \<Rightarrow> u64 \<Rightarrow> bpf_state \<Rightarrow> bpf_state" where
  "mcoz_on_raw_sys_enter env args1 st =
     (let cg = current_cgroup_id env;
          sid = ucast args1 :: u32;
          st1 = maybe_record_syscall env cg sid st
      in if \<not> raw_consume_enabled st1 then st1
         else if sid = NR_read \<and> read_exit_hook_enabled st1 then st1
         else if should_consume_raw st1 cg sid then consume_once env sid st1
         else st1)"

section \<open>The scan picks the first usable slot after the cursor\<close>

text \<open>\<open>ring_pos c k\<close> is the slot the loop looks at in step \<open>k\<close>, as a natural number.\<close>

definition ring_pos :: "u32 \<Rightarrow> nat \<Rightarrow> nat" where
  "ring_pos c k = (unat c + k) mod MCOZ_MAX_SOURCE_SLOTS"

lemma max_slots_word [simp]: "(of_nat MCOZ_MAX_SOURCE_SLOTS :: u32) = 8"
  by (simp add: MCOZ_MAX_SOURCE_SLOTS_def)

lemma ring_pos_less [simp]: "ring_pos c k < 8"
  by (simp add: ring_pos_def MCOZ_MAX_SOURCE_SLOTS_def)

lemma unat_mod_eight: "unat (w mod 8 :: u32) = unat w mod 8"
  by (simp add: unat_mod_distrib)

lemma unat_scan_index: "unat ((c + of_nat k) mod 8 :: u32) = ring_pos c k"
proof -
  have "unat (c + of_nat k :: u32) = (unat c + k) mod 2 ^ 32"
    by (simp add: unat_word_ariths unat_of_nat mod_add_right_eq)
  then show ?thesis
    by (simp add: unat_mod_eight ring_pos_def MCOZ_MAX_SOURCE_SLOTS_def mod_mod_cancel)
qed

lemma scan_index_word: "((c + of_nat k) mod 8 :: u32) = of_nat (ring_pos c k)"
proof -
  have "(of_nat (unat ((c + of_nat k) mod 8 :: u32)) :: u32) = (c + of_nat k) mod 8" by simp
  then show ?thesis by (simp only: unat_scan_index)
qed

lemma unat_ring_pos [simp]: "unat (of_nat (ring_pos c k) :: u32) = ring_pos c k"
  by (simp only: scan_index_word [symmetric] unat_scan_index)

lemma scan_slots_None_iff:
  "scan_slots ss c steps = None \<longleftrightarrow> (\<forall>k\<in>set steps. slot_skipped (ss ! ring_pos c k))"
  by (induction steps) (auto simp: Let_def unat_scan_index)

lemma scan_slots_append:
  "\<forall>j\<in>set xs. slot_skipped (ss ! ring_pos c j) \<Longrightarrow>
   scan_slots ss c (xs @ ys) = scan_slots ss c ys"
  by (induction xs) (auto simp: Let_def unat_scan_index)

lemma scan_slots_first:
  assumes "k < n" "\<not> slot_skipped (ss ! ring_pos c k)"
    and "\<forall>j<k. slot_skipped (ss ! ring_pos c j)"
  shows "scan_slots ss c [0..<n] = Some (of_nat (ring_pos c k))"
proof -
  have "[0..<n] = [0..<k] @ k # [Suc k..<n]"
    using assms(1) upt_add_eq_append [of 0 k "n - k"] by (simp add: upt_conv_Cons)
  then have "scan_slots ss c [0..<n] = scan_slots ss c (k # [Suc k..<n])"
    using assms(3) by (simp add: scan_slots_append del: scan_slots.simps)
  also have "\<dots> = Some (of_nat (ring_pos c k))"
    using assms(2) by (simp add: Let_def scan_index_word)
  finally show ?thesis .
qed

lemma scan_slots_SomeE:
  assumes "scan_slots ss c [0..<n] = Some idx"
  obtains k where "k < n" "idx = of_nat (ring_pos c k)" "unat idx = ring_pos c k"
    "\<not> slot_skipped (ss ! ring_pos c k)" "\<forall>j<k. slot_skipped (ss ! ring_pos c j)"
proof -
  let ?P = "\<lambda>k. k < n \<and> \<not> slot_skipped (ss ! ring_pos c k)"
  have "scan_slots ss c [0..<n] \<noteq> None" using assms by simp
  then have "\<exists>k. ?P k" unfolding scan_slots_None_iff by auto
  then have least: "?P (Least ?P)" by (rule LeastI_ex)
  have before: "slot_skipped (ss ! ring_pos c j)" if "j < Least ?P" for j
    using not_less_Least [OF that] that conjunct1 [OF least] by (meson less_trans)
  have "scan_slots ss c [0..<n] = Some (of_nat (ring_pos c (Least ?P)))"
    using least before by (blast intro: scan_slots_first)
  with assms have idx: "idx = of_nat (ring_pos c (Least ?P))" by simp
  show ?thesis
  proof (rule that)
    show "Least ?P < n" "\<not> slot_skipped (ss ! ring_pos c (Least ?P))"
      using least by simp_all
    show "idx = of_nat (ring_pos c (Least ?P))" by (rule idx)
    show "unat idx = ring_pos c (Least ?P)" by (simp add: idx)
    show "\<forall>j<Least ?P. slot_skipped (ss ! ring_pos c j)" using before by blast
  qed
qed

lemma ring_pos_not_invalid: "(of_nat (ring_pos c k) :: u32) \<noteq> MCOZ_INVALID_SOURCE_SLOT"
proof
  assume "(of_nat (ring_pos c k) :: u32) = MCOZ_INVALID_SOURCE_SLOT"
  then have "unat (of_nat (ring_pos c k) :: u32) = unat MCOZ_INVALID_SOURCE_SLOT"
    by (rule arg_cong)
  then have "ring_pos c k = 4294967295"
    by (simp add: MCOZ_INVALID_SOURCE_SLOT_def)
  with ring_pos_less [of c k] show False by simp
qed

section \<open>What one call of consume_once does\<close>

lemma map_stats_simps [simp]:
  "victim_map (map_stats f st) = victim_map st"
  "events (map_stats f st) = events st"
  "runtime_flags_map (map_stats f st) = runtime_flags_map st"
  "probe_targets (map_stats f st) = probe_targets st"
  "syscall_hist_map (map_stats f st) = syscall_hist_map st"
  "consume_policy_map (map_stats f st) = consume_policy_map st"
  "global_stats_map (map_stats f st) = map_option f (global_stats_map st)"
  by (auto simp: map_stats_def get_stats_def split: option.splits)

text \<open>The event a slot gives rise to.\<close>

definition event_of :: "bpf_env \<Rightarrow> u32 \<Rightarrow> victim_cfg \<Rightarrow> nat \<Rightarrow> consume_event" where
  "event_of env sid cfg i =
     \<lparr>ts_ns = ktime_ns env, ev_cgroup_id = current_cgroup_id env,
      ev_delay_ns = delay_ns (slots cfg ! i), ev_source_key = source_key (slots cfg ! i),
      tid = ucast (current_pid_tgid env), tgid = ucast (drop_bit 32 (current_pid_tgid env)),
      ev_syscall_id = sid, slot_index = of_nat i\<rparr>"

definition advance :: "victim_cfg \<Rightarrow> nat \<Rightarrow> victim_cfg" where
  "advance cfg i = cfg\<lparr>rr_cursor := of_nat ((i + 1) mod MCOZ_MAX_SOURCE_SLOTS)\<rparr>"

lemma cursor_after: "((of_nat (ring_pos c k) + 1) mod 8 :: u32)
    = of_nat ((ring_pos c k + 1) mod MCOZ_MAX_SOURCE_SLOTS)"
proof -
  have "unat (of_nat (ring_pos c k) + 1 :: u32) = ring_pos c k + 1"
    using ring_pos_less [of c k] by (simp add: unat_Suc_mod del: ring_pos_less)
  then have "unat ((of_nat (ring_pos c k) + 1) mod 8 :: u32) = (ring_pos c k + 1) mod 8"
    by (simp only: unat_mod_eight)
  then have "(of_nat (unat ((of_nat (ring_pos c k) + 1) mod 8 :: u32)) :: u32)
      = of_nat ((ring_pos c k + 1) mod 8)" by (rule arg_cong)
  then show ?thesis by (simp add: MCOZ_MAX_SOURCE_SLOTS_def)
qed

text \<open>The two outcomes of the scan, each as the state the function returns.\<close>

lemma consume_once_idle:
  assumes "victim_map st (current_cgroup_id env) = Some cfg"
    and "\<forall>i<8. slot_skipped (slots cfg ! i)"
  shows "consume_once env sid st = st"
proof -
  have "scan_slots (slots cfg) (rr_cursor cfg) [0..<MCOZ_MAX_SOURCE_SLOTS] = None"
    unfolding scan_slots_None_iff using assms(2) ring_pos_less by blast
  then show ?thesis using assms(1) by (simp add: consume_once_def Let_def)
qed

lemma consume_once_served:
  assumes cfg: "victim_map st (current_cgroup_id env) = Some cfg" "enabled cfg \<noteq> 0"
    and k: "k < 8" "\<not> slot_skipped (slots cfg ! ring_pos (rr_cursor cfg) k)"
      "\<forall>j<k. slot_skipped (slots cfg ! ring_pos (rr_cursor cfg) j)"
  defines "i \<equiv> ring_pos (rr_cursor cfg) k"
  defines "st1 \<equiv> map_stats (\<lambda>g. g\<lparr>consume_triggers := consume_triggers g + 1\<rparr>)
             (st\<lparr>victim_map := (victim_map st)(current_cgroup_id env \<mapsto> advance cfg i)\<rparr>)"
  shows "consume_once env sid st =
     (if ringbuf_room env
      then map_stats (\<lambda>g. g\<lparr>bpf_events := bpf_events g + 1\<rparr>)
             (st1\<lparr>events := events st @ [event_of env sid cfg i]\<rparr>)
      else map_stats (\<lambda>g. g\<lparr>ringbuf_drops := ringbuf_drops g + 1\<rparr>) st1)"
proof -
  have scan: "scan_slots (slots cfg) (rr_cursor cfg) [0..<MCOZ_MAX_SOURCE_SLOTS]
      = Some (of_nat i)"
    unfolding i_def using k by (intro scan_slots_first) (auto simp: MCOZ_MAX_SOURCE_SLOTS_def)
  have delay: "delay_ns (slots cfg ! i) \<noteq> 0"
    using k(2) by (simp add: slot_skipped_def i_def)
  have u: "unat (of_nat i :: u32) = i" by (simp add: i_def)
  have inv: "(of_nat i :: u32) \<noteq> MCOZ_INVALID_SOURCE_SLOT"
    by (simp add: i_def ring_pos_not_invalid)
  have adv: "cfg\<lparr>rr_cursor := (of_nat i + 1) mod 8\<rparr> = advance cfg i"
    by (simp only: advance_def i_def cursor_after)
  show ?thesis
    using cfg delay inv
    by (simp add: consume_once_def scan u adv event_of_def st1_def Let_def)
qed

lemma ring_pos_onto:
  assumes "i < 8"
  obtains k where "k < 8" "ring_pos c k = i"
proof
  let ?k = "(i + (8 - unat c mod 8)) mod 8"
  show "?k < 8" by simp
  have "(a + (i + (8 - a mod 8)) mod 8) mod 8 = i" for a :: nat
  proof -
    have *: "8 * q + r + (i + (8 - r)) = i + 8 * (q + 1)" if "r < 8" for q r :: nat
      using that by simp
    have "a + (i + (8 - a mod 8)) = i + 8 * (a div 8 + 1)"
      using * [of "a mod 8" "a div 8"] by simp
    then show ?thesis using assms by (simp only: mod_add_right_eq mod_mult_self2) simp
  qed
  then show "ring_pos c ?k = i"
    by (simp only: ring_pos_def MCOZ_MAX_SOURCE_SLOTS_def)
qed

lemma first_usable:
  assumes "i < 8" "\<not> slot_skipped (slots cfg ! i)"
  obtains k where "k < 8" "\<not> slot_skipped (slots cfg ! ring_pos c k)"
    "\<forall>j<k. slot_skipped (slots cfg ! ring_pos c j)"
proof -
  obtain k0 where k0: "k0 < 8" "ring_pos c k0 = i" using ring_pos_onto [OF assms(1)] by blast
  let ?P = "\<lambda>k. \<not> slot_skipped (slots cfg ! ring_pos c k)"
  have "?P k0" using k0 assms(2) by simp
  then have "?P (Least ?P)" "Least ?P \<le> k0" by (rule LeastI, rule Least_le)
  moreover have "\<forall>j<Least ?P. slot_skipped (slots cfg ! ring_pos c j)"
    using not_less_Least by blast
  ultimately show ?thesis using that k0(1) by (meson le_less_trans)
qed

lemma consume_once_first:
  assumes "victim_map st (current_cgroup_id env) = Some cfg" "enabled cfg \<noteq> 0"
    and "ringbuf_room env" "i < 8" "\<not> slot_skipped (slots cfg ! i)"
  shows "\<exists>k<8. \<not> slot_skipped (slots cfg ! ring_pos (rr_cursor cfg) k) \<and>
     (\<forall>j<k. slot_skipped (slots cfg ! ring_pos (rr_cursor cfg) j)) \<and>
     events (consume_once env sid st)
       = events st @ [event_of env sid cfg (ring_pos (rr_cursor cfg) k)] \<and>
     victim_map (consume_once env sid st)
       = (victim_map st)(current_cgroup_id env \<mapsto> advance cfg (ring_pos (rr_cursor cfg) k))"
proof -
  obtain k where k: "k < 8" "\<not> slot_skipped (slots cfg ! ring_pos (rr_cursor cfg) k)"
    "\<forall>j<k. slot_skipped (slots cfg ! ring_pos (rr_cursor cfg) j)"
    using first_usable [OF assms(4,5)] by blast
  from consume_once_served [OF assms(1,2) k, of sid] k assms(3) show ?thesis
    by (intro exI [of _ k]) simp
qed

text \<open>
  C1. When a victim is enabled and the ring buffer has room, one call of
  \<^verbatim>\<open>consume_once\<close> serves the first usable slot in cyclic order from the cursor: it
  appends exactly the event of that slot and moves the cursor just past it, and changes no
  other part of any configuration.
\<close>

theorem consume_once_round_robin:
  assumes "victim_map st (current_cgroup_id env) = Some cfg" "enabled cfg \<noteq> 0"
    and "ringbuf_room env" "i < 8" "\<not> slot_skipped (slots cfg ! i)"
  shows "\<exists>k<8. \<not> slot_skipped (slots cfg ! ring_pos (rr_cursor cfg) k) \<and>
     (\<forall>j<k. slot_skipped (slots cfg ! ring_pos (rr_cursor cfg) j)) \<and>
     events (consume_once env sid st)
       = events st @ [event_of env sid cfg (ring_pos (rr_cursor cfg) k)] \<and>
     victim_map (consume_once env sid st)
       = (victim_map st)(current_cgroup_id env \<mapsto> advance cfg (ring_pos (rr_cursor cfg) k))"
  by (rule consume_once_first [OF assms])

section \<open>No starvation\<close>

text \<open>One consume of a served victim, seen from a slot \<open>d\<close> steps after the cursor.\<close>

lemma consume_once_progress:
  assumes cfg: "victim_map st (current_cgroup_id env) = Some cfg" "enabled cfg \<noteq> 0"
    and room: "ringbuf_room env" and d: "d < 8" "ring_pos (rr_cursor cfg) d = i"
    and usable: "\<not> slot_skipped (slots cfg ! i)"
  obtains k where "k \<le> d"
    "events (consume_once env sid st)
       = events st @ [event_of env sid cfg (ring_pos (rr_cursor cfg) k)]"
    "victim_map (consume_once env sid st) (current_cgroup_id env)
       = Some (advance cfg (ring_pos (rr_cursor cfg) k))"
proof -
  have i: "i < 8" using d by auto
  from consume_once_first [OF cfg room i usable, of sid] obtain k where k:
    "k < 8" "\<forall>j<k. slot_skipped (slots cfg ! ring_pos (rr_cursor cfg) j)"
    "events (consume_once env sid st)
       = events st @ [event_of env sid cfg (ring_pos (rr_cursor cfg) k)]"
    "victim_map (consume_once env sid st)
       = (victim_map st)(current_cgroup_id env \<mapsto> advance cfg (ring_pos (rr_cursor cfg) k))"
    by blast
  have "k \<le> d" using k(2) usable d(2) by (meson leI)
  then show ?thesis using k(3,4) by (intro that [of k]) simp_all
qed

lemma advance_simps [simp]:
  "enabled (advance cfg i) = enabled cfg" "slots (advance cfg i) = slots cfg"
  "unat (rr_cursor (advance cfg i)) = (i + 1) mod 8"
  by (simp_all add: advance_def MCOZ_MAX_SOURCE_SLOTS_def unat_of_nat)

lemma ring_pos_after:
  assumes "k < d"
  shows "ring_pos (rr_cursor (advance cfg (ring_pos c k))) (d - Suc k) = ring_pos c d"
proof -
  have "((ring_pos c k + 1) mod 8 + (d - k - 1)) mod 8 = (unat c + k + 1 + (d - k - 1)) mod 8"
    by (simp add: ring_pos_def MCOZ_MAX_SOURCE_SLOTS_def mod_simps)
  also have "unat c + k + 1 + (d - k - 1) = unat c + d" using assms by simp
  finally show ?thesis by (simp add: ring_pos_def [of "rr_cursor _"] ring_pos_def [of c d] MCOZ_MAX_SOURCE_SLOTS_def)
qed

text \<open>A burst of hooks of one victim, with the environment of each.\<close>

definition consume_burst :: "u32 \<Rightarrow> bpf_env list \<Rightarrow> bpf_state \<Rightarrow> bpf_state" where
  "consume_burst sid envs st = fold (\<lambda>env. consume_once env sid) envs st"

lemma consume_once_events_mono: "set (events st) \<subseteq> set (events (consume_once env sid st))"
  by (auto simp: consume_once_def Let_def split: option.splits)

lemma consume_burst_events_mono: "set (events st) \<subseteq> set (events (consume_burst sid envs st))"
  unfolding consume_burst_def
proof (induction envs arbitrary: st)
  case (Cons e es)
  then show ?case using consume_once_events_mono [of st e sid] by fastforce
qed simp

text \<open>
  C2. No slot starves. In any burst of eight triggers for one victim, each slot that was
  usable at its start gets an event, wherever the cursor stood and whatever the other
  slots hold.
\<close>

theorem consume_burst_no_starvation:
  assumes "victim_map st cg = Some cfg" "enabled cfg \<noteq> 0" "i < 8"
    and "\<not> slot_skipped (slots cfg ! i)"
    and "\<forall>env\<in>set envs. current_cgroup_id env = cg \<and> ringbuf_room env" "length envs = 8"
  shows "\<exists>ev\<in>set (events (consume_burst sid envs st)).
     slot_index ev = of_nat i \<and> ev_source_key ev = source_key (slots cfg ! i) \<and>
     ev_delay_ns ev = delay_ns (slots cfg ! i)"
proof -
  have main: "\<exists>ev\<in>set (events (consume_burst sid envs st)).
      slot_index ev = of_nat i \<and> ev_source_key ev = source_key ss \<and> ev_delay_ns ev = delay_ns ss"
    if "victim_map st cg = Some cfg" "enabled cfg \<noteq> 0" "slots cfg ! i = ss" "\<not> slot_skipped ss"
      "\<forall>env\<in>set envs. current_cgroup_id env = cg \<and> ringbuf_room env"
      "d < 8" "ring_pos (rr_cursor cfg) d = i" "d < length envs" for d st cfg envs ss
    using that
  proof (induction d arbitrary: st cfg envs rule: less_induct)
    case (less d)
    then obtain env rest where envs: "envs = env # rest" by (cases envs) auto
    then have env: "current_cgroup_id env = cg" "ringbuf_room env" using less.prems by auto
    obtain k where k: "k \<le> d"
      "events (consume_once env sid st)
         = events st @ [event_of env sid cfg (ring_pos (rr_cursor cfg) k)]"
      "victim_map (consume_once env sid st) cg
         = Some (advance cfg (ring_pos (rr_cursor cfg) k))"
      using consume_once_progress [of st env cfg d i sid] less.prems env by auto
    have run: "consume_burst sid envs st = consume_burst sid rest (consume_once env sid st)"
      by (simp add: consume_burst_def envs)
    show ?case
    proof (cases "k = d")
      case True
      then have "event_of env sid cfg i \<in> set (events (consume_once env sid st))"
        using k less.prems by simp
      then have "event_of env sid cfg i \<in> set (events (consume_burst sid envs st))"
        unfolding run using consume_burst_events_mono by blast
      then show ?thesis using less.prems(3) by (intro bexI) (auto simp: event_of_def)
    next
      case False
      with k have kd: "k < d" by simp
      show ?thesis unfolding run
        by (rule less.IH [of "d - Suc k" _ "advance cfg (ring_pos (rr_cursor cfg) k)"])
          (use kd k(3) less.prems envs in \<open>auto simp: ring_pos_after\<close>)
    qed
  qed
  obtain d where "d < 8" "ring_pos (rr_cursor cfg) d = i" using ring_pos_onto [OF assms(3)] by blast
  then show ?thesis using main [OF assms(1,2) refl assms(4,5)] assms(6) by simp
qed

section \<open>Accounting\<close>

text \<open>
  The statistics agree: every trigger is either an event in the ring buffer or a drop. The
  steps are the four hooks, with any environment, and what user space does to the maps
  (\<^verbatim>\<open>arm\<close>, policies, probes, flags, draining the ring buffer, resetting the statistics).
\<close>

definition stats_balanced :: "bpf_state \<Rightarrow> bool" where
  "stats_balanced st \<longleftrightarrow>
     (case global_stats_map st of None \<Rightarrow> True
      | Some g \<Rightarrow> consume_triggers g = bpf_events g + ringbuf_drops g)"

inductive bpf_step :: "bpf_state \<Rightarrow> bpf_state \<Rightarrow> bool" where
  recvfrom: "bpf_step st (mcoz_on_recvfrom env ctx_id st)"
| recvmsg: "bpf_step st (mcoz_on_recvmsg env ctx_id st)"
| read_exit: "bpf_step st (mcoz_on_read env ret st)"
| raw_enter: "bpf_step st (mcoz_on_raw_sys_enter env args1 st)"
| user_victims: "bpf_step st (st\<lparr>victim_map := vm\<rparr>)"
| user_policy: "bpf_step st (st\<lparr>consume_policy_map := pm\<rparr>)"
| user_flags: "bpf_step st (st\<lparr>runtime_flags_map := fl\<rparr>)"
| user_probe: "bpf_step st (st\<lparr>probe_targets := pt, syscall_hist_map := hm\<rparr>)"
| drain: "bpf_step st (st\<lparr>events := drop n (events st)\<rparr>)"
| reset_stats: "bpf_step st (st\<lparr>global_stats_map :=
      Some \<lparr>bpf_events = 0, ringbuf_drops = 0, consume_triggers = 0\<rparr>\<rparr>)"

inductive bpf_reachable :: "bpf_state \<Rightarrow> bool" where
  loaded: "global_stats_map st = Some \<lparr>bpf_events = 0, ringbuf_drops = 0, consume_triggers = 0\<rparr>
     \<Longrightarrow> bpf_reachable st"
| step: "bpf_reachable st \<Longrightarrow> bpf_step st st' \<Longrightarrow> bpf_reachable st'"

lemma consume_once_balanced: "stats_balanced st \<Longrightarrow> stats_balanced (consume_once env sid st)"
  by (auto simp: consume_once_def Let_def stats_balanced_def split: option.splits)

lemma record_frame [simp]:
  "victim_map (maybe_record_syscall env cg sid st) = victim_map st"
  "events (maybe_record_syscall env cg sid st) = events st"
  "global_stats_map (maybe_record_syscall env cg sid st) = global_stats_map st"
  "runtime_flags_map (maybe_record_syscall env cg sid st) = runtime_flags_map st"
  "consume_policy_map (maybe_record_syscall env cg sid st) = consume_policy_map st"
  by (simp_all add: maybe_record_syscall_def split: option.splits)

lemmas hook_defs =
  mcoz_on_recvfrom_def mcoz_on_recvmsg_def mcoz_on_read_def mcoz_on_raw_sys_enter_def
  consume_if_policy_allows_def Let_def

lemma record_balanced: "stats_balanced (maybe_record_syscall env cg sid st) = stats_balanced st"
  by (simp add: stats_balanced_def)

lemma bpf_step_balanced: "bpf_step st st' \<Longrightarrow> stats_balanced st \<Longrightarrow> stats_balanced st'"
proof (induction rule: bpf_step.induct)
  case (raw_enter st env args1)
  then show ?case
    by (simp add: hook_defs consume_once_balanced record_balanced)
qed (simp_all add: hook_defs consume_once_balanced, simp_all add: stats_balanced_def)

text \<open>
  C3. In every reachable state the statistics balance: the number of consume triggers is the
  number of events submitted plus the number of events the full ring buffer dropped.
\<close>

theorem stats_balanced_reachable:
  assumes "bpf_reachable st"
  shows "stats_balanced st"
  using assms
proof (induction rule: bpf_reachable.induct)
  case (loaded st)
  then show ?case by (simp add: stats_balanced_def)
next
  case (step st st')
  then show ?case by (blast intro: bpf_step_balanced)
qed

section \<open>One system call, at most one credit\<close>

text \<open>
  The order in which the kernel runs the attached programs for one system call: the raw
  \<^verbatim>\<open>sys_enter\<close> tracepoint, the per-call enter tracepoint of \<^verbatim>\<open>recvfrom\<close> or
  \<^verbatim>\<open>recvmsg\<close>, and at the end the exit tracepoint of \<^verbatim>\<open>read\<close> (the \<^verbatim>\<open>SEC\<close> names
  of the programs). The three environments are those of the three hooks.
\<close>

definition deliver_syscall ::
  "bpf_env \<Rightarrow> bpf_env \<Rightarrow> bpf_env \<Rightarrow> u32 \<Rightarrow> i64 \<Rightarrow> bpf_state \<Rightarrow> bpf_state" where
  "deliver_syscall e1 e2 e3 sid ret st =
     (let st1 = mcoz_on_raw_sys_enter e1 (ucast sid) st;
          st2 = (if sid = NR_recvfrom then mcoz_on_recvfrom e2 (ucast sid) st1
                 else if sid = NR_recvmsg then mcoz_on_recvmsg e2 (ucast sid) st1 else st1)
      in if sid = NR_read then mcoz_on_read e3 ret st2 else st2)"

lemma ucast_u32_u64 [simp]: "(ucast (ucast (w :: u32) :: u64) :: u32) = w"
  by (rule bit_word_eqI) (simp add: bit_unsigned_iff)

lemma consume_once_frame [simp]:
  "runtime_flags_map (consume_once env sid st) = runtime_flags_map st"
  "consume_policy_map (consume_once env sid st) = consume_policy_map st"
  by (auto simp: consume_once_def Let_def split: option.splits)

lemma flag_readers [simp]:
  "raw_consume_enabled (consume_once env sid st) = raw_consume_enabled st"
  "read_exit_hook_enabled (consume_once env sid st) = read_exit_hook_enabled st"
  "should_consume_raw (consume_once env sid st) = should_consume_raw st"
  "raw_consume_enabled (maybe_record_syscall env cg s st) = raw_consume_enabled st"
  "read_exit_hook_enabled (maybe_record_syscall env cg s st) = read_exit_hook_enabled st"
  "should_consume_raw (maybe_record_syscall env cg s st) = should_consume_raw st"
  by (simp_all add: raw_consume_enabled_def read_exit_hook_enabled_def should_consume_raw_def
        fun_eq_iff)

lemma consume_once_events:
  "events (consume_once env sid st) = events st \<or>
   (\<exists>ev. ev_syscall_id ev = sid \<and> ev_cgroup_id ev = current_cgroup_id env \<and>
         events (consume_once env sid st) = events st @ [ev])"
  by (auto simp: consume_once_def Let_def split: option.splits)

text \<open>
  C4. One system call consumes at most one credit, for every setting of the runtime flags and
  of the policies: the raw tracepoint and the per-call tracepoints never both consume.
\<close>

theorem one_event_per_syscall:
  "events (deliver_syscall e1 e2 e3 sid ret st) = events st \<or>
   (\<exists>ev. ev_syscall_id ev = sid \<and> events (deliver_syscall e1 e2 e3 sid ret st) = events st @ [ev])"
proof -
  let ?r = "maybe_record_syscall e1 (current_cgroup_id e1) sid st"
  have once: "events (consume_once e s ?r) = events st \<or>
      (\<exists>ev. ev_syscall_id ev = s \<and> events (consume_once e s ?r) = events st @ [ev])" for e s
    using consume_once_events [of e s ?r] by auto
  have nr: "NR_read \<noteq> NR_recvfrom" "NR_read \<noteq> NR_recvmsg" "NR_recvfrom \<noteq> NR_recvmsg"
    by (simp_all add: syscall_nr_defs)
  consider "sid = NR_read" | "sid = NR_recvfrom" | "sid = NR_recvmsg"
    | "sid \<notin> {NR_read, NR_recvfrom, NR_recvmsg}" by blast
  then show ?thesis
    using nr once by cases (auto simp: deliver_syscall_def hook_defs)
qed

section \<open>Concrete runs\<close>

definition sample_slot :: "u64 \<Rightarrow> u64 \<Rightarrow> i64 \<Rightarrow> source_credit_slot" where
  "sample_slot k d c = \<lparr>source_key = k, delay_ns = d, credits = c\<rparr>"

definition sample_cfg :: victim_cfg where
  "sample_cfg = \<lparr>enabled = 1, rr_cursor = 6,
     slots = [sample_slot 11 500 2, sample_slot 0 0 0, sample_slot 22 900 1, sample_slot 0 0 0,
              sample_slot 33 700 0, sample_slot 0 0 0, sample_slot 0 0 0, sample_slot 0 0 0]\<rparr>"

definition sample_state :: bpf_state where
  "sample_state = \<lparr>victim_map = [7 \<mapsto> sample_cfg], events = [],
     global_stats_map = Some \<lparr>bpf_events = 0, ringbuf_drops = 0, consume_triggers = 0\<rparr>,
     runtime_flags_map = None, probe_targets = Map.empty, syscall_hist_map = Map.empty,
     consume_policy_map = Map.empty\<rparr>"

definition sample_env :: bpf_env where
  "sample_env = \<lparr>current_cgroup_id = 7, current_pid_tgid = 0x100000002, ktime_ns = 99,
     ringbuf_room = True, hist_room = True\<rparr>"

lemmas sample_defs = sample_slot_def sample_cfg_def sample_state_def sample_env_def

theorem consume_once_round_robin_witness:
  "\<exists>k<8. events (consume_once sample_env 45 sample_state)
     = [event_of sample_env 45 sample_cfg (ring_pos 6 k)]"
proof -
  have "\<not> slot_skipped (slots sample_cfg ! 0)"
    by (simp add: sample_defs slot_skipped_def)
  moreover have "victim_map sample_state (current_cgroup_id sample_env) = Some sample_cfg"
    "enabled sample_cfg \<noteq> 0" "ringbuf_room sample_env"
    by (simp_all add: sample_defs)
  ultimately obtain k where "k < 8" "events (consume_once sample_env 45 sample_state)
      = events sample_state @ [event_of sample_env 45 sample_cfg (ring_pos (rr_cursor sample_cfg) k)]"
    using consume_once_round_robin [of sample_state sample_env sample_cfg 0 45] by auto
  moreover have "events sample_state = []" "rr_cursor sample_cfg = 6" by (simp_all add: sample_defs)
  ultimately show ?thesis by auto
qed

theorem consume_burst_no_starvation_witness:
  "\<exists>ev\<in>set (events (consume_burst 45 (replicate 8 sample_env) sample_state)).
     slot_index ev = 2 \<and> ev_source_key ev = 22 \<and> ev_delay_ns ev = 900"
proof -
  have "\<not> slot_skipped (slots sample_cfg ! 2)" "source_key (slots sample_cfg ! 2) = 22"
    "delay_ns (slots sample_cfg ! 2) = 900"
    by (simp_all add: sample_defs slot_skipped_def)
  moreover have "victim_map sample_state 7 = Some sample_cfg" "enabled sample_cfg \<noteq> 0"
    "\<forall>env\<in>set (replicate 8 sample_env). current_cgroup_id env = 7 \<and> ringbuf_room env"
    by (simp_all add: sample_defs)
  ultimately show ?thesis
    using consume_burst_no_starvation
      [of sample_state 7 sample_cfg 2 "replicate 8 sample_env" 45] by simp
qed

theorem stats_balanced_reachable_witness:
  "stats_balanced (mcoz_on_recvfrom sample_env 45 sample_state)"
proof -
  have "bpf_reachable sample_state"
    by (rule bpf_reachable.loaded) (simp add: sample_state_def)
  then have "bpf_reachable (mcoz_on_recvfrom sample_env 45 sample_state)"
    by (rule bpf_reachable.step) (rule bpf_step.recvfrom)
  then show ?thesis by (rule stats_balanced_reachable)
qed

end
