(* ===== verification/C_Text.thy ===== *)
theory C_Text
  imports Coz_Prelude
begin

text \<open>
  Text as the C and C++ libraries treat it: white space, digits, the scanning and printing of
  integers (\<^verbatim>\<open>atoll\<close>, \<^verbatim>\<open>sscanf\<close> and \<^verbatim>\<open>snprintf\<close> of a 64-bit integer, as the standard and the GNU
  library describe them: out-of-range digits saturate), \<^verbatim>\<open>strtoull\<close> with its error cases,
  searching, trimming and splitting. A string is its list of bytes.
\<close>

section \<open>Integers in text\<close>

definition is_space :: "char \<Rightarrow> bool" where
  "is_space c \<longleftrightarrow> (of_char c :: nat) = 32 \<or> (9 \<le> (of_char c :: nat) \<and> (of_char c :: nat) \<le> 13)"

fun skip_spaces :: "string \<Rightarrow> string" where
  "skip_spaces [] = []"
| "skip_spaces (c # s) = (if is_space c then skip_spaces s else c # s)"

definition digit_val :: "char \<Rightarrow> nat" where
  "digit_val c =
     (let n = of_char c in
      if 48 \<le> n \<and> n \<le> 57 then n - 48
      else if 97 \<le> n \<and> n \<le> 122 then n - 87
      else if 65 \<le> n \<and> n \<le> 90 then n - 55
      else 255)"

text \<open>The value of the leading digits, \<open>None\<close> when there are none.\<close>

fun scan_digits :: "nat \<Rightarrow> nat option \<Rightarrow> string \<Rightarrow> nat option" where
  "scan_digits base acc [] = acc"
| "scan_digits base acc (c # s) =
     (if digit_val c < base
      then scan_digits base (Some ((case acc of None \<Rightarrow> 0 | Some n \<Rightarrow> n) * base + digit_val c)) s
      else acc)"

fun scan_sign :: "string \<Rightarrow> bool \<times> string" where
  "scan_sign [] = (False, [])"
| "scan_sign (c # s) =
     (if c = CHR ''-'' then (True, s) else if c = CHR ''+'' then (False, s) else (False, c # s))"

definition clamp_i64 :: "int \<Rightarrow> i64" where
  "clamp_i64 z = word_of_int (if z < - (2 ^ 63) then - (2 ^ 63) else if 2 ^ 63 - 1 < z then 2 ^ 63 - 1 else z)"

text \<open>\<^verbatim>\<open>%ld\<close>, and \<^verbatim>\<open>atoll\<close>, which yields 0 when there are no digits.\<close>

definition scan_i64 :: "string \<Rightarrow> i64 option" where
  "scan_i64 s =
     (case scan_sign (skip_spaces s) of
        (neg, rest) \<Rightarrow> map_option (\<lambda>n. clamp_i64 (if neg then - int n else int n))
          (scan_digits 10 None rest))"

definition atoll :: "string \<Rightarrow> i64" where
  "atoll s = (case scan_i64 s of None \<Rightarrow> 0 | Some w \<Rightarrow> w)"

text \<open>\<^verbatim>\<open>%lx\<close>: an optional sign and \<^verbatim>\<open>0x\<close>; a negated value wraps.\<close>

definition scan_x64 :: "string \<Rightarrow> i64 option" where
  "scan_x64 s =
     (case scan_sign (skip_spaces s) of
        (neg, rest) \<Rightarrow>
          let digits = (if take 2 rest = ''0x'' \<or> take 2 rest = ''0X'' then drop 2 rest else rest)
          in map_option (\<lambda>n. if 2 ^ 64 \<le> n then - 1
                             else if neg then - of_nat n else of_nat n)
               (scan_digits 16 None digits))"

definition digit_char :: "nat \<Rightarrow> char" where
  "digit_char d = char_of (48 + d)"

fun print_nat :: "nat \<Rightarrow> string" where
  "print_nat n = (if n < 10 then [digit_char n] else print_nat (n div 10) @ [digit_char (n mod 10)])"

declare print_nat.simps [simp del]

definition print_int :: "int \<Rightarrow> string" where
  "print_int z = (if z < 0 then CHR ''-'' # print_nat (nat (- z)) else print_nat (nat z))"

text \<open>\<^verbatim>\<open>snprintf\<close> keeps what fits before the terminating zero.\<close>

definition snprintf_i64 :: "nat \<Rightarrow> i64 \<Rightarrow> string" where
  "snprintf_i64 len val = take (len - 1) (print_int (sint val))"

section \<open>Printing and scanning agree\<close>

lemma digit_char_code: "d < 10 \<Longrightarrow> (of_char (digit_char d) :: nat) = 48 + d"
  by (simp add: digit_char_def of_char_of)

lemma digit_val_char [simp]: "d < 10 \<Longrightarrow> digit_val (digit_char d) = d"
  by (simp add: digit_val_def digit_char_code)

lemma scan_digits_append_char:
  "\<forall>c\<in>set s. digit_val c < base \<Longrightarrow> digit_val c' < base \<Longrightarrow>
   scan_digits base acc (s @ [c']) =
     Some ((case scan_digits base acc s of None \<Rightarrow> 0 | Some n \<Rightarrow> n) * base + digit_val c')"
  by (induction s arbitrary: acc) auto

lemma print_nat_digits: "\<forall>c\<in>set (print_nat n). digit_val c < 10"
proof (induction n rule: print_nat.induct)
  case (1 n)
  then show ?case by (subst print_nat.simps) (auto split: if_splits)
qed

lemma scan_print_nat: "scan_digits 10 None (print_nat n) = Some n"
proof (induction n rule: print_nat.induct)
  case (1 n)
  show ?case
  proof (cases "n < 10")
    case True
    then show ?thesis by (subst print_nat.simps) simp
  next
    case False
    have "print_nat n = print_nat (n div 10) @ [digit_char (n mod 10)]"
      using False by (subst print_nat.simps) simp
    then show ?thesis
      using 1 [OF False] scan_digits_append_char [OF print_nat_digits [of "n div 10"], of "digit_char (n mod 10)" None]
      by simp
  qed
qed

lemma print_nat_ne [simp]: "print_nat n \<noteq> []"
  by (subst print_nat.simps) simp

lemma print_nat_hd: "digit_val (hd (print_nat n)) < 10"
  using print_nat_digits [of n] hd_in_set [OF print_nat_ne] by blast

lemma digit_not_space: "digit_val c < 10 \<Longrightarrow> \<not> is_space c \<and> c \<noteq> CHR ''-'' \<and> c \<noteq> CHR ''+''"
  by (auto simp: digit_val_def is_space_def Let_def split: if_splits)

lemma scan_sign_print_nat: "scan_sign (skip_spaces (print_nat n)) = (False, print_nat n)"
proof -
  obtain c s where p: "print_nat n = c # s" using print_nat_ne [of n] by (cases "print_nat n") blast+
  with print_nat_hd [of n] digit_not_space [of c] show ?thesis by simp
qed

lemma clamp_sint [simp]: "clamp_i64 (sint w) = w"
  using sint_fits [of w] by (simp add: clamp_i64_def fits_signed_def)

lemma scan_print_int: "scan_i64 (print_int (sint w)) = Some w"
proof (cases "sint w < 0")
  case True
  have "\<not> is_space (CHR ''-'')" by (simp add: is_space_def)
  with True show ?thesis
    by (simp add: scan_i64_def print_int_def scan_print_nat)
next
  case False
  then show ?thesis
    by (simp add: scan_i64_def print_int_def scan_sign_print_nat scan_print_nat)
qed

lemma print_nat_length: "n < 10 ^ k \<Longrightarrow> 0 < k \<Longrightarrow> length (print_nat n) \<le> k"
proof (induction n arbitrary: k rule: print_nat.induct)
  case (1 n)
  show ?case
  proof (cases "n < 10")
    case True
    with 1 show ?thesis by (subst print_nat.simps) simp
  next
    case False
    with 1(2,3) have "1 < k" by (cases "k = 1") auto
    then obtain j where j: "k = Suc j" "0 < j" by (cases k) auto
    have "n div 10 < 10 ^ j" using 1(2) j by (simp add: less_mult_imp_div_less mult.commute)
    from 1(1) [OF False this j(2)] False j show ?thesis by (subst print_nat.simps) simp
  qed
qed

lemma print_int_length: "length (print_int (sint (w :: i64))) \<le> 20"
proof -
  have "nat (- sint w) < 10 ^ 19" "nat (sint w) < 10 ^ 19"
    using sint_fits [of w] by (simp_all add: fits_signed_def nat_less_iff) linarith+
  then have "length (print_nat (nat (- sint w))) \<le> 19" "length (print_nat (nat (sint w))) \<le> 19"
    by (intro print_nat_length; simp)+
  then show ?thesis by (simp add: print_int_def)
qed

section \<open>Characters\<close>

definition char_code :: "char \<Rightarrow> nat" where
  "char_code c = of_char c"

definition is_digit :: "char \<Rightarrow> bool" where
  "is_digit c \<longleftrightarrow> 48 \<le> char_code c \<and> char_code c \<le> 57"

definition to_lower :: "char \<Rightarrow> char" where
  "to_lower c = (if 65 \<le> char_code c \<and> char_code c \<le> 90 then char_of (char_code c + 32) else c)"

lemma is_digit_val: "is_digit c \<longleftrightarrow> digit_val c < 10"
  by (auto simp: is_digit_def char_code_def digit_val_def Let_def split: if_splits)

text \<open>\<^verbatim>\<open>std::hex\<close>: lower-case digits without leading zeros.\<close>

definition hex_char :: "nat \<Rightarrow> char" where
  "hex_char d = (if d < 10 then char_of (48 + d) else char_of (87 + d))"

fun print_hex :: "nat \<Rightarrow> string" where
  "print_hex n = (if n < 16 then [hex_char n] else print_hex (n div 16) @ [hex_char (n mod 16)])"

declare print_hex.simps [simp del]

section \<open>Searching and cutting\<close>

text \<open>The first position at which a string occurs, \<^verbatim>\<open>std::string::find\<close>.\<close>

fun find_sub :: "string \<Rightarrow> string \<Rightarrow> nat option" where
  "find_sub pat [] = (if pat = [] then Some 0 else None)"
| "find_sub pat (c # s) =
     (if take (length pat) (c # s) = pat then Some 0 else map_option Suc (find_sub pat s))"

definition contains :: "string \<Rightarrow> string \<Rightarrow> bool" where
  "contains pat s \<longleftrightarrow> find_sub pat s \<noteq> None"

lemma find_sub_Some:
  "find_sub pat s = Some i \<Longrightarrow> i + length pat \<le> length s \<and> take (length pat) (drop i s) = pat"
proof (induction s arbitrary: i)
  case (Cons c s)
  show ?case
  proof (cases "take (length pat) (c # s) = pat")
    case True
    then have "length pat \<le> length (c # s)" by (metis length_take min.cobounded1)
    with True Cons.prems show ?thesis by auto
  next
    case False
    with Cons show ?thesis by auto
  qed
qed (simp split: if_splits)

lemma find_sub_first:
  "find_sub pat s = Some i \<Longrightarrow> j < i \<Longrightarrow> take (length pat) (drop j s) \<noteq> pat"
proof (induction s arbitrary: i j)
  case (Cons c s)
  then show ?case by (cases j) (auto split: if_splits)
qed (simp split: if_splits)

lemma find_sub_None: "find_sub pat s = None \<Longrightarrow> take (length pat) (drop j s) = pat \<Longrightarrow> False"
proof (induction s arbitrary: j)
  case (Cons c s)
  then show ?case by (cases j) (auto split: if_splits)
qed (simp split: if_splits)

lemma find_sub_intro:
  assumes "take (length pat) (drop i s) = pat" "\<And>j. j < i \<Longrightarrow> take (length pat) (drop j s) \<noteq> pat"
  shows "find_sub pat s = Some i"
proof (cases "find_sub pat s")
  case None
  then show ?thesis using find_sub_None [OF None assms(1)] by blast
next
  case (Some k)
  then have "take (length pat) (drop k s) = pat" using find_sub_Some by blast
  then have "\<not> k < i" using assms(2) by blast
  moreover have "\<not> i < k" using find_sub_first [OF Some] assms(1) by blast
  ultimately show ?thesis using Some by simp
qed

text \<open>The text before and after the first occurrence of a character.\<close>

definition before_char :: "char \<Rightarrow> string \<Rightarrow> string" where
  "before_char c s = takeWhile (\<lambda>x. x \<noteq> c) s"

definition after_char :: "char \<Rightarrow> string \<Rightarrow> string" where
  "after_char c s = tl (dropWhile (\<lambda>x. x \<noteq> c) s)"

lemma before_after: "c \<in> set s \<Longrightarrow> before_char c s @ c # after_char c s = s"
  by (induction s) (auto simp: before_char_def after_char_def)

lemma split_at_char: "c \<notin> set s \<Longrightarrow> before_char c (s @ c # t) = s \<and> after_char c (s @ c # t) = t"
  by (induction s) (auto simp: before_char_def after_char_def)

lemma before_char_none: "c \<notin> set s \<Longrightarrow> before_char c s = s"
  by (auto simp: before_char_def takeWhile_eq_all_conv)

lemma length_after_char: "c \<in> set s \<Longrightarrow> length (after_char c s) < length s"
  using before_after [of c s] by (metis add_Suc_right le_add2 le_imp_less_Suc length_Cons length_append)

text \<open>Trimming as the sources write it, with \<^verbatim>\<open>find_first_not_of\<close> and \<^verbatim>\<open>find_last_not_of\<close>.\<close>

definition blank :: "char \<Rightarrow> bool" where
  "blank c \<longleftrightarrow> char_code c \<in> {32, 10, 13, 9}"

definition trim :: "string \<Rightarrow> string" where
  "trim s = rev (dropWhile blank (rev (dropWhile blank s)))"

text \<open>\<^verbatim>\<open>std::getline\<close> until it fails: the last line need not end in the delimiter.\<close>

function get_lines :: "char \<Rightarrow> string \<Rightarrow> string list" where
  "get_lines d s =
     (if s = [] then []
      else before_char d s # (if d \<in> set s then get_lines d (after_char d s) else []))"
  by pat_completeness auto
termination
  by (relation "measure (\<lambda>(d, s). length s)") (auto intro: length_after_char)

declare get_lines.simps [simp del]

text \<open>Reading a word with \<^verbatim>\<open>>>\<close>: white space is skipped before it.\<close>

definition next_word :: "string \<Rightarrow> string \<times> string" where
  "next_word s = (takeWhile (\<lambda>c. \<not> is_space c) (skip_spaces s), dropWhile (\<lambda>c. \<not> is_space c) (skip_spaces s))"

lemma skip_spaces_dropWhile: "skip_spaces s = dropWhile is_space s"
  by (induction s) auto

section \<open>strtoull and strtoll\<close>

text \<open>
  The result, what \<^verbatim>\<open>end\<close> points at, and whether \<^verbatim>\<open>errno\<close> is set. Without digits \<^verbatim>\<open>end\<close> is the start.
  A minus sign negates the unsigned result modulo \<open>2 ^ 64\<close>. The C string ends at the first zero byte.
\<close>

definition c_str :: "string \<Rightarrow> string" where
  "c_str s = takeWhile (\<lambda>c. char_code c \<noteq> 0) s"

definition strtoull :: "string \<Rightarrow> u64 \<times> string \<times> bool" where
  "strtoull s =
     (case scan_sign (skip_spaces s) of
        (neg, rest) \<Rightarrow>
          (case scan_digits 10 None rest of
             None \<Rightarrow> (0, s, False)
           | Some n \<Rightarrow>
               if 2 ^ 64 \<le> n then (- 1, dropWhile is_digit rest, True)
               else (if neg then - of_nat n else of_nat n, dropWhile is_digit rest, False)))"

definition strtoll :: "string \<Rightarrow> i64 \<times> string \<times> bool" where
  "strtoll s =
     (case scan_sign (skip_spaces s) of
        (neg, rest) \<Rightarrow>
          (case scan_digits 10 None rest of
             None \<Rightarrow> (0, s, False)
           | Some n \<Rightarrow>
               let z = (if neg then - int n else int n)
               in (clamp_i64 z, dropWhile is_digit rest, \<not> fits_signed 64 z)))"

lemma print_nat_all_digits: "c \<in> set (print_nat n) \<Longrightarrow> is_digit c"
  using print_nat_digits [of n] by (auto simp: is_digit_val)

lemma c_str_print_nat: "c_str (print_nat n) = print_nat n"
  using print_nat_all_digits [of _ n] by (fastforce simp: c_str_def takeWhile_eq_all_conv is_digit_def)

lemma strtoull_print_nat: "n < 2 ^ 64 \<Longrightarrow> strtoull (print_nat n) = (of_nat n, [], False)"
  using print_nat_all_digits by (auto simp: strtoull_def scan_sign_print_nat scan_print_nat dropWhile_eq_Nil_conv)

lemma digits_of_print_nat: "dropWhile is_digit (print_nat n) = []"
  using print_nat_all_digits by (auto simp: dropWhile_eq_Nil_conv)

lemma strtoll_print_nat: "n < 2 ^ 63 \<Longrightarrow> strtoll (print_nat n) = (of_nat n, [], False)"
  by (simp only: strtoll_def scan_sign_print_nat scan_print_nat digits_of_print_nat prod.case option.case Let_def)
    (simp add: fits_signed_def clamp_i64_def)

lemma trim_print_nat: "trim (print_nat n) = print_nat n"
proof -
  have "\<not> blank c" if "c \<in> set (print_nat n)" for c
    using print_nat_all_digits [OF that] by (auto simp: is_digit_def blank_def)
  then have "dropWhile blank u = u" if "set u \<subseteq> set (print_nat n)" for u
    using that by (cases u) auto
  from this [of "print_nat n"] this [of "rev (print_nat n)"] show ?thesis by (simp add: trim_def)
qed

text \<open>\<^verbatim>\<open>std::stoi\<close>: the leading integer, \<open>None\<close> for the two exceptions (no digits, out of range).\<close>

definition stoi :: "string \<Rightarrow> int option" where
  "stoi s =
     (case scan_sign (skip_spaces s) of
        (neg, rest) \<Rightarrow>
          (case scan_digits 10 None rest of
             None \<Rightarrow> None
           | Some n \<Rightarrow> let z = (if neg then - int n else int n) in if fits_signed 32 z then Some z else None))"

text \<open>Reading \<^verbatim>\<open>long\<close> values with \<^verbatim>\<open>>>\<close> until it fails.\<close>

lemma dropWhile_digits_shorter:
  "scan_digits 10 None s = Some n \<Longrightarrow> length (dropWhile is_digit s) < length s"
proof (cases s)
  case (Cons c r)
  moreover assume "scan_digits 10 None s = Some n"
  ultimately have "is_digit c" by (auto simp: is_digit_val split: if_splits)
  then show ?thesis using Cons length_dropWhile_le [of is_digit r] by simp
qed simp

lemma scan_sign_length: "scan_sign s = (neg, r) \<Longrightarrow> length r \<le> length s"
  by (cases s) (auto split: if_splits)

lemma length_skip_spaces: "length (skip_spaces s) \<le> length s"
  by (induction s) auto

function read_longs :: "string \<Rightarrow> int list" where
  "read_longs s =
     (case scan_sign (skip_spaces s) of
        (neg, r) \<Rightarrow>
          (case scan_digits 10 None r of
             None \<Rightarrow> []
           | Some n \<Rightarrow>
               let z = (if neg then - int n else int n)
               in if fits_signed 64 z then z # read_longs (dropWhile is_digit r) else []))"
  by pat_completeness auto
termination
proof (relation "measure length", goal_cases)
  case (2 s neg r n z)
  then have "length (dropWhile is_digit r) < length r" by (intro dropWhile_digits_shorter) simp
  also have "\<dots> \<le> length s"
    using scan_sign_length [of "skip_spaces s" neg r] 2(1) length_skip_spaces [of s] by simp
  finally show ?case by simp
qed simp

declare read_longs.simps [simp del]

end
