(* ===== verification/Credit_Engine.thy ===== *)
theory Credit_Engine
  imports Request_Credit C_Text
begin

text \<open>
  The user-space half of request-credit mode: the slot functions and the operations of
  \<^verbatim>\<open>RequestCreditEngine\<close> (\<^verbatim>\<open>hostctl_cpp/request_credit.cpp\<close>) that change state:
  \<^verbatim>\<open>arm\<close>, \<^verbatim>\<open>consume_credit_locked\<close>, \<^verbatim>\<open>on_ring_event\<close> and \<^verbatim>\<open>clear\<close>. Parameters are
  what the operating system answers: the resolved target, whether a map update succeeds,
  the result and errno of the delay system call. A reply is a value of \<open>arm_response\<close>; the
  log lines are not modelled. A field \<^verbatim>\<open>last_error\<close> holds the errno its message is built from.
\<close>

section \<open>Slot functions\<close>

primrec sum_credits :: "source_credit_slot list \<Rightarrow> i64 \<Rightarrow> c_fault + i64" where
  "sum_credits [] acc = Inr acc"
| "sum_credits (s # ss) acc =
     (if sint (credits s) > 0
      then ebind (s_result (sint acc + sint (credits s))) (sum_credits ss)
      else sum_credits ss acc)"

definition total_credits :: "victim_cfg \<Rightarrow> c_fault + i64" where
  "total_credits cfg = sum_credits (slots cfg) 0"

definition max_delay :: "victim_cfg \<Rightarrow> u64" where
  "max_delay cfg = fold (\<lambda>s out. if delay_ns s > out then delay_ns s else out) (slots cfg) 0"

primrec find_exact_from :: "source_credit_slot list \<Rightarrow> u64 \<Rightarrow> nat \<Rightarrow> nat option" where
  "find_exact_from [] key i = None"
| "find_exact_from (s # ss) key i =
     (if source_key s = key then Some i else find_exact_from ss key (i + 1))"

definition find_exact_slot :: "victim_cfg \<Rightarrow> u64 \<Rightarrow> nat option" where
  "find_exact_slot cfg key = (if key = 0 then None else find_exact_from (slots cfg) key 0)"

primrec find_free_from ::
  "source_credit_slot list \<Rightarrow> nat \<Rightarrow> nat option \<Rightarrow> nat option \<Rightarrow> nat option" where
  "find_free_from [] i emp reusable =
     (case reusable of Some r \<Rightarrow> Some r | None \<Rightarrow> emp)"
| "find_free_from (s # ss) i emp reusable =
     (if source_key s = 0 \<and> credits s = 0 \<and> delay_ns s = 0 then Some i
      else find_free_from ss (i + 1)
             (if source_key s = 0 \<and> emp = None then Some i else emp)
             (if credits s = 0 \<and> reusable = None then Some i else reusable))"

definition find_free_slot :: "victim_cfg \<Rightarrow> nat option" where
  "find_free_slot cfg = find_free_from (slots cfg) 0 None None"

definition find_slot_for_source :: "victim_cfg \<Rightarrow> u64 \<Rightarrow> nat option" where
  "find_slot_for_source cfg key =
     (case find_exact_slot cfg key of Some i \<Rightarrow> Some i | None \<Rightarrow> find_free_slot cfg)"

primrec fnv1a64_loop :: "string \<Rightarrow> u64 \<Rightarrow> u64" where
  "fnv1a64_loop [] hash = hash"
| "fnv1a64_loop (ch # rest) hash =
     fnv1a64_loop rest ((hash XOR of_nat (char_code ch)) * 1099511628211)"

definition fnv1a64 :: "string \<Rightarrow> u64" where
  "fnv1a64 input =
     (let hash = fnv1a64_loop input 14695981039346656037
      in if hash = 0 then 1 else hash)"

definition normalize_consume_flags :: "u32 \<Rightarrow> u32" where
  "normalize_consume_flags flags = (if flags = 0 then MCOZ_CONSUME_DEFAULT_FLAGS else flags)"

section \<open>The engine\<close>

record source_runtime =
  sr_source_key :: u64
  sr_source :: string
  sr_arm_calls :: u64
  sr_armed_total :: u64
  sr_consume_trigger :: u64
  sr_bpf_events :: u64
  sr_injected_ok :: u64
  sr_inject_fail :: u64
  sr_last_tid :: u64
  sr_last_ts_ns :: u64
  sr_last_delay_ns :: u64
  sr_last_error :: "int option"

record victim_runtime =
  vr_ns :: string
  vr_pod :: string
  vr_container :: string
  vr_cgroup_path :: string
  vr_arm_calls :: u64
  vr_armed_total :: u64
  vr_consume_trigger :: u64
  vr_bpf_events :: u64
  vr_injected_ok :: u64
  vr_inject_fail :: u64
  vr_refund_ok :: u64
  vr_refund_fail :: u64
  vr_last_tid :: u64
  vr_last_ts_ns :: u64
  vr_last_delay_ns :: u64
  vr_last_source_key :: u64
  vr_last_source :: string
  vr_last_error :: "int option"
  vr_sources :: "u64 \<rightharpoonup> source_runtime"

definition new_source :: source_runtime where
  "new_source = \<lparr>sr_source_key = 0, sr_source = [], sr_arm_calls = 0, sr_armed_total = 0,
     sr_consume_trigger = 0, sr_bpf_events = 0, sr_injected_ok = 0, sr_inject_fail = 0,
     sr_last_tid = 0, sr_last_ts_ns = 0, sr_last_delay_ns = 0, sr_last_error = None\<rparr>"

definition new_victim :: victim_runtime where
  "new_victim = \<lparr>vr_ns = [], vr_pod = [], vr_container = [], vr_cgroup_path = [],
     vr_arm_calls = 0, vr_armed_total = 0, vr_consume_trigger = 0,
     vr_bpf_events = 0, vr_injected_ok = 0, vr_inject_fail = 0, vr_refund_ok = 0,
     vr_refund_fail = 0, vr_last_tid = 0, vr_last_ts_ns = 0, vr_last_delay_ns = 0,
     vr_last_source_key = 0, vr_last_source = [], vr_last_error = None,
     vr_sources = (\<lambda>_. None)\<rparr>"

record resolved_target =
  rt_cgroup_id :: u64
  rt_cgroup_path :: string
  rt_ns :: string
  rt_pod :: string
  rt_container :: string

record credit_engine =
  active :: bool
  default_delay_ns :: u64
  maps :: bpf_state
  victims :: "u64 \<rightharpoonup> victim_runtime"
  triggered :: u64
  armed_ok :: u64
  arm_fail :: u64
  injected_ok :: u64
  inject_fail :: u64
  rearm_noop :: u64

text \<open>\<^verbatim>\<open>std::map::operator[]\<close> inserts a default entry under a missing key.\<close>

definition victim_at :: "credit_engine \<Rightarrow> u64 \<Rightarrow> victim_runtime" where
  "victim_at e cg = (case victims e cg of None \<Rightarrow> new_victim | Some v \<Rightarrow> v)"

definition source_at :: "victim_runtime \<Rightarrow> u64 \<Rightarrow> source_runtime" where
  "source_at v key = (case vr_sources v key of None \<Rightarrow> new_source | Some s \<Rightarrow> s)"

record arm_request =
  ar_source :: string
  ar_delay_ns :: u64
  ar_count :: i64

datatype arm_response =
    Negative_Count
  | Resolve_Failed
  | Not_Active
  | No_Free_Slots
  | Map_Update_Failed
  | Armed u64 u64 nat i64 i64 \<comment> \<open>cgroup id, delay, slot, slot credits, total credits\<close>

definition zero_slot :: source_credit_slot where
  "zero_slot = \<lparr>source_key = 0, delay_ns = 0, credits = 0\<rparr>"

definition zero_cfg :: victim_cfg where
  "zero_cfg = \<lparr>enabled = 0, rr_cursor = 0, slots = replicate MCOZ_MAX_SOURCE_SLOTS zero_slot\<rparr>"

text \<open>The configuration of a cgroup, all zero without an entry.\<close>

definition cfg_at :: "credit_engine \<Rightarrow> u64 \<Rightarrow> victim_cfg" where
  "cfg_at e cg = (case victim_map (maps e) cg of None \<Rightarrow> zero_cfg | Some c \<Rightarrow> c)"

text \<open>\<^verbatim>\<open>"unspecified"\<close>, the source id of a request without one.\<close>

definition unspecified_source :: string where
  "unspecified_source = ''unspecified''"

definition source_id_of :: "arm_request \<Rightarrow> string" where
  "source_id_of req = (if ar_source req = [] then unspecified_source else ar_source req)"

text \<open>The configuration \<^verbatim>\<open>arm\<close> writes back: the chosen slot with its credits raised.\<close>

definition arm_cfg ::
  "u64 \<Rightarrow> arm_request \<Rightarrow> victim_cfg \<Rightarrow> (c_fault + (nat \<times> victim_cfg \<times> i64)) option" where
  "arm_cfg default_delay req cfg0 =
     (let existing_delay = max_delay cfg0;
          effective_delay = (if ar_delay_ns req > 0 then ar_delay_ns req
                             else if existing_delay > 0 then existing_delay else default_delay);
          cfg = cfg0\<lparr>enabled := 1\<rparr>;
          key = fnv1a64 (source_id_of req)
      in case find_slot_for_source cfg key of
           None \<Rightarrow> None
         | Some i \<Rightarrow>
             Some (ebind (s_result (sint (credits (slots cfg ! i)) + sint (ar_count req)))
               (\<lambda>c. let c' = (if sint c < 0 then 0 else c);
                        slot = \<lparr>source_key = key, delay_ns = effective_delay, credits = c'\<rparr>;
                        cfg' = cfg\<lparr>slots := (slots cfg)[i := slot], rr_cursor := of_nat i\<rparr>
                    in ebind (total_credits cfg') (\<lambda>total. Inr (i, cfg', total)))))"

text \<open>What \<^verbatim>\<open>arm\<close> records of the victim and of the source.\<close>

definition record_armed ::
  "resolved_target \<Rightarrow> arm_request \<Rightarrow> source_credit_slot \<Rightarrow> victim_runtime \<Rightarrow> victim_runtime" where
  "record_armed target req slot v =
     (let key = source_key slot;
          s = source_at v key;
          s' = s\<lparr>sr_source_key := key, sr_source := source_id_of req,
                 sr_arm_calls := sr_arm_calls s + 1, sr_armed_total := sr_armed_total s + ar_count req,
                 sr_last_delay_ns := delay_ns slot, sr_last_error := None\<rparr>
      in v\<lparr>vr_ns := rt_ns target, vr_pod := rt_pod target, vr_container := rt_container target,
           vr_cgroup_path := rt_cgroup_path target, vr_arm_calls := vr_arm_calls v + 1,
           vr_armed_total := vr_armed_total v + ar_count req, vr_last_delay_ns := delay_ns slot,
           vr_last_source_key := key, vr_last_source := source_id_of req, vr_last_error := None,
           vr_sources := (vr_sources v)(key \<mapsto> s')\<rparr>)"

text \<open>The policy a victim gets with its first credits.\<close>

definition default_policy :: "bool \<Rightarrow> u64 \<Rightarrow> (u64 \<rightharpoonup> u32) \<Rightarrow> u64 \<rightharpoonup> u32" where
  "default_policy policy_room cg pol =
     (case pol cg of
        Some f \<Rightarrow> pol
      | None \<Rightarrow> if policy_room then pol(cg \<mapsto> MCOZ_CONSUME_DEFAULT_FLAGS) else pol)"

definition arm ::
  "resolved_target option \<Rightarrow> bool \<Rightarrow> bool \<Rightarrow> arm_request \<Rightarrow> credit_engine
     \<Rightarrow> c_fault + (credit_engine \<times> arm_response)" where
  "arm resolved update_ok policy_room req e0 =
     (let e = e0\<lparr>triggered := triggered e0 + 1\<rparr>;
          fail = (\<lambda>r. Inr (e\<lparr>arm_fail := arm_fail e + 1\<rparr>, r))
      in if sint (ar_count req) < 0 then fail Negative_Count
         else case resolved of
           None \<Rightarrow> fail Resolve_Failed
         | Some target \<Rightarrow>
             if \<not> active e then fail Not_Active
             else
               let cg = rt_cgroup_id target
               in case arm_cfg (default_delay_ns e) req (cfg_at e cg) of
                    None \<Rightarrow> fail No_Free_Slots
                  | Some r \<Rightarrow>
                      ebind r (\<lambda>(i, cfg, total).
                        if \<not> update_ok then fail Map_Update_Failed
                        else
                          let slot = slots cfg ! i;
                              m = maps e;
                              m' = m\<lparr>victim_map := (victim_map m)(cg \<mapsto> cfg),
                                     consume_policy_map := default_policy policy_room cg (consume_policy_map m)\<rparr>;
                              v = record_armed target req slot (victim_at e cg)
                          in Inr (e\<lparr>maps := m', victims := (victims e)(cg \<mapsto> v), armed_ok := armed_ok e + 1\<rparr>,
                                  Armed cg (delay_ns slot) i (credits slot) total)))"

text \<open>
  \<^verbatim>\<open>consume_credit_locked\<close>: the credit an event uses up. The slot the event names is taken
  when it still belongs to the event's source, otherwise the source is searched.
\<close>

definition consume_slot :: "victim_cfg \<Rightarrow> u64 \<Rightarrow> u32 \<Rightarrow> nat option" where
  "consume_slot cfg key hint =
     (if enabled cfg = 0 then None
      else
        let i = (if unat hint < MCOZ_MAX_SOURCE_SLOTS \<and> source_key (slots cfg ! unat hint) = key
                 then Some (unat hint) else find_exact_slot cfg key)
        in case i of
             None \<Rightarrow> None
           | Some i \<Rightarrow>
               if delay_ns (slots cfg ! i) = 0 \<or> sint (credits (slots cfg ! i)) \<le> 0 then None
               else Some i)"

definition take_credit :: "victim_cfg \<Rightarrow> nat \<Rightarrow> victim_cfg" where
  "take_credit cfg i =
     cfg\<lparr>slots := (slots cfg)[i := (slots cfg ! i)\<lparr>credits := credits (slots cfg ! i) - 1\<rparr>]\<rparr>"

definition consume_credit_locked ::
  "bool \<Rightarrow> u64 \<Rightarrow> u64 \<Rightarrow> u32 \<Rightarrow> bpf_state \<Rightarrow> bpf_state \<times> u64 option" where
  "consume_credit_locked update_ok cg key hint m =
     (case victim_map m cg of
        None \<Rightarrow> (m, None)
      | Some cfg \<Rightarrow>
          (case consume_slot cfg key hint of
             None \<Rightarrow> (m, None)
           | Some i \<Rightarrow>
               if \<not> update_ok then (m, None)
               else (m\<lparr>victim_map := (victim_map m)(cg \<mapsto> take_credit cfg i)\<rparr>,
                     Some (delay_ns (slots cfg ! i)))))"

text \<open>
  The handler of one ring-buffer event: take the credit, record the trigger, ask the kernel
  for the delay (\<open>delay_rc\<close>, \<open>delay_errno\<close>: the answer of system call 449) and record the
  outcome. An event whose credit is gone is ignored.
\<close>

definition format_source :: "u64 \<Rightarrow> string" where
  "format_source key = ''0x'' @ print_hex (unat key)"

definition record_trigger :: "consume_event \<Rightarrow> u64 \<Rightarrow> string \<Rightarrow> victim_runtime \<Rightarrow> victim_runtime" where
  "record_trigger ev delay desc v =
     (let key = ev_source_key ev;
          s = source_at v key;
          s' = s\<lparr>sr_source_key := key,
                 sr_source := (if sr_source s = [] then desc else sr_source s),
                 sr_consume_trigger := sr_consume_trigger s + 1,
                 sr_bpf_events := sr_bpf_events s + 1,
                 sr_last_tid := ucast (tid ev), sr_last_ts_ns := ts_ns ev,
                 sr_last_delay_ns := (if delay > 0 then delay else sr_last_delay_ns s)\<rparr>
      in v\<lparr>vr_consume_trigger := vr_consume_trigger v + 1,
           vr_bpf_events := vr_bpf_events v + 1,
           vr_last_tid := ucast (tid ev), vr_last_ts_ns := ts_ns ev,
           vr_last_source_key := key, vr_last_source := desc,
           vr_last_delay_ns := (if delay > 0 then delay else vr_last_delay_ns v),
           vr_sources := (vr_sources v)(key \<mapsto> s')\<rparr>)"

definition record_outcome ::
  "consume_event \<Rightarrow> bool \<Rightarrow> int \<Rightarrow> string \<Rightarrow> victim_runtime \<Rightarrow> victim_runtime" where
  "record_outcome ev ok err desc v =
     (let key = ev_source_key ev;
          s0 = source_at v key;
          s = s0\<lparr>sr_source_key := key,
                 sr_source := (if sr_source s0 = [] then desc else sr_source s0)\<rparr>
      in if ok
         then v\<lparr>vr_injected_ok := vr_injected_ok v + 1,
                vr_sources := (vr_sources v)(key \<mapsto> s\<lparr>sr_injected_ok := sr_injected_ok s + 1\<rparr>)\<rparr>
         else v\<lparr>vr_inject_fail := vr_inject_fail v + 1, vr_last_error := Some err,
                vr_sources := (vr_sources v)(key \<mapsto>
                  s\<lparr>sr_inject_fail := sr_inject_fail s + 1, sr_last_error := Some err\<rparr>)\<rparr>)"

definition on_ring_event ::
  "bool \<Rightarrow> (u32 \<Rightarrow> u64 \<Rightarrow> int) \<Rightarrow> int \<Rightarrow> consume_event \<Rightarrow> credit_engine \<Rightarrow> credit_engine" where
  "on_ring_event update_ok delay_rc delay_errno ev e =
     (case consume_credit_locked update_ok (ev_cgroup_id ev) (ev_source_key ev) (slot_index ev) (maps e) of
        (m, None) \<Rightarrow> e
      | (m, Some delay) \<Rightarrow>
          let cg = ev_cgroup_id ev;
              e1 = e\<lparr>maps := m\<rparr>;
              v = victim_at e1 cg;
              desc = (case vr_sources v (ev_source_key ev) of
                        None \<Rightarrow> format_source (ev_source_key ev) | Some s \<Rightarrow> sr_source s);
              v0 = (case vr_sources v (ev_source_key ev) of
                      None \<Rightarrow> v\<lparr>vr_sources := (vr_sources v)(ev_source_key ev \<mapsto>
                               new_source\<lparr>sr_source_key := ev_source_key ev, sr_source := desc\<rparr>)\<rparr>
                    | Some s \<Rightarrow> v);
              v1 = record_trigger ev delay desc v0;
              rc = delay_rc (tid ev) delay
          in if rc = 0
             then e1\<lparr>injected_ok := injected_ok e1 + 1,
                     victims := (victims e1)(cg \<mapsto> record_outcome ev True 0 desc v1)\<rparr>
             else e1\<lparr>inject_fail := inject_fail e1 + 1,
                     victims := (victims e1)(cg \<mapsto> record_outcome ev False delay_errno desc v1)\<rparr>)"

section \<open>The invariant of a configuration\<close>

text \<open>
  Every live source owns one slot, and no slot holds negative credits. This is what makes
  the search for a source's slot unambiguous.
\<close>

definition cfg_inv :: "victim_cfg \<Rightarrow> bool" where
  "cfg_inv cfg \<longleftrightarrow> wf_cfg cfg \<and>
     (\<forall>i<8. \<forall>j<8. source_key (slots cfg ! i) = source_key (slots cfg ! j) \<longrightarrow>
        source_key (slots cfg ! i) \<noteq> 0 \<longrightarrow> i = j) \<and>
     (\<forall>i<8. 0 \<le> sint (credits (slots cfg ! i))) \<and>
     (\<forall>i<8. source_key (slots cfg ! i) = 0 \<longrightarrow> credits (slots cfg ! i) = 0)"

definition credit_total :: "victim_cfg \<Rightarrow> int" where
  "credit_total cfg = (\<Sum>i<8. max 0 (sint (credits (slots cfg ! i))))"

definition credits_of :: "victim_cfg \<Rightarrow> u64 \<Rightarrow> int" where
  "credits_of cfg key =
     (case find_exact_slot cfg key of None \<Rightarrow> 0 | Some i \<Rightarrow> sint (credits (slots cfg ! i)))"

lemma find_exact_from_iff:
  "find_exact_from ss key n = Some i \<longleftrightarrow>
     n \<le> i \<and> i - n < length ss \<and> source_key (ss ! (i - n)) = key \<and>
     (\<forall>j<i - n. source_key (ss ! j) \<noteq> key)"
proof (induction ss arbitrary: n)
  case (Cons s ss)
  show ?case
  proof (cases "source_key s = key")
    case True
    then show ?thesis by (auto simp: nth_Cons' split: if_splits)
  next
    case False
    have "find_exact_from ss key (Suc n) = Some i \<longleftrightarrow>
       Suc n \<le> i \<and> i - Suc n < length ss \<and> source_key (ss ! (i - Suc n)) = key \<and>
       (\<forall>j<i - Suc n. source_key (ss ! j) \<noteq> key)" by (rule Cons.IH)
    also have "\<dots> \<longleftrightarrow> n \<le> i \<and> i - n < length (s # ss) \<and> source_key ((s # ss) ! (i - n)) = key \<and>
       (\<forall>j<i - n. source_key ((s # ss) ! j) \<noteq> key)"
    proof (cases "n < i")
      case True
      then obtain d where "i = Suc (n + d)" using less_iff_Suc_add by auto
      with False show ?thesis by (auto simp: All_less_Suc2)
    next
      case nlt: False
      then have "i - n = 0" by simp
      with False nlt show ?thesis by auto
    qed
    finally show ?thesis using False by simp
  qed
qed simp

lemma find_exact_from_None_iff:
  "find_exact_from ss key n = None \<longleftrightarrow> (\<forall>s\<in>set ss. source_key s \<noteq> key)"
  by (induction ss arbitrary: n) auto

lemma cfg_invD:
  assumes "cfg_inv cfg"
  shows "length (slots cfg) = 8"
    and "\<And>i j. i < 8 \<Longrightarrow> j < 8 \<Longrightarrow> source_key (slots cfg ! i) = source_key (slots cfg ! j) \<Longrightarrow>
           source_key (slots cfg ! i) \<noteq> 0 \<Longrightarrow> i = j"
    and "\<And>i. i < 8 \<Longrightarrow> 0 \<le> sint (credits (slots cfg ! i))"
    and "\<And>i. i < 8 \<Longrightarrow> source_key (slots cfg ! i) = 0 \<Longrightarrow> credits (slots cfg ! i) = 0"
  using assms by (simp_all add: cfg_inv_def wf_cfg_def MCOZ_MAX_SOURCE_SLOTS_def)

lemma find_exact_slot_Some:
  assumes "cfg_inv cfg" "i < 8" "source_key (slots cfg ! i) = key" "key \<noteq> 0"
  shows "find_exact_slot cfg key = Some i"
proof -
  have "source_key (slots cfg ! j) \<noteq> key" if "j < i" for j
    using cfg_invD(2) [OF assms(1), of j i] that assms(2-4) by auto
  then show ?thesis
    using assms cfg_invD(1) [OF assms(1)]
    by (simp add: find_exact_slot_def find_exact_from_iff)
qed

lemma find_exact_slotD:
  assumes "find_exact_slot cfg key = Some i" "length (slots cfg) = 8"
  shows "i < 8" "source_key (slots cfg ! i) = key" "key \<noteq> 0"
  using assms by (auto simp: find_exact_slot_def find_exact_from_iff split: if_splits)

lemma find_exact_slot_None:
  assumes "find_exact_slot cfg key = None" "key \<noteq> 0" "i < length (slots cfg)"
  shows "source_key (slots cfg ! i) \<noteq> key"
  using assms by (auto simp: find_exact_slot_def find_exact_from_None_iff)

lemma credits_of_slot:
  assumes "cfg_inv cfg" "i < 8" "source_key (slots cfg ! i) \<noteq> 0"
  shows "credits_of cfg (source_key (slots cfg ! i)) = sint (credits (slots cfg ! i))"
  using find_exact_slot_Some [OF assms(1,2) refl assms(3)] by (simp add: credits_of_def)

lemma credits_of_absent:
  assumes "length (slots cfg) = 8" "\<forall>i<8. source_key (slots cfg ! i) \<noteq> key"
  shows "credits_of cfg key = 0"
  using assms find_exact_slotD [of cfg key] by (auto simp: credits_of_def split: option.splits)

lemma find_free_from_Some:
  assumes "find_free_from ss (length pre) emp re = Some i"
    and "\<forall>s\<in>set ss. source_key s = 0 \<longrightarrow> credits s = 0"
    and "\<forall>e. emp = Some e \<longrightarrow> e < length (pre @ ss) \<and> credits ((pre @ ss) ! e) = 0"
    and "\<forall>e. re = Some e \<longrightarrow> e < length (pre @ ss) \<and> credits ((pre @ ss) ! e) = 0"
  shows "i < length (pre @ ss) \<and> credits ((pre @ ss) ! i) = 0"
  using assms
proof (induction ss arbitrary: pre emp re)
  case Nil
  then show ?case by (auto split: option.splits)
next
  case (Cons s ss)
  show ?case
  proof (cases "source_key s = 0 \<and> credits s = 0 \<and> delay_ns s = 0")
    case True
    with Cons.prems(1) show ?thesis by auto
  next
    case False
    let ?emp = "if source_key s = 0 \<and> emp = None then Some (length pre) else emp"
    let ?re = "if credits s = 0 \<and> re = None then Some (length pre) else re"
    have "find_free_from ss (length (pre @ [s])) ?emp ?re = Some i"
      using Cons.prems(1) False by (auto split: if_splits)
    from Cons.IH [OF this] Cons.prems(2-4) show ?thesis by (auto split: if_splits)
  qed
qed

lemma find_free_from_None:
  "find_free_from ss n emp re = None \<longleftrightarrow>
     emp = None \<and> re = None \<and> (\<forall>s\<in>set ss. source_key s \<noteq> 0 \<and> credits s \<noteq> 0)"
proof (induction ss arbitrary: n emp re)
  case Nil
  then show ?case by (auto split: option.splits)
next
  case (Cons s ss)
  then show ?case by auto
qed

lemma find_free_slot_credits:
  assumes "cfg_inv cfg" "find_free_slot cfg = Some i"
  shows "i < 8" "credits (slots cfg ! i) = 0"
proof -
  have "\<forall>s\<in>set (slots cfg). source_key s = 0 \<longrightarrow> credits s = 0"
    using cfg_invD [OF assms(1)] by (metis in_set_conv_nth)
  then have "i < length (slots cfg) \<and> credits (slots cfg ! i) = 0"
    using find_free_from_Some [of "slots cfg" "[]" None None i] assms(2)
    by (simp add: find_free_slot_def)
  then show "i < 8" "credits (slots cfg ! i) = 0"
    using cfg_invD(1) [OF assms(1)] by auto
qed

lemma fnv1a64_nonzero: "fnv1a64 xs \<noteq> 0"
  by (simp add: fnv1a64_def Let_def)

lemma sum_credits_Inr:
  "sum_credits ss acc = Inr w \<Longrightarrow>
   sint w = sint acc + (\<Sum>s\<leftarrow>ss. max 0 (sint (credits s)))"
  by (induction ss arbitrary: acc)
    (auto simp: ebind_Inr_iff s_result_Inr_iff max_def split: if_splits)

lemma credit_total_sum_list:
  "length (slots cfg) = 8 \<Longrightarrow> credit_total cfg = (\<Sum>s\<leftarrow>slots cfg. max 0 (sint (credits s)))"
  by (simp add: credit_total_def sum_list_sum_nth atLeast0LessThan)

lemma total_credits_Inr:
  "length (slots cfg) = 8 \<Longrightarrow> total_credits cfg = Inr w \<Longrightarrow> sint w = credit_total cfg"
  using sum_credits_Inr [of "slots cfg" 0 w] by (simp add: total_credits_def credit_total_sum_list)

lemma credit_total_update:
  assumes "length (slots cfg) = 8" "i < 8"
  shows "credit_total (cfg\<lparr>slots := (slots cfg)[i := s]\<rparr>)
     = credit_total cfg - max 0 (sint (credits (slots cfg ! i))) + max 0 (sint (credits s))"
proof -
  let ?f = "\<lambda>ss j. max 0 (sint (credits (ss ! j)))"
  have fin: "finite {..<8::nat}" and i: "i \<in> {..<8}" using assms(2) by auto
  have "sum (?f ((slots cfg)[i := s])) ({..<8} - {i}) = sum (?f (slots cfg)) ({..<8} - {i})"
    by (rule sum.cong) auto
  then show ?thesis
    using assms by (simp add: credit_total_def sum.remove [OF fin i])
qed

lemma credit_total_cong: "slots cfg = slots cfg' \<Longrightarrow> credit_total cfg = credit_total cfg'"
  by (simp add: credit_total_def)

lemma find_exact_slot_cong: "slots cfg = slots cfg' \<Longrightarrow> find_exact_slot cfg k = find_exact_slot cfg' k"
  by (simp add: find_exact_slot_def)

text \<open>Replacing one slot of a configuration by a slot of the same or a fresh source.\<close>

lemma cfg_inv_update:
  assumes inv: "cfg_inv cfg" and i: "i < 8"
    and fresh: "\<forall>j<8. j \<noteq> i \<longrightarrow> source_key (slots cfg ! j) = source_key s \<longrightarrow> source_key s = 0"
    and ok: "0 \<le> sint (credits s)" "source_key s = 0 \<longrightarrow> credits s = 0"
    and eq: "slots cfg' = (slots cfg)[i := s]"
  shows "cfg_inv cfg'"
proof -
  note D = cfg_invD [OF inv]
  have nth: "slots cfg' ! j = (if j = i then s else slots cfg ! j)" if "j < 8" for j
    using that D(1) eq by simp
  have uniq: "j = k" if "j < 8" "k < 8" "source_key (slots cfg' ! j) = source_key (slots cfg' ! k)"
    "source_key (slots cfg' ! j) \<noteq> 0" for j k
    using that D(2) [of j k] fresh by (auto simp: nth split: if_splits)
  have len: "length (slots cfg') = 8" using D(1) eq by simp
  have pos: "0 \<le> sint (credits (slots cfg' ! j))" if "j < 8" for j
    using D(3) [OF that] ok nth [OF that] by simp
  have zero: "credits (slots cfg' ! j) = 0" if "j < 8" "source_key (slots cfg' ! j) = 0" for j
    using D(4) [OF that(1)] that(2) ok nth [OF that(1)] by (simp split: if_splits)
  show ?thesis
    unfolding cfg_inv_def wf_cfg_def MCOZ_MAX_SOURCE_SLOTS_def
    using len pos zero uniq by blast
qed

lemma credits_of_update:
  assumes inv: "cfg_inv cfg" "cfg_inv cfg'" and i: "i < 8"
    and eq: "slots cfg' = (slots cfg)[i := s]" and key: "source_key s \<noteq> 0"
    and old: "source_key (slots cfg ! i) = source_key s \<or> credits (slots cfg ! i) = 0"
  shows "credits_of cfg' k = (if k = source_key s then sint (credits s) else credits_of cfg k)"
proof -
  note D = cfg_invD [OF inv(1)] and D' = cfg_invD [OF inv(2)]
  have nth: "slots cfg' ! j = (if j = i then s else slots cfg ! j)" if "j < 8" for j
    using that D(1) eq by simp
  show ?thesis
  proof (cases "k = source_key s")
    case True
    have "credits_of cfg' (source_key (slots cfg' ! i)) = sint (credits (slots cfg' ! i))"
      using credits_of_slot [OF inv(2) i] key by (simp add: nth i)
    with True show ?thesis by (simp add: nth i)
  next
    case other: False
    show ?thesis
    proof (cases "\<exists>j<8. j \<noteq> i \<and> source_key (slots cfg ! j) = k \<and> k \<noteq> 0")
      case True
      then obtain j where j: "j < 8" "j \<noteq> i" "source_key (slots cfg ! j) = k" "k \<noteq> 0" by blast
      then have "credits_of cfg k = sint (credits (slots cfg ! j))"
        "credits_of cfg' k = sint (credits (slots cfg ! j))"
        using credits_of_slot [OF inv(1) j(1)] credits_of_slot [OF inv(2) j(1)] by (auto simp: nth)
      with other show ?thesis by simp
    next
      case False
      have "credits_of cfg' k = 0"
      proof (cases "k = 0")
        case False
        with \<open>\<not> (\<exists>j<8. _ j)\<close> other show ?thesis
          by (intro credits_of_absent [OF D'(1)]) (auto simp: nth)
      qed (simp add: credits_of_def find_exact_slot_def)
      moreover have "credits_of cfg k = 0"
      proof (cases "k \<noteq> 0 \<and> source_key (slots cfg ! i) = k")
        case True
        then show ?thesis
          using credits_of_slot [OF inv(1) i] old other by auto
      next
        case nk: False
        show ?thesis
        proof (cases "k = 0")
          case False
          with \<open>\<not> (\<exists>j<8. _ j)\<close> nk show ?thesis
            by (intro credits_of_absent [OF D(1)]) auto
        qed (simp add: credits_of_def find_exact_slot_def)
      qed
      ultimately show ?thesis using other by simp
    qed
  qed
qed

section \<open>Arming and consuming\<close>

lemma arm_cfgE:
  assumes "arm_cfg d req cfg0 = Some (Inr (i, cfg, t))"
  obtains c where
    "find_slot_for_source cfg0 (fnv1a64 (source_id_of req)) = Some i"
    "s_result (sint (credits (slots cfg0 ! i)) + sint (ar_count req)) = Inr c"
    "source_key (slots cfg ! i) = fnv1a64 (source_id_of req) \<or> i \<ge> length (slots cfg0)"
    "\<exists>dl. slots cfg = (slots cfg0)[i := \<lparr>source_key = fnv1a64 (source_id_of req),
        delay_ns = dl, credits = (if sint c < 0 then 0 else c)\<rparr>]"
    "total_credits cfg = Inr t" "enabled cfg = 1"
proof -
  from assms obtain c where c:
    "find_slot_for_source (cfg0\<lparr>enabled := 1\<rparr>) (fnv1a64 (source_id_of req)) = Some i"
    "s_result (sint (credits (slots cfg0 ! i)) + sint (ar_count req)) = Inr c"
    "total_credits cfg = Inr t"
    "\<exists>dl. cfg = cfg0\<lparr>enabled := 1,
       slots := (slots cfg0)[i := \<lparr>source_key = fnv1a64 (source_id_of req),
         delay_ns = dl, credits = (if sint c < 0 then 0 else c)\<rparr>], rr_cursor := of_nat i\<rparr>"
    by (auto simp: arm_cfg_def Let_def ebind_Inr_iff split: option.splits)
  have "find_slot_for_source (cfg0\<lparr>enabled := 1\<rparr>) k = find_slot_for_source cfg0 k" for k
    by (simp add: find_slot_for_source_def find_exact_slot_def find_free_slot_def
          cong: option.case_cong)
  with c show ?thesis by (intro that [of c]) auto
qed

text \<open>The slot chosen for a source is its own, or one whose credits are used up.\<close>

lemma find_slot_for_source_cases:
  assumes "cfg_inv cfg" "key \<noteq> 0" "find_slot_for_source cfg key = Some i"
  obtains "i < 8" "source_key (slots cfg ! i) = key"
  | "i < 8" "credits (slots cfg ! i) = 0" "\<forall>j<8. source_key (slots cfg ! j) \<noteq> key"
proof (cases "find_exact_slot cfg key")
  case None
  with assms have "find_free_slot cfg = Some i" by (simp add: find_slot_for_source_def)
  then show ?thesis
    using that(2) find_free_slot_credits [OF assms(1)] cfg_invD(1) [OF assms(1)]
      find_exact_slot_None [OF None assms(2)] by simp
next
  case (Some j)
  with assms(3) have "j = i" by (simp add: find_slot_for_source_def)
  then show ?thesis
    using that(1) find_exact_slotD [OF Some cfg_invD(1) [OF assms(1)]] by simp
qed

lemma arm_cfg_effect:
  assumes inv: "cfg_inv cfg0" and count: "0 \<le> sint (ar_count req)"
    and ok: "arm_cfg d req cfg0 = Some (Inr (i, cfg, t))"
  shows "cfg_inv cfg \<and>
     (\<forall>k. credits_of cfg k = credits_of cfg0 k +
        (if k = fnv1a64 (source_id_of req) then sint (ar_count req) else 0)) \<and>
     credit_total cfg = credit_total cfg0 + sint (ar_count req) \<and>
     sint t = credit_total cfg"
proof -
  let ?key = "fnv1a64 (source_id_of req)"
  obtain c dl where c: "find_slot_for_source cfg0 ?key = Some i"
    "sint c = sint (credits (slots cfg0 ! i)) + sint (ar_count req)"
    "slots cfg = (slots cfg0)[i := \<lparr>source_key = ?key, delay_ns = dl,
        credits = (if sint c < 0 then 0 else c)\<rparr>]" "total_credits cfg = Inr t"
  proof (rule arm_cfgE [OF ok])
    fix c
    assume c: "find_slot_for_source cfg0 ?key = Some i"
      "s_result (sint (credits (slots cfg0 ! i)) + sint (ar_count req)) = Inr c"
      "\<exists>dl. slots cfg = (slots cfg0)[i := \<lparr>source_key = ?key, delay_ns = dl,
          credits = (if sint c < 0 then 0 else c)\<rparr>]" "total_credits cfg = Inr t"
    then obtain dl where dl: "slots cfg = (slots cfg0)[i := \<lparr>source_key = ?key, delay_ns = dl,
          credits = (if sint c < 0 then 0 else c)\<rparr>]" by blast
    have "sint c = sint (credits (slots cfg0 ! i)) + sint (ar_count req)"
      using c(2) by (simp add: s_result_Inr_iff)
    then show thesis by (rule that [OF c(1) _ dl c(4)])
  qed
  note D = cfg_invD [OF inv]
  have i: "i < 8" and own: "source_key (slots cfg0 ! i) = ?key \<or> credits (slots cfg0 ! i) = 0"
    and fresh: "\<forall>j<8. j \<noteq> i \<longrightarrow> source_key (slots cfg0 ! j) \<noteq> ?key"
    by (rule find_slot_for_source_cases [OF inv fnv1a64_nonzero c(1)];
        use D(2) fnv1a64_nonzero in metis)+
  have pos: "0 \<le> sint (credits (slots cfg0 ! i))" using D(3) [OF i] .
  with c(2) count have nn: "\<not> sint c < 0" by simp
  let ?s = "\<lparr>source_key = ?key, delay_ns = dl, credits = c\<rparr>"
  have eq: "slots cfg = (slots cfg0)[i := ?s]" using c(3) nn by simp
  have inv': "cfg_inv cfg"
    by (rule cfg_inv_update [OF inv i _ _ _ eq]) (use fresh nn fnv1a64_nonzero in auto)
  have old: "credits_of cfg0 ?key = sint (credits (slots cfg0 ! i))"
  proof (cases "source_key (slots cfg0 ! i) = ?key")
    case True
    then show ?thesis using credits_of_slot [OF inv i] fnv1a64_nonzero by simp
  next
    case False
    then have "credits_of cfg0 ?key = 0" using fresh by (intro credits_of_absent [OF D(1)]) metis
    with False own show ?thesis by simp
  qed
  have new: "credits_of cfg k = (if k = ?key then sint c else credits_of cfg0 k)" for k
    using credits_of_update [OF inv inv' i eq] own fnv1a64_nonzero by simp
  have total: "credit_total cfg = credit_total cfg0 + sint (ar_count req)"
    using credit_total_update [OF D(1) i, of ?s] credit_total_cong [of cfg "cfg0\<lparr>slots := slots cfg\<rparr>"]
      eq pos nn c(2) by simp
  have "sint t = credit_total cfg" using total_credits_Inr c(4) cfg_invD(1) [OF inv'] by blast
  then show ?thesis using inv' new old c(2) total by simp
qed

text \<open>
  C6. Arming adds exactly the requested count to the source's credits, leaves the credits
  of every other source as they were, reports the total, and keeps the invariant (each
  source has one slot, no negative credits).
\<close>

theorem arm_adds_credits:
  assumes "cfg_inv cfg0" "0 \<le> sint (ar_count req)"
    and "arm_cfg d req cfg0 = Some (Inr (i, cfg, t))"
  shows "cfg_inv cfg \<and>
     (\<forall>k. credits_of cfg k = credits_of cfg0 k +
        (if k = fnv1a64 (source_id_of req) then sint (ar_count req) else 0)) \<and>
     credit_total cfg = credit_total cfg0 + sint (ar_count req) \<and>
     sint t = credit_total cfg"
  by (rule arm_cfg_effect [OF assms])

lemma consume_slotD:
  assumes "cfg_inv cfg" "consume_slot cfg key hint = Some i"
  shows "i < 8" "source_key (slots cfg ! i) = key" "key \<noteq> 0"
    "0 < sint (credits (slots cfg ! i))" "delay_ns (slots cfg ! i) \<noteq> 0" "enabled cfg \<noteq> 0"
proof -
  have *: "enabled cfg \<noteq> 0 \<and> delay_ns (slots cfg ! i) \<noteq> 0 \<and> 0 < sint (credits (slots cfg ! i)) \<and>
      (i < 8 \<and> source_key (slots cfg ! i) = key \<or> find_exact_slot cfg key = Some i)"
    using assms(2)
    by (auto simp: consume_slot_def Let_def MCOZ_MAX_SOURCE_SLOTS_def split: if_splits option.splits)
  then show i: "i < 8" and k: "source_key (slots cfg ! i) = key"
    and "0 < sint (credits (slots cfg ! i))" "delay_ns (slots cfg ! i) \<noteq> 0" "enabled cfg \<noteq> 0"
    using find_exact_slotD [of cfg key i] cfg_invD(1) [OF assms(1)] by auto
  show "key \<noteq> 0" using cfg_invD(4) [OF assms(1) i] k * by auto
qed

lemma sint_pred_pos: "0 < sint (w :: i64) \<Longrightarrow> sint (w - 1) = sint w - 1"
proof -
  assume pos: "0 < sint w"
  have "fits_signed 64 (sint w - 1)"
    using pos sint_fits [of w] by (simp add: fits_signed_def)
  then have "sint (word_of_int (sint w - 1) :: i64) = sint w - 1"
    by (intro sint_word_of_int_fits) simp
  then show ?thesis by simp
qed

lemma take_credit_inv:
  assumes inv: "cfg_inv cfg" and ok: "consume_slot cfg key hint = Some i"
  shows "cfg_inv (take_credit cfg i)"
    and "credits_of (take_credit cfg i) k = credits_of cfg k - (if k = key then 1 else 0)"
    and "credit_total (take_credit cfg i) = credit_total cfg - 1"
proof -
  note C = consume_slotD [OF inv ok] and D = cfg_invD [OF inv]
  let ?s = "(slots cfg ! i)\<lparr>credits := credits (slots cfg ! i) - 1\<rparr>"
  have pred: "sint (credits ?s) = sint (credits (slots cfg ! i)) - 1"
    using sint_pred_pos [OF C(4)] by simp
  have eq: "slots (take_credit cfg i) = (slots cfg)[i := ?s]" by (simp add: take_credit_def)
  show inv': "cfg_inv (take_credit cfg i)"
  proof (rule cfg_inv_update [OF inv C(1) _ _ _ eq])
    show "\<forall>j<8. j \<noteq> i \<longrightarrow> source_key (slots cfg ! j) = source_key ?s \<longrightarrow> source_key ?s = 0"
      using D(2) C(1,2,3) by auto
  qed (use C pred in auto)
  have "credits_of (take_credit cfg i) k = (if k = key then sint (credits ?s) else credits_of cfg k)"
    using credits_of_update [OF inv inv' C(1) eq, of k] C(2,3) by simp
  moreover have "credits_of cfg key = sint (credits (slots cfg ! i))"
    using credits_of_slot [OF inv C(1)] C(2,3) by simp
  ultimately show "credits_of (take_credit cfg i) k = credits_of cfg k - (if k = key then 1 else 0)"
    using pred by simp
  show "credit_total (take_credit cfg i) = credit_total cfg - 1"
    using credit_total_update [OF D(1) C(1), of ?s] pred C(4) by (simp add: take_credit_def)
qed

text \<open>
  An event takes a credit exactly when the victim is enabled and its source still has
  one with a delay, and then exactly that one: every other source, and so the total but for
  this one credit, is untouched.
\<close>

theorem consume_takes_one_credit:
  assumes inv: "cfg_inv cfg" and key: "key \<noteq> 0"
  shows "case consume_slot cfg key hint of
      None \<Rightarrow> enabled cfg = 0 \<or> credits_of cfg key = 0 \<or>
              (\<exists>i<8. source_key (slots cfg ! i) = key \<and> delay_ns (slots cfg ! i) = 0)
    | Some i \<Rightarrow> 0 < credits_of cfg key \<and> cfg_inv (take_credit cfg i) \<and>
              (\<forall>k. credits_of (take_credit cfg i) k = credits_of cfg k - (if k = key then 1 else 0)) \<and>
              credit_total (take_credit cfg i) = credit_total cfg - 1"
proof (cases "consume_slot cfg key hint")
  case (Some i)
  note C = consume_slotD [OF inv Some]
  have "credits_of cfg key = sint (credits (slots cfg ! i))"
    using credits_of_slot [OF inv C(1)] C(2,3) by simp
  with C(4) take_credit_inv [OF inv Some] Some show ?thesis by simp
next
  case None
  have "enabled cfg = 0 \<or> credits_of cfg key = 0 \<or>
      (\<exists>i<8. source_key (slots cfg ! i) = key \<and> delay_ns (slots cfg ! i) = 0)"
  proof (cases "\<exists>i<8. source_key (slots cfg ! i) = key")
    case True
    then obtain i where i: "i < 8" "source_key (slots cfg ! i) = key" by blast
    have ex: "find_exact_slot cfg key = Some i" by (rule find_exact_slot_Some [OF inv i key])
    have hint: "unat hint = i" if "unat hint < 8" "source_key (slots cfg ! unat hint) = key"
      using cfg_invD(2) [OF inv, of "unat hint" i] that i key by simp
    have "enabled cfg = 0 \<or> delay_ns (slots cfg ! i) = 0 \<or> sint (credits (slots cfg ! i)) \<le> 0"
      using None ex hint
      by (auto simp: consume_slot_def Let_def MCOZ_MAX_SOURCE_SLOTS_def split: if_splits)
    moreover have "credits_of cfg key = sint (credits (slots cfg ! i))"
      using ex by (simp add: credits_of_def)
    moreover have "0 \<le> sint (credits (slots cfg ! i))" by (rule cfg_invD(3) [OF inv i(1)])
    ultimately show ?thesis using i by auto
  next
    case False
    then have "credits_of cfg key = 0" by (intro credits_of_absent [OF cfg_invD(1) [OF inv]]) blast
    then show ?thesis by simp
  qed
  with None show ?thesis by simp
qed

lemma zero_cfg_inv: "cfg_inv zero_cfg"
  by (simp add: cfg_inv_def wf_cfg_def zero_cfg_def zero_slot_def MCOZ_MAX_SOURCE_SLOTS_def)

definition sample_request :: arm_request where
  "sample_request = \<lparr>ar_source = ''ab'', ar_delay_ns = 1000, ar_count = 3\<rparr>"

definition sample_armed :: victim_cfg where
  "sample_armed = zero_cfg\<lparr>enabled := 1, slots := (slots zero_cfg)[0 :=
     \<lparr>source_key = fnv1a64 ''ab'', delay_ns = 1000, credits = 3\<rparr>]\<rparr>"

lemma sample_arm: "arm_cfg 500 sample_request zero_cfg = Some (Inr (0, sample_armed, 3))"
  by code_simp

theorem arm_adds_credits_witness:
  "credit_total sample_armed = credit_total zero_cfg + 3 \<and> cfg_inv sample_armed"
  using arm_adds_credits [OF zero_cfg_inv _ sample_arm]
  by (simp add: sample_request_def)

theorem consume_takes_one_credit_witness:
  "consume_slot sample_armed (fnv1a64 ''ab'') 0 = Some 0 \<and>
   credit_total (take_credit sample_armed 0) = credit_total sample_armed - 1"
proof -
  have inv: "cfg_inv sample_armed" using arm_cfg_effect [OF zero_cfg_inv _ sample_arm]
    by (simp add: sample_request_def)
  have c: "consume_slot sample_armed (fnv1a64 ''ab'') 0 = Some 0" by code_simp
  then show ?thesis
    using consume_takes_one_credit [OF inv fnv1a64_nonzero, of "''ab''" 0] by simp
qed

section \<open>Conservation over a whole run\<close>

text \<open>
  The life of one victim's configuration: requests arm it, ring-buffer events consume from
  it, the BPF side moves its cursor, a full table or a failed update leaves it as it is. The
  counters are ghosts: the credits armed and the delays injected so far.
\<close>

inductive credit_run :: "victim_cfg \<Rightarrow> int \<Rightarrow> int \<Rightarrow> bool" where
  fresh: "credit_run zero_cfg 0 0"
| arms: "credit_run cfg armed used \<Longrightarrow> 0 \<le> sint (ar_count req) \<Longrightarrow>
     arm_cfg d req cfg = Some (Inr (i, cfg', t)) \<Longrightarrow>
     credit_run cfg' (armed + sint (ar_count req)) used"
| consumes: "credit_run cfg armed used \<Longrightarrow> consume_slot cfg key hint = Some i \<Longrightarrow>
     credit_run (take_credit cfg i) armed (used + 1)"
| serves: "credit_run cfg armed used \<Longrightarrow> credit_run (advance cfg i) armed used"

lemma cfg_inv_cong: "slots cfg = slots cfg' \<Longrightarrow> cfg_inv cfg = cfg_inv cfg'"
  by (simp add: cfg_inv_def wf_cfg_def)

lemma credit_run_inv:
  "credit_run cfg armed used \<Longrightarrow>
     cfg_inv cfg \<and> armed = used + credit_total cfg"
proof (induction rule: credit_run.induct)
  case fresh
  show ?case
    by (simp add: zero_cfg_inv) (simp add: credit_total_def zero_cfg_def zero_slot_def MCOZ_MAX_SOURCE_SLOTS_def)
next
  case (arms cfg armed used req d i cfg' t)
  then show ?case using arm_cfg_effect [of cfg req d i cfg' t] by simp
next
  case (consumes cfg armed used key hint i)
  then show ?case using take_credit_inv [of cfg key hint i] by simp
next
  case (serves cfg armed used i)
  then show ?case using cfg_inv_cong [of "advance cfg i" cfg] credit_total_cong [of "advance cfg i" cfg] by simp
qed



text \<open>
  C7. \<^verbatim>\<open>arm\<close> answers "no free source slots" exactly when all eight slots belong to other
  sources that still hold credits; a source with a used-up slot is never refused.
\<close>

theorem arm_no_free_slots_iff:
  assumes inv: "cfg_inv cfg"
  shows "arm_cfg d req cfg = None \<longleftrightarrow>
     (\<forall>i<8. source_key (slots cfg ! i) \<noteq> fnv1a64 (source_id_of req) \<and>
            0 < sint (credits (slots cfg ! i)))"
proof -
  let ?key = "fnv1a64 (source_id_of req)"
  note D = cfg_invD [OF inv]
  have nz: "credits (slots cfg ! i) \<noteq> 0 \<longleftrightarrow> 0 < sint (credits (slots cfg ! i))" if "i < 8" for i
    using D(3) [OF that] by (auto simp: less_le signed_eq_0_iff)
  have key: "find_exact_slot cfg ?key = None \<longleftrightarrow> (\<forall>i<8. source_key (slots cfg ! i) \<noteq> ?key)"
    using find_exact_slot_None [of cfg ?key] find_exact_slotD [of cfg ?key] D(1) fnv1a64_nonzero
    by (metis not_None_eq)
  have free: "find_free_slot cfg = None \<longleftrightarrow>
      (\<forall>i<8. source_key (slots cfg ! i) \<noteq> 0 \<and> credits (slots cfg ! i) \<noteq> 0)"
    unfolding find_free_slot_def find_free_from_None using D(1) by (auto simp: all_set_conv_all_nth)
  have "arm_cfg d req cfg = None \<longleftrightarrow> find_slot_for_source (cfg\<lparr>enabled := 1\<rparr>) ?key = None"
    by (simp add: arm_cfg_def Let_def split: option.splits)
  also have "\<dots> \<longleftrightarrow> find_exact_slot cfg ?key = None \<and> find_free_slot cfg = None"
    by (simp add: find_slot_for_source_def find_exact_slot_def find_free_slot_def split: option.splits)
  also have "\<dots> \<longleftrightarrow> (\<forall>i<8. source_key (slots cfg ! i) \<noteq> ?key \<and> 0 < sint (credits (slots cfg ! i)))"
    unfolding key free using D(4) nz by auto
  finally show ?thesis .
qed

theorem arm_no_free_slots_iff_witness:
  "arm_cfg 0 sample_request zero_cfg \<noteq> None"
proof -
  have "source_key (slots zero_cfg ! 0) = 0 \<and> credits (slots zero_cfg ! 0) = 0"
    by (simp add: zero_cfg_def zero_slot_def MCOZ_MAX_SOURCE_SLOTS_def)
  then show ?thesis
    using arm_no_free_slots_iff [OF zero_cfg_inv, of 0 sample_request] by fastforce
qed

end
