(* ===== verification/Credit_Control.thy ===== *)
theory Credit_Control
  imports Credit_Engine
begin

text \<open>
  The control operations of \<^verbatim>\<open>RequestCreditEngine\<close> (\<^verbatim>\<open>hostctl_cpp/request_credit.cpp\<close>): profiling
  the system calls of a cgroup and choosing a consume policy from them, applying a policy,
  clearing, the status and the JSON texts the operations answer with. The order in which the
  kernel lists the keys of a hash map is a parameter.
\<close>

section \<open>JSON texts\<close>

definition json_escape_code :: "char \<Rightarrow> string" where
  "json_escape_code ch =
     (if ch = CHR 0x22 then [CHR 0x5C, CHR 0x22]
      else if ch = CHR 0x5C then [CHR 0x5C, CHR 0x5C]
      else if ch = CHR 0x0A then [CHR 0x5C, CHR ''n'']
      else if ch = CHR 0x0D then [CHR 0x5C, CHR ''r'']
      else if ch = CHR 0x09 then [CHR 0x5C, CHR ''t'']
      else [ch])"

definition json_escape :: "string \<Rightarrow> string" where
  "json_escape s = concat (map json_escape_code s)"

definition quoted :: "string \<Rightarrow> string" where
  "quoted s = CHR 0x22 # s @ [CHR 0x22]"

definition json_field :: "string \<Rightarrow> string \<Rightarrow> string" where
  "json_field name value = quoted name @ '':'' @ value"

definition json_uint :: "'a::len word \<Rightarrow> string" where
  "json_uint w = print_nat (unat w)"

definition json_int :: "'a::len word \<Rightarrow> string" where
  "json_int w = print_int (sint w)"

definition json_bool :: "bool \<Rightarrow> string" where
  "json_bool b = (if b then ''true'' else ''false'')"

definition json_string :: "string \<Rightarrow> string" where
  "json_string s = quoted (json_escape s)"

text \<open>Comma-separated texts.\<close>

fun commas :: "string list \<Rightarrow> string" where
  "commas [] = []"
| "commas [x] = x"
| "commas (x # xs) = x @ '','' @ commas xs"

definition json_object :: "string list \<Rightarrow> string" where
  "json_object members = CHR 0x7B # commas members @ [CHR 0x7D]"

definition json_array :: "string list \<Rightarrow> string" where
  "json_array items = ''['' @ commas items @ '']''"

definition json_error :: "string \<Rightarrow> string" where
  "json_error msg = json_object [json_field ''ok'' ''false'', json_field ''error'' (quoted msg)]"

definition syscall_name_from_id :: "u32 \<Rightarrow> string" where
  "syscall_name_from_id i =
     (if i = 0 then ''read'' else if i = 17 then ''pread64'' else if i = 19 then ''readv''
      else if i = 43 then ''accept'' else if i = 45 then ''recvfrom'' else if i = 47 then ''recvmsg''
      else if i = 288 then ''accept4'' else if i = 299 then ''recvmmsg''
      else if i = 425 then ''io_uring_setup'' else if i = 426 then ''io_uring_enter''
      else ''unknown'')"

definition flag_names :: "u32 \<Rightarrow> string list" where
  "flag_names flags =
     map fst (filter (\<lambda>p. flags AND snd p \<noteq> 0)
       [(''recvfrom'', MCOZ_CONSUME_RECVFROM), (''recvmsg'', MCOZ_CONSUME_RECVMSG),
        (''recvmmsg'', MCOZ_CONSUME_RECVMMSG), (''read'', MCOZ_CONSUME_READ),
        (''readv'', MCOZ_CONSUME_READV), (''pread64'', MCOZ_CONSUME_PREAD64),
        (''io_uring'', MCOZ_CONSUME_IO_URING)])"

definition consume_flags_to_json_array :: "u32 \<Rightarrow> string" where
  "consume_flags_to_json_array flags =
     json_array (map quoted (if flag_names flags = [] then [''none''] else flag_names flags))"

text \<open>The answer of \<open>arm\<close>, for the source of the request.\<close>

definition arm_json :: "string \<Rightarrow> victim_runtime \<Rightarrow> i64 \<Rightarrow> int \<Rightarrow> arm_response \<Rightarrow> string" where
  "arm_json source_id vr req_count errno r =
     (case r of
        Negative_Count \<Rightarrow> json_error ''count must be >= 0''
      | Resolve_Failed \<Rightarrow>
          json_object [json_field ''ok'' ''false'', json_field ''state'' (quoted ''TRIGGERED''),
            json_field ''error'' (quoted ''failed to resolve cgroup'')]
      | Not_Active \<Rightarrow> json_error ''request-credit mode is not active''
      | No_Free_Slots \<Rightarrow>
          json_object [json_field ''ok'' ''false'', json_field ''state'' (quoted ''TRIGGERED''),
            json_field ''error'' (quoted ''no free source slots''),
            json_field ''max_slots'' (print_nat MCOZ_MAX_SOURCE_SLOTS), json_field ''source'' (json_string source_id)]
      | Map_Update_Failed \<Rightarrow>
          json_object [json_field ''ok'' ''false'', json_field ''state'' (quoted ''TRIGGERED''),
            json_field ''error'' (quoted ''bpf_map_update_elem failed''), json_field ''errno'' (print_int errno)]
      | Armed cg delay i c t \<Rightarrow>
          json_object [json_field ''ok'' ''true'', json_field ''state'' (quoted ''ARMED''),
            json_field ''namespace'' (json_string (vr_ns vr)), json_field ''pod'' (json_string (vr_pod vr)),
            json_field ''container'' (json_string (vr_container vr)), json_field ''cgroup_id'' (json_uint cg),
            json_field ''credits'' (json_int t), json_field ''delay_ns'' (json_uint delay),
            json_field ''count'' (json_int req_count), json_field ''source'' (json_string source_id),
            json_field ''source_key'' (quoted (format_source (fnv1a64 source_id))),
            json_field ''source_slot'' (print_nat i), json_field ''source_credits'' (json_int c)])"

section \<open>Profiling the system calls of a cgroup\<close>

text \<open>\<open>keys\<close> is the kernel's list of the keys of the histogram.\<close>

definition clear_syscall_histogram :: "(u64 \<times> u32) list \<Rightarrow> u64 \<Rightarrow> bpf_state \<Rightarrow> bpf_state" where
  "clear_syscall_histogram keys cg m =
     m\<lparr>syscall_hist_map := fold (\<lambda>k h. h(k := None)) (filter (\<lambda>k. fst k = cg) keys) (syscall_hist_map m)\<rparr>"

fun collect_syscall_histogram :: "(u64 \<times> u32) list \<Rightarrow> u64 \<Rightarrow> bpf_state \<Rightarrow> (u32 \<times> u64) list" where
  "collect_syscall_histogram [] cg m = []"
| "collect_syscall_histogram (k # keys) cg m =
     (if fst k = cg
      then (case syscall_hist_map m k of
              Some n \<Rightarrow> if n > 0 then (snd k, n) # collect_syscall_histogram keys cg m
                           else collect_syscall_histogram keys cg m
            | None \<Rightarrow> collect_syscall_histogram keys cg m)
      else collect_syscall_histogram keys cg m)"

definition row_before :: "u32 \<times> u64 \<Rightarrow> u32 \<times> u64 \<Rightarrow> bool" where
  "row_before a b = (if snd a = snd b then fst a < fst b else snd a > snd b)"

fun insert_row :: "u32 \<times> u64 \<Rightarrow> (u32 \<times> u64) list \<Rightarrow> (u32 \<times> u64) list" where
  "insert_row r [] = [r]"
| "insert_row r (x # xs) = (if row_before x r then x # insert_row r xs else r # x # xs)"

text \<open>\<^verbatim>\<open>std::sort\<close> by this order, which is total on the rows of one cgroup.\<close>

definition sort_rows :: "(u32 \<times> u64) list \<Rightarrow> (u32 \<times> u64) list" where
  "sort_rows rows = foldr insert_row rows []"

definition count_of :: "(u32 \<times> u64) list \<Rightarrow> u32 \<Rightarrow> u64" where
  "count_of rows i = sum_list (map snd (filter (\<lambda>r. fst r = i) rows))"

record path_totals =
  recv_total :: u64
  read_total :: u64
  io_uring_total :: u64

definition totals_of :: "(u32 \<times> u64) list \<Rightarrow> path_totals" where
  "totals_of rows =
     \<lparr>recv_total = count_of rows 45 + count_of rows 47 + count_of rows 299,
      read_total = count_of rows 0 + count_of rows 17 + count_of rows 19,
      io_uring_total = count_of rows 425 + count_of rows 426\<rparr>"

definition recommended_flags :: "path_totals \<Rightarrow> u32" where
  "recommended_flags t =
     (let f0 = (if recv_total t > 0 then MCOZ_CONSUME_RECVFROM OR MCOZ_CONSUME_RECVMSG OR MCOZ_CONSUME_RECVMMSG else 0);
          f1 = (if read_total t > 0 then f0 OR (MCOZ_CONSUME_READ OR MCOZ_CONSUME_READV OR MCOZ_CONSUME_PREAD64) else f0);
          f2 = (if io_uring_total t > 0 then f1 OR MCOZ_CONSUME_IO_URING else f1)
      in if f2 = 0 then MCOZ_CONSUME_DEFAULT_FLAGS else f2)"

definition clamp :: "'a::linorder \<Rightarrow> 'a \<Rightarrow> 'a \<Rightarrow> 'a" where
  "clamp v lo hi = (if v < lo then lo else if hi < v then hi else v)"

record profile_request =
  pq_ns :: string
  pq_pod :: string
  pq_duration_ms :: u64
  pq_top_k :: u32
  pq_apply_policy :: bool

datatype profile_response =
    Profile_Error string
  | Profile_Errno string int
  | Profiled u64 "(u32 \<times> u64) list" path_totals u32

text \<open>Before the waiting: the checks, the histogram cleared and the cgroup made a target.\<close>

definition profile_begin ::
  "(u64 \<times> u32) list \<Rightarrow> bool \<Rightarrow> bool \<Rightarrow> int \<Rightarrow> u64 \<Rightarrow> credit_engine \<Rightarrow> profile_response option \<times> credit_engine" where
  "profile_begin keys raw_link update_ok errno cg e =
     (if \<not> active e then (Some (Profile_Error ''request-credit mode is not active''), e)
      else if \<not> raw_link then (Some (Profile_Error ''raw_tracepoint/sys_enter is unavailable''), e)
      else
        let m = clear_syscall_histogram keys cg (maps e)
        in if update_ok
           then (None, e\<lparr>maps := m\<lparr>probe_targets := (probe_targets m)(cg \<mapsto> 1)\<rparr>\<rparr>)
           else (Some (Profile_Errno ''failed to enable profile target'' errno), e\<lparr>maps := m\<rparr>))"

text \<open>After it: the rows, the recommendation and, if asked for, the policy.\<close>

definition profile_end ::
  "(u64 \<times> u32) list \<Rightarrow> bool \<Rightarrow> int \<Rightarrow> profile_request \<Rightarrow> u64 \<Rightarrow> credit_engine \<Rightarrow> profile_response \<times> credit_engine" where
  "profile_end keys update_ok errno req cg e =
     (let m = (maps e)\<lparr>probe_targets := (probe_targets (maps e))(cg := None)\<rparr>;
          rows = take (unat (clamp (pq_top_k req) 1 64)) (sort_rows (collect_syscall_histogram keys cg m));
          t = totals_of rows;
          flags = recommended_flags t
      in if \<not> pq_apply_policy req then (Profiled cg rows t flags, e\<lparr>maps := m\<rparr>)
         else if update_ok
         then (Profiled cg rows t flags,
               e\<lparr>maps := m\<lparr>consume_policy_map := (consume_policy_map m)(cg \<mapsto> flags)\<rparr>\<rparr>)
         else (Profile_Errno ''failed to apply consume policy'' errno, e\<lparr>maps := m\<rparr>))"

text \<open>\<open>during\<close> is what happens to the engine and its maps while the profile waits.\<close>

definition profile_syscalls ::
  "resolved_target option \<Rightarrow> bool \<Rightarrow> (u64 \<times> u32) list \<Rightarrow> bool \<Rightarrow> (u64 \<times> u32) list \<Rightarrow> bool \<Rightarrow> int
     \<Rightarrow> (credit_engine \<Rightarrow> credit_engine) \<Rightarrow> profile_request \<Rightarrow> credit_engine \<Rightarrow> profile_response \<times> credit_engine" where
  "profile_syscalls resolved raw_link keys0 target_ok keys1 policy_ok errno during req e =
     (if pq_ns req = [] \<or> pq_pod req = [] then (Profile_Error ''namespace and pod are required'', e)
      else case resolved of
        None \<Rightarrow> (Profile_Error ''failed to resolve cgroup'', e)
      | Some target \<Rightarrow>
          (case profile_begin keys0 raw_link target_ok errno (rt_cgroup_id target) e of
             (Some r, e') \<Rightarrow> (r, e')
           | (None, e') \<Rightarrow> profile_end keys1 policy_ok errno req (rt_cgroup_id target) (during e')))"

definition row_name :: "u32 \<Rightarrow> string" where
  "row_name i =
     (if syscall_name_from_id i = ''unknown'' then ''sys_'' @ print_nat (unat i) else syscall_name_from_id i)"

definition profile_json :: "resolved_target \<Rightarrow> bool \<Rightarrow> profile_request \<Rightarrow> profile_response \<Rightarrow> string" where
  "profile_json target raw_link req r =
     (case r of
        Profile_Error msg \<Rightarrow> json_error msg
      | Profile_Errno msg errno \<Rightarrow>
          json_object [json_field ''ok'' ''false'', json_field ''error'' (quoted msg), json_field ''errno'' (print_int errno)]
      | Profiled cg rows t flags \<Rightarrow>
          json_object [json_field ''ok'' ''true'', json_field ''mode'' (quoted ''request-credit''),
            json_field ''namespace'' (json_string (rt_ns target)), json_field ''pod'' (json_string (rt_pod target)),
            json_field ''container'' (json_string (rt_container target)), json_field ''cgroup_id'' (json_uint cg),
            json_field ''duration_ms'' (json_uint (clamp (pq_duration_ms req) 100 30000)),
            json_field ''top_k'' (json_uint (clamp (pq_top_k req) 1 64)),
            json_field ''raw_tracepoint_attached'' (json_bool raw_link),
            json_field ''syscalls'' (json_array (map (\<lambda>(i, c).
              json_object [json_field ''id'' (json_uint i), json_field ''name'' (json_string (row_name i)),
                json_field ''count'' (json_uint c)]) rows)),
            json_field ''recommendation'' (json_object
              [json_field ''dominant'' (json_string (case rows of [] \<Rightarrow> ''none'' | (i, c) # _ \<Rightarrow> row_name i)),
               json_field ''recv_path_count'' (json_uint (recv_total t)),
               json_field ''read_path_count'' (json_uint (read_total t)),
               json_field ''io_uring_count'' (json_uint (io_uring_total t)),
               json_field ''enable_read_hook'' (json_bool (read_total t > 0)),
               json_field ''suggested_consume_paths'' (consume_flags_to_json_array flags),
               json_field ''suggested_raw_flags'' (json_uint flags)]),
            json_field ''apply_policy_requested'' (json_bool (pq_apply_policy req)),
            json_field ''apply_policy_ok'' (json_bool True),
            json_field ''applied_raw_flags'' (if pq_apply_policy req then json_uint flags else ''null''),
            json_field ''applied_consume_paths''
              (if pq_apply_policy req then consume_flags_to_json_array flags else ''null'')])"

section \<open>Applying a consume policy\<close>

record policy_request =
  cp_ns :: string
  cp_pod :: string
  cp_raw_flags :: u32

datatype policy_response =
    Policy_Error string
  | Policy_Errno int
  | Policy_Applied u64 u32

definition apply_consume_policy ::
  "resolved_target option \<Rightarrow> bool \<Rightarrow> int \<Rightarrow> policy_request \<Rightarrow> credit_engine \<Rightarrow> policy_response \<times> credit_engine" where
  "apply_consume_policy resolved update_ok errno req e =
     (if cp_ns req = [] \<or> cp_pod req = [] then (Policy_Error ''namespace and pod are required'', e)
      else case resolved of
        None \<Rightarrow> (Policy_Error ''failed to resolve cgroup'', e)
      | Some target \<Rightarrow>
          let cg = rt_cgroup_id target; flags = normalize_consume_flags (cp_raw_flags req)
          in if \<not> active e then (Policy_Error ''request-credit mode is not active'', e)
             else if \<not> update_ok then (Policy_Errno errno, e)
             else
               let v = (victim_at e cg)\<lparr>vr_ns := rt_ns target, vr_pod := rt_pod target,
                          vr_container := rt_container target, vr_cgroup_path := rt_cgroup_path target\<rparr>
               in (Policy_Applied cg flags,
                   e\<lparr>maps := (maps e)\<lparr>consume_policy_map := (consume_policy_map (maps e))(cg \<mapsto> flags)\<rparr>,
                     victims := (victims e)(cg \<mapsto> v)\<rparr>))"

definition policy_json :: "resolved_target \<Rightarrow> policy_response \<Rightarrow> string" where
  "policy_json target r =
     (case r of
        Policy_Error msg \<Rightarrow> json_error msg
      | Policy_Errno errno \<Rightarrow>
          json_object [json_field ''ok'' ''false'', json_field ''error'' (quoted ''failed to apply consume policy''),
            json_field ''errno'' (print_int errno)]
      | Policy_Applied cg flags \<Rightarrow>
          json_object [json_field ''ok'' ''true'', json_field ''mode'' (quoted ''request-credit''),
            json_field ''namespace'' (json_string (rt_ns target)), json_field ''pod'' (json_string (rt_pod target)),
            json_field ''container'' (json_string (rt_container target)), json_field ''cgroup_id'' (json_uint cg),
            json_field ''apply_policy_ok'' ''true'', json_field ''applied_raw_flags'' (json_uint flags),
            json_field ''applied_consume_paths'' (consume_flags_to_json_array flags)])"

section \<open>Status\<close>

definition miss_of :: "u64 \<Rightarrow> u64 \<Rightarrow> u64 \<Rightarrow> u64" where
  "miss_of armed injected failed =
     (let done_now = injected + failed in if armed > done_now then armed - done_now else 0)"

definition source_json :: "victim_cfg \<Rightarrow> source_runtime \<Rightarrow> string" where
  "source_json cfg sr =
     (let slot = find_exact_slot cfg (sr_source_key sr)
      in json_object
        [json_field ''source'' (json_string (sr_source sr)),
         json_field ''source_key'' (quoted (format_source (sr_source_key sr))),
         json_field ''slot_index'' (case slot of None \<Rightarrow> ''null'' | Some i \<Rightarrow> print_nat i),
         json_field ''delay_ns'' (case slot of None \<Rightarrow> ''0'' | Some i \<Rightarrow> json_uint (delay_ns (slots cfg ! i))),
         json_field ''credits'' (case slot of None \<Rightarrow> ''0'' | Some i \<Rightarrow> json_int (credits (slots cfg ! i))),
         json_field ''arm_calls'' (json_uint (sr_arm_calls sr)),
         json_field ''armed_total'' (json_uint (sr_armed_total sr)),
         json_field ''consume_trigger'' (json_uint (sr_consume_trigger sr)),
         json_field ''bpf_events'' (json_uint (sr_bpf_events sr)),
         json_field ''injected_ok'' (json_uint (sr_injected_ok sr)),
         json_field ''inject_fail'' (json_uint (sr_inject_fail sr)),
         json_field ''miss'' (json_uint (miss_of (sr_armed_total sr) (sr_injected_ok sr) (sr_inject_fail sr))),
         json_field ''last_tid'' (json_uint (sr_last_tid sr)),
         json_field ''last_ts'' (json_uint (sr_last_ts_ns sr))])"

text \<open>A slot of the kernel's map whose source the engine has no record of.\<close>

definition orphan_json :: "victim_cfg \<Rightarrow> nat \<Rightarrow> string" where
  "orphan_json cfg i =
     (let slot = slots cfg ! i
      in json_object
        ([json_field ''source'' (json_string (format_source (source_key slot))),
          json_field ''source_key'' (quoted (format_source (source_key slot))),
          json_field ''slot_index'' (print_nat i),
          json_field ''delay_ns'' (json_uint (delay_ns slot)),
          json_field ''credits'' (json_int (credits slot))] @
         map (\<lambda>name. json_field name ''0'')
           [''arm_calls'', ''armed_total'', ''consume_trigger'', ''bpf_events'', ''injected_ok'',
            ''inject_fail'', ''miss'', ''last_tid'', ''last_ts'']))"

text \<open>The entries of a \<^verbatim>\<open>std::map\<close> are visited in the order of its keys.\<close>

definition keys_in_order :: "('k::linorder \<rightharpoonup> 'v) \<Rightarrow> 'k list" where
  "keys_in_order m = sorted_list_of_set (dom m)"

definition source_rows :: "victim_cfg \<Rightarrow> victim_runtime \<Rightarrow> string list" where
  "source_rows cfg v =
     (let known = map (\<lambda>k. the (vr_sources v k)) (keys_in_order (vr_sources v));
          orphans = filter (\<lambda>i. source_key (slots cfg ! i) \<noteq> 0 \<and>
                                source_key (slots cfg ! i) \<notin> set (map sr_source_key known))
                      [0..<MCOZ_MAX_SOURCE_SLOTS]
      in map (source_json cfg) known @ map (orphan_json cfg) orphans)"

definition victim_json :: "credit_engine \<Rightarrow> u64 \<Rightarrow> c_fault + string" where
  "victim_json e cg =
     (let v = victim_at e cg;
          cfg = cfg_at e cg;
          flags = (case consume_policy_map (maps e) cg of None \<Rightarrow> MCOZ_CONSUME_DEFAULT_FLAGS | Some f \<Rightarrow> f)
      in ebind (total_credits cfg) (\<lambda>credits_total. Inr (json_object
        [json_field ''cgroup_id'' (json_uint cg), json_field ''namespace'' (json_string (vr_ns v)),
         json_field ''pod'' (json_string (vr_pod v)), json_field ''container'' (json_string (vr_container v)),
         json_field ''cgroup_path'' (json_string (vr_cgroup_path v)),
         json_field ''delay_ns'' (json_uint (max_delay cfg)), json_field ''credits'' (json_int credits_total),
         json_field ''consume_policy_flags'' (json_uint flags),
         json_field ''consume_policy_paths'' (consume_flags_to_json_array flags),
         json_field ''arm_calls'' (json_uint (vr_arm_calls v)),
         json_field ''armed_total'' (json_uint (vr_armed_total v)),
         json_field ''consume_trigger'' (json_uint (vr_consume_trigger v)),
         json_field ''bpf_events'' (json_uint (vr_bpf_events v)),
         json_field ''injected_ok'' (json_uint (vr_injected_ok v)),
         json_field ''inject_fail'' (json_uint (vr_inject_fail v)),
         json_field ''refund_ok'' (json_uint (vr_refund_ok v)),
         json_field ''refund_fail'' (json_uint (vr_refund_fail v)),
         json_field ''miss'' (json_uint (miss_of (vr_armed_total v) (vr_injected_ok v) (vr_inject_fail v))),
         json_field ''last_tid'' (json_uint (vr_last_tid v)), json_field ''last_ts'' (json_uint (vr_last_ts_ns v)),
         json_field ''last_source'' (json_string (vr_last_source v)),
         json_field ''last_source_key'' (quoted (format_source (vr_last_source_key v))),
         json_field ''source_slots_capacity'' (print_nat MCOZ_MAX_SOURCE_SLOTS),
         json_field ''sources'' (json_array (source_rows cfg v))])))"

definition status_json :: "bool \<Rightarrow> credit_engine \<Rightarrow> c_fault + string" where
  "status_json refund e =
     (let g = (case global_stats_map (maps e) of
                 None \<Rightarrow> \<lparr>bpf_events = 0, ringbuf_drops = 0, consume_triggers = 0\<rparr> | Some g \<Rightarrow> g)
      in ebind (emap (victim_json e) (keys_in_order (victims e))) (\<lambda>cgroups. Inr (json_object
        [json_field ''ok'' ''true'', json_field ''mode'' (quoted ''request-credit''),
         json_field ''active'' (json_bool (active e)), json_field ''refund_on_fail'' (json_bool refund),
         json_field ''default_delay_ns'' (json_uint (default_delay_ns e)),
         json_field ''global'' (json_object
           [json_field ''triggered'' (json_uint (triggered e)), json_field ''armed_ok'' (json_uint (armed_ok e)),
            json_field ''armed_fail'' (json_uint (arm_fail e)),
            json_field ''consume_trigger'' (json_uint (consume_triggers g)),
            json_field ''bpf_events'' (json_uint (bpf_events g)),
            json_field ''ringbuf_drops'' (json_uint (ringbuf_drops g)),
            json_field ''injected_ok'' (json_uint (injected_ok e)),
            json_field ''inject_fail'' (json_uint (inject_fail e)),
            json_field ''rearm_noop'' (json_uint (rearm_noop e))]),
         json_field ''cgroups'' (json_array cgroups)])))"

section \<open>Clearing\<close>

definition clear_source :: "source_runtime \<Rightarrow> source_runtime" where
  "clear_source sr =
     sr\<lparr>sr_arm_calls := 0, sr_armed_total := 0, sr_consume_trigger := 0, sr_bpf_events := 0,
        sr_injected_ok := 0, sr_inject_fail := 0, sr_last_tid := 0, sr_last_ts_ns := 0,
        sr_last_delay_ns := 0, sr_last_error := None\<rparr>"

definition clear_victim :: "victim_runtime \<Rightarrow> victim_runtime" where
  "clear_victim v =
     v\<lparr>vr_arm_calls := 0, vr_armed_total := 0, vr_consume_trigger := 0, vr_bpf_events := 0,
       vr_injected_ok := 0, vr_inject_fail := 0, vr_refund_ok := 0, vr_refund_fail := 0,
       vr_last_tid := 0, vr_last_ts_ns := 0, vr_last_source_key := 0, vr_last_source := [],
       vr_last_error := None, vr_sources := map_option clear_source \<circ> vr_sources v\<rparr>"

definition clear_cfg :: "victim_cfg \<Rightarrow> victim_cfg" where
  "clear_cfg cfg =
     cfg\<lparr>slots := map (\<lambda>s. s\<lparr>credits := 0, delay_ns := 0\<rparr>) (slots cfg), rr_cursor := 0\<rparr>"

text \<open>\<open>update_ok\<close>: whether the write of a cgroup's configuration, and that of the totals, succeeds.\<close>

definition clear :: "bool \<Rightarrow> (u64 \<Rightarrow> bool) \<Rightarrow> bool \<Rightarrow> credit_engine \<Rightarrow> credit_engine" where
  "clear clear_credits update_ok stats_ok e =
     (let m = maps e;
          vm = (\<lambda>cg. if clear_credits \<and> victims e cg \<noteq> None \<and> update_ok cg
                     then map_option clear_cfg (victim_map m cg) else victim_map m cg);
          m' = m\<lparr>victim_map := vm,
                 global_stats_map := (if stats_ok \<and> global_stats_map m \<noteq> None
                   then Some \<lparr>bpf_events = 0, ringbuf_drops = 0, consume_triggers = 0\<rparr>
                   else global_stats_map m)\<rparr>
      in e\<lparr>maps := m', victims := map_option clear_victim \<circ> victims e, triggered := 0, armed_ok := 0,
           arm_fail := 0, injected_ok := 0, inject_fail := 0, rearm_noop := 0\<rparr>)"

definition rearm_message :: "credit_engine \<Rightarrow> string \<times> credit_engine" where
  "rearm_message e =
     (''request-credit mode: /rearm is a no-op (credits are consumed by recv* triggers)'',
      e\<lparr>rearm_noop := rearm_noop e + 1\<rparr>)"

end
