(* ===== verification/Credit_Lifecycle.thy ===== *)
theory Credit_Lifecycle
  imports Credit_Control
begin

text \<open>
  Starting and stopping the engine and the functions the control server calls
  (\<^verbatim>\<open>hostctl_cpp/request_credit.cpp\<close>: \<^verbatim>\<open>start\<close>, \<^verbatim>\<open>stop_unlocked\<close>, \<^verbatim>\<open>poll_loop\<close> and the
  functions on \<^verbatim>\<open>g_engine\<close>). What libbpf and the kernel answer while the object is opened,
  loaded and attached is the argument \<open>bpf_loader\<close>; the object files and hash maps of the kernel
  are those of \<open>Request_Credit\<close>.
\<close>

section \<open>The parts the engine holds\<close>

record request_engine =
  recvfrom_link :: bool
  recvmsg_link :: bool
  raw_link :: bool
  read_link :: bool
  ring :: bool
  loaded :: bool
  running :: bool
  refund_on_fail :: bool
  enable_read_hook :: bool
  engine :: credit_engine

definition fresh_maps :: bpf_state where
  "fresh_maps = \<lparr>victim_map = (\<lambda>_. None), events = [],
     global_stats_map = Some \<lparr>bpf_events = 0, ringbuf_drops = 0, consume_triggers = 0\<rparr>,
     runtime_flags_map = Some \<lparr>rf_raw_consume_enabled = 0, rf_read_exit_hook_enabled = 0\<rparr>,
     probe_targets = (\<lambda>_. None), syscall_hist_map = (\<lambda>_. None), consume_policy_map = (\<lambda>_. None)\<rparr>"

definition new_credit_engine :: credit_engine where
  "new_credit_engine = \<lparr>active = False, default_delay_ns = 10000000, maps = fresh_maps,
     victims = (\<lambda>_. None), triggered = 0, armed_ok = 0, arm_fail = 0, injected_ok = 0,
     inject_fail = 0, rearm_noop = 0\<rparr>"

definition new_engine :: request_engine where
  "new_engine = \<lparr>recvfrom_link = False, recvmsg_link = False, raw_link = False, read_link = False,
     ring = False, loaded = False, running = False, refund_on_fail = True, enable_read_hook = False,
     engine = new_credit_engine\<rparr>"

section \<open>Starting\<close>

text \<open>What the operating system and libbpf answer.\<close>

record bpf_loader =
  env_obj :: "string option"
  readable :: "string \<Rightarrow> bool"
  open_ok :: bool
  load_ok :: bool
  maps_found :: bool
  progs_found :: bool
  read_prog_found :: bool
  attach_recvfrom :: bool
  attach_recvmsg :: bool
  attach_raw :: bool
  attach_read :: bool
  flags_ok :: bool
  ring_ok :: bool

definition resolve_bpf_obj_path :: "string \<Rightarrow> bpf_loader \<Rightarrow> string" where
  "resolve_bpf_obj_path configured ld =
     (let candidates = (case env_obj ld of Some p \<Rightarrow> (if p = [] then [] else [p]) | None \<Rightarrow> []) @
            [configured, ''/opt/mcoz/bin/request_credit.bpf.o'',
             ''/home/yunni/mcoz/mcoz/m-coz/build/hostctl_cpp/request_credit.bpf.o'',
             ''./build/hostctl_cpp/request_credit.bpf.o'']
      in case find (\<lambda>c. c \<noteq> [] \<and> readable ld c) candidates of None \<Rightarrow> [] | Some c \<Rightarrow> c)"

text \<open>The attached links: recv tracepoints both or neither, then the raw tracepoint.\<close>

definition attach_links :: "bpf_loader \<Rightarrow> request_engine \<Rightarrow> request_engine" where
  "attach_links ld re =
     (let recv = attach_recvfrom ld \<and> attach_recvmsg ld
      in re\<lparr>recvfrom_link := recv, recvmsg_link := recv, raw_link := attach_raw ld\<rparr>)"

definition set_runtime_flags :: "bpf_loader \<Rightarrow> request_engine \<Rightarrow> request_engine" where
  "set_runtime_flags ld re =
     (let flags = \<lparr>rf_raw_consume_enabled = (if raw_link re then 1 else 0),
                   rf_read_exit_hook_enabled = (if read_link re then 1 else 0)\<rparr>;
          e = engine re
      in re\<lparr>engine := e\<lparr>maps := (maps e)\<lparr>runtime_flags_map :=
              (if flags_ok ld then Some flags else runtime_flags_map (maps e))\<rparr>\<rparr>\<rparr>)"

text \<open>The result is the error, if any, and the engine as it is then.\<close>

definition start :: "string \<Rightarrow> bpf_loader \<Rightarrow> u64 \<Rightarrow> bool \<Rightarrow> request_engine \<Rightarrow> string option \<times> request_engine" where
  "start configured ld delay read_hook re0 =
     (if active (engine re0) then (None, re0)
      else
        let re = re0\<lparr>engine := (engine re0)\<lparr>default_delay_ns := delay\<rparr>, refund_on_fail := False,
                     enable_read_hook := read_hook\<rparr>;
            path = resolve_bpf_obj_path configured ld
        in if path = [] then (Some ''request-credit BPF object not found (set MCOZ_REQUEST_BPF_OBJ)'', re)
           else if \<not> open_ok ld then (Some (''bpf_object__open_file failed: '' @ path), re)
           else
             let re1 = re\<lparr>loaded := True\<rparr>
             in if \<not> load_ok ld then (Some ''bpf_object__load failed'', re1)
                else if \<not> maps_found ld then (Some ''required BPF maps not found'', re1)
                else if \<not> progs_found ld then (Some ''required BPF programs not found'', re1)
                else
                  let re2 = attach_links ld (re1\<lparr>engine := (engine re1)\<lparr>maps := fresh_maps\<rparr>\<rparr>)
                  in if \<not> raw_link re2 \<and> \<not> recvfrom_link re2
                     then (Some ''failed to attach recv* tracepoints and raw_tracepoint fallback'', re2)
                     else
                       let re3 = set_runtime_flags ld
                             (re2\<lparr>read_link := read_hook \<and> read_prog_found ld \<and> attach_read ld\<rparr>)
                       in if \<not> ring_ok ld then (Some ''ring_buffer__new failed'', re3)
                          else (None, re3\<lparr>ring := True, running := True,
                                  engine := (engine re3)\<lparr>active := True\<rparr>\<rparr>))"

definition stop_unlocked :: "request_engine \<Rightarrow> request_engine" where
  "stop_unlocked re =
     re\<lparr>ring := False, read_link := False, raw_link := False, recvmsg_link := False,
        recvfrom_link := False, loaded := False, engine := (engine re)\<lparr>active := False\<rparr>\<rparr>"

definition stop :: "request_engine \<Rightarrow> request_engine" where
  "stop re = stop_unlocked (re\<lparr>running := False\<rparr>)"

section \<open>Polling the ring buffer\<close>

text \<open>
  One poll hands every event of the ring buffer to the handler, in order; \<open>answer\<close> is what the
  map update and the delay system call answer to the handler of an event.
\<close>

definition poll_events ::
  "(consume_event \<Rightarrow> bool \<times> int \<times> int) \<Rightarrow> credit_engine \<Rightarrow> credit_engine" where
  "poll_events answer e =
     fold (\<lambda>ev e. case answer ev of (ok, rc, err) \<Rightarrow> on_ring_event ok (\<lambda>_ _. rc) err ev e)
       (events (maps e)) (e\<lparr>maps := (maps e)\<lparr>events := []\<rparr>\<rparr>)"

section \<open>The functions on the engine of the process\<close>

type_synonym host = "request_engine option"

definition request_credit_is_active :: "host \<Rightarrow> bool" where
  "request_credit_is_active h = (case h of None \<Rightarrow> False | Some re \<Rightarrow> active (engine re))"

definition request_credit_start :: "string \<Rightarrow> bpf_loader \<Rightarrow> u64 \<Rightarrow> bool \<Rightarrow> host \<Rightarrow> string option \<times> host" where
  "request_credit_start configured ld delay read_hook h =
     (if request_credit_is_active h then (None, h)
      else (case start configured ld delay read_hook new_engine of
              (Some err, re) \<Rightarrow> (Some err, None)
            | (None, re) \<Rightarrow> (None, Some re)))"

definition request_credit_stop :: "host \<Rightarrow> host" where
  "request_credit_stop h = None"

text \<open>The text of a request on an engine that is not there.\<close>

definition not_active_json :: string where
  "not_active_json = json_error ''request-credit mode is not active''"

definition request_credit_arm ::
  "resolved_target option \<Rightarrow> bool \<Rightarrow> bool \<Rightarrow> int \<Rightarrow> arm_request \<Rightarrow> host \<Rightarrow> c_fault + ((bool \<times> string) \<times> host)" where
  "request_credit_arm resolved update_ok policy_room errno req h =
     (case h of
        None \<Rightarrow> Inr ((False, not_active_json), h)
      | Some re \<Rightarrow>
          if \<not> active (engine re) then Inr ((False, not_active_json), h)
          else ebind (arm resolved update_ok policy_room req (engine re)) (\<lambda>(e, r).
            let cg = (case resolved of None \<Rightarrow> 0 | Some t \<Rightarrow> rt_cgroup_id t);
                ok = (case r of Armed _ _ _ _ _ \<Rightarrow> True | _ \<Rightarrow> False)
            in Inr ((ok, arm_json (source_id_of req) (victim_at e cg) (ar_count req) errno r),
                    Some (re\<lparr>engine := e\<rparr>))))"

definition request_credit_profile_syscalls ::
  "resolved_target option \<Rightarrow> (u64 \<times> u32) list \<Rightarrow> bool \<Rightarrow> (u64 \<times> u32) list \<Rightarrow> bool \<Rightarrow> int
     \<Rightarrow> (credit_engine \<Rightarrow> credit_engine) \<Rightarrow> profile_request \<Rightarrow> host \<Rightarrow> (bool \<times> string) \<times> host" where
  "request_credit_profile_syscalls resolved keys0 target_ok keys1 policy_ok errno during req h =
     (case h of
        None \<Rightarrow> ((False, not_active_json), h)
      | Some re \<Rightarrow>
          if \<not> active (engine re) then ((False, not_active_json), h)
          else
            (case profile_syscalls resolved (raw_link re) keys0 target_ok keys1 policy_ok errno during req (engine re) of
               (r, e) \<Rightarrow>
                 let target = (case resolved of None \<Rightarrow> \<lparr>rt_cgroup_id = 0, rt_cgroup_path = [], rt_ns = [],
                                                         rt_pod = [], rt_container = []\<rparr> | Some t \<Rightarrow> t);
                     ok = (case r of Profiled _ _ _ _ \<Rightarrow> True | _ \<Rightarrow> False)
                 in ((ok, profile_json target (raw_link re) req r), Some (re\<lparr>engine := e\<rparr>))))"

definition request_credit_apply_consume_policy ::
  "resolved_target option \<Rightarrow> bool \<Rightarrow> int \<Rightarrow> policy_request \<Rightarrow> host \<Rightarrow> (bool \<times> string) \<times> host" where
  "request_credit_apply_consume_policy resolved update_ok errno req h =
     (case h of
        None \<Rightarrow> ((False, not_active_json), h)
      | Some re \<Rightarrow>
          if \<not> active (engine re) then ((False, not_active_json), h)
          else
            (case apply_consume_policy resolved update_ok errno req (engine re) of
               (r, e) \<Rightarrow>
                 let target = (case resolved of None \<Rightarrow> \<lparr>rt_cgroup_id = 0, rt_cgroup_path = [], rt_ns = [],
                                                         rt_pod = [], rt_container = []\<rparr> | Some t \<Rightarrow> t);
                     ok = (case r of Policy_Applied _ _ \<Rightarrow> True | _ \<Rightarrow> False)
                 in ((ok, policy_json target r), Some (re\<lparr>engine := e\<rparr>))))"

definition request_credit_status_json :: "host \<Rightarrow> c_fault + string" where
  "request_credit_status_json h =
     (let inactive = Inr (json_object [json_field ''ok'' ''false'', json_field ''mode'' (quoted ''request-credit''),
                                       json_field ''active'' ''false''])
      in case h of
           None \<Rightarrow> inactive
         | Some re \<Rightarrow> if \<not> active (engine re) then inactive
                      else status_json (refund_on_fail re) (engine re))"

definition request_credit_clear :: "bool \<Rightarrow> (u64 \<Rightarrow> bool) \<Rightarrow> bool \<Rightarrow> host \<Rightarrow> host" where
  "request_credit_clear clear_credits update_ok stats_ok h =
     (case h of
        None \<Rightarrow> h
      | Some re \<Rightarrow> if \<not> active (engine re) then h
                   else Some (re\<lparr>engine := clear clear_credits update_ok stats_ok (engine re)\<rparr>))"

definition request_credit_rearm_message :: "host \<Rightarrow> string \<times> host" where
  "request_credit_rearm_message h =
     (case h of
        None \<Rightarrow> (''request-credit mode is not active'', h)
      | Some re \<Rightarrow>
          if \<not> active (engine re) then (''request-credit mode is not active'', h)
          else (case rearm_message (engine re) of (msg, e) \<Rightarrow> (msg, Some (re\<lparr>engine := e\<rparr>))))"

end
