(* ===== verification/Credit_Books.thy ===== *)
theory Credit_Books
  imports Credit_Lifecycle
begin

text \<open>
  The engine's books over whole runs: whatever sequence of requests, ring-buffer events, BPF hooks,
  policies, profiles and full clears the engine serves, what the status reports about a victim and
  each of its sources is what happened to their credits.
\<close>

section \<open>What the operations leave alone\<close>

lemma consume_once_slots:
  "map_option slots (victim_map (consume_once env sid st) cg) = map_option slots (victim_map st cg)"
  by (auto simp: consume_once_def Let_def split: option.splits)

lemma consume_allowed_slots:
  "map_option slots (victim_map (consume_if_policy_allows env sid st) cg) = map_option slots (victim_map st cg)"
  by (simp add: consume_if_policy_allows_def consume_once_slots)

text \<open>The steps of the BPF side: the four hooks.\<close>

inductive hook_step :: "bpf_state \<Rightarrow> bpf_state \<Rightarrow> bool" where
  recvfrom: "hook_step st (mcoz_on_recvfrom env ctx_id st)"
| recvmsg: "hook_step st (mcoz_on_recvmsg env ctx_id st)"
| read_exit: "hook_step st (mcoz_on_read env ret st)"
| raw_enter: "hook_step st (mcoz_on_raw_sys_enter env args1 st)"

lemma hook_step_slots:
  "hook_step st st' \<Longrightarrow> map_option slots (victim_map st' cg) = map_option slots (victim_map st cg)"
  by (induction rule: hook_step.induct)
    (auto simp: mcoz_on_recvfrom_def mcoz_on_recvmsg_def mcoz_on_read_def mcoz_on_raw_sys_enter_def Let_def
      consume_allowed_slots consume_once_slots)

section \<open>The books of a victim\<close>

definition left_of :: "credit_engine \<Rightarrow> u64 \<Rightarrow> int" where
  "left_of e cg = (case victim_map (maps e) cg of None \<Rightarrow> 0 | Some cfg \<Rightarrow> credit_total cfg)"

definition left_for :: "credit_engine \<Rightarrow> u64 \<Rightarrow> u64 \<Rightarrow> int" where
  "left_for e cg key = (case victim_map (maps e) cg of None \<Rightarrow> 0 | Some cfg \<Rightarrow> credits_of cfg key)"

text \<open>
  The counters agree with each other and with the credits left. They are 64-bit words, so the
  equations hold modulo \<open>2 ^ 64\<close> in every run.
\<close>

definition source_books :: "source_runtime \<Rightarrow> int \<Rightarrow> bool" where
  "source_books s left \<longleftrightarrow>
     sr_consume_trigger s = sr_injected_ok s + sr_inject_fail s \<and>
     sr_bpf_events s = sr_consume_trigger s \<and>
     sr_armed_total s = sr_consume_trigger s + word_of_int left"

definition victim_books :: "victim_runtime \<Rightarrow> int \<Rightarrow> (u64 \<Rightarrow> int) \<Rightarrow> bool" where
  "victim_books v left left_key \<longleftrightarrow>
     vr_consume_trigger v = vr_injected_ok v + vr_inject_fail v \<and>
     vr_bpf_events v = vr_consume_trigger v \<and>
     vr_armed_total v = vr_consume_trigger v + word_of_int left \<and>
     (\<forall>k. source_books (source_at v k) (left_key k))"

definition books_inv :: "credit_engine \<Rightarrow> bool" where
  "books_inv e \<longleftrightarrow>
     (\<forall>cg. (\<forall>cfg. victim_map (maps e) cg = Some cfg \<longrightarrow> cfg_inv cfg) \<and>
           victim_books (victim_at e cg) (left_of e cg) (left_for e cg))"

lemma books_invI:
  assumes "\<And>cg cfg. victim_map (maps e) cg = Some cfg \<Longrightarrow> cfg_inv cfg"
    and "\<And>cg. victim_books (victim_at e cg) (left_of e cg) (left_for e cg)"
  shows "books_inv e"
  using assms by (simp add: books_inv_def)

lemma books_invD:
  assumes "books_inv e"
  shows "victim_map (maps e) cg = Some cfg \<Longrightarrow> cfg_inv cfg"
    and "victim_books (victim_at e cg) (left_of e cg) (left_for e cg)"
  using assms by (auto simp: books_inv_def)

text \<open>Only the slots and the counters of the books matter.\<close>

definition same_counters :: "victim_runtime \<Rightarrow> victim_runtime \<Rightarrow> bool" where
  "same_counters v v' \<longleftrightarrow>
     vr_consume_trigger v' = vr_consume_trigger v \<and> vr_injected_ok v' = vr_injected_ok v \<and>
     vr_inject_fail v' = vr_inject_fail v \<and> vr_bpf_events v' = vr_bpf_events v \<and>
     vr_armed_total v' = vr_armed_total v \<and> vr_sources v' = vr_sources v"

lemma same_counters_books:
  "same_counters v v' \<Longrightarrow> victim_books v' l lk = victim_books v l lk"
  by (simp add: same_counters_def victim_books_def source_at_def)

lemma credits_of_cong: "slots cfg = slots cfg' \<Longrightarrow> credits_of cfg k = credits_of cfg' k"
  using find_exact_slot_cong [of cfg cfg' k] by (simp add: credits_of_def split: option.split)

lemma books_frame:
  assumes "books_inv e"
    and "\<And>cg. map_option slots (victim_map (maps e') cg) = map_option slots (victim_map (maps e) cg)"
    and "\<And>cg. same_counters (victim_at e cg) (victim_at e' cg)"
  shows "books_inv e'"
proof (rule books_invI)
  fix cg cfg assume "victim_map (maps e') cg = Some cfg"
  then obtain cfg0 where "victim_map (maps e) cg = Some cfg0" "slots cfg0 = slots cfg"
    using assms(2) [of cg] by (cases "victim_map (maps e) cg") auto
  then show "cfg_inv cfg" using books_invD(1) [OF assms(1)] cfg_inv_cong by blast
next
  fix cg
  have "left_of e' cg = left_of e cg \<and> left_for e' cg k = left_for e cg k" for k
  proof (cases "victim_map (maps e) cg")
    case None
    then show ?thesis using assms(2) [of cg] by (simp add: left_of_def left_for_def)
  next
    case (Some cfg)
    then obtain cfg' where "victim_map (maps e') cg = Some cfg'" "slots cfg' = slots cfg"
      using assms(2) [of cg] by auto
    then show ?thesis
      using Some credit_total_cong [of cfg' cfg] credits_of_cong [of cfg' cfg k]
      by (simp add: left_of_def left_for_def)
  qed
  then have "left_of e' cg = left_of e cg" "left_for e' cg = left_for e cg" by auto
  then show "victim_books (victim_at e' cg) (left_of e' cg) (left_for e' cg)"
    using same_counters_books [OF assms(3)] books_invD(2) [OF assms(1)] by simp
qed

section \<open>Every operation keeps the books\<close>

lemma source_at_update [simp]:
  "source_at (v\<lparr>vr_sources := (vr_sources v')(k \<mapsto> s)\<rparr>) j = (if j = k then s else source_at v' j)"
  by (simp add: source_at_def)

lemma zero_cfg_credits [simp]: "credit_total zero_cfg = 0" "credits_of zero_cfg k = 0"
proof -
  show "credit_total zero_cfg = 0"
    by (simp add: credit_total_def zero_cfg_def zero_slot_def MCOZ_MAX_SOURCE_SLOTS_def)
  show "credits_of zero_cfg k = 0"
  proof (cases "find_exact_slot zero_cfg k")
    case (Some i)
    then have "i < 8" using find_exact_slotD [OF Some cfg_invD(1) [OF zero_cfg_inv]] by simp
    then show ?thesis using Some
      by (simp add: credits_of_def zero_cfg_def zero_slot_def MCOZ_MAX_SOURCE_SLOTS_def)
  qed (simp add: credits_of_def)
qed

lemma cfg_at_left:
  "left_of e cg = credit_total (cfg_at e cg)" "left_for e cg k = credits_of (cfg_at e cg) k"
  by (simp_all add: left_of_def left_for_def cfg_at_def split: option.split)

lemma cfg_at_inv: "books_inv e \<Longrightarrow> cfg_inv (cfg_at e cg)"
  using books_invD(1) zero_cfg_inv by (simp add: cfg_at_def split: option.split)

lemma engine_frame [simp]:
  "cfg_at (e\<lparr>triggered := x\<rparr>) cg = cfg_at e cg" "victim_at (e\<lparr>triggered := x\<rparr>) cg = victim_at e cg"
  by (simp_all add: cfg_at_def victim_at_def)

lemma armedE:
  assumes "arm resolved upd room req e0 = Inr (e', Armed cg d i c t)"
  obtains target cfg where "0 \<le> sint (ar_count req)"
    "arm_cfg (default_delay_ns e0) req (cfg_at e0 cg) = Some (Inr (i, cfg, t))"
    "victim_map (maps e') = (victim_map (maps e0))(cg \<mapsto> cfg)"
    "victims e' = (victims e0)(cg \<mapsto> record_armed target req (slots cfg ! i) (victim_at e0 cg))"
  using assms by (auto simp: arm_def Let_def ebind_Inr_iff not_less split: if_splits option.splits)

lemma record_armed_books:
  assumes "victim_books v l lk" "source_key slot = key"
    and "l' = l + sint (ar_count req)"
    and "\<And>k. lk' k = lk k + (if k = key then sint (ar_count req) else 0)"
  shows "victim_books (record_armed target req slot v) l' lk'"
  using assms by (auto simp: victim_books_def source_books_def record_armed_def Let_def source_at_def algebra_simps)

lemma arm_cfg_key:
  assumes "cfg_inv cfg0" "arm_cfg d req cfg0 = Some (Inr (i, cfg, t))"
  shows "source_key (slots cfg ! i) = fnv1a64 (source_id_of req)"
proof -
  obtain "find_slot_for_source cfg0 (fnv1a64 (source_id_of req)) = Some i"
    "source_key (slots cfg ! i) = fnv1a64 (source_id_of req) \<or> i \<ge> length (slots cfg0)"
    using arm_cfgE [OF assms(2)] by metis
  moreover have "i < 8" using find_slot_for_source_cases [OF assms(1) fnv1a64_nonzero calculation(1)] by metis
  ultimately show ?thesis using cfg_invD(1) [OF assms(1)] by (simp add: wf_cfg_def MCOZ_MAX_SOURCE_SLOTS_def)
qed

lemma arm_books:
  assumes inv: "books_inv e0" and ok: "arm resolved upd room req e0 = Inr (e', r)"
  shows "books_inv e'"
proof (cases "\<exists>cg d i c t. r = Armed cg d i c t")
  case False
  have "books_inv (e0\<lparr>triggered := x, arm_fail := y\<rparr>)" for x y
    by (rule books_frame [OF inv]) (auto simp: victim_at_def same_counters_def)
  moreover have "\<exists>x y. e' = e0\<lparr>triggered := x, arm_fail := y\<rparr>"
    using ok False by (auto simp: arm_def Let_def ebind_Inr_iff split: if_splits option.splits)
  ultimately show ?thesis by auto
next
  case True
  then obtain cg d i c t where r: "arm resolved upd room req e0 = Inr (e', Armed cg d i c t)" using ok by blast
  obtain target cfg where E: "0 \<le> sint (ar_count req)"
    "arm_cfg (default_delay_ns e0) req (cfg_at e0 cg) = Some (Inr (i, cfg, t))"
    "victim_map (maps e') = (victim_map (maps e0))(cg \<mapsto> cfg)"
    "victims e' = (victims e0)(cg \<mapsto> record_armed target req (slots cfg ! i) (victim_at e0 cg))"
    by (rule armedE [OF r])
  note A = arm_cfg_effect [OF cfg_at_inv [OF inv] E(1,2)]
  show ?thesis
  proof (rule books_invI)
    fix cg' cfg' assume "victim_map (maps e') cg' = Some cfg'"
    then show "cfg_inv cfg'" using E(3) A books_invD(1) [OF inv] by (auto split: if_splits)
  next
    fix cg'
    show "victim_books (victim_at e' cg') (left_of e' cg') (left_for e' cg')"
    proof (cases "cg' = cg")
      case True
      have "left_of e' cg = left_of e0 cg + sint (ar_count req)"
        "left_for e' cg k = left_for e0 cg k + (if k = fnv1a64 (source_id_of req) then sint (ar_count req) else 0)" for k
        using A E(3) by (simp_all add: cfg_at_left cfg_at_def)
      then have "victim_books (record_armed target req (slots cfg ! i) (victim_at e0 cg)) (left_of e' cg) (left_for e' cg)"
        by (rule record_armed_books [OF books_invD(2) [OF inv] arm_cfg_key [OF cfg_at_inv [OF inv] E(2)]])
      then show ?thesis using E(4) True by (simp add: victim_at_def)
    next
      case False
      then have "left_of e' cg' = left_of e0 cg'" "left_for e' cg' = left_for e0 cg'"
        using E(3) by (auto simp: left_of_def left_for_def)
      then show ?thesis using books_invD(2) [OF inv, of cg'] E(4) False by (simp add: victim_at_def)
    qed
  qed
qed

lemma record_event_books:
  assumes "victim_books v l lk" "l = l' + 1"
    and "\<And>k. lk k = lk' k + (if k = ev_source_key ev then 1 else 0)"
  shows "victim_books (record_outcome ev ok err desc (record_trigger ev delay desc v)) l' lk'"
  using assms
  by (auto simp: victim_books_def source_books_def record_outcome_def record_trigger_def Let_def source_at_def
      algebra_simps)

lemma ensure_source_books:
  assumes "victim_books v l lk" "vr_sources v key = None"
  shows "victim_books (v\<lparr>vr_sources := (vr_sources v)(key \<mapsto> new_source\<lparr>sr_source_key := key, sr_source := desc\<rparr>)\<rparr>) l lk"
proof -
  have "source_books (source_at v k) (lk k)" for k using assms(1) by (simp add: victim_books_def)
  from this [of key] have "source_books new_source (lk key)" using assms(2) by (simp add: source_at_def)
  then show ?thesis using assms by (auto simp: victim_books_def source_books_def new_source_def)
qed

lemma ring_event_books:
  assumes inv: "books_inv e"
  shows "books_inv (on_ring_event upd rc err ev e)"
proof (cases "consume_credit_locked upd (ev_cgroup_id ev) (ev_source_key ev) (slot_index ev) (maps e)")
  case (Pair m taken)
  show ?thesis
  proof (cases taken)
    case None
    then show ?thesis using Pair inv by (simp add: on_ring_event_def)
  next
    case (Some delay)
    let ?cg = "ev_cgroup_id ev" and ?key = "ev_source_key ev"
    let ?e' = "on_ring_event upd rc err ev e"
    obtain cfg i where cfg: "victim_map (maps e) ?cg = Some cfg" "consume_slot cfg ?key (slot_index ev) = Some i"
      "victim_map m = (victim_map (maps e))(?cg \<mapsto> take_credit cfg i)"
      using Pair Some by (auto simp: consume_credit_locked_def split: option.splits if_splits)
    have cinv: "cfg_inv cfg" by (rule books_invD(1) [OF inv cfg(1)])
    note T = take_credit_inv [OF cinv cfg(2)]
    obtain v0 desc ok n where eff: "victim_map (maps ?e') = victim_map m"
      "victims ?e' = (victims e)(?cg \<mapsto> record_outcome ev ok n desc (record_trigger ev delay desc v0))"
      "v0 = victim_at e ?cg \<or> vr_sources (victim_at e ?cg) ?key = None \<and>
        v0 = (victim_at e ?cg)\<lparr>vr_sources := (vr_sources (victim_at e ?cg))(?key \<mapsto>
               new_source\<lparr>sr_source_key := ?key, sr_source := desc\<rparr>)\<rparr>"
    proof -
      have at: "victim_at (e\<lparr>maps := m\<rparr>) cg = victim_at e cg" for cg by (simp add: victim_at_def)
      show thesis
        by (cases "vr_sources (victim_at e ?cg) ?key"; cases "rc (tid ev) delay = 0")
          (rule that, auto simp: on_ring_event_def Pair Some Let_def at)+
    qed
    have books0: "victim_books v0 (left_of e ?cg) (left_for e ?cg)"
      using eff(3) books_invD(2) [OF inv, of ?cg] ensure_source_books by blast
    show ?thesis
    proof (rule books_invI)
      fix cg' cfg' assume "victim_map (maps ?e') cg' = Some cfg'"
      then show "cfg_inv cfg'" using eff(1) cfg(3) T(1) books_invD(1) [OF inv] by (auto split: if_splits)
    next
      fix cg'
      show "victim_books (victim_at ?e' cg') (left_of ?e' cg') (left_for ?e' cg')"
      proof (cases "cg' = ?cg")
        case True
        have "left_of e ?cg = left_of ?e' ?cg + 1"
          "left_for e ?cg k = left_for ?e' ?cg k + (if k = ?key then 1 else 0)" for k
          using T eff(1) cfg(1,3) by (simp_all add: left_of_def left_for_def)
        from record_event_books [OF books0 this] show ?thesis using True eff(2) by (simp add: victim_at_def)
      next
        case False
        then have "left_of ?e' cg' = left_of e cg'" "left_for ?e' cg' = left_for e cg'"
          using eff(1) cfg(3) by (auto simp: left_of_def left_for_def)
        then show ?thesis using books_invD(2) [OF inv, of cg'] eff(2) False by (simp add: victim_at_def)
      qed
    qed
  qed
qed

lemma slots_clear: "slots (clear_cfg cfg) = map (\<lambda>s. s\<lparr>credits := 0, delay_ns := 0\<rparr>) (slots cfg)"
  by (simp add: clear_cfg_def)

lemma clear_cfg_left:
  assumes "cfg_inv cfg"
  shows "cfg_inv (clear_cfg cfg)" "credit_total (clear_cfg cfg) = 0" "credits_of (clear_cfg cfg) k = 0"
proof -
  have len: "length (slots cfg) = 8" using assms by (simp add: cfg_inv_def wf_cfg_def MCOZ_MAX_SOURCE_SLOTS_def)
  show inv: "cfg_inv (clear_cfg cfg)"
    using assms len by (simp add: cfg_inv_def wf_cfg_def slots_clear)
  show "credit_total (clear_cfg cfg) = 0"
    using len by (simp add: credit_total_def slots_clear)
  show "credits_of (clear_cfg cfg) k = 0"
  proof (cases "find_exact_slot (clear_cfg cfg) k")
    case (Some i)
    then show ?thesis using find_exact_slotD [OF Some cfg_invD(1) [OF inv]] len by (simp add: credits_of_def slots_clear)
  qed (simp add: credits_of_def)
qed

lemma clear_victim_at: "victim_at (clear b upd ok e) cg = clear_victim (victim_at e cg)"
  by (cases "victims e cg") (auto simp: clear_def victim_at_def Let_def clear_victim_def new_victim_def comp_def)

lemma clear_source_at: "source_at (clear_victim v) k = clear_source (source_at v k)"
  by (cases "vr_sources v k") (auto simp: clear_victim_def source_at_def clear_source_def new_source_def)

lemma clear_books:
  assumes inv: "books_inv e"
  shows "books_inv (clear True (\<lambda>_. True) ok e)"
proof (rule books_invI)
  fix cg cfg assume "victim_map (maps (clear True (\<lambda>_. True) ok e)) cg = Some cfg"
  then show "cfg_inv cfg" using books_invD(1) [OF inv] clear_cfg_left(1)
    by (auto simp: clear_def Let_def split: if_splits)
next
  fix cg
  let ?e' = "clear True (\<lambda>_. True) ok e"
  have zero: "word_of_int (left_of ?e' cg) = (0 :: u64) \<and> word_of_int (left_for ?e' cg k) = (0 :: u64)" for k
  proof (cases "victims e cg")
    case None
    then have "victim_at e cg = new_victim" by (simp add: victim_at_def)
    then have "word_of_int (left_of e cg) = (0 :: u64) \<and> word_of_int (left_for e cg k) = (0 :: u64)"
      using books_invD(2) [OF inv, of cg]
      by (auto simp: victim_books_def source_books_def new_victim_def new_source_def source_at_def)
    moreover have "victim_map (maps ?e') cg = victim_map (maps e) cg" using None by (simp add: clear_def Let_def)
    ultimately show ?thesis by (simp add: left_of_def left_for_def)
  next
    case (Some v)
    then have "victim_map (maps ?e') cg = map_option clear_cfg (victim_map (maps e) cg)"
      by (simp add: clear_def Let_def)
    then show ?thesis using clear_cfg_left(2,3) books_invD(1) [OF inv]
      by (cases "victim_map (maps e) cg") (auto simp: left_of_def left_for_def)
  qed
  then show "victim_books (victim_at ?e' cg) (left_of ?e' cg) (left_for ?e' cg)"
    by (simp add: victim_books_def clear_victim_at clear_source_at) (simp add: clear_victim_def source_books_def clear_source_def)
qed

section \<open>Runs of the engine\<close>

text \<open>
  What the engine and the kernel do between a start and a stop. A profile is two steps, so that
  anything may happen while it waits; a clear is the one that takes the credits back too.
\<close>

inductive engine_run :: "credit_engine \<Rightarrow> bool" where
  started: "victim_map (maps e) = (\<lambda>_. None) \<Longrightarrow> victims e = (\<lambda>_. None) \<Longrightarrow> engine_run e"
| arms: "engine_run e \<Longrightarrow> arm resolved upd room req e = Inr (e', r) \<Longrightarrow> engine_run e'"
| handles: "engine_run e \<Longrightarrow> engine_run (on_ring_event upd rc err ev e)"
| polls: "engine_run e \<Longrightarrow> engine_run (poll_events answer e)"
| hooks: "engine_run e \<Longrightarrow> hook_step (maps e) m \<Longrightarrow> engine_run (e\<lparr>maps := m\<rparr>)"
| profile_begins: "engine_run e \<Longrightarrow> engine_run (snd (profile_begin keys raw ok errno cg e))"
| profile_ends: "engine_run e \<Longrightarrow> engine_run (snd (profile_end keys ok errno req cg e))"
| applies: "engine_run e \<Longrightarrow> engine_run (snd (apply_consume_policy resolved ok errno req e))"
| rearms: "engine_run e \<Longrightarrow> engine_run (snd (rearm_message e))"
| clears: "engine_run e \<Longrightarrow> engine_run (clear True (\<lambda>_. True) ok e)"

lemma poll_books:
  assumes "books_inv e" shows "books_inv (poll_events answer e)"
proof -
  have "books_inv e0 \<Longrightarrow>
      books_inv (fold (\<lambda>ev e. case answer ev of (ok, rc, err) \<Rightarrow> on_ring_event ok (\<lambda>_ _. rc) err ev e) evs e0)" for evs e0
    by (induction evs arbitrary: e0) (auto simp: ring_event_books split: prod.split)
  moreover have "books_inv (e\<lparr>maps := (maps e)\<lparr>events := []\<rparr>\<rparr>)"
    by (rule books_frame [OF assms]) (simp_all add: same_counters_def victim_at_def)
  ultimately show ?thesis by (simp add: poll_events_def)
qed

lemma engine_run_books: "engine_run e \<Longrightarrow> books_inv e"
proof (induction rule: engine_run.induct)
  case (started e)
  then have "left_of e cg = 0" "left_for e cg = (\<lambda>_. 0)" "victim_at e cg = new_victim" for cg
    by (auto simp: left_of_def left_for_def victim_at_def)
  with started show ?case
    by (simp add: books_inv_def victim_books_def source_books_def new_victim_def source_at_def new_source_def)
next
  case (hooks e m)
  show ?case
    by (rule books_frame [OF hooks.IH]) (use hook_step_slots [OF hooks.hyps(2)] in \<open>simp_all add: same_counters_def victim_at_def\<close>)
next
  case (profile_begins e keys raw ok errno cg)
  show ?case
    by (rule books_frame [OF profile_begins.IH])
      (auto simp: profile_begin_def clear_syscall_histogram_def Let_def same_counters_def victim_at_def)
next
  case (profile_ends e keys ok errno req cg)
  show ?case
    by (rule books_frame [OF profile_ends.IH])
      (auto simp: profile_end_def Let_def same_counters_def victim_at_def)
next
  case (applies e resolved ok errno req)
  show ?case
    by (rule books_frame [OF applies.IH])
      (auto simp: apply_consume_policy_def Let_def same_counters_def victim_at_def split: option.split)
next
  case (rearms e)
  show ?case
    by (rule books_frame [OF rearms.IH]) (auto simp: rearm_message_def same_counters_def victim_at_def)
qed (auto intro: arm_books ring_event_books poll_books clear_books)


definition sample_target :: resolved_target where
  "sample_target = \<lparr>rt_cgroup_id = 5, rt_cgroup_path = ''/c'', rt_ns = ''ns'', rt_pod = ''p'', rt_container = ''app''\<rparr>"

definition sample_start :: credit_engine where
  "sample_start = new_credit_engine\<lparr>active := True, default_delay_ns := 500\<rparr>"

definition sample_engine :: credit_engine where
  "sample_engine = (case arm (Some sample_target) True True sample_request sample_start of
     Inr (e, r) \<Rightarrow> e | Inl f \<Rightarrow> sample_start)"

definition sample_event :: consume_event where
  "sample_event = \<lparr>ts_ns = 9, ev_cgroup_id = 5, ev_delay_ns = 1000, ev_source_key = fnv1a64 ''ab'',
     tid = 3, tgid = 3, ev_syscall_id = 45, slot_index = 0\<rparr>"

definition sample_served :: credit_engine where
  "sample_served = on_ring_event True (\<lambda>_ _. 0) 0 sample_event sample_engine"

lemma sample_engine_run: "engine_run sample_engine"
proof -
  have "engine_run sample_start"
    by (rule engine_run.started) (simp_all add: sample_start_def new_credit_engine_def fresh_maps_def)
  moreover have "\<exists>r. arm (Some sample_target) True True sample_request sample_start = Inr (sample_engine, r)"
    using sample_arm
    by (simp add: sample_engine_def arm_def Let_def sample_target_def sample_start_def new_credit_engine_def
        fresh_maps_def cfg_at_def sample_request_def)
  ultimately show ?thesis using engine_run.arms by blast
qed

lemma sample_served_counts:
  "vr_injected_ok (victim_at sample_served 5) = 1" "vr_inject_fail (victim_at sample_served 5) = 0"
  "vr_armed_total (victim_at sample_served 5) = 3" "left_of sample_served 5 = 2"
  by code_simp+


section \<open>A clear that keeps the credits\<close>

text \<open>
  Clearing without \<^verbatim>\<open>clear_credits\<close>, the default of the control server, leaves every credit
  armed but makes the status report a miss of 0: from then on the books no longer show the credits
  that are left.
\<close>

theorem plain_clear_hides_credits:
  "left_of (clear False upd ok e) cg = left_of e cg \<and>
   (let v = victim_at (clear False upd ok e) cg
    in miss_of (vr_armed_total v) (vr_injected_ok v) (vr_inject_fail v) = 0)"
  by (simp add: clear_victim_at) (simp add: left_of_def clear_def clear_victim_def miss_of_def Let_def)

end
