(* ===== verification/Credit_Policy.thy ===== *)
theory Credit_Policy
  imports Credit_Lifecycle "HOL-Library.Multiset"
begin

text \<open>
  What a profile recommends and what a started engine consumes: the operations of
  \<open>Credit_Control\<close> and \<open>Credit_Lifecycle\<close> together with the BPF hooks of \<open>Request_Credit\<close>.
\<close>

section \<open>The rows a profile lists\<close>

lemma row_before_trans: "row_before a b \<Longrightarrow> row_before b c \<Longrightarrow> row_before a c"
  by (auto simp: row_before_def split: if_splits)

lemma row_before_total: "a \<noteq> b \<Longrightarrow> row_before a b \<or> row_before b a"
  by (cases a; cases b) (auto simp: row_before_def)

lemma row_before_asym: "row_before a b \<Longrightarrow> \<not> row_before b a"
  by (auto simp: row_before_def split: if_splits)

abbreviation rows_sorted :: "(u32 \<times> u64) list \<Rightarrow> bool" where
  "rows_sorted \<equiv> sorted_wrt (\<lambda>a b. \<not> row_before b a)"

lemma mset_insert_row [simp]: "mset (insert_row r rows) = add_mset r (mset rows)"
  by (induction rows) auto

lemma set_insert_row [simp]: "set (insert_row r rows) = insert r (set rows)"
  by (induction rows) auto

lemma insert_row_sorted: "rows_sorted rows \<Longrightarrow> rows_sorted (insert_row r rows)"
proof (induction rows)
  case (Cons x rows)
  show ?case
  proof (cases "row_before x r")
    case True
    then show ?thesis using Cons row_before_asym [OF True] by simp
  next
    case False
    have "\<not> row_before y r" if "y \<in> set rows" for y
    proof
      assume "row_before y r"
      then have "row_before y x" using False row_before_total [of x r] row_before_trans [of y r x] by (cases "x = r") auto
      then show False using Cons.prems that by simp
    qed
    then show ?thesis using Cons.prems False by simp
  qed
qed simp

lemma sort_rows_spec: "mset (sort_rows rows) = mset rows \<and> rows_sorted (sort_rows rows)"
  by (induction rows) (auto simp: sort_rows_def insert_row_sorted)

lemma profile_endE:
  assumes "profile_end keys ok errno req cg e = (Profiled cg' rows t flags, e')"
  obtains "cg' = cg" "rows = take (unat (clamp (pq_top_k req) 1 64)) (sort_rows (collect_syscall_histogram keys cg (maps e)))"
    "t = totals_of rows" "flags = recommended_flags t"
    "pq_apply_policy req \<Longrightarrow> consume_policy_map (maps e') cg = Some flags"
proof -
  have "collect_syscall_histogram keys cg (m\<lparr>probe_targets := p\<rparr>) = collect_syscall_histogram keys cg m" for m p
    by (induction keys) (auto split: option.split)
  then show thesis using assms that by (auto simp: profile_end_def Let_def split: if_splits)
qed

text \<open>
  A profile lists the most frequent system calls the kernel counted for the cgroup: as many as
  asked for, most frequent first, and none that was left out is more frequent than one in the list.
\<close>

theorem profile_lists_most_frequent:
  assumes "profile_end keys ok errno req cg e = (Profiled cg' rows t flags, e')"
    and "seen = collect_syscall_histogram keys cg (maps e)"
  shows "length rows = min (length seen) (unat (clamp (pq_top_k req) 1 64)) \<and>
     mset rows \<subseteq># mset seen \<and> rows_sorted rows \<and>
     (\<forall>r\<in>#mset seen - mset rows. \<forall>q\<in>set rows. \<not> row_before r q)"
proof -
  let ?k = "unat (clamp (pq_top_k req) 1 64)"
  have rows: "rows = take ?k (sort_rows seen)" using profile_endE [OF assms(1)] assms(2) by metis
  have parts: "rows @ drop ?k (sort_rows seen) = sort_rows seen" by (simp add: rows)
  have sorted: "rows_sorted (rows @ drop ?k (sort_rows seen))" unfolding parts using sort_rows_spec by blast
  have ms: "mset seen = mset rows + mset (drop ?k (sort_rows seen))"
    using sort_rows_spec [of seen] parts by (metis mset_append)
  then have "mset seen - mset rows = mset (drop ?k (sort_rows seen))" by simp
  moreover have "length rows = min (length seen) ?k"
    using sort_rows_spec [of seen] by (simp add: rows min.commute) (metis size_mset)
  moreover have "rows_sorted rows" "\<forall>q\<in>set rows. \<forall>r\<in>set (drop ?k (sort_rows seen)). \<not> row_before r q"
    using sorted unfolding sorted_wrt_append by blast+
  moreover have "mset rows \<subseteq># mset seen" using ms by simp
  ultimately show ?thesis by simp
qed

section \<open>The policy a profile recommends\<close>

definition recv_calls :: "u32 set" where "recv_calls = {45, 47, 299}"
definition read_calls :: "u32 set" where "read_calls = {0, 17, 19}"
definition io_uring_calls :: "u32 set" where "io_uring_calls = {425, 426}"

lemma sum_words_no_wrap:
  assumes "(\<Sum>r\<leftarrow>rows. unat (snd r :: u64)) < 2 ^ 64"
  shows "unat (\<Sum>r\<leftarrow>rows. snd r) = (\<Sum>r\<leftarrow>rows. unat (snd r))"
  using assms
proof (induction rows)
  case (Cons r rows)
  then have "unat (snd r + (\<Sum>r\<leftarrow>rows. snd r)) = unat (snd r) + unat (\<Sum>r\<leftarrow>rows. snd r)"
    by (intro unat_add_lem [THEN iffD1]) simp
  then show ?case using Cons by simp
qed simp

lemma sum_filter_pos:
  assumes "(\<Sum>r\<leftarrow>rows. unat (snd r :: u64)) < 2 ^ 64" "\<forall>r\<in>set rows. snd r > 0"
  shows "(\<Sum>r\<leftarrow>filter P rows. snd r) > 0 \<longleftrightarrow> (\<exists>r\<in>set rows. P r)"
proof -
  have "(\<Sum>r\<leftarrow>filter P rows. unat (snd r)) \<le> (\<Sum>r\<leftarrow>rows. unat (snd r))"
    by (induction rows) auto
  then have "unat (\<Sum>r\<leftarrow>filter P rows. snd r) = (\<Sum>r\<leftarrow>filter P rows. unat (snd r))"
    using assms(1) by (intro sum_words_no_wrap) simp
  moreover have "(\<Sum>r\<leftarrow>filter P rows. unat (snd r)) > 0 \<longleftrightarrow> (\<exists>r\<in>set rows. P r)"
    using assms(2) by (induction rows) (auto simp: word_gt_0 unat_eq_0)
  ultimately show ?thesis by (metis unat_gt_0 word_gt_0)
qed

lemma count_of_add:
  "distinct (i # is) \<Longrightarrow> count_of rows i + (\<Sum>r\<leftarrow>filter (\<lambda>r. fst r \<in> set is) rows. snd r) =
     (\<Sum>r\<leftarrow>filter (\<lambda>r. fst r \<in> set (i # is)) rows. snd r)"
  by (induction rows) (auto simp: count_of_def algebra_simps)

lemma totals_of_sums:
  "recv_total (totals_of rows) = (\<Sum>r\<leftarrow>filter (\<lambda>r. fst r \<in> recv_calls) rows. snd r)"
  "read_total (totals_of rows) = (\<Sum>r\<leftarrow>filter (\<lambda>r. fst r \<in> read_calls) rows. snd r)"
  "io_uring_total (totals_of rows) = (\<Sum>r\<leftarrow>filter (\<lambda>r. fst r \<in> io_uring_calls) rows. snd r)"
proof -
  have one: "count_of rows i = (\<Sum>r\<leftarrow>filter (\<lambda>r. fst r \<in> set [i]) rows. snd r)" for i
    by (simp add: count_of_def)
  show "recv_total (totals_of rows) = (\<Sum>r\<leftarrow>filter (\<lambda>r. fst r \<in> recv_calls) rows. snd r)"
    using count_of_add [of 47 "[299]" rows] count_of_add [of 45 "[47, 299]" rows] one [of 299]
    by (simp add: totals_of_def recv_calls_def add.assoc)
  show "read_total (totals_of rows) = (\<Sum>r\<leftarrow>filter (\<lambda>r. fst r \<in> read_calls) rows. snd r)"
    using count_of_add [of 17 "[19]" rows] count_of_add [of 0 "[17, 19]" rows] one [of 19]
    by (simp add: totals_of_def read_calls_def add.assoc)
  show "io_uring_total (totals_of rows) = (\<Sum>r\<leftarrow>filter (\<lambda>r. fst r \<in> io_uring_calls) rows. snd r)"
    using count_of_add [of 425 "[426]" rows] one [of 426]
    by (simp add: totals_of_def io_uring_calls_def)
qed

lemma collect_positive: "r \<in> set (collect_syscall_histogram keys cg m) \<Longrightarrow> snd r > 0"
  by (induction keys) (auto split: option.splits if_splits)

lemma recommended_consumes:
  assumes "consume_policy_map st cg = Some (recommended_flags t)"
  shows "should_consume_raw st cg i \<longleftrightarrow>
     i \<in> recv_calls \<and> (recv_total t > 0 \<or> \<not> (read_total t > 0 \<or> io_uring_total t > 0)) \<or>
     i \<in> read_calls \<and> read_total t > 0 \<or> i \<in> io_uring_calls \<and> io_uring_total t > 0"
  using assms
  by (cases "recv_total t > 0"; cases "read_total t > 0"; cases "io_uring_total t > 0")
    (simp_all add: should_consume_raw_def recommended_flags_def Let_def consume_flag_defs syscall_nr_defs
      recv_calls_def read_calls_def io_uring_calls_def)


section \<open>What a started engine consumes\<close>

text \<open>One system call under the programs that are attached, in the order the kernel runs them.\<close>

definition deliver_attached ::
  "request_engine \<Rightarrow> bpf_env \<Rightarrow> bpf_env \<Rightarrow> bpf_env \<Rightarrow> u32 \<Rightarrow> i64 \<Rightarrow> bpf_state \<Rightarrow> bpf_state" where
  "deliver_attached re e1 e2 e3 sid ret st =
     (let st1 = (if raw_link re then mcoz_on_raw_sys_enter e1 (ucast sid) st else st);
          st2 = (if sid = NR_recvfrom \<and> recvfrom_link re then mcoz_on_recvfrom e2 (ucast sid) st1
                 else if sid = NR_recvmsg \<and> recvmsg_link re then mcoz_on_recvmsg e2 (ucast sid) st1 else st1)
      in if sid = NR_read \<and> read_link re then mcoz_on_read e3 ret st2 else st2)"

lemma startE:
  assumes "start c ld delay rh re0 = (None, re)" "\<not> active (engine re0)" "flags_ok ld"
  obtains "active (engine re)" "raw_link re \<or> recvfrom_link re" "recvmsg_link re = recvfrom_link re"
    "runtime_flags_map (maps (engine re)) =
       Some \<lparr>rf_raw_consume_enabled = (if raw_link re then 1 else 0),
             rf_read_exit_hook_enabled = (if read_link re then 1 else 0)\<rparr>"
    "victim_map (maps (engine re)) = (\<lambda>_. None)"
  using assms
  by (auto simp: start_def Let_def attach_links_def set_runtime_flags_def fresh_maps_def split: if_splits)


section \<open>Concrete profiles and starts\<close>

definition profiled_engine :: credit_engine where
  "profiled_engine = new_credit_engine\<lparr>active := True, maps := fresh_maps\<lparr>
     syscall_hist_map := [(7, 0) \<mapsto> 4, (7, 45) \<mapsto> 9, (8, 45) \<mapsto> 1]\<rparr>\<rparr>"

definition profile_of :: "u32 \<Rightarrow> profile_request" where
  "profile_of k = \<lparr>pq_ns = ''n'', pq_pod = ''p'', pq_duration_ms = 100, pq_top_k = k, pq_apply_policy = True\<rparr>"

lemma profiled_rows:
  "fst (profile_end [(7, 0), (8, 45), (7, 45)] True 0 (profile_of 1) 7 profiled_engine) =
     Profiled 7 [(45, 9)] \<lparr>recv_total = 9, read_total = 0, io_uring_total = 0\<rparr> 7"
  by code_simp

lemma profiled_result:
  "profile_end [(7, 0), (8, 45), (7, 45)] True 0 (profile_of 1) 7 profiled_engine =
     (Profiled 7 [(45, 9)] \<lparr>recv_total = 9, read_total = 0, io_uring_total = 0\<rparr> 7,
      snd (profile_end [(7, 0), (8, 45), (7, 45)] True 0 (profile_of 1) 7 profiled_engine))"
  by (rule prod_eqI) (simp_all add: profiled_rows)

theorem profile_lists_most_frequent_witness:
  "rows_sorted [(45, 9)] \<and> mset [(45, 9)] \<subseteq>#
     mset (collect_syscall_histogram [(7, 0), (8, 45), (7, 45)] 7 (maps profiled_engine))"
  using profile_lists_most_frequent [OF profiled_result refl] by blast


definition sample_loader :: bpf_loader where
  "sample_loader = \<lparr>env_obj = None, readable = (\<lambda>_. True), open_ok = True, load_ok = True,
     maps_found = True, progs_found = True, read_prog_found = True, attach_recvfrom = True,
     attach_recvmsg = True, attach_raw = True, attach_read = True, flags_ok = True, ring_ok = True\<rparr>"

definition started_sample :: request_engine where
  "started_sample = snd (start ''o'' sample_loader 5 False new_engine)"

lemma start_sample: "start ''o'' sample_loader 5 False new_engine = (None, started_sample)"
  by (simp add: started_sample_def start_def Let_def resolve_bpf_obj_path_def sample_loader_def new_engine_def
      new_credit_engine_def attach_links_def)


end
