(* ===== verification/Control_Http.thy ===== *)
theory Control_Http
  imports C_Text
begin

text \<open>
  The request side of the host controller's HTTP and UDP endpoints, \<^verbatim>\<open>hostctl_cpp/perf.cpp\<close>:
  receiving a request, the request line, headers and body, query strings and their decoding, the
  flat JSON reader, and the parameters of the requests. What \<^verbatim>\<open>recv\<close> returns is the argument: a
  list of the bytes of each call, empty where the call fails or the peer has closed.
\<close>

section \<open>Percent decoding and query strings\<close>

definition hex_to_int :: "char \<Rightarrow> nat option" where
  "hex_to_int c =
     (if 48 \<le> char_code c \<and> char_code c \<le> 57 then Some (char_code c - 48)
      else if 97 \<le> char_code c \<and> char_code c \<le> 102 then Some (char_code c - 97 + 10)
      else if 65 \<le> char_code c \<and> char_code c \<le> 70 then Some (char_code c - 65 + 10)
      else None)"

fun url_decode :: "string \<Rightarrow> string" where
  "url_decode (c # a # b # s) =
     (if c = CHR ''+'' then CHR '' '' # url_decode (a # b # s)
      else if c = CHR ''%''
      then (case (hex_to_int a, hex_to_int b) of
              (Some hi, Some lo) \<Rightarrow> char_of (hi * 16 + lo) # url_decode s
            | _ \<Rightarrow> c # url_decode (a # b # s))
      else c # url_decode (a # b # s))"
| "url_decode (c # s) = (if c = CHR ''+'' then CHR '' '' else c) # url_decode s"
| "url_decode [] = []"

definition split_path_query :: "string \<Rightarrow> string \<times> string" where
  "split_path_query raw =
     (if CHR ''?'' \<in> set raw then (before_char CHR ''?'' raw, after_char CHR ''?'' raw) else (raw, []))"

type_synonym params = "string \<rightharpoonup> string"

definition query_entry :: "string \<Rightarrow> params \<Rightarrow> params" where
  "query_entry one q =
     (if one = [] then q
      else q(url_decode (before_char CHR ''='' one) \<mapsto>
             url_decode (if CHR ''='' \<in> set one then after_char CHR ''='' one else [])))"

function query_loop :: "string \<Rightarrow> params \<Rightarrow> params" where
  "query_loop s q =
     (let q' = query_entry (before_char CHR ''&'' s) q
      in if CHR ''&'' \<in> set s then query_loop (after_char CHR ''&'' s) q' else q')"
  by pat_completeness auto
termination
  by (relation "measure (\<lambda>(s, q). length s)") (auto intro: length_after_char)

declare query_loop.simps [simp del]

definition parse_query_map :: "string \<Rightarrow> params" where
  "parse_query_map query = query_loop query (\<lambda>_. None)"

definition map_get :: "params \<Rightarrow> string \<Rightarrow> string" where
  "map_get m k = (case m k of None \<Rightarrow> [] | Some v \<Rightarrow> v)"

section \<open>The flat JSON reader\<close>

definition json_escape_char :: "char \<Rightarrow> char" where
  "json_escape_char esc =
     (if esc = CHR ''b'' then CHR 0x08
      else if esc = CHR ''f'' then CHR 0x0C
      else if esc = CHR ''n'' then CHR 0x0A
      else if esc = CHR ''r'' then CHR 0x0D
      else if esc = CHR ''t'' then CHR 0x09
      else esc)"

text \<open>The characters of a string token after its opening quote, and what follows the closing one.\<close>

fun json_chars :: "string \<Rightarrow> (string \<times> string) option" where
  "json_chars [] = None"
| "json_chars (c # s) =
     (if c = CHR 0x22 then Some ([], s)
      else if c = CHR 0x5C \<and> s \<noteq> []
      then map_option (\<lambda>r. (json_escape_char (hd s) # fst r, snd r)) (json_chars (tl s))
      else map_option (\<lambda>r. (c # fst r, snd r)) (json_chars s))"

definition parse_json_string_token :: "string \<Rightarrow> (string \<times> string) option" where
  "parse_json_string_token s =
     (case s of [] \<Rightarrow> None | c # r \<Rightarrow> if c = CHR 0x22 then json_chars r else None)"

lemma json_chars_shorter: "json_chars s = Some (v, r) \<Longrightarrow> length r < length s"
proof (induction s arbitrary: v r rule: json_chars.induct)
  case (2 c s)
  then show ?case by (cases s) (fastforce split: if_splits)+
qed simp

lemma token_shorter: "parse_json_string_token s = Some (v, r) \<Longrightarrow> length r < length s"
  by (auto simp: parse_json_string_token_def dest!: json_chars_shorter split: list.splits if_splits)

text \<open>A value and the text after it; \<open>None\<close> where the loop breaks off.\<close>

definition json_value :: "string \<Rightarrow> (string \<times> string) option" where
  "json_value s =
     (if s = [] then None
      else if hd s = CHR 0x22 then parse_json_string_token s
      else Some (trim (takeWhile (\<lambda>c. c \<noteq> CHR '','' \<and> c \<noteq> CHR ''}'') s),
                 dropWhile (\<lambda>c. c \<noteq> CHR '','' \<and> c \<noteq> CHR ''}'') s))"

definition json_member :: "string \<Rightarrow> ((string \<times> string) \<times> string) option" where
  "json_member s =
     (case parse_json_string_token s of
        None \<Rightarrow> None
      | Some (key, s1) \<Rightarrow>
          (case skip_spaces s1 of
             [] \<Rightarrow> None
           | c # s2 \<Rightarrow>
               if c = CHR '':''
               then map_option (\<lambda>r. ((key, fst r), snd r)) (json_value (skip_spaces s2))
               else None))"

lemma skip_spaces_length: "length (skip_spaces s) \<le> length s"
  by (induction s) auto

lemma json_member_shorter: "json_member s = Some (kv, r) \<Longrightarrow> length r < length s"
proof -
  assume "json_member s = Some (kv, r)"
  then obtain key s1 c s2 v where *: "parse_json_string_token s = Some (key, s1)"
    "skip_spaces s1 = c # s2" "json_value (skip_spaces s2) = Some (v, r)"
    by (auto simp: json_member_def split: option.splits list.splits if_splits prod.splits)
  have "length r \<le> length (skip_spaces s2)"
    using *(3) token_shorter [of "skip_spaces s2" v r] length_dropWhile_le
    by (auto simp: json_value_def less_imp_le split: if_splits)
  also have "\<dots> \<le> length s1" using *(2) skip_spaces_length [of s1] skip_spaces_length [of s2] by simp
  also have "\<dots> < length s" by (rule token_shorter [OF *(1)])
  finally show ?thesis .
qed

function flat_json_loop :: "string \<Rightarrow> params \<Rightarrow> params" where
  "flat_json_loop s q =
     (case skip_spaces s of
        [] \<Rightarrow> q
      | c # r \<Rightarrow>
          if c = CHR ''}'' then q
          else if c = CHR '','' then flat_json_loop r q
          else
            (case json_member (c # r) of
               None \<Rightarrow> q
             | Some (kv, s5) \<Rightarrow>
                 let q' = (if fst kv \<noteq> [] then q(fst kv \<mapsto> snd kv) else q);
                     s6 = skip_spaces s5
                 in flat_json_loop (if s6 \<noteq> [] \<and> hd s6 = CHR '','' then tl s6 else s6) q'))"
  by pat_completeness auto
termination
proof (relation "measure (\<lambda>(s, q). length s)", goal_cases)
  case (2 s q c r)
  then show ?case using skip_spaces_length [of s] by simp
next
  case (3 s q c r x kv s5 q' s6)
  then have "length s5 < length (c # r)" using json_member_shorter by blast
  moreover have "length s6 \<le> length s5" using 3 by (simp add: skip_spaces_length)
  ultimately show ?case using 3 skip_spaces_length [of s] by (cases s6) auto
qed simp

declare flat_json_loop.simps [simp del]

definition parse_flat_json_object :: "string \<Rightarrow> params" where
  "parse_flat_json_object body =
     (case skip_spaces body of
        [] \<Rightarrow> (\<lambda>_. None)
      | c # r \<Rightarrow> if c = CHR 0x7B then flat_json_loop r (\<lambda>_. None) else (\<lambda>_. None))"

section \<open>Requests\<close>

definition crlf :: string where "crlf = [CHR 0x0D, CHR 0x0A]"

definition parse_http_method_path :: "string \<Rightarrow> (string \<times> string) option" where
  "parse_http_method_path req =
     (let w1 = next_word req; w2 = next_word (snd w1); method = fst w1; path = fst w2
      in if method = [] \<or> path = [] then None
         else if \<not> (method = ''GET'' \<or> method = ''POST'') then None
         else Some (method, path))"

text \<open>The \<^verbatim>\<open>content-length\<close> among the header lines; a line counts when it ends by the end of the headers.\<close>

definition length_value :: "string \<Rightarrow> nat option" where
  "length_value v =
     (case strtoull (c_str (trim v)) of
        (n, rest, err) \<Rightarrow> if \<not> err \<and> rest = [] then Some (unat n) else None)"

definition header_length :: "string \<Rightarrow> nat \<Rightarrow> nat" where
  "header_length line cl =
     (if CHR '':'' \<in> set line \<and> map to_lower (before_char CHR '':'' line) = ''content-length''
      then (case length_value (after_char CHR '':'' line) of None \<Rightarrow> cl | Some n \<Rightarrow> n)
      else cl)"

text \<open>\<open>left\<close> is the distance from the start of the line to the end of the headers.\<close>

function content_length_loop :: "string \<Rightarrow> nat \<Rightarrow> nat \<Rightarrow> nat" where
  "content_length_loop s left cl =
     (if left = 0 then cl
      else case find_sub crlf s of
             None \<Rightarrow> cl
           | Some i \<Rightarrow>
               if left < i then cl
               else content_length_loop (drop (i + 2) s) (left - (i + 2)) (header_length (take i s) cl))"
  by pat_completeness auto
termination by (relation "measure (\<lambda>(s, left, cl). left)") auto

declare content_length_loop.simps [simp del]

text \<open>Whether what has been received is a whole request (sizes are far below \<open>2 ^ 64\<close>).\<close>

definition request_complete :: "string \<Rightarrow> bool" where
  "request_complete out =
     (case find_sub (crlf @ crlf) out of
        None \<Rightarrow> False
      | Some hdr_end \<Rightarrow> (hdr_end + 4 + content_length_loop out hdr_end 0) mod 2 ^ 64 \<le> length out)"

fun recv_http_loop :: "string list \<Rightarrow> string \<Rightarrow> bool \<times> string" where
  "recv_http_loop [] out = (out \<noteq> [], out)"
| "recv_http_loop (got # recvs) out =
     (if 64 * 1024 \<le> length out \<or> got = [] then (out \<noteq> [], out)
      else if request_complete (out @ got) then (True, out @ got)
      else recv_http_loop recvs (out @ got))"

definition recv_http_request :: "string list \<Rightarrow> bool \<times> string" where
  "recv_http_request recvs = recv_http_loop recvs []"

definition header_entry :: "string \<Rightarrow> params \<Rightarrow> params" where
  "header_entry line0 headers =
     (let line = (if line0 \<noteq> [] \<and> last line0 = CHR 0x0D then butlast line0 else line0)
      in if CHR '':'' \<in> set line
         then headers(map to_lower (trim (before_char CHR '':'' line)) \<mapsto> trim (after_char CHR '':'' line))
         else headers)"

definition parse_http_headers_and_body :: "string \<Rightarrow> params \<times> string" where
  "parse_http_headers_and_body req =
     (case find_sub (crlf @ crlf) req of
        None \<Rightarrow> (\<lambda>_. None, [])
      | Some hdr_end \<Rightarrow>
          (fold header_entry (tl (get_lines (CHR 0x0A) (take hdr_end req))) (\<lambda>_. None), drop (hdr_end + 4) req))"

definition merge_body_params :: "params \<Rightarrow> string \<Rightarrow> params \<Rightarrow> params" where
  "merge_body_params headers body q =
     (if body = [] then q
      else
        let lc = map to_lower (map_get headers ''content-type'')
        in q ++ (if contains ''application/json'' lc then parse_flat_json_object body
                 else if contains ''application/x-www-form-urlencoded'' lc \<or> contains ''text/plain'' lc \<or> lc = []
                 then parse_query_map body
                 else (\<lambda>_. None)))"

section \<open>Parameters\<close>

definition parse_uint64_param :: "string \<Rightarrow> u64 option" where
  "parse_uint64_param s =
     (if s = [] then None
      else case strtoull (c_str s) of
             (v, rest, err) \<Rightarrow> if err \<or> rest = c_str s \<or> rest \<noteq> [] then None else Some v)"

definition parse_int64_param :: "string \<Rightarrow> i64 option" where
  "parse_int64_param s =
     (if s = [] then None
      else case strtoll (c_str s) of
             (v, rest, err) \<Rightarrow> if err \<or> rest = c_str s \<or> rest \<noteq> [] then None else Some v)"

definition parse_bool_param :: "string \<Rightarrow> bool \<Rightarrow> bool" where
  "parse_bool_param s defv =
     (let t = map to_lower s
      in if s = [] then defv
         else if t \<in> {''1'', ''true'', ''yes'', ''on''} then True
         else if t \<in> {''0'', ''false'', ''no'', ''off''} then False
         else defv)"

text \<open>The parameters that name a pod, with their two spellings and the default container.\<close>

definition param_or :: "params \<Rightarrow> string \<Rightarrow> string \<Rightarrow> string" where
  "param_or q k k' = (if map_get q k \<noteq> [] then map_get q k else map_get q k')"

definition param_container :: "params \<Rightarrow> string" where
  "param_container q = (if map_get q ''container'' = [] then ''app'' else map_get q ''container'')"

record pod_request =
  pr_ns :: string
  pr_pod :: string
  pr_container :: string

record arm_params = pod_request +
  ap_source :: string
  ap_delay_ns :: u64
  ap_count :: i64

record policy_params = pod_request +
  pp_raw_flags :: u32

definition parse_request_arm_from_map :: "params \<Rightarrow> string + arm_params" where
  "parse_request_arm_from_map q =
     (let delay_s = param_or q ''delay_ns'' ''delayNs'';
          count_s = map_get q ''count'';
          delay = (if delay_s = [] then Some 0 else parse_uint64_param delay_s);
          cnt = (if count_s = [] then Some 1 else parse_int64_param count_s)
      in case delay of
           None \<Rightarrow> Inl ''invalid delay_ns''
         | Some d \<Rightarrow>
             (case cnt of
                None \<Rightarrow> Inl ''invalid count''
              | Some n \<Rightarrow>
                  if param_or q ''namespace'' ''ns'' = [] \<or> map_get q ''pod'' = []
                  then Inl ''namespace and pod are required''
                  else Inr \<lparr>pr_ns = param_or q ''namespace'' ''ns'', pr_pod = map_get q ''pod'',
                            pr_container = param_container q, ap_source = param_or q ''source'' ''source_id'',
                            ap_delay_ns = d, ap_count = n\<rparr>))"

definition parse_consume_policy_from_map :: "params \<Rightarrow> string + policy_params" where
  "parse_consume_policy_from_map q =
     (case parse_uint64_param (param_or q ''raw_flags'' ''rawFlags'') of
        None \<Rightarrow> Inl ''invalid raw_flags''
      | Some f \<Rightarrow>
          if f = 0 \<or> 0xFFFFFFFF < f then Inl ''invalid raw_flags''
          else if param_or q ''namespace'' ''ns'' = [] \<or> map_get q ''pod'' = []
          then Inl ''namespace and pod are required''
          else Inr \<lparr>pr_ns = param_or q ''namespace'' ''ns'', pr_pod = map_get q ''pod'',
                    pr_container = param_container q, pp_raw_flags = ucast f\<rparr>)"

end
