(* ===== verification/Control_Http_Facts.thy ===== *)
theory Control_Http_Facts
  imports Control_Http
begin

text \<open>
  The correctness of the request parsing: percent decoding and query strings are read back, a
  request is received whole however it is cut into packets, and what the parameter readers accept.
\<close>

section \<open>Percent decoding\<close>

text \<open>
  The encodings of a string: a character as it is (but the two that are special), a blank as a
  plus sign, any character as a percent sign and two digits in either case.
\<close>

inductive url_encodes :: "string \<Rightarrow> string \<Rightarrow> bool" where
  enc_nil: "url_encodes [] []"
| enc_plain: "url_encodes s e \<Longrightarrow> c \<noteq> CHR ''+'' \<Longrightarrow> c \<noteq> CHR ''%'' \<Longrightarrow> url_encodes (c # s) (c # e)"
| enc_plus: "url_encodes s e \<Longrightarrow> url_encodes (CHR '' '' # s) (CHR ''+'' # e)"
| enc_percent: "url_encodes s e \<Longrightarrow> hex_to_int a = Some hi \<Longrightarrow> hex_to_int b = Some lo \<Longrightarrow>
    url_encodes (char_of (hi * 16 + lo) # s) (CHR ''%'' # a # b # e)"

lemma url_decode_plain: "c \<noteq> CHR ''%'' \<Longrightarrow> url_decode (c # e) = (if c = CHR ''+'' then CHR '' '' else c) # url_decode e"
  by (cases e; cases "tl e") auto

lemma url_decode_encodes: "url_encodes s e \<Longrightarrow> url_decode e = s"
  by (induction rule: url_encodes.induct) (simp_all add: url_decode_plain)

text \<open>The encoding that leaves nothing as it is.\<close>

definition url_encode :: "string \<Rightarrow> string" where
  "url_encode s = concat (map (\<lambda>c. [CHR ''%'', hex_char (char_code c div 16), hex_char (char_code c mod 16)]) s)"

lemma code_bound [simp]: "char_code c < 256"
  by (simp add: char_code_def)

lemma code_char_of: "n < 256 \<Longrightarrow> char_code (char_of n) = n"
  by (simp add: char_code_def of_char_of)

lemma char_of_code [simp]: "char_of (char_code c) = c"
  by (simp add: char_code_def)

lemma hex_to_int_char: "d < 16 \<Longrightarrow> hex_to_int (hex_char d) = Some d"
  by (simp add: hex_to_int_def hex_char_def code_char_of)

lemma hex_char_plain: "d < 16 \<Longrightarrow> char_code (hex_char d) \<in> {48..57} \<union> {97..102}"
  by (auto simp: hex_char_def code_char_of)

lemma url_encode_encodes: "url_encodes s (url_encode s)"
proof (induction s)
  case Nil
  show ?case by (simp add: url_encode_def enc_nil)
next
  case (Cons c s)
  have "char_code c div 16 < 16" "char_code c mod 16 < 16" using code_bound [of c] by (auto simp: less_mult_imp_div_less)
  from enc_percent [OF Cons hex_to_int_char [OF this(1)] hex_to_int_char [OF this(2)]]
  show ?case by (simp add: url_encode_def)
qed

lemma url_encode_chars:
  assumes "c \<in> set (url_encode s)"
  shows "c = CHR ''%'' \<or> char_code c \<in> {48..57} \<union> {97..102}"
proof -
  obtain x where "c \<in> {CHR ''%'', hex_char (char_code x div 16), hex_char (char_code x mod 16)}"
    using assms by (auto simp: url_encode_def split: if_splits)
  moreover have "char_code x div 16 < 16" "char_code x mod 16 < 16"
    using code_bound [of x] by (auto simp: less_mult_imp_div_less)
  ultimately show ?thesis using hex_char_plain by blast
qed

lemma url_encode_no: "CHR ''&'' \<notin> set (url_encode s)" "CHR ''='' \<notin> set (url_encode s)"
  using url_encode_chars [of "CHR ''&''" s] url_encode_chars [of "CHR ''=''" s] by (auto simp: char_code_def)

section \<open>Query strings\<close>

definition query_pair :: "string \<times> string \<Rightarrow> string" where
  "query_pair kv = url_encode (fst kv) @ CHR ''='' # url_encode (snd kv)"

fun query_string :: "(string \<times> string) list \<Rightarrow> string" where
  "query_string [] = []"
| "query_string [kv] = query_pair kv"
| "query_string (kv # kvs) = query_pair kv @ CHR ''&'' # query_string kvs"

lemma query_entry_pair: "query_entry (query_pair kv) q = q(fst kv \<mapsto> snd kv)"
  using url_encode_no [of "fst kv"]
  by (simp add: query_entry_def query_pair_def split_at_char url_decode_encodes [OF url_encode_encodes])

lemma query_loop_pairs: "kvs \<noteq> [] \<Longrightarrow> query_loop (query_string kvs) q = q ++ map_of (rev kvs)"
proof (induction kvs arbitrary: q rule: query_string.induct)
  case (2 kv)
  have "CHR ''&'' \<notin> set (query_pair kv)" by (simp add: query_pair_def url_encode_no)
  then show ?case by (subst query_loop.simps) (simp add: before_char_none query_entry_pair)
next
  case (3 kv kv' kvs)
  have "CHR ''&'' \<notin> set (query_pair kv)" by (simp add: query_pair_def url_encode_no)
  then show ?case using 3
    by (subst query_loop.simps) (simp add: split_at_char query_entry_pair map_add_def fun_eq_iff split: option.splits)
qed simp

text \<open>
  Any parameters, with any bytes in their names and values, written as a percent-encoded query
  string are read back; of two entries with one name the last wins.
\<close>

theorem query_string_roundtrip: "parse_query_map (query_string kvs) = map_of (rev kvs)"
proof (cases kvs)
  case Nil
  then show ?thesis by (simp add: parse_query_map_def query_loop.simps before_char_def query_entry_def)
next
  case (Cons kv kvs')
  then show ?thesis using query_loop_pairs [of kvs "\<lambda>_. None"] by (simp add: parse_query_map_def map_add_def fun_eq_iff split: option.splits)
qed

section \<open>Receiving a request\<close>

text \<open>
  Headers that end where the blank line begins (no blank line inside), and the body length they
  declare.
\<close>

definition header_ok :: "string \<Rightarrow> bool" where
  "header_ok hdr \<longleftrightarrow> find_sub (crlf @ crlf) (hdr @ crlf @ crlf) = Some (length hdr)"

definition declared_length :: "string \<Rightarrow> nat" where
  "declared_length hdr = content_length_loop (hdr @ crlf @ crlf) (length hdr) 0"

lemma length_crlf [simp]: "length crlf = 2"
  by (simp add: crlf_def)

lemma find_sub_append:
  assumes "find_sub pat s = Some i"
  shows "find_sub pat (s @ t) = Some i"
proof (rule find_sub_intro)
  have i: "i + length pat \<le> length s" "take (length pat) (drop i s) = pat"
    using find_sub_Some [OF assms] by auto
  then show "take (length pat) (drop i (s @ t)) = pat" by simp
  fix j assume "j < i"
  then show "take (length pat) (drop j (s @ t)) \<noteq> pat"
    using find_sub_first [OF assms \<open>j < i\<close>] i(1) by simp
qed

lemma find_sub_take:
  assumes "find_sub pat s = Some i" "k < i + length pat"
  shows "find_sub pat (take k s) = None"
proof (rule ccontr)
  assume "find_sub pat (take k s) \<noteq> None"
  then obtain j where j: "find_sub pat (take k s) = Some j" by blast
  have "find_sub pat (take k s @ drop k s) = Some j" by (rule find_sub_append [OF j])
  then have "j = i" using assms(1) by simp
  then show False using find_sub_Some [OF j] assms(2) by simp
qed

lemma find_sub_late:
  assumes "find_sub pat s = None" "find_sub pat (s @ t) = Some i"
  shows "length s < i + length pat"
proof (rule ccontr)
  assume "\<not> ?thesis"
  then have "take (length pat) (drop i s) = pat" using find_sub_Some [OF assms(2)] by simp
  then show False using find_sub_None [OF assms(1)] by blast
qed

lemma content_length_append:
  "left + 2 \<le> length s \<Longrightarrow> content_length_loop (s @ t) left cl = content_length_loop s left cl"
proof (induction s left cl rule: content_length_loop.induct)
  case (1 s left cl)
  show ?case
  proof (cases "left = 0")
    case True
    then show ?thesis by (simp add: content_length_loop.simps)
  next
    case False
    show ?thesis
    proof (cases "find_sub crlf s")
      case None
      then have "left < i" if "find_sub crlf (s @ t) = Some i" for i
        using find_sub_late [OF None that] 1(2) by simp
      with False None show ?thesis
        by (subst (1 2) content_length_loop.simps) (auto split: option.splits)
    next
      case (Some i)
      have i: "i + 2 \<le> length s" using find_sub_Some [OF Some] by simp
      note app = find_sub_append [OF Some, of t]
      show ?thesis
      proof (cases "left < i")
        case True
        with False Some app show ?thesis by (subst (1 2) content_length_loop.simps) simp
      next
        case le: False
        have "content_length_loop (drop (i + 2) s @ t) (left - (i + 2)) (header_length (take i s) cl) =
            content_length_loop (drop (i + 2) s) (left - (i + 2)) (header_length (take i s) cl)"
        proof (cases "left \<le> i + 2")
          case True
          then show ?thesis by (simp add: content_length_loop.simps)
        next
          case False
          then show ?thesis using 1(1) [OF \<open>left \<noteq> 0\<close> Some le] 1(2) i by simp
        qed
        with False Some app le i show ?thesis by (subst (1 2) content_length_loop.simps) simp
      qed
    qed
  qed
qed

lemma request_complete_iff:
  assumes "header_ok hdr" "full = hdr @ crlf @ crlf @ body" "declared_length hdr = length body"
    and "length full < 2 ^ 64" "out = take k full"
  shows "request_complete out \<longleftrightarrow> out = full"
proof -
  have find: "find_sub (crlf @ crlf) full = Some (length hdr)"
    using find_sub_append [of "crlf @ crlf" "hdr @ crlf @ crlf" "length hdr" body] assms(1,2)
    by (simp add: header_ok_def)
  show ?thesis
  proof (cases "k < length hdr + 4")
    case True
    have "find_sub (crlf @ crlf) out = None" using find_sub_take [OF find, of k] True assms(5) by simp
    moreover have "length out < length full" using True assms(2,5) by simp
    ultimately show ?thesis by (auto simp: request_complete_def)
  next
    case False
    have "out = take k ((hdr @ crlf @ crlf) @ body)" using assms(2,5) by simp
    also have "\<dots> = (hdr @ crlf @ crlf) @ take (k - (length hdr + 4)) body"
      unfolding take_append using False by simp
    finally have out: "out = (hdr @ crlf @ crlf) @ take (k - (length hdr + 4)) body" .
    have "find_sub (crlf @ crlf) out = Some (length hdr)"
      unfolding out using assms(1) find_sub_append [of "crlf @ crlf" "hdr @ crlf @ crlf"] by (simp add: header_ok_def)
    moreover have "content_length_loop out (length hdr) 0 = length body"
      unfolding out using assms(3) content_length_append [of "length hdr" "hdr @ crlf @ crlf" "take (k - (length hdr + 4)) body" 0]
      by (simp add: declared_length_def)
    moreover have "length full = length hdr + 4 + length body" using assms(2) by simp
    ultimately have "request_complete out \<longleftrightarrow> length full \<le> length out"
      using assms(4) by (simp add: request_complete_def)
    then show ?thesis using assms(5) by auto
  qed
qed

text \<open>
  C16. A request of at most 64 KiB whose headers declare the length of its body is received whole
  and without a byte more, into however many packets it has been cut.
\<close>

theorem request_received_whole:
  assumes "header_ok hdr" "full = hdr @ crlf @ crlf @ body" "declared_length hdr = length body"
    and "length full \<le> 64 * 1024" "concat packets = full" "[] \<notin> set packets"
  shows "recv_http_request (packets @ rest) = (True, full)"
proof -
  have "recv_http_loop (ps @ rest) out = (True, full)" if "out @ concat ps = full" "[] \<notin> set ps" "ps \<noteq> []" for ps out
    using that
  proof (induction ps arbitrary: out)
    case (Cons p ps)
    have prefix: "out @ p = take (length out + length p) full" using Cons.prems(1) by (metis append_assoc append_eq_conv_conj concat.simps(2) length_append)
    have "length full = length out + length p + length (concat ps)"
      using Cons.prems(1) by (metis append_assoc concat.simps(2) length_append)
    moreover have "0 < length p" using Cons.prems(2) by auto
    ultimately have small: "length out < 64 * 1024" using assms(4) by linarith
    have complete: "request_complete (out @ p) \<longleftrightarrow> out @ p = full"
      by (rule request_complete_iff [OF assms(1-3) _ prefix]) (use assms(4) in simp)
    show ?case
    proof (cases "out @ p = full")
      case True
      then show ?thesis using complete small Cons.prems(2) by auto
    next
      case False
      then have "ps \<noteq> []" using Cons.prems(1) by auto
      with Cons False complete small show ?thesis by auto
    qed
  qed simp
  moreover have "packets \<noteq> []" using assms(2,5) by (auto simp: crlf_def)
  ultimately show ?thesis using assms(5,6) by (simp add: recv_http_request_def)
qed

definition sample_header :: string where
  "sample_header = ''POST /arm HTTP/1.1'' @ crlf @ ''Content-Length: 5''"

theorem request_received_whole_witness:
  "recv_http_request [take 20 (sample_header @ crlf @ crlf @ ''a=1&b''), drop 20 (sample_header @ crlf @ crlf @ ''a=1&b''), ''xyz''] =
     (True, sample_header @ crlf @ crlf @ ''a=1&b'')"
proof -
  have "header_ok sample_header" by code_simp
  moreover have lower: "map to_lower ''Content-Length'' = ''content-length''" by code_simp
  moreover have "declared_length sample_header = length ''a=1&b''"
    by (simp add: declared_length_def sample_header_def crlf_def content_length_loop.simps header_length_def
        length_value_def before_char_def after_char_def lower [simplified] trim_def blank_def char_code_def strtoull_def c_str_def
        is_space_def digit_val_def is_digit_def)
  ultimately show ?thesis
    using request_received_whole [where hdr = sample_header and body = "''a=1&b''"
        and packets = "[take 20 (sample_header @ crlf @ crlf @ ''a=1&b''), drop 20 (sample_header @ crlf @ crlf @ ''a=1&b'')]"
        and rest = "[''xyz'']"]
    by (simp add: sample_header_def crlf_def)
qed

section \<open>Parameters\<close>

lemma parse_uint64_print: "n < 2 ^ 64 \<Longrightarrow> parse_uint64_param (print_nat n) = Some (of_nat n)"
  by (simp add: parse_uint64_param_def c_str_print_nat strtoull_print_nat not_sym [OF print_nat_ne])

text \<open>A negative number is not refused: \<^verbatim>\<open>strtoull\<close> negates it modulo \<open>2 ^ 64\<close>.\<close>

lemma negative_delay_accepted: "parse_uint64_param ''-1'' = Some 0xFFFFFFFFFFFFFFFF"
  by (simp add: parse_uint64_param_def strtoull_def c_str_def char_code_def is_space_def digit_val_def is_digit_def)

end
