(* ===== verification/Credit_Json.thy ===== *)
theory Credit_Json
  imports Credit_Lifecycle Control_Http_Facts
begin

text \<open>
  The JSON texts of the engine (\<^verbatim>\<open>request_credit.cpp\<close>) against the JSON reader of the control
  server (\<^verbatim>\<open>perf.cpp\<close>): what one writes the other reads.
\<close>

section \<open>Strings\<close>

lemma json_chars_escape: "json_chars (json_escape s @ CHR 0x22 # t) = Some (s, t)"
  by (induction s) (auto simp: json_escape_def json_escape_code_def json_escape_char_def)

text \<open>
  Every string survives the engine's JSON escaping and the control server's reader.
\<close>

theorem json_string_roundtrip:
  "parse_json_string_token (json_string s @ t) = Some (s, t)"
  by (simp add: parse_json_string_token_def json_string_def quoted_def json_chars_escape)

section \<open>Flat objects\<close>

text \<open>A text that the reader takes as a value in front of a comma or a closing brace.\<close>

definition value_text :: "string \<Rightarrow> string \<Rightarrow> bool" where
  "value_text enc v \<longleftrightarrow> enc \<noteq> [] \<and> \<not> is_space (hd enc) \<and>
     (\<forall>c t. c \<in> {CHR '','', CHR ''}''} \<longrightarrow> json_value (enc @ c # t) = Some (v, c # t))"

lemma quote_not_space [simp]: "\<not> is_space CHR 0x22"
  by code_simp

lemma value_text_string: "value_text (json_string s) s"
  by (auto simp: value_text_def json_value_def json_string_def quoted_def parse_json_string_token_def json_chars_escape)

definition raw_char :: "char \<Rightarrow> bool" where
  "raw_char c \<longleftrightarrow> c \<noteq> CHR 0x22 \<and> c \<noteq> CHR '','' \<and> c \<noteq> CHR ''}'' \<and> \<not> is_space c"

lemma raw_not_blank: "raw_char c \<Longrightarrow> \<not> blank c"
  by (auto simp: raw_char_def blank_def is_space_def char_code_def)

lemma trim_raw: "\<forall>c\<in>set s. raw_char c \<Longrightarrow> trim s = s"
proof -
  assume raw: "\<forall>c\<in>set s. raw_char c"
  have "dropWhile blank u = u" if "\<forall>c\<in>set u. raw_char c" for u
    using that raw_not_blank by (cases u) auto
  from this [of s] this [of "rev s"] raw show ?thesis by (simp add: trim_def)
qed

lemma value_text_raw:
  assumes "s \<noteq> []" "\<forall>c\<in>set s. raw_char c"
  shows "value_text s s"
proof -
  have "takeWhile (\<lambda>c. c \<noteq> CHR '','' \<and> c \<noteq> CHR ''}'') (s @ x # t) = s \<and>
      dropWhile (\<lambda>c. c \<noteq> CHR '','' \<and> c \<noteq> CHR ''}'') (s @ x # t) = x # t"
    if "x \<in> {CHR '','', CHR ''}''}" for x t
    using that assms(2) by (auto simp: raw_char_def takeWhile_append dropWhile_append)
  moreover have "hd s \<noteq> CHR 0x22" "\<not> is_space (hd s)" using assms by (auto simp: raw_char_def)
  ultimately show ?thesis using assms by (auto simp: value_text_def json_value_def trim_raw)
qed

lemma value_text_int: "value_text (print_int z) (print_int z)"
proof (rule value_text_raw)
  have "raw_char c" if "c \<in> set (print_nat n)" for c n
    using print_nat_all_digits [OF that] digit_not_space [of c]
    by (auto simp: raw_char_def is_digit_val [symmetric] is_digit_def char_code_def)
  then show "\<forall>c\<in>set (print_int z). raw_char c"
    by (auto simp: print_int_def) (simp add: raw_char_def is_space_def)
  show "print_int z \<noteq> []" by (simp add: print_int_def)
qed

lemma value_text_uint: "value_text (json_uint w) (json_uint w)"
  using value_text_int [of "uint w"] by (simp add: json_uint_def print_int_def)

lemma value_text_nat: "value_text (print_nat n) (print_nat n)"
  using value_text_int [of "int n"] by (simp add: print_int_def)

lemma value_text_bool: "value_text ''true'' ''true''"
  by (rule value_text_raw) (auto simp: raw_char_def is_space_def)

text \<open>A member of an object, with a name that needs no escapes.\<close>

definition plain_name :: "string \<Rightarrow> bool" where
  "plain_name k \<longleftrightarrow> k \<noteq> [] \<and> json_escape k = k"

lemma json_member_field:
  assumes "plain_name k" "value_text enc v" "c \<in> {CHR '','', CHR ''}''}"
  shows "json_member (json_field k enc @ c # t) = Some ((k, v), c # t)"
proof -
  have tok: "parse_json_string_token (quoted k @ u) = Some (k, u)" for u
    using json_string_roundtrip [of k u] assms(1) by (simp add: json_string_def plain_name_def)
  have colon: "\<not> is_space CHR '':''" by code_simp
  have "skip_spaces (enc @ c # t) = enc @ c # t"
    using assms(2) by (cases enc) (auto simp: value_text_def)
  moreover have "json_value (enc @ c # t) = Some (v, c # t)"
    using assms(2,3) unfolding value_text_def by blast
  ultimately show ?thesis using tok colon by (simp add: json_member_def json_field_def)
qed

text \<open>A list of members with the values the reader takes from them.\<close>

type_synonym member = "string \<times> string \<times> string"

definition member_text :: "member \<Rightarrow> string" where
  "member_text m = json_field (fst m) (fst (snd m))"

definition member_ok :: "member \<Rightarrow> bool" where
  "member_ok m \<longleftrightarrow> plain_name (fst m) \<and> value_text (fst (snd m)) (snd (snd m))"

definition member_value :: "member \<Rightarrow> string \<times> string" where
  "member_value m = (fst m, snd (snd m))"

lemma member_starts: "member_text m = CHR 0x22 # tl (member_text m)"
  by (simp add: member_text_def json_field_def quoted_def)

lemma flat_member_step:
  assumes "member_ok m" "c \<in> {CHR '','', CHR ''}''}"
  shows "flat_json_loop (member_text m @ c # t) q =
     flat_json_loop (if c = CHR '','' then t else c # t) (q(fst m \<mapsto> snd (snd m)))"
proof -
  have mem: "json_member (member_text m @ c # t) = Some (member_value m, c # t)"
    using json_member_field assms by (simp add: member_text_def member_ok_def member_value_def)
  have c: "\<not> is_space c" using assms(2) by (auto simp: is_space_def)
  have start: "member_text m @ c # t = CHR 0x22 # (tl (member_text m) @ c # t)"
    by (subst member_starts) simp
  have ne: "fst m \<noteq> []" using assms(1) by (simp add: member_ok_def plain_name_def)
  show ?thesis
    using mem c ne unfolding start
    by (subst flat_json_loop.simps) (auto simp: member_value_def Let_def)
qed

lemma flat_members:
  assumes "\<forall>m\<in>set ms. member_ok m"
  shows "flat_json_loop (commas (map member_text ms) @ [CHR ''}'']) q = q ++ map_of (rev (map member_value ms))"
  using assms
proof (induction ms arbitrary: q)
  case Nil
  have "\<not> is_space CHR ''}''" by code_simp
  then show ?case by (subst flat_json_loop.simps) simp
next
  case (Cons m ms)
  have stop: "flat_json_loop [CHR ''}''] q' = q'" for q'
    by (subst flat_json_loop.simps) (simp add: is_space_def)
  show ?case
  proof (cases ms)
    case Nil
    then show ?thesis using flat_member_step [of m "CHR ''}''" "[]"] Cons.prems stop
      by (simp add: member_value_def map_add_def fun_eq_iff)
  next
    case (Cons m' ms')
    have "commas (map member_text (m # ms)) @ [CHR ''}''] =
        member_text m @ CHR '','' # commas (map member_text ms) @ [CHR ''}'']"
      by (simp add: Cons)
    then show ?thesis
      using flat_member_step [of m "CHR '',''"] Cons.IH Cons.prems
      by (simp add: member_value_def map_add_upd_left)
  qed
qed

lemma flat_object_read:
  assumes "\<forall>m\<in>set ms. member_ok m"
  shows "parse_flat_json_object (json_object (map member_text ms)) = map_of (rev (map member_value ms))"
proof -
  have "\<not> is_space CHR 0x7B" by code_simp
  then show ?thesis
    using flat_members [OF assms, of "\<lambda>_. None"] by (simp add: parse_flat_json_object_def json_object_def)
qed

section \<open>The answer to an arm request\<close>

lemma escape_plain: "\<forall>c\<in>set s. char_code c \<notin> {34, 92, 10, 13, 9} \<Longrightarrow> json_escape s = s"
  by (induction s) (auto simp: json_escape_def json_escape_code_def char_code_def)

lemma print_hex_codes: "c \<in> set (print_hex n) \<Longrightarrow> char_code c \<in> {48..57} \<union> {97..102}"
proof (induction n rule: less_induct)
  case (less n)
  show ?case
  proof (cases "n < 16")
    case True
    then show ?thesis using less.prems hex_char_plain [of n] print_hex.simps [of n] by auto
  next
    case False
    then have "c \<in> set (print_hex (n div 16)) \<or> c = hex_char (n mod 16)"
      using less.prems print_hex.simps [of n] by auto
    moreover have "n div 16 < n" using False by simp
    ultimately show ?thesis using less.IH hex_char_plain [of "n mod 16"] by auto
  qed
qed

lemma format_source_plain: "json_escape (format_source k) = format_source k"
proof (rule escape_plain)
  show "\<forall>c\<in>set (format_source k). char_code c \<notin> {34, 92, 10, 13, 9}"
    using print_hex_codes [of _ "unat k"] by (fastforce simp: format_source_def char_code_def)
qed

definition armed_members ::
  "string \<Rightarrow> victim_runtime \<Rightarrow> i64 \<Rightarrow> u64 \<Rightarrow> u64 \<Rightarrow> nat \<Rightarrow> i64 \<Rightarrow> i64 \<Rightarrow> member list" where
  "armed_members src vr n cg d i c t =
     [(''ok'', ''true'', ''true''), (''state'', json_string ''ARMED'', ''ARMED''),
      (''namespace'', json_string (vr_ns vr), vr_ns vr), (''pod'', json_string (vr_pod vr), vr_pod vr),
      (''container'', json_string (vr_container vr), vr_container vr),
      (''cgroup_id'', json_uint cg, json_uint cg), (''credits'', json_int t, json_int t),
      (''delay_ns'', json_uint d, json_uint d), (''count'', json_int n, json_int n),
      (''source'', json_string src, src),
      (''source_key'', json_string (format_source (fnv1a64 src)), format_source (fnv1a64 src)),
      (''source_slot'', print_nat i, print_nat i), (''source_credits'', json_int c, json_int c)]"

lemma arm_json_members:
  "arm_json src vr n errno (Armed cg d i c t) = json_object (map member_text (armed_members src vr n cg d i c t))"
proof -
  have "quoted ''ARMED'' = json_string ''ARMED''"
    by (simp add: json_string_def escape_plain char_code_def)
  then show ?thesis
    by (simp add: arm_json_def armed_members_def member_text_def json_string_def [of "format_source _"] format_source_plain)
qed

lemma value_text_json_int: "value_text (json_int w) (json_int w)"
  by (simp add: json_int_def value_text_int)

lemma armed_members_ok: "\<forall>m\<in>set (armed_members src vr n cg d i c t). member_ok m"
  by (simp add: armed_members_def member_ok_def plain_name_def escape_plain char_code_def value_text_string
      value_text_uint value_text_json_int value_text_nat value_text_bool)

text \<open>
  C15. What the engine answers to a successful arm request reads back, with the control server's own
  reader, as the fields of the request and of the armed slot, whatever characters the source, pod,
  namespace and container names contain.
\<close>

theorem arm_answer_reads_back:
  "parse_flat_json_object (arm_json src vr n errno (Armed cg d i c t)) =
     map_of [(''ok'', ''true''), (''state'', ''ARMED''), (''namespace'', vr_ns vr), (''pod'', vr_pod vr),
       (''container'', vr_container vr), (''cgroup_id'', print_nat (unat cg)), (''credits'', print_int (sint t)),
       (''delay_ns'', print_nat (unat d)), (''count'', print_int (sint n)), (''source'', src),
       (''source_key'', format_source (fnv1a64 src)), (''source_slot'', print_nat i),
       (''source_credits'', print_int (sint c))]"
proof -
  let ?ms = "armed_members src vr n cg d i c t"
  have "distinct (map fst (map member_value ?ms))" by (simp add: armed_members_def member_value_def)
  then have "map_of (rev (map member_value ?ms)) = map_of (map member_value ?ms)"
    by (simp only: map_of_inject_set rev_map [symmetric] distinct_rev set_rev)
  then show ?thesis
    unfolding arm_json_members flat_object_read [OF armed_members_ok]
    by (simp add: armed_members_def member_value_def json_uint_def json_int_def)
qed

end
