(* ===== verification/Target_Resolve.thy ===== *)
theory Target_Resolve
  imports Credit_Engine
begin

text \<open>
  How the request-credit engine finds the cgroup of a container
  (\<^verbatim>\<open>hostctl_cpp/request_credit.cpp\<close>: \<^verbatim>\<open>resolve_container_id\<close>, \<^verbatim>\<open>find_cgroup_by_cid\<close>,
  \<^verbatim>\<open>resolve_target\<close>). The output of \<^verbatim>\<open>kubectl\<close>, the directories of the file system, their inode
  numbers and the clock are arguments.
\<close>

section \<open>The id of a container\<close>

definition strip_container_prefix :: "string \<Rightarrow> string" where
  "strip_container_prefix cid =
     (case find_sub ''://'' cid of None \<Rightarrow> cid | Some pos \<Rightarrow> drop (pos + 3) cid)"

text \<open>The command line given to the shell.\<close>

definition container_command :: "string \<Rightarrow> string \<Rightarrow> string" where
  "container_command ns pod =
     ''kubectl get pod '' @ pod @ '' -n '' @ ns @
     '' -o jsonpath='' @ [CHR 0x27] @ ''{range .status.containerStatuses[*]}{.name}{'' @
     [CHR 0x22] @ ''|'' @ [CHR 0x22] @ ''}{.containerID}{'' @ [CHR 0x22, CHR 0x5C] @ ''n'' @ [CHR 0x22] @
     ''}{end}'' @ [CHR 0x27] @ '' 2>/dev/null''"

text \<open>\<^verbatim>\<open>fgets\<close> into a buffer of \<open>n + 1\<close> bytes: at most \<open>n\<close> bytes, up to and with the newline.\<close>

function fgets_lines :: "nat \<Rightarrow> string \<Rightarrow> string list" where
  "fgets_lines n s =
     (if s = [] \<or> n = 0 then []
      else let k = length (before_char CHR 0x0A (take n s));
               m = min n (Suc k)
           in take m s # fgets_lines n (drop m s))"
  by pat_completeness auto
termination
  by (relation "measure (\<lambda>(n, s). length s)") (auto simp: min_def)

declare fgets_lines.simps [simp del]

text \<open>One line of the output: the name and the usable id, if it has one.\<close>

definition container_entry :: "string \<Rightarrow> (string \<times> string) option" where
  "container_entry line =
     (let s = trim (c_str line)
      in if s = [] \<or> CHR ''|'' \<notin> set s then None
         else
           let name = trim (before_char CHR ''|'' s); cid = trim (after_char CHR ''|'' s)
           in if cid = [] \<or> cid = ''null'' \<or> cid = ''<no value>'' then None
              else
                let cid' = strip_container_prefix cid
                in if cid' = [] then None else Some (name, cid'))"

text \<open>The loop over the lines: the id picked, if any, and the fallback.\<close>

fun pick_container :: "string \<Rightarrow> string list \<Rightarrow> string \<Rightarrow> string option \<times> string" where
  "pick_container container [] fallback = (None, fallback)"
| "pick_container container (line # lines) fallback =
     (case container_entry line of
        None \<Rightarrow> pick_container container lines fallback
      | Some (name, cid) \<Rightarrow>
          if container \<noteq> [] \<and> name = container then (Some cid, fallback)
          else
            let f1 = (if fallback = [] \<and> name \<noteq> ''istio-proxy'' \<and> name \<noteq> ''POD'' then cid else fallback);
                f2 = (if f1 = [] then cid else f1)
            in pick_container container lines f2)"

definition resolve_container_id :: "string option \<Rightarrow> string \<Rightarrow> string option" where
  "resolve_container_id kubectl container =
     (case kubectl of
        None \<Rightarrow> None
      | Some out \<Rightarrow>
          (case pick_container container (fgets_lines 1023 out) [] of
             (Some cid, fallback) \<Rightarrow> Some cid
           | (None, fallback) \<Rightarrow> if fallback \<noteq> [] then Some fallback else None))"

section \<open>The directory of a container\<close>

definition starts_with :: "string \<Rightarrow> string \<Rightarrow> bool" where
  "starts_with pre s \<longleftrightarrow> take (length pre) s = pre"

definition v1_controllers :: "string list" where
  "v1_controllers =
     [''/sys/fs/cgroup/hugetlb/'', ''/sys/fs/cgroup/memory/'', ''/sys/fs/cgroup/cpu/'',
      ''/sys/fs/cgroup/cpuacct/'', ''/sys/fs/cgroup/cpuset/'', ''/sys/fs/cgroup/blkio/'',
      ''/sys/fs/cgroup/pids/'', ''/sys/fs/cgroup/freezer/'', ''/sys/fs/cgroup/net_cls/'',
      ''/sys/fs/cgroup/net_prio/'', ''/sys/fs/cgroup/devices/'']"

definition score_path :: "string \<Rightarrow> int" where
  "score_path path =
     (if starts_with ''/sys/fs/cgroup/unified/'' path then 200 else 0) +
     (if starts_with ''/sys/fs/cgroup/kubepods'' path \<or> starts_with ''/sys/fs/cgroup/kubepods.slice'' path
      then 150 else 0) +
     (if contains ''/kubepods'' path then 50 else 0) +
     (if starts_with ''/sys/fs/cgroup/perf_event/'' path then 20 else 0) -
     (if list_ex (\<lambda>pre. starts_with pre path) v1_controllers then 100 else 0)"

text \<open>
  What the file system answers: which paths can be accessed, the directories that a recursive scan
  of a root reaches before it ends or fails, in its order, and the inode of a path (0 if it cannot
  be read).
\<close>

record file_system =
  accessible :: "string \<Rightarrow> bool"
  directories :: "string \<Rightarrow> string list"
  inode :: "string \<Rightarrow> u64"

definition scan_roots :: "file_system \<Rightarrow> string list" where
  "scan_roots fs =
     concat (map (\<lambda>r. if \<not> accessible fs r then []
                      else r # filter (accessible fs) [r @ ''/kubepods.slice'', r @ ''/kubepods'', r @ ''/system.slice''])
       [''/sys/fs/cgroup'', ''/sys/fs/cgroup/unified'', ''/sys/fs/cgroup/perf_event''])"

definition file_name :: "string \<Rightarrow> string" where
  "file_name path = rev (takeWhile (\<lambda>c. c \<noteq> CHR ''/'') (rev path))"

definition names_container :: "string \<Rightarrow> string \<Rightarrow> bool" where
  "names_container cid path \<longleftrightarrow>
     file_name path = ''cri-containerd-'' @ cid @ ''.scope'' \<or> contains cid (file_name path)"

text \<open>The best path so far, with its score.\<close>

fun best_path :: "string \<Rightarrow> string list \<Rightarrow> int \<times> string \<Rightarrow> int \<times> string" where
  "best_path cid [] best = best"
| "best_path cid (p # ps) best =
     best_path cid ps (if names_container cid p \<and> score_path p > fst best then (score_path p, p) else best)"

definition find_cgroup_by_cid :: "file_system \<Rightarrow> string \<Rightarrow> string" where
  "find_cgroup_by_cid fs cid =
     (if cid = [] then []
      else snd (fold (\<lambda>root best. best_path cid (directories fs root) best) (scan_roots fs) (- 1000000, [])))"

section \<open>The cache\<close>

text \<open>An entry of the cache and the time, in nanoseconds, it was made.\<close>

type_synonym target_cache = "string \<rightharpoonup> resolved_target \<times> int"

definition cache_ttl :: int where "cache_ttl = 30000000000"

definition container_or_app :: "string \<Rightarrow> string" where
  "container_or_app container = (if container = [] then ''app'' else container)"

definition target_key :: "string \<Rightarrow> string \<Rightarrow> string \<Rightarrow> string" where
  "target_key ns pod c = ns @ ''/'' @ pod @ ''/'' @ c"

definition fresh_entry :: "file_system \<Rightarrow> int \<Rightarrow> resolved_target \<times> int \<Rightarrow> bool" where
  "fresh_entry fs now ent \<longleftrightarrow> now - snd ent < cache_ttl \<and> accessible fs (rt_cgroup_path (fst ent))"

text \<open>\<open>kubectl\<close> is what \<^verbatim>\<open>kubectl\<close> prints for a namespace and a pod.\<close>

definition resolve_target ::
  "(string \<Rightarrow> string \<Rightarrow> string option) \<Rightarrow> file_system \<Rightarrow> int \<Rightarrow> string \<Rightarrow> string \<Rightarrow> string
     \<Rightarrow> target_cache \<Rightarrow> resolved_target option \<times> target_cache" where
  "resolve_target kubectl fs now ns pod container cache =
     (let c = container_or_app container; key = target_key ns pod c;
          miss = (case resolve_container_id (kubectl ns pod) c of
             None \<Rightarrow> (None, cache)
           | Some cid \<Rightarrow>
               let path = find_cgroup_by_cid fs cid
               in if path = [] \<or> inode fs path = 0 then (None, cache)
                  else
                    let out = \<lparr>rt_cgroup_id = inode fs path, rt_cgroup_path = path, rt_ns = ns,
                               rt_pod = pod, rt_container = c\<rparr>
                    in (Some out, cache(key \<mapsto> (out, now))))
      in case cache key of
           Some ent \<Rightarrow> if fresh_entry fs now ent then (Some (fst ent), cache) else miss
         | None \<Rightarrow> miss)"

section \<open>Which container is picked\<close>

lemma container_entry_ne: "container_entry line = Some (name, cid) \<Longrightarrow> cid \<noteq> []"
  by (auto simp: container_entry_def Let_def split: if_splits)

definition container_entries :: "string list \<Rightarrow> (string \<times> string) list" where
  "container_entries lines = List.map_filter container_entry lines"

lemma container_entries_simps [simp]:
  "container_entries [] = []"
  "container_entries (line # lines) =
     (case container_entry line of None \<Rightarrow> container_entries lines | Some e \<Rightarrow> e # container_entries lines)"
  by (simp_all add: container_entries_def List.map_filter_simps split: option.split)

lemma pick_container_spec:
  assumes "c \<noteq> []"
  shows "case find (\<lambda>e. fst e = c) (container_entries lines) of
      Some e \<Rightarrow> fst (pick_container c lines f) = Some (snd e)
    | None \<Rightarrow> pick_container c lines f =
        (None, if f \<noteq> [] then f else case container_entries lines of [] \<Rightarrow> [] | e # es \<Rightarrow> snd e)"
  using assms
proof (induction lines arbitrary: f)
  case (Cons line lines)
  show ?case
  proof (cases "container_entry line")
    case None
    then show ?thesis using Cons.IH [of f] Cons.prems by (cases "f = []") (auto split: option.splits)
  next
    case (Some e)
    obtain name cid where e: "e = (name, cid)" by (cases e)
    have "cid \<noteq> []" using container_entry_ne Some e by blast
    then show ?thesis
      using Cons.IH [of cid] Cons.IH [of f] Cons.prems Some e
      by (auto split: option.splits)
  qed
qed simp

text \<open>
  The id of a container is that of the first usable line with its name. Without such a line it
  is that of the first usable line, whatever its name: the code's test for sidecars
  (\<^verbatim>\<open>istio-proxy\<close>, \<^verbatim>\<open>POD\<close>) never changes the result.
\<close>

theorem container_id_picked:
  assumes "c \<noteq> []"
  shows "resolve_container_id (Some out) c =
     (let es = container_entries (fgets_lines 1023 out)
      in case find (\<lambda>e. fst e = c) es of
           Some e \<Rightarrow> Some (snd e)
         | None \<Rightarrow> (case es of [] \<Rightarrow> None | e # _ \<Rightarrow> Some (snd e)))"
proof -
  let ?lines = "fgets_lines 1023 out"
  have ne: "snd e \<noteq> []" if "e \<in> set (container_entries ls)" for e ls
    using that container_entry_ne by (induction ls) (auto split: option.splits)
  show ?thesis
    using pick_container_spec [OF assms, of ?lines "[]"] ne [of _ ?lines]
    by (auto simp: resolve_container_id_def Let_def split: option.splits list.splits prod.splits)
qed

section \<open>Which directory is picked\<close>

lemma best_path_append: "best_path cid (ps @ qs) best = best_path cid qs (best_path cid ps best)"
  by (induction ps arbitrary: best) auto

lemma best_path_scan:
  "fold (\<lambda>root best. best_path cid (dirs root) best) roots best = best_path cid (concat (map dirs roots)) best"
  by (induction roots arbitrary: best) (auto simp: best_path_append)

lemma best_path_max:
  assumes "best_path cid ps (s, p) = (s', p')"
  shows "(s' = s \<and> p' = p \<and> (\<forall>q\<in>set ps. names_container cid q \<longrightarrow> score_path q \<le> s)) \<or>
     (s < s' \<and> s' = score_path p' \<and> p' \<in> set ps \<and> names_container cid p' \<and>
      (\<forall>q\<in>set ps. names_container cid q \<longrightarrow> score_path q \<le> s'))"
  using assms
proof (induction ps arbitrary: s p)
  case (Cons q ps)
  show ?case
  proof (cases "names_container cid q \<and> score_path q > s")
    case True
    with Cons.prems have "best_path cid ps (score_path q, q) = (s', p')" by simp
    from Cons.IH [OF this] True show ?thesis by auto
  next
    case False
    with Cons.prems have "best_path cid ps (s, p) = (s', p')" by (simp split: if_splits)
    from Cons.IH [OF this] False show ?thesis by auto
  qed
qed simp

lemma score_path_bound: "- 100 \<le> score_path p"
  by (simp add: score_path_def)

text \<open>The directories that belong to a container, over all roots.\<close>

definition container_dirs :: "file_system \<Rightarrow> string \<Rightarrow> string list" where
  "container_dirs fs cid = filter (names_container cid) (concat (map (directories fs) (scan_roots fs)))"

text \<open>
  The search returns a directory of the container with the highest score of all of them,
  and the empty path only if there is none.
\<close>

theorem best_cgroup_found:
  assumes "cid \<noteq> []"
  shows "if container_dirs fs cid = [] then find_cgroup_by_cid fs cid = []
     else find_cgroup_by_cid fs cid \<in> set (container_dirs fs cid) \<and>
          (\<forall>p\<in>set (container_dirs fs cid). score_path p \<le> score_path (find_cgroup_by_cid fs cid))"
proof -
  let ?ps = "concat (map (directories fs) (scan_roots fs))"
  obtain s p where b: "best_path cid ?ps (- 1000000, []) = (s, p)" by fastforce
  have f: "find_cgroup_by_cid fs cid = p"
    using assms b by (simp add: find_cgroup_by_cid_def best_path_scan)
  let ?none = "s = - 1000000 \<and> p = [] \<and> (\<forall>q\<in>set ?ps. names_container cid q \<longrightarrow> score_path q \<le> - 1000000)"
  have cases: "?none \<or> (s = score_path p \<and> p \<in> set ?ps \<and> names_container cid p \<and>
      (\<forall>q\<in>set ?ps. names_container cid q \<longrightarrow> score_path q \<le> s))"
    using best_path_max [OF b] by blast
  have low: "\<not> score_path q \<le> - 1000000" for q using score_path_bound [of q] by simp
  show ?thesis
  proof (cases ?none)
    case True
    then have "container_dirs fs cid = []" using low by (auto simp: container_dirs_def filter_empty_conv)
    then show ?thesis using True f by simp
  next
    case False
    from cases False have "s = score_path p \<and> p \<in> set ?ps \<and> names_container cid p \<and>
      (\<forall>q\<in>set ?ps. names_container cid q \<longrightarrow> score_path q \<le> s)" by (elim disjE) (erule notE, assumption | assumption)+
    then have "p \<in> set (container_dirs fs cid) \<and> (\<forall>q\<in>set (container_dirs fs cid). score_path q \<le> score_path p)"
      by (auto simp: container_dirs_def)
    then show ?thesis using f by (cases "container_dirs fs cid") simp_all
  qed
qed

section \<open>The cache answers for the right container\<close>

lemma target_key_inj:
  assumes "target_key ns pod c = target_key ns' pod' c'"
    and "CHR ''/'' \<notin> set ns" "CHR ''/'' \<notin> set pod" "CHR ''/'' \<notin> set ns'" "CHR ''/'' \<notin> set pod'"
  shows "ns = ns' \<and> pod = pod' \<and> c = c'"
proof -
  have "ns = ns' \<and> pod @ ''/'' @ c = pod' @ ''/'' @ c'"
    using assms split_at_char [of _ ns] split_at_char [of _ ns'] by (simp add: target_key_def) metis
  moreover from this have "pod = pod' \<and> c = c'"
    using assms split_at_char [of _ pod] split_at_char [of _ pod'] by simp metis
  ultimately show ?thesis by blast
qed

text \<open>The caches that requests with ordinary names (no slash in namespace and pod) lead to.\<close>

inductive cache_run :: "target_cache \<Rightarrow> bool" where
  empty: "cache_run (\<lambda>_. None)"
| resolves: "cache_run cache \<Longrightarrow> CHR ''/'' \<notin> set ns \<Longrightarrow> CHR ''/'' \<notin> set pod \<Longrightarrow>
     cache_run (snd (resolve_target kubectl fs now ns pod container cache))"

definition cache_names :: "target_cache \<Rightarrow> bool" where
  "cache_names cache \<longleftrightarrow> (\<forall>k t ts. cache k = Some (t, ts) \<longrightarrow>
     k = target_key (rt_ns t) (rt_pod t) (rt_container t) \<and>
     CHR ''/'' \<notin> set (rt_ns t) \<and> CHR ''/'' \<notin> set (rt_pod t) \<and> rt_cgroup_id t \<noteq> 0 \<and> rt_cgroup_path t \<noteq> [])"

lemma resolve_target_cases:
  obtains (hit) ent where "cache (target_key ns pod (container_or_app container)) = Some ent"
      "resolve_target kubectl fs now ns pod container cache = (Some (fst ent), cache)"
  | (none) "resolve_target kubectl fs now ns pod container cache = (None, cache)"
  | (found) t where "rt_ns t = ns" "rt_pod t = pod" "rt_container t = container_or_app container"
      "rt_cgroup_id t \<noteq> 0" "rt_cgroup_path t \<noteq> []"
      "resolve_target kubectl fs now ns pod container cache =
         (Some t, cache(target_key ns pod (container_or_app container) \<mapsto> (t, now)))"
proof (cases "\<exists>ent. cache (target_key ns pod (container_or_app container)) = Some ent \<and> fresh_entry fs now ent")
  case True
  then show ?thesis using hit by (auto simp: resolve_target_def Let_def)
next
  case False
  note eq = resolve_target_def [of kubectl fs now ns pod container cache] Let_def
  show ?thesis
  proof (cases "resolve_container_id (kubectl ns pod) (container_or_app container)")
    case None
    then show ?thesis using False none by (auto simp: eq split: option.splits)
  next
    case (Some cid)
    let ?p = "find_cgroup_by_cid fs cid"
    let ?t = "\<lparr>rt_cgroup_id = inode fs ?p, rt_cgroup_path = ?p, rt_ns = ns, rt_pod = pod,
               rt_container = container_or_app container\<rparr>"
    show ?thesis
    proof (cases "?p = [] \<or> inode fs ?p = 0")
      case True
      then show ?thesis using False Some none by (auto simp: eq split: option.splits)
    next
      case ok: False
      then show ?thesis using False Some found [of ?t] by (auto simp: eq split: option.splits)
    qed
  qed
qed

lemma cache_run_names: "cache_run cache \<Longrightarrow> cache_names cache"
proof (induction rule: cache_run.induct)
  case empty
  show ?case by (simp add: cache_names_def)
next
  case (resolves cache ns pod kubectl fs now container)
  show ?case
    by (rule resolve_target_cases [of cache ns pod container kubectl fs now])
      (use resolves in \<open>auto simp: cache_names_def\<close>)
qed



section \<open>Concrete requests\<close>

definition sample_listing :: string where
  "sample_listing = ''istio-proxy|containerd://ab'' @ [CHR 0x0A] @ ''web|containerd://cd'' @ [CHR 0x0A]"

lemma sample_entries: "container_entries (fgets_lines 1023 sample_listing) = [(''istio-proxy'', ''ab''), (''web'', ''cd'')]"
  by code_simp

theorem container_id_picked_witness:
  "resolve_container_id (Some sample_listing) ''web'' = Some ''cd'' \<and>
   resolve_container_id (Some sample_listing) ''app'' = Some ''ab''"
  using container_id_picked [of "''web''" sample_listing] container_id_picked [of "''app''" sample_listing]
  by (simp add: sample_entries)

definition sample_fs :: file_system where
  "sample_fs = \<lparr>accessible = (\<lambda>p. p \<in> {''/sys/fs/cgroup'', ''/sys/fs/cgroup/kubepods/pod1/cd''}),
     directories = (\<lambda>r. if r = ''/sys/fs/cgroup''
       then [''/sys/fs/cgroup/memory/cd'', ''/sys/fs/cgroup/kubepods/pod1/cd'', ''/sys/fs/cgroup/kubepods/pod1/ab''] else []),
     inode = (\<lambda>_. 7)\<rparr>"

lemma sample_dirs: "container_dirs sample_fs ''cd'' = [''/sys/fs/cgroup/memory/cd'', ''/sys/fs/cgroup/kubepods/pod1/cd'']"
  by code_simp

theorem best_cgroup_found_witness:
  "score_path ''/sys/fs/cgroup/kubepods/pod1/cd'' \<le> score_path (find_cgroup_by_cid sample_fs ''cd'')"
  using best_cgroup_found [of "''cd''" sample_fs] by (simp add: sample_dirs)

lemma sample_resolved:
  "fst (resolve_target (\<lambda>_ _. Some sample_listing) sample_fs 5 ''ns'' ''pod'' ''web'' (\<lambda>_. None)) =
     Some \<lparr>rt_cgroup_id = 7, rt_cgroup_path = ''/sys/fs/cgroup/kubepods/pod1/cd'', rt_ns = ''ns'',
           rt_pod = ''pod'', rt_container = ''web''\<rparr>"
  by code_simp


end
