(* ===== verification/Host_Delay.thy ===== *)
theory Host_Delay
  imports C_Text
begin

text \<open>
  The delays the host profiler injects (\<^verbatim>\<open>hostctl_cpp/perf.cpp\<close>): which processes are victims, the
  delay system calls, the delay signals sent to the peers over UDP and received from them, the two
  samplers that turn the CPU time of the target into delays, and the one-shot injector. What the
  system answers (files, counters, peers, whether a datagram is sent) is an argument; the product of
  a sampled time and the speed-up, a floating-point number, is the argument \<open>scale\<close>. The state is
  the process-wide variables of the file and the trace of delay system calls and datagrams.
\<close>

section \<open>Victims\<close>

text \<open>The text of a cgroup's \<^verbatim>\<open>tasks\<close> file, \<open>None\<close> if it cannot be opened.\<close>

definition read_cgroup_tasks :: "string option \<Rightarrow> int list" where
  "read_cgroup_tasks data =
     (case data of None \<Rightarrow> [] | Some s \<Rightarrow> map to_int (filter (\<lambda>v. v > 0) (read_longs s)))"

text \<open>The files and the directories below a path, in the order of the scan.\<close>

record cgroup_fs =
  tasks :: "string \<Rightarrow> string option"
  below :: "string \<Rightarrow> string list"

definition collect_pids_from_tree :: "cgroup_fs \<Rightarrow> string \<Rightarrow> int list" where
  "collect_pids_from_tree fs root = concat (map (\<lambda>p. read_cgroup_tasks (tasks fs p)) (root # below fs root))"

definition sort_unique :: "int list \<Rightarrow> int list" where
  "sort_unique pids = remdups_adj (sort pids)"

definition collect_pids_from_cgroups :: "cgroup_fs \<Rightarrow> string list \<Rightarrow> int list" where
  "collect_pids_from_cgroups fs cgs = sort_unique (concat (map (collect_pids_from_tree fs) cgs))"

section \<open>The state\<close>

record delay_state =
  accumulated_ns :: u64
  request_armed :: bool
  rearm_immediate_ns :: u64
  victim_pids :: "int list"
  delayed :: "(int \<times> u64) list"
  sent :: "(string \<times> u8 list) list"

definition prewarm_victims :: "cgroup_fs \<Rightarrow> string list \<Rightarrow> delay_state \<Rightarrow> nat \<times> delay_state" where
  "prewarm_victims fs cgs st =
     (let pids = collect_pids_from_cgroups fs cgs in (length pids, st\<lparr>victim_pids := pids\<rparr>))"

definition set_victim_pids :: "int list \<Rightarrow> delay_state \<Rightarrow> nat \<times> delay_state" where
  "set_victim_pids pids st =
     (let kept = sort_unique (filter (\<lambda>p. p > 0) pids) in (length kept, st\<lparr>victim_pids := kept\<rparr>))"

text \<open>The result of a delay system call is only logged.\<close>

definition apply_delay_to_cgroups :: "u64 \<Rightarrow> delay_state \<Rightarrow> bool \<times> delay_state" where
  "apply_delay_to_cgroups ns st =
     (if victim_pids st = [] \<or> ns = 0 then (False, st)
      else (True, st\<lparr>delayed := delayed st @ map (\<lambda>p. (p, ns)) (victim_pids st)\<rparr>))"

section \<open>Delay signals\<close>

text \<open>\<^verbatim>\<open>htobe64\<close> and \<^verbatim>\<open>be64toh\<close>, on the bytes of the datagram.\<close>

definition htobe64 :: "u64 \<Rightarrow> u8 list" where
  "htobe64 w = map (\<lambda>i. ucast (drop_bit (8 * (7 - i)) w)) [0..<8]"

definition be64toh :: "u8 list \<Rightarrow> u64" where
  "be64toh bs = foldl (\<lambda>acc b. push_bit 8 acc OR ucast b) 0 bs"

record net_config =
  service :: string
  port :: int
  self_ip :: string

definition env_or :: "(string \<rightharpoonup> string) \<Rightarrow> string \<Rightarrow> string \<Rightarrow> string" where
  "env_or env k d = (case env k of None \<Rightarrow> d | Some v \<Rightarrow> v)"

definition load_delay_net_config :: "(string \<rightharpoonup> string) \<Rightarrow> net_config" where
  "load_delay_net_config env =
     \<lparr>service = env_or env ''DELAY_SERVICE'' ''coz-delay'',
      port = (case stoi (env_or env ''DELAY_PORT'' ''9808'') of None \<Rightarrow> 0 | Some p \<Rightarrow> p),
      self_ip = env_or env ''POD_IP'' []\<rparr>"

text \<open>The peers found last and when; \<open>lookup\<close> is the IPv4 addresses of a name, \<open>None\<close> if it fails.\<close>

record peer_cache =
  peers :: "string list"
  peers_ts :: int

definition resolve_peers ::
  "(string \<Rightarrow> string list option) \<Rightarrow> int \<Rightarrow> net_config \<Rightarrow> bool \<Rightarrow> peer_cache \<Rightarrow> peer_cache" where
  "resolve_peers lookup now cfg include_self c =
     (if peers c \<noteq> [] \<and> now - peers_ts c < 1000000000 then c
      else if service cfg = [] \<or> port cfg \<le> 0 then c\<lparr>peers := []\<rparr>
      else case lookup (service cfg) of
        None \<Rightarrow> c\<lparr>peers := []\<rparr>
      | Some ips \<Rightarrow>
          \<lparr>peers = filter (\<lambda>ip. include_self \<or> self_ip cfg = [] \<or> self_ip cfg \<noteq> ip) ips, peers_ts = now\<rparr>)"

text \<open>The peers that \<^verbatim>\<open>sendto\<close> reaches; without a socket nothing is sent.\<close>

definition send_delay_to_peers ::
  "string list \<Rightarrow> bool \<Rightarrow> (string \<Rightarrow> bool) \<Rightarrow> u64 \<Rightarrow> delay_state \<Rightarrow> bool \<times> delay_state" where
  "send_delay_to_peers ps sock_ok send_ok ns st =
     (if ps = [] \<or> \<not> sock_ok then (False, st)
      else
        let ok = filter send_ok ps
        in (ok \<noteq> [], st\<lparr>sent := sent st @ map (\<lambda>p. (p, htobe64 ns)) ok\<rparr>))"

text \<open>One datagram at the receiver, whose buffer holds eight bytes.\<close>

definition receive_delay :: "u8 list \<Rightarrow> delay_state \<Rightarrow> delay_state" where
  "receive_delay datagram st =
     (if length datagram < 8 then st
      else
        let ns = be64toh (take 8 datagram)
        in if ns = 0 then st else snd (apply_delay_to_cgroups ns st))"

section \<open>The samplers\<close>

record perf_cpu =
  prev :: u64
  has_prev :: bool

text \<open>One reading of the counter of a CPU (\<open>None\<close>: the read fails) and the time it adds.\<close>

definition sample_cpu :: "u64 option \<Rightarrow> perf_cpu \<Rightarrow> perf_cpu \<times> u64" where
  "sample_cpu reading p =
     (case reading of
        None \<Rightarrow> (p, 0)
      | Some val \<Rightarrow> (\<lparr>prev = val, has_prev = True\<rparr>, if has_prev p \<and> prev p \<le> val then val - prev p else 0))"

fun sample_cpus :: "u64 option list \<Rightarrow> perf_cpu list \<Rightarrow> u64 \<Rightarrow> perf_cpu list \<times> u64" where
  "sample_cpus (r # rs) (p # ps) tot =
     (case sample_cpu r p of
        (p', d) \<Rightarrow> (case sample_cpus rs ps (tot + d) of (ps', t) \<Rightarrow> (p' # ps', t)))"
| "sample_cpus rs ps tot = (ps, tot)"

definition threshold_of :: "u64 \<Rightarrow> u64" where
  "threshold_of period_ms = (period_ms * 1000000) div 10"

text \<open>What the network answers to the signal of one tick.\<close>

record net_answer =
  reachable :: "string list"
  sock_ok :: bool
  send_ok :: "string \<Rightarrow> bool"

text \<open>
  A signal that no peer was sent is applied locally. The result says whether the delay went out one
  way or the other.
\<close>

definition signal_delay :: "net_answer \<Rightarrow> u64 \<Rightarrow> delay_state \<Rightarrow> bool \<times> delay_state" where
  "signal_delay net ns st =
     (case send_delay_to_peers (reachable net) (sock_ok net) (send_ok net) ns st of
        (True, st') \<Rightarrow> (True, st')
      | (False, st') \<Rightarrow> apply_delay_to_cgroups ns st')"

text \<open>One tick of \<^verbatim>\<open>perf_sampler_sync\<close>.\<close>

definition sync_tick ::
  "(u64 \<Rightarrow> u64) \<Rightarrow> u64 \<Rightarrow> net_answer \<Rightarrow> u64 option list \<Rightarrow> perf_cpu list \<times> delay_state \<Rightarrow> perf_cpu list \<times> delay_state" where
  "sync_tick scale period_ms net readings s =
     (case sample_cpus readings (fst s) 0 of
        (cpus, tot) \<Rightarrow>
          if tot = 0 \<or> scale tot < threshold_of period_ms then (cpus, snd s)
          else
            let st = (snd s)\<lparr>accumulated_ns := accumulated_ns (snd s) + scale tot\<rparr>
            in (cpus, snd (signal_delay net (scale tot) st)))"

text \<open>Opening the counters: no counters when the sampler gives up.\<close>

definition fresh_cpus :: "nat \<Rightarrow> perf_cpu list" where
  "fresh_cpus opened = replicate opened \<lparr>prev = 0, has_prev = False\<rparr>"

definition start_sync :: "bool \<Rightarrow> nat \<Rightarrow> delay_state \<Rightarrow> perf_cpu list option \<times> delay_state" where
  "start_sync cg_fd_ok opened st =
     (if \<not> cg_fd_ok \<or> opened = 0 then None else Some (fresh_cpus opened), st\<lparr>rearm_immediate_ns := 0\<rparr>)"

text \<open>One tick of \<^verbatim>\<open>perf_sampler_request_aware\<close>.\<close>

definition aware_tick ::
  "(u64 \<Rightarrow> u64) \<Rightarrow> u64 \<Rightarrow> u64 \<Rightarrow> net_answer \<Rightarrow> u64 option list \<Rightarrow> perf_cpu list \<times> delay_state
     \<Rightarrow> perf_cpu list \<times> delay_state" where
  "aware_tick scale period_ms fixed_ns net readings s =
     (case sample_cpus readings (fst s) 0 of
        (cpus, tot) \<Rightarrow>
          if tot = 0 \<or> scale tot < threshold_of period_ms \<or> \<not> request_armed (snd s) then (cpus, snd s)
          else
            (case signal_delay net fixed_ns ((snd s)\<lparr>request_armed := False\<rparr>) of
               (False, st) \<Rightarrow> (cpus, st)
             | (True, st) \<Rightarrow> (cpus, st\<lparr>accumulated_ns := accumulated_ns st + fixed_ns\<rparr>)))"

definition start_aware :: "bool \<Rightarrow> nat \<Rightarrow> u64 \<Rightarrow> delay_state \<Rightarrow> perf_cpu list option \<times> delay_state" where
  "start_aware cg_fd_ok opened fixed_ns st0 =
     (let st = st0\<lparr>rearm_immediate_ns := fixed_ns\<rparr>
      in if fixed_ns = 0 then (None, st)
         else (if \<not> cg_fd_ok \<or> opened = 0 then None else Some (fresh_cpus opened), st\<lparr>request_armed := True\<rparr>))"

definition fixed_delay_injector :: "u64 \<Rightarrow> delay_state \<Rightarrow> delay_state" where
  "fixed_delay_injector delay_ns st0 =
     (let st = st0\<lparr>rearm_immediate_ns := 0\<rparr>
      in if delay_ns = 0 then st
         else (case apply_delay_to_cgroups delay_ns st of
                 (False, st') \<Rightarrow> st'
               | (True, st') \<Rightarrow> st'\<lparr>accumulated_ns := accumulated_ns st' + delay_ns\<rparr>))"

end
