(* ===== verification/Control_Server.thy ===== *)
theory Control_Server
  imports Host_Delay Control_Http Credit_Lifecycle
begin

text \<open>
  The control server of the host profiler (\<^verbatim>\<open>hostctl_cpp/perf.cpp\<close>: \<^verbatim>\<open>clear_http_server_loop\<close>,
  \<^verbatim>\<open>arm_udp_server_loop\<close> and the sending of answers): one HTTP request or one datagram at a time is
  parsed and routed to the request-credit engine or to the variables of the delay samplers. What
  the engine's operations get from the system is the argument \<open>ops_env\<close>.
\<close>

section \<open>Ports\<close>

definition port_number :: "string \<Rightarrow> int" where
  "port_number s = (case stoi s of None \<Rightarrow> 0 | Some p \<Rightarrow> if p \<le> 0 \<or> p > 65535 then 0 else p)"

definition load_clear_http_port :: "(string \<rightharpoonup> string) \<Rightarrow> int" where
  "load_clear_http_port env = port_number (env_or env ''CLEAR_HTTP_PORT'' ''19090'')"

definition load_arm_udp_port :: "(string \<rightharpoonup> string) \<Rightarrow> int" where
  "load_arm_udp_port env =
     (let port_s = env_or env ''ARM_UDP_PORT'' []
      in if port_s = [] then load_clear_http_port env else port_number port_s)"

section \<open>Answers\<close>

datatype content = Text | Json

record http_answer =
  status :: string
  content_type :: content
  body :: string

definition answer_text :: "http_answer \<Rightarrow> string" where
  "answer_text a =
     ''HTTP/1.1 '' @ status a @ crlf @
     ''Content-Type: '' @ (case content_type a of Text \<Rightarrow> ''text/plain'' | Json \<Rightarrow> ''application/json'') @ crlf @
     ''Connection: close'' @ crlf @
     ''Content-Length: '' @ print_nat (length (body a)) @ crlf @ crlf @
     body a"

text \<open>What reaches the client when \<^verbatim>\<open>send\<close> takes the given numbers of bytes (0: it fails).\<close>

fun send_all :: "nat list \<Rightarrow> string \<Rightarrow> string" where
  "send_all sizes [] = []"
| "send_all [] resp = []"
| "send_all (n # sizes) resp = (if n = 0 then [] else take n resp @ send_all sizes (drop n resp))"

definition send_http_text :: "string \<Rightarrow> string \<Rightarrow> http_answer" where
  "send_http_text st b = \<lparr>status = st, content_type = Text, body = b\<rparr>"

definition send_http_json :: "string \<Rightarrow> string \<Rightarrow> http_answer" where
  "send_http_json st b = \<lparr>status = st, content_type = Json, body = b\<rparr>"

section \<open>The state and its environment\<close>

record server_state =
  host_engine :: host
  host_delays :: delay_state

record ops_env =
  resolve :: "string \<Rightarrow> string \<Rightarrow> string \<Rightarrow> resolved_target option"
  update_ok :: bool
  policy_room :: bool
  errno_is :: int
  keys_before :: "(u64 \<times> u32) list"
  keys_after :: "(u64 \<times> u32) list"
  during_profile :: "credit_engine \<Rightarrow> credit_engine"
  cleared_ok :: "u64 \<Rightarrow> bool"
  stats_ok :: bool

section \<open>Routes\<close>

definition handle_clear :: "ops_env \<Rightarrow> params \<Rightarrow> server_state \<Rightarrow> http_answer \<times> server_state" where
  "handle_clear env q s =
     (let was = accumulated_ns (host_delays s);
          clear_credits = parse_bool_param (map_get q ''clear_credits'') False
      in (send_http_text ''200 OK''
            (''cleared accumulated_delay_ns from '' @ print_nat (unat was) @ '' to 0'' @ [CHR 0x0A]),
          s\<lparr>host_delays := (host_delays s)\<lparr>accumulated_ns := 0\<rparr>,
            host_engine := request_credit_clear clear_credits (cleared_ok env) (stats_ok env) (host_engine s)\<rparr>))"

text \<open>
  The re-arming of the request-aware gate is not one atomic step: the exchange of the flag, and the
  injection that may follow it.
\<close>

definition rearm_exchange :: "delay_state \<Rightarrow> bool \<times> delay_state" where
  "rearm_exchange d = (request_armed d, d\<lparr>request_armed := True\<rparr>)"

definition rearm_inject :: "delay_state \<Rightarrow> u64 \<times> bool \<times> delay_state" where
  "rearm_inject d =
     (let ns = rearm_immediate_ns d
      in if ns = 0 then (ns, False, d)
         else (case apply_delay_to_cgroups ns d of
                 (False, d') \<Rightarrow> (ns, False, d')
               | (True, d') \<Rightarrow>
                   (ns, True, d'\<lparr>request_armed := False, accumulated_ns := accumulated_ns d' + ns\<rparr>)))"

definition handle_rearm :: "server_state \<Rightarrow> http_answer \<times> server_state" where
  "handle_rearm s =
     (if request_credit_is_active (host_engine s)
      then (case request_credit_rearm_message (host_engine s) of
              (msg, h) \<Rightarrow> (send_http_text ''200 OK'' (msg @ [CHR 0x0A]), s\<lparr>host_engine := h\<rparr>))
      else
        (case rearm_exchange (host_delays s) of
           (was_armed, d1) \<Rightarrow>
             (case rearm_inject d1 of
                (ns, injected, d2) \<Rightarrow>
                  (send_http_text ''200 OK''
                    (''rearmed request-aware gate from '' @ (if was_armed then ''1'' else ''0'') @ '' to 1'' @
                     (if injected then '' (immediate injected '' @ print_nat (unat ns) @ ''ns, armed->0)'' else []) @
                     [CHR 0x0A]),
                   s\<lparr>host_delays := d2\<rparr>))))"

definition inactive_answer :: http_answer where
  "inactive_answer = send_http_json ''409 Conflict'' not_active_json"

definition bad_request :: "string \<Rightarrow> http_answer" where
  "bad_request msg = send_http_json ''400 Bad Request'' (json_error msg)"

definition ok_or_500 :: "bool \<Rightarrow> string \<Rightarrow> http_answer" where
  "ok_or_500 ok b = send_http_json (if ok then ''200 OK'' else ''500 Internal Server Error'') b"

definition arm_request_of :: "arm_params \<Rightarrow> arm_request" where
  "arm_request_of p = \<lparr>ar_source = ap_source p, ar_delay_ns = ap_delay_ns p, ar_count = ap_count p\<rparr>"

definition handle_arm :: "ops_env \<Rightarrow> params \<Rightarrow> server_state \<Rightarrow> c_fault + (http_answer \<times> server_state)" where
  "handle_arm env q s =
     (if \<not> request_credit_is_active (host_engine s) then Inr (inactive_answer, s)
      else case parse_request_arm_from_map q of
        Inl msg \<Rightarrow> Inr (bad_request msg, s)
      | Inr p \<Rightarrow>
          ebind (request_credit_arm (resolve env (pr_ns p) (pr_pod p) (pr_container p)) (update_ok env)
                   (policy_room env) (errno_is env) (arm_request_of p) (host_engine s))
            (\<lambda>((ok, b), h). Inr (ok_or_500 ok b, s\<lparr>host_engine := h\<rparr>)))"

definition handle_status :: "server_state \<Rightarrow> c_fault + (http_answer \<times> server_state)" where
  "handle_status s =
     (if request_credit_is_active (host_engine s)
      then ebind (request_credit_status_json (host_engine s)) (\<lambda>b. Inr (send_http_json ''200 OK'' b, s))
      else Inr (send_http_json ''200 OK''
             (json_object [json_field ''ok'' ''true'', json_field ''mode'' (quoted ''legacy''),
                json_field ''accumulated_delay_ns'' (json_uint (accumulated_ns (host_delays s)))]), s))"

record profile_params = pod_request +
  fp_duration_ms :: u64
  fp_top_k :: u32
  fp_apply_policy :: bool

definition parse_profile_from_map :: "params \<Rightarrow> string + profile_params" where
  "parse_profile_from_map q =
     (let duration_s = param_or q ''duration_ms'' ''durationMs'';
          top_k_s = param_or q ''top_k'' ''topK''
      in case (if duration_s = [] then Some 2000 else parse_uint64_param duration_s) of
           None \<Rightarrow> Inl ''invalid duration_ms''
         | Some duration \<Rightarrow>
             (case (if top_k_s = [] then Some 12 else parse_uint64_param top_k_s) of
                None \<Rightarrow> Inl ''invalid top_k''
              | Some k \<Rightarrow>
                  let top_k = ucast (min k 64)
                  in Inr \<lparr>pr_ns = param_or q ''namespace'' ''ns'', pr_pod = map_get q ''pod'',
                          pr_container = param_container q, fp_duration_ms = duration,
                          fp_top_k = (if top_k = 0 then 1 else top_k),
                          fp_apply_policy = parse_bool_param (map_get q ''apply_policy'')
                            (parse_bool_param (map_get q ''applyPolicy'') (parse_bool_param (map_get q ''apply'') False))\<rparr>))"

definition profile_request_of :: "profile_params \<Rightarrow> profile_request" where
  "profile_request_of p =
     \<lparr>pq_ns = pr_ns p, pq_pod = pr_pod p, pq_duration_ms = fp_duration_ms p, pq_top_k = fp_top_k p,
      pq_apply_policy = fp_apply_policy p\<rparr>"

definition handle_profile :: "ops_env \<Rightarrow> params \<Rightarrow> server_state \<Rightarrow> http_answer \<times> server_state" where
  "handle_profile env q s =
     (if \<not> request_credit_is_active (host_engine s) then (inactive_answer, s)
      else case parse_profile_from_map q of
        Inl msg \<Rightarrow> (bad_request msg, s)
      | Inr p \<Rightarrow>
          (case request_credit_profile_syscalls (resolve env (pr_ns p) (pr_pod p) (pr_container p))
                  (keys_before env) (update_ok env) (keys_after env) (policy_room env) (errno_is env)
                  (during_profile env) (profile_request_of p) (host_engine s) of
             ((ok, b), h) \<Rightarrow> (ok_or_500 ok b, s\<lparr>host_engine := h\<rparr>)))"

definition policy_request_of :: "policy_params \<Rightarrow> policy_request" where
  "policy_request_of p = \<lparr>cp_ns = pr_ns p, cp_pod = pr_pod p, cp_raw_flags = pp_raw_flags p\<rparr>"

definition handle_policy :: "ops_env \<Rightarrow> params \<Rightarrow> server_state \<Rightarrow> http_answer \<times> server_state" where
  "handle_policy env q s =
     (if \<not> request_credit_is_active (host_engine s) then (inactive_answer, s)
      else case parse_consume_policy_from_map q of
        Inl msg \<Rightarrow> (bad_request msg, s)
      | Inr p \<Rightarrow>
          (case request_credit_apply_consume_policy (resolve env (pr_ns p) (pr_pod p) (pr_container p))
                  (update_ok env) (errno_is env) (policy_request_of p) (host_engine s) of
             ((ok, b), h) \<Rightarrow> (ok_or_500 ok b, s\<lparr>host_engine := h\<rparr>)))"

text \<open>The path and the parameters of a request, those of its body last.\<close>

definition request_target :: "string \<Rightarrow> (string \<times> params) option" where
  "request_target req =
     (case parse_http_method_path req of
        None \<Rightarrow> None
      | Some (method, raw) \<Rightarrow>
          (case split_path_query raw of
             (path, query) \<Rightarrow>
               (case parse_http_headers_and_body req of
                  (headers, payload) \<Rightarrow> Some (path, merge_body_params headers payload (parse_query_map query)))))"

definition route :: "ops_env \<Rightarrow> string \<Rightarrow> params \<Rightarrow> server_state \<Rightarrow> c_fault + (http_answer \<times> server_state)" where
  "route env path q s =
     (if path = ''/clear'' then Inr (handle_clear env q s)
      else if path = ''/rearm'' then Inr (handle_rearm s)
      else if path = ''/arm'' then handle_arm env q s
      else if path = ''/status'' then handle_status s
      else if path = ''/syscall_profile'' \<or> path = ''/syscall-profile'' then Inr (handle_profile env q s)
      else if path = ''/consume_policy'' \<or> path = ''/consume-policy'' then Inr (handle_policy env q s)
      else Inr (send_http_text ''404 Not Found'' (''not found'' @ [CHR 0x0A]), s))"

text \<open>One connection: what \<^verbatim>\<open>recv\<close> delivers, and the answer.\<close>

definition serve_connection ::
  "ops_env \<Rightarrow> string list \<Rightarrow> server_state \<Rightarrow> c_fault + (http_answer \<times> server_state)" where
  "serve_connection env recvs s =
     (case request_target (snd (recv_http_request recvs)) of
        None \<Rightarrow> Inr (send_http_text ''400 Bad Request'' (''bad request'' @ [CHR 0x0A]), s)
      | Some (path, q) \<Rightarrow> route env path q s)"

text \<open>One datagram of the UDP server, whose buffer takes 2047 bytes.\<close>

definition serve_datagram :: "ops_env \<Rightarrow> string \<Rightarrow> server_state \<Rightarrow> c_fault + server_state" where
  "serve_datagram env datagram s =
     (let msg = take 2047 datagram
      in if msg = [] \<or> \<not> request_credit_is_active (host_engine s) then Inr s
         else case parse_request_arm_from_map (parse_query_map msg) of
           Inl err \<Rightarrow> Inr s
         | Inr p \<Rightarrow>
             ebind (request_credit_arm (resolve env (pr_ns p) (pr_pod p) (pr_container p)) (update_ok env)
                      (policy_room env) (errno_is env) (arm_request_of p) (host_engine s))
               (\<lambda>(r, h). Inr (s\<lparr>host_engine := h\<rparr>)))"

end
