(* ===== verification/Control_Server_Facts.thy ===== *)
theory Control_Server_Facts
  imports Control_Server Control_Http_Facts
begin

text \<open>
  The control server end to end: a request built by a client, through the receiving, the parsing and
  the routing, to the operation of the engine.
\<close>

section \<open>A request with parameters\<close>

definition get_request :: "string \<Rightarrow> (string \<times> string) list \<Rightarrow> string" where
  "get_request path kvs =
     ''GET '' @ (path @ CHR ''?'' # query_string kvs) @ '' HTTP/1.1'' @ crlf @ crlf"

definition plain_path :: "string \<Rightarrow> bool" where
  "plain_path p \<longleftrightarrow> p \<noteq> [] \<and> (\<forall>c\<in>set p. c \<noteq> CHR ''?'' \<and> \<not> is_space c)"

lemma query_string_chars: "c \<in> set (query_string kvs) \<Longrightarrow> \<not> is_space c"
proof (induction kvs rule: query_string.induct)
  case (2 kv)
  then show ?case using url_encode_chars [of c "fst kv"] url_encode_chars [of c "snd kv"]
    by (auto simp: query_pair_def is_space_def char_code_def)
next
  case (3 kv kv' kvs)
  then show ?case using url_encode_chars [of c "fst kv"] url_encode_chars [of c "snd kv"]
    by (auto simp: query_pair_def is_space_def char_code_def)
qed simp

lemma next_word_word:
  assumes "w \<noteq> []" "\<forall>c\<in>set w. \<not> is_space c" "is_space x"
  shows "next_word (w @ x # t) = (w, x # t)" "next_word (CHR '' '' # w @ x # t) = (w, x # t)"
proof -
  have "skip_spaces (w @ x # t) = w @ x # t" using assms by (cases w) auto
  moreover have "is_space CHR '' ''" by code_simp
  moreover have "takeWhile (\<lambda>c. \<not> is_space c) (w @ x # t) = w" "dropWhile (\<lambda>c. \<not> is_space c) (w @ x # t) = x # t"
    using assms by (auto simp: takeWhile_append dropWhile_append)
  ultimately show "next_word (w @ x # t) = (w, x # t)" "next_word (CHR '' '' # w @ x # t) = (w, x # t)"
    by (simp_all add: next_word_def)
qed

lemma is_space_blank: "is_space CHR '' ''" "is_space CHR 0x0D"
  by code_simp+

lemma get_request_line:
  assumes "plain_path path"
  shows "parse_http_method_path (get_request path kvs) = Some (''GET'', path @ CHR ''?'' # query_string kvs)"
proof -
  let ?p = "path @ CHR ''?'' # query_string kvs"
  have q: "\<not> is_space CHR ''?''" by code_simp
  have p: "\<forall>c\<in>set ?p. \<not> is_space c" using assms query_string_chars [of _ kvs] q by (auto simp: plain_path_def)
  have get: "\<forall>c\<in>set ''GET''. \<not> is_space c" by code_simp
  have "next_word (get_request path kvs) = (''GET'', CHR '' '' # ?p @ CHR '' '' # ''HTTP/1.1'' @ crlf @ crlf)"
    using next_word_word(1) [of "''GET''" "CHR '' ''"] get is_space_blank by (simp add: get_request_def)
  moreover have "next_word (CHR '' '' # ?p @ CHR '' '' # ''HTTP/1.1'' @ crlf @ crlf) = (?p, CHR '' '' # ''HTTP/1.1'' @ crlf @ crlf)"
    using next_word_word(2) [of ?p "CHR '' ''"] p is_space_blank by simp
  ultimately show ?thesis by (simp add: parse_http_method_path_def Let_def)
qed

lemma find_sub_new_char:
  assumes "c \<notin> set s" "pat = c # p"
  shows "find_sub pat (s @ pat @ t) = Some (length s)"
proof (rule find_sub_intro)
  show "take (length pat) (drop (length s) (s @ pat @ t)) = pat" by simp
  fix j assume "j < length s"
  then have "hd (take (length pat) (drop j (s @ pat @ t))) = s ! j"
    using assms(2) by (simp add: hd_drop_conv_nth nth_append hd_take)
  moreover have "s ! j \<noteq> c" using assms(1) \<open>j < length s\<close> nth_mem by metis
  ultimately show "take (length pat) (drop j (s @ pat @ t)) \<noteq> pat" using assms(2) by auto
qed

lemma get_request_body:
  assumes "plain_path path"
  shows "snd (parse_http_headers_and_body (get_request path kvs)) = []"
proof -
  let ?line = "''GET '' @ (path @ CHR ''?'' # query_string kvs) @ '' HTTP/1.1''"
  have "CHR 0x0D \<notin> set ?line"
    using assms query_string_chars [of "CHR 0x0D" kvs] is_space_blank(2) by (auto simp: plain_path_def)
  from find_sub_new_char [OF this, of "crlf @ crlf" _ "[]"]
  have "find_sub (crlf @ crlf) (get_request path kvs) = Some (length ?line)"
    by (simp add: get_request_def crlf_def)
  then show ?thesis by (simp add: parse_http_headers_and_body_def get_request_def)
qed

lemma get_request_target:
  assumes "plain_path path"
  shows "request_target (get_request path kvs) = Some (path, map_of (rev kvs))"
proof -
  have "CHR ''?'' \<notin> set path" using assms by (auto simp: plain_path_def)
  then have "split_path_query (path @ CHR ''?'' # query_string kvs) = (path, query_string kvs)"
    by (simp add: split_path_query_def split_at_char)
  moreover obtain headers where "parse_http_headers_and_body (get_request path kvs) = (headers, [])"
    using get_request_body [OF assms] by (metis prod.collapse)
  ultimately show ?thesis
    using get_request_line [OF assms] query_string_roundtrip [of kvs]
    by (simp add: request_target_def merge_body_params_def)
qed

lemma serve_get:
  assumes "plain_path path"
  shows "serve_connection env [get_request path kvs] s = route env path (map_of (rev kvs)) s"
proof -
  have "get_request path kvs \<noteq> []" by (simp add: get_request_def)
  then show ?thesis
    by (simp add: serve_connection_def recv_http_request_def get_request_target [OF assms])
qed

section \<open>Arming over HTTP\<close>

definition arm_query :: "string \<Rightarrow> string \<Rightarrow> string \<Rightarrow> nat \<Rightarrow> nat \<Rightarrow> (string \<times> string) list" where
  "arm_query ns pod src delay cnt =
     [(''namespace'', ns), (''pod'', pod), (''source'', src), (''delay_ns'', print_nat delay), (''count'', print_nat cnt)]"

lemma parse_int64_print: "n < 2 ^ 63 \<Longrightarrow> parse_int64_param (print_nat n) = Some (of_nat n)"
  by (simp add: parse_int64_param_def c_str_print_nat strtoll_print_nat not_sym [OF print_nat_ne])

lemma arm_query_parsed:
  assumes "ns \<noteq> []" "pod \<noteq> []" "delay < 2 ^ 64" "cnt < 2 ^ 63"
  shows "parse_request_arm_from_map (map_of (rev (arm_query ns pod src delay cnt))) =
     Inr \<lparr>pr_ns = ns, pr_pod = pod, pr_container = ''app'', ap_source = src, ap_delay_ns = of_nat delay,
          ap_count = of_nat cnt\<rparr>"
  using assms
  by (simp add: parse_request_arm_from_map_def arm_query_def param_or_def param_container_def map_get_def Let_def
      parse_uint64_print parse_int64_print)


definition live_server :: server_state where
  "live_server = \<lparr>host_engine = Some (new_engine\<lparr>engine := new_credit_engine\<lparr>active := True\<rparr>\<rparr>),
     host_delays = \<lparr>accumulated_ns = 0, request_armed = True, rearm_immediate_ns = 0, victim_pids = [],
                    delayed = [], sent = []\<rparr>\<rparr>"


end
