(* ===== verification/Host_Delay_Facts.thy ===== *)
theory Host_Delay_Facts
  imports Control_Server
begin

text \<open>
  Facts about the injected delays: the wire format of a delay signal, the victims, the one-shot gate
  of the request-aware sampler, alone and against a concurrent \<^verbatim>\<open>/rearm\<close>, and the time a sampler
  counts.
\<close>

section \<open>Delay signals\<close>

lemma next_byte: "push_bit 8 (drop_bit (m + 8) w) OR ucast (ucast (drop_bit m w :: u64) :: u8) = drop_bit m w"
  by (rule bit_word_eqI) (auto simp: bit_simps)

lemma first_byte: "ucast (ucast (drop_bit 56 w :: u64) :: u8) = drop_bit 56 w"
proof (rule bit_word_eqI)
  fix n assume "n < LENGTH(64)"
  then show "bit (ucast (ucast (drop_bit 56 w) :: u8) :: u64) n = bit (drop_bit 56 w) n"
    using bit_imp_le_length [of w "56 + n"] by (auto simp: bit_simps)
qed

lemma be64_roundtrip: "be64toh (htobe64 w) = w"
proof -
  have "htobe64 w = map (\<lambda>m. ucast (drop_bit m w)) [56, 48, 40, 32, 24, 16, 8, 0]"
    by (simp add: htobe64_def upt_rec)
  then show ?thesis
    using next_byte [of 48 w] next_byte [of 40 w] next_byte [of 32 w] next_byte [of 24 w]
      next_byte [of 16 w] next_byte [of 8 w] next_byte [of 0 w]
    by (simp add: be64toh_def first_byte)
qed

lemma length_htobe64 [simp]: "length (htobe64 w) = 8"
  by (simp add: htobe64_def)

text \<open>
  Every peer that gets the signal of a delay delays its victims by exactly that delay.
\<close>

theorem delay_signal_roundtrip:
  "receive_delay (htobe64 ns) st = snd (apply_delay_to_cgroups ns st)"
  by (simp add: receive_delay_def be64_roundtrip apply_delay_to_cgroups_def)

section \<open>The one-shot gate\<close>

lemma sample_fst: "sample_cpus r c 0 = (cpus, tot) \<Longrightarrow> fst (aware_tick scale p ns net r (c, st)) = cpus"
  by (auto simp: aware_tick_def split: prod.split bool.split)

text \<open>What one opening of the gate lets through: one signal, or nothing if it reached nobody.\<close>

definition injected_once :: "net_answer \<Rightarrow> u64 \<Rightarrow> delay_state \<Rightarrow> delay_state" where
  "injected_once net ns st =
     (case signal_delay net ns (st\<lparr>request_armed := False\<rparr>) of
        (False, st') \<Rightarrow> st'
      | (True, st') \<Rightarrow> st'\<lparr>accumulated_ns := accumulated_ns st' + ns\<rparr>)"

lemma signal_keeps_gate: "request_armed (snd (signal_delay net ns st)) = request_armed st"
  by (auto simp: signal_delay_def send_delay_to_peers_def apply_delay_to_cgroups_def Let_def
      split: prod.split bool.split)

lemma injected_once_closed: "\<not> request_armed (injected_once net ns st)"
  using signal_keeps_gate [of net ns "st\<lparr>request_armed := False\<rparr>"]
  by (auto simp: injected_once_def split: prod.split bool.split)

lemma aware_tick_cases:
  "snd (aware_tick scale p ns net r (c, st)) = st \<or>
   request_armed st \<and> snd (aware_tick scale p ns net r (c, st)) = injected_once net ns st"
  by (auto simp: aware_tick_def injected_once_def split: prod.split bool.split)

lemma closed_gate: "\<not> request_armed st \<Longrightarrow> snd (aware_tick scale p ns net r (c, st)) = st"
  using aware_tick_cases by blast

definition aware_ticks ::
  "(u64 \<Rightarrow> u64) \<Rightarrow> u64 \<Rightarrow> u64 \<Rightarrow> (net_answer \<times> u64 option list) list \<Rightarrow> perf_cpu list \<times> delay_state
     \<Rightarrow> perf_cpu list \<times> delay_state" where
  "aware_ticks scale p ns ticks s = fold (\<lambda>(net, r). aware_tick scale p ns net r) ticks s"

lemma closed_gate_ticks: "\<not> request_armed (snd s) \<Longrightarrow> snd (aware_ticks scale p ns ticks s) = snd s"
proof (induction ticks arbitrary: s)
  case (Cons t ticks)
  obtain net r where t: "t = (net, r)" by (cases t)
  have "snd (aware_tick scale p ns net r s) = snd s" using closed_gate Cons.prems by (cases s) auto
  then show ?case using Cons.IH [of "aware_tick scale p ns net r s"] Cons.prems t
    by (simp add: aware_ticks_def)
qed (simp add: aware_ticks_def)

text \<open>
  C12. Between two re-arms the request-aware sampler injects at most once, however many ticks reach
  the threshold: the delays, signals and the accumulated delay after any number of ticks are those
  before, or those with one signal sent. A signal that reaches neither a peer nor a victim closes
  the gate all the same.
\<close>

theorem aware_sampler_injects_once:
  "snd (aware_ticks scale p ns ticks (c, st)) = st \<or>
   (\<exists>net\<in>fst ` set ticks. snd (aware_ticks scale p ns ticks (c, st)) = injected_once net ns st)"
proof (induction ticks arbitrary: c)
  case Nil
  show ?case by (simp add: aware_ticks_def)
next
  case (Cons t ticks)
  obtain net r where t: "t = (net, r)" by (cases t)
  let ?s = "aware_tick scale p ns net r (c, st)"
  have step: "aware_ticks scale p ns (t # ticks) (c, st) = aware_ticks scale p ns ticks ?s"
    by (simp add: aware_ticks_def t)
  consider "snd ?s = st" | "snd ?s = injected_once net ns st" using aware_tick_cases by blast
  then show ?case
  proof cases
    case 1
    then have "?s = (fst ?s, st)" by (metis prod.collapse)
    then have "snd (aware_ticks scale p ns (t # ticks) (c, st)) = snd (aware_ticks scale p ns ticks (fst ?s, st))"
      using step by simp
    then show ?thesis using Cons.IH [of "fst ?s"] by (auto simp: t)
  next
    case 2
    then have "snd (aware_ticks scale p ns ticks ?s) = injected_once net ns st"
      using closed_gate_ticks [of ?s] injected_once_closed by simp
    then show ?thesis using step t by auto
  qed
qed

section \<open>A re-arm against a tick of the sampler\<close>

definition nobody :: net_answer where
  "nobody = \<lparr>reachable = [], sock_ok = True, send_ok = (\<lambda>_. True)\<rparr>"

text \<open>
  The \<^verbatim>\<open>/rearm\<close> request and the sampler are not atomic towards each other: when a tick of the
  sampler falls between the exchange of the flag and the injection of the request, every victim is
  delayed twice for one re-arm. When it falls after the request, once.
\<close>

theorem rearm_races_with_sampler:
  assumes "victim_pids d \<noteq> []" "rearm_immediate_ns d = ns" "ns \<noteq> 0"
    and "sample_cpus r c 0 = (cpus, tot)" "tot \<noteq> 0" "threshold_of p \<le> scale tot"
  shows "let d1 = snd (rearm_exchange d); hit = map (\<lambda>v. (v, ns)) (victim_pids d);
             between = snd (snd (rearm_inject (snd (aware_tick scale p ns nobody r (c, d1)))));
             after_it = snd (aware_tick scale p ns nobody r (c, snd (snd (rearm_inject d1))))
         in delayed between = delayed d @ hit @ hit \<and> accumulated_ns between = accumulated_ns d + ns + ns \<and>
            delayed after_it = delayed d @ hit \<and> accumulated_ns after_it = accumulated_ns d + ns"
  using assms
  by (simp add: Let_def rearm_exchange_def rearm_inject_def aware_tick_def signal_delay_def nobody_def
      send_delay_to_peers_def apply_delay_to_cgroups_def not_less)

theorem rearm_races_with_sampler_witness:
  "let d = \<lparr>accumulated_ns = 0, request_armed = False, rearm_immediate_ns = 9, victim_pids = [4], delayed = [], sent = []\<rparr>
   in delayed (snd (snd (rearm_inject (snd (aware_tick id 0 9 nobody [Some 8]
        ([\<lparr>prev = 3, has_prev = True\<rparr>], snd (rearm_exchange d))))))) = [(4, 9), (4, 9)]"
proof -
  let ?d = "\<lparr>accumulated_ns = 0, request_armed = False, rearm_immediate_ns = 9, victim_pids = [4], delayed = [], sent = []\<rparr>"
  have s: "sample_cpus [Some 8] [\<lparr>prev = 3, has_prev = True\<rparr>] 0 = ([\<lparr>prev = 8, has_prev = True\<rparr>], 5)"
    by (simp add: sample_cpu_def)
  show ?thesis
    using rearm_races_with_sampler [of ?d 9 "[Some 8]" "[\<lparr>prev = 3, has_prev = True\<rparr>]" _ 5 0 id, OF _ _ _ s]
    by (simp add: Let_def threshold_of_def)
qed

section \<open>Victims\<close>

lemma distinct_remdups_adj_sorted: "sorted xs \<Longrightarrow> distinct (remdups_adj xs)"
  by (induction xs rule: remdups_adj.induct) auto

lemma sort_unique_spec: "distinct (sort_unique xs) \<and> sorted (sort_unique xs) \<and> set (sort_unique xs) = set xs"
proof -
  have "sorted (remdups_adj (sort xs))" by (simp add: sorted_remdups_adj)
  moreover have "distinct (remdups_adj (sort xs))" by (simp add: distinct_remdups_adj_sorted)
  ultimately show ?thesis by (simp add: sort_unique_def)
qed

lemma victims_once:
  "let (n, st') = set_victim_pids pids st
   in n = card {p \<in> set pids. p > 0} \<and> distinct (victim_pids st') \<and> sorted (victim_pids st') \<and>
      set (victim_pids st') = {p \<in> set pids. p > 0}"
  using sort_unique_spec [of "filter (\<lambda>p. p > 0) pids"]
  by (simp add: set_victim_pids_def Let_def) (metis distinct_card set_filter)

section \<open>The time a sampler counts\<close>

text \<open>The readings of one CPU, tick by tick, and the time counted from them.\<close>

fun counted :: "u64 option list \<Rightarrow> perf_cpu \<Rightarrow> u64 list" where
  "counted [] p = []"
| "counted (r # rs) p = (case sample_cpu r p of (p', d) \<Rightarrow> d # counted rs p')"

definition read_values :: "u64 option list \<Rightarrow> u64 list" where
  "read_values rs = List.map_filter id rs"

lemma counted_telescopes:
  assumes "sorted (map unat (v0 # read_values rs))"
  shows "(\<Sum>d\<leftarrow>counted rs \<lparr>prev = v0, has_prev = True\<rparr>. unat d) = unat (last (v0 # read_values rs)) - unat v0"
  using assms
proof (induction rs arbitrary: v0)
  case Nil
  show ?case by (simp add: read_values_def List.map_filter_simps)
next
  case (Cons r rs)
  show ?case
  proof (cases r)
    case None
    then show ?thesis using Cons by (simp add: sample_cpu_def read_values_def List.map_filter_simps)
  next
    case (Some v)
    have vals: "read_values (r # rs) = v # read_values rs" by (simp add: Some read_values_def List.map_filter_simps)
    have le: "v0 \<le> v" using Cons.prems vals by (simp add: word_le_nat_alt)
    have "unat v \<le> unat (last (v # read_values rs))"
      using Cons.prems vals by (cases "read_values rs") auto
    then show ?thesis
      using Cons.IH [of v] Cons.prems vals le
      by (simp add: sample_cpu_def Some unat_sub word_le_nat_alt)
  qed
qed

end
