(* ===== verification/Host_Main.thy ===== *)
theory Host_Main
  imports Target_Resolve Host_Delay
begin

text \<open>
  The command line of the host profiler (\<^verbatim>\<open>hostctl_cpp/main.cpp\<close>): reading process ids and
  numbers, finding the cgroups of the target and of the victim pods, quoting the finder's command,
  and the choice of the mode. What \<^verbatim>\<open>kubectl\<close> and the finder print, the file system and the
  environment are arguments; the text of the speed-up option is passed on as it is.
\<close>

section \<open>Numbers and process ids\<close>

definition parse_uint64 :: "string \<Rightarrow> u64 option" where
  "parse_uint64 s =
     (if s = [] \<or> \<not> list_all is_digit s then None
      else case strtoull (c_str s) of
             (v, rest, err) \<Rightarrow> if err \<or> rest = c_str s \<or> rest \<noteq> [] then None else Some v)"

definition csv_pid :: "string \<Rightarrow> int option" where
  "csv_pid tok =
     (let t = trim tok
      in if t = [] then None
         else case strtoll (c_str t) of
                (v, rest, err) \<Rightarrow>
                  if rest = c_str t \<or> rest \<noteq> [] \<or> sint v \<le> 0 then None else Some (to_int (sint v)))"

definition parse_victim_pid_csv :: "string \<Rightarrow> int list" where
  "parse_victim_pid_csv csv = sort_unique (List.map_filter csv_pid (get_lines CHR '','' csv))"

section \<open>The finder of victim processes\<close>

definition shell_quote :: "string \<Rightarrow> string" where
  "shell_quote s =
     CHR 0x27 # concat (map (\<lambda>c. if c = CHR 0x27 then [CHR 0x27, CHR 0x5C, CHR 0x27, CHR 0x27] else [c]) s) @ [CHR 0x27]"

definition finder_candidates :: "string \<Rightarrow> string option \<Rightarrow> string list" where
  "finder_candidates finder_path env =
     (if finder_path \<noteq> [] then [finder_path] else []) @
     (case env of Some p \<Rightarrow> if p \<noteq> [] then [p] else [] | None \<Rightarrow> []) @
     [''/opt/mcoz/bin/cgroup_finder.sh'',
      ''/opt/mcoz/evaluation/sig_vs_ghost/signal/scripts/cgroup_finder.sh'',
      ''/home/yunni/mcoz/mcoz/m-coz/evaluation/sig_vs_ghost/signal/scripts/cgroup_finder.sh'',
      ''/home/yunni/mcoz/mcoz/m-coz/evaluation/sig_vs_ghost/signal/script/cgroup_finder.sh'']"

definition finder_command :: "string \<Rightarrow> string \<Rightarrow> string \<Rightarrow> string" where
  "finder_command script ns pod =
     shell_quote script @ '' '' @ shell_quote pod @ '' '' @ shell_quote ns @ '' 2>/dev/null''"

definition finder_pid :: "string \<Rightarrow> int option" where
  "finder_pid line =
     (let s = trim (c_str line)
      in if s = [] \<or> \<not> list_all is_digit s then None
         else let v = sint (fst (strtoll s)) in if v > 0 then Some (to_int v) else None)"

text \<open>\<open>run\<close> is what a command prints, \<open>None\<close> if it cannot be started.\<close>

definition load_victim_pids_from_finder ::
  "(string \<Rightarrow> bool) \<Rightarrow> (string \<Rightarrow> string option) \<Rightarrow> string option \<Rightarrow> string \<Rightarrow> string \<Rightarrow> string \<Rightarrow> int list" where
  "load_victim_pids_from_finder executable run env ns pod finder_path =
     (case find (\<lambda>c. c \<noteq> [] \<and> executable c) (finder_candidates finder_path env) of
        None \<Rightarrow> []
      | Some script \<Rightarrow>
          (case run (finder_command script ns pod) of
             None \<Rightarrow> []
           | Some out \<Rightarrow> sort_unique (List.map_filter finder_pid (fgets_lines 511 out))))"

section \<open>Cgroups\<close>

definition is_system_ns :: "string \<Rightarrow> bool" where
  "is_system_ns ns \<longleftrightarrow> ns \<in> set [''kube-system'', ''kube-public'', ''kube-node-lease'']"

definition cgroup_tasks_has_pid :: "string option \<Rightarrow> bool" where
  "cgroup_tasks_has_pid data =
     (case data of None \<Rightarrow> False | Some s \<Rightarrow> (case read_longs s of [] \<Rightarrow> False | v # vs \<Rightarrow> v > 0))"

definition token_hits :: "string \<Rightarrow> string \<Rightarrow> bool" where
  "token_hits dir tok \<longleftrightarrow> tok \<noteq> [] \<and> (contains tok (file_name dir) \<or> contains tok dir)"

text \<open>The scan over the directories of all roots, with the first hit without tasks as the fallback.\<close>

fun scan_tokens :: "(string \<Rightarrow> bool) \<Rightarrow> string list \<Rightarrow> bool \<Rightarrow> string list \<Rightarrow> string \<Rightarrow> string" where
  "scan_tokens has_pid tokens need_tasks [] fallback = fallback"
| "scan_tokens has_pid tokens need_tasks (dir # dirs) fallback =
     (if list_ex (token_hits dir) tokens
      then if \<not> need_tasks \<or> has_pid dir then dir
           else scan_tokens has_pid tokens need_tasks dirs (if fallback = [] then dir else fallback)
      else scan_tokens has_pid tokens need_tasks dirs fallback)"

definition strong_token :: "string \<Rightarrow> bool" where
  "strong_token tok \<longleftrightarrow> contains ''cri-containerd-'' tok \<or> contains ''.scope'' tok"

definition find_cgroup_by_tokens :: "(string \<Rightarrow> bool) \<Rightarrow> string list \<Rightarrow> string list \<Rightarrow> string" where
  "find_cgroup_by_tokens has_pid dirs tokens =
     (let strong = filter strong_token tokens;
          scan = (\<lambda>toks need. scan_tokens has_pid toks need dirs []);
          first_of = (\<lambda>hits. case find (\<lambda>h. h \<noteq> []) hits of None \<Rightarrow> [] | Some h \<Rightarrow> h)
      in first_of ((if strong \<noteq> [] then [scan strong True, scan strong False] else []) @
                   [scan tokens True, scan tokens False]))"

text \<open>Waiting for the container id: the outputs of the polls, \<open>None\<close> while none is usable.\<close>

fun wait_container_id :: "string option list \<Rightarrow> string option" where
  "wait_container_id [] = None"
| "wait_container_id (out # outs) =
     (case out of
        None \<Rightarrow> wait_container_id outs
      | Some s \<Rightarrow>
          let cid = trim (c_str (case fgets_lines 255 s of [] \<Rightarrow> [] | l # ls \<Rightarrow> l))
          in if cid \<noteq> [] \<and> cid \<noteq> ''null'' \<and> cid \<noteq> ''<no value>'' then Some cid else wait_container_id outs)"

definition without_prefix :: "string \<Rightarrow> string \<Rightarrow> string" where
  "without_prefix pre s = (if starts_with pre s then drop (length pre) s else s)"

definition all_dirs :: "file_system \<Rightarrow> string list" where
  "all_dirs fs = concat (map (directories fs) (scan_roots fs))"

datatype target_error = Invalid_Format | Still_Waiting | Not_Found

definition resolve_target_cgroup ::
  "file_system \<Rightarrow> string option list \<Rightarrow> string \<Rightarrow> target_error + (string \<times> u64)" where
  "resolve_target_cgroup fs outs target_pod =
     (if CHR ''/'' \<notin> set target_pod then Inl Invalid_Format
      else case wait_container_id outs of
        None \<Rightarrow> Inl Still_Waiting
      | Some cid0 \<Rightarrow>
          let cid = without_prefix ''containerd://'' cid0
          in case find (names_container cid) (all_dirs fs) of
               None \<Rightarrow> Inl Not_Found
             | Some p \<Rightarrow> Inr (p, inode fs p))"

text \<open>On cgroup v1 the target is looked for in the hierarchy of \<^verbatim>\<open>perf_event\<close>.\<close>

definition perf_event_path :: "(string \<Rightarrow> bool) \<Rightarrow> string \<Rightarrow> string" where
  "perf_event_path exists path =
     (if exists ''/sys/fs/cgroup/cgroup.controllers'' \<or> starts_with ''/sys/fs/cgroup/perf_event'' path
         \<or> \<not> starts_with ''/sys/fs/cgroup/'' path then path
      else
        let tail = dropWhile (\<lambda>c. c \<noteq> CHR ''/'') (drop (length ''/sys/fs/cgroup/'') path);
            alt = ''/sys/fs/cgroup/perf_event'' @ tail
        in if tail = [] \<or> \<not> exists alt then path else alt)"

section \<open>Victim pods\<close>

definition field :: "string list \<Rightarrow> nat \<Rightarrow> string" where
  "field xs i = (if i < length xs then trim (xs ! i) else [])"

definition strip_runtime :: "string \<Rightarrow> string \<Rightarrow> string" where
  "strip_runtime pre cid = (case find_sub pre cid of None \<Rightarrow> cid | Some pos \<Rightarrow> drop (pos + length pre) cid)"

definition pod_tokens :: "string \<Rightarrow> string \<Rightarrow> string list" where
  "pod_tokens cid uid =
     (if cid \<noteq> [] then [cid, ''cri-containerd-'' @ cid @ ''.scope''] else []) @
     (if uid \<noteq> [] then [''pod'' @ map (\<lambda>c. if c = CHR ''-'' then CHR ''_'' else c) uid, uid] else [])"

text \<open>One line of \<^verbatim>\<open>kubectl get pods\<close>: the tokens to look for, if the pod is a victim on this node.\<close>

definition victim_line :: "string \<Rightarrow> string \<Rightarrow> string \<Rightarrow> string list option" where
  "victim_line my_node exclude raw =
     (let line = c_str raw; xs = get_lines CHR ''|'' line;
          ns = field xs 0; pod = field xs 1; uid = field xs 2; ann = field xs 3; node = field xs 4;
          cid = strip_runtime ''cri-o://'' (strip_runtime ''containerd://'' (field xs 5))
      in if contains ''Error'' line \<or> contains ''forbidden'' line \<or> length xs < 2 then None
         else if ns = [] \<or> pod = [] \<or> is_system_ns ns then None
         else if exclude \<noteq> [] \<and> ns @ ''/'' @ pod = exclude then None
         else if my_node \<noteq> [] \<and> node \<noteq> [] \<and> node \<noteq> my_node then None
         else if ann \<noteq> ''true'' then None
         else if cid = [] \<and> uid = [] then None
         else Some (pod_tokens cid uid))"

definition discover_other_pods ::
  "file_system \<Rightarrow> (string \<Rightarrow> bool) \<Rightarrow> string option \<Rightarrow> string \<Rightarrow> string \<Rightarrow> string \<Rightarrow> (string \<times> u64) list" where
  "discover_other_pods fs has_pid out my_node tgt_path exclude =
     (case out of
        None \<Rightarrow> []
      | Some text \<Rightarrow>
          List.map_filter (\<lambda>raw.
            case victim_line my_node exclude raw of
              None \<Rightarrow> None
            | Some tokens \<Rightarrow>
                let found = find_cgroup_by_tokens has_pid (all_dirs fs) tokens
                in if found = [] \<or> found = tgt_path then None else Some (found, inode fs found))
            (fgets_lines 4095 text))"

text \<open>Polling until there are victims with processes: one snapshot of the cgroups per poll.\<close>

fun wait_for_victims ::
  "((string \<times> u64) list \<times> cgroup_fs) list \<Rightarrow> delay_state \<Rightarrow> (string \<times> u64) list option \<times> delay_state" where
  "wait_for_victims [] st = (None, st)"
| "wait_for_victims ((others, fs) # polls) st =
     (if others = [] then wait_for_victims polls st
      else (case prewarm_victims fs (map fst others) st of
              (n, st') \<Rightarrow> if n > 0 then (Some others, st') else wait_for_victims polls st'))"

section \<open>The node of a pod\<close>

definition kc_arg :: "string option \<Rightarrow> string" where
  "kc_arg kc = (case kc of None \<Rightarrow> [] | Some k \<Rightarrow> '' --kubeconfig '' @ k)"

definition pod_node_command :: "string option \<Rightarrow> string \<Rightarrow> string \<Rightarrow> string" where
  "pod_node_command kc ns pod =
     ''kubectl get pod '' @ pod @ '' -n '' @ ns @ kc_arg kc @ '' -o jsonpath={.spec.nodeName} 2>/dev/null''"

text \<open>The blanks at the end are cut, unless there is nothing else.\<close>

definition get_pod_node :: "(string \<Rightarrow> string option) \<Rightarrow> string option \<Rightarrow> string \<Rightarrow> string \<Rightarrow> string" where
  "get_pod_node run kc ns pod =
     (case run (pod_node_command kc ns pod) of
        None \<Rightarrow> []
      | Some out \<Rightarrow>
          let node = c_str (case fgets_lines 255 out of [] \<Rightarrow> [] | l # ls \<Rightarrow> l)
          in if list_all blank node then node else rev (dropWhile blank (rev node)))"

section \<open>Delays by the cgroup files\<close>

datatype host_effect = Write_File string string | Sleep_Us u64

definition delay_effects :: "u64 \<Rightarrow> string \<Rightarrow> string \<Rightarrow> host_effect list" where
  "delay_effects usec mode path =
     (if mode = ''freezer''
      then [Write_File (path @ ''/cgroup.freeze'') ''1'', Sleep_Us usec, Write_File (path @ ''/cgroup.freeze'') ''0'']
      else if mode = ''cpu-weight''
      then [Write_File (path @ ''/cpu.weight'') ''1'', Sleep_Us usec, Write_File (path @ ''/cpu.weight'') ''100'']
      else [])"

definition inject_delay :: "string list \<Rightarrow> u64 \<Rightarrow> string \<Rightarrow> host_effect list" where
  "inject_delay others usec mode = concat (map (delay_effects usec mode) others)"

section \<open>Options and modes\<close>

datatype cli_option =
    Target_Pod string
  | Speedup string
  | Victim_Pids string
  | Fixed_Delay_Ns string
  | Period_Ms string
  | Victim_Finder string
  | Request_Aware
  | Exact_Mode
  | Request_Credit_Mode
  | No_Refund_On_Fail
  | Enable_Read_Hook

record cli =
  target_pod :: "string option"
  speedup :: "string option"
  period_ms :: int
  fixed_delay_ns :: u64
  request_aware :: bool
  exact_mode :: bool
  request_credit :: bool
  read_hook :: bool
  victim_pids_csv :: string
  victim_finder_path :: string

definition default_cli :: cli where
  "default_cli = \<lparr>target_pod = None, speedup = None, period_ms = 5, fixed_delay_ns = 0,
     request_aware = False, exact_mode = False, request_credit = False, read_hook = False,
     victim_pids_csv = [], victim_finder_path = []\<rparr>"

text \<open>\<^verbatim>\<open>atoi\<close>, for a text whose value fits.\<close>

definition atoi :: "string \<Rightarrow> int" where
  "atoi s = to_int (sint (atoll s))"

text \<open>One option; \<open>None\<close>: the program ends with an error.\<close>

fun set_option :: "cli_option \<Rightarrow> cli \<Rightarrow> cli option" where
  "set_option (Target_Pod p) c = Some (c\<lparr>target_pod := Some p\<rparr>)"
| "set_option (Speedup s) c = Some (c\<lparr>speedup := Some s\<rparr>)"
| "set_option (Victim_Pids csv) c = Some (c\<lparr>victim_pids_csv := csv\<rparr>)"
| "set_option (Fixed_Delay_Ns s) c = (case parse_uint64 s of None \<Rightarrow> None | Some d \<Rightarrow> Some (c\<lparr>fixed_delay_ns := d\<rparr>))"
| "set_option (Period_Ms s) c = Some (c\<lparr>period_ms := max 1 (atoi s)\<rparr>)"
| "set_option (Victim_Finder p) c = Some (c\<lparr>victim_finder_path := p\<rparr>)"
| "set_option Request_Aware c = Some (c\<lparr>request_aware := True\<rparr>)"
| "set_option Exact_Mode c = Some (c\<lparr>exact_mode := True\<rparr>)"
| "set_option Request_Credit_Mode c = Some (c\<lparr>request_credit := True\<rparr>)"
| "set_option No_Refund_On_Fail c = Some c"
| "set_option Enable_Read_Hook c = Some (c\<lparr>read_hook := True\<rparr>)"

fun parse_options :: "cli_option list \<Rightarrow> cli \<Rightarrow> cli option" where
  "parse_options [] c = Some (c\<lparr>request_aware := request_aware c \<or> exact_mode c\<rparr>)"
| "parse_options (opt # opts) c = (case set_option opt c of None \<Rightarrow> None | Some c' \<Rightarrow> parse_options opts c')"

definition full_pod_name :: "string option \<Rightarrow> string \<Rightarrow> string" where
  "full_pod_name ns_env p =
     (if CHR ''/'' \<in> set p then p
      else (case ns_env of Some ns \<Rightarrow> if ns \<noteq> [] then ns else ''default'' | None \<Rightarrow> ''default'') @ ''/'' @ p)"

text \<open>What the program goes on to do.\<close>

datatype run_mode =
    Stop_With_Error
  | Credit_Daemon u64 bool
  | Aware_Sampler u64
  | Fixed_Injector u64
  | Sync_Sampler
  | Consumer_Only bool \<comment> \<open>with the victims of this node\<close>

definition choose_mode ::
  "(string \<Rightarrow> string \<Rightarrow> int list) \<Rightarrow> string option \<Rightarrow> string option \<Rightarrow> (string \<Rightarrow> string \<Rightarrow> string)
     \<Rightarrow> cli \<Rightarrow> delay_state \<Rightarrow> run_mode \<times> delay_state" where
  "choose_mode finder ns_env my_node pod_node c st =
     (if request_credit c
      then (Credit_Daemon (if fixed_delay_ns c = 0 then 10000000 else fixed_delay_ns c) (read_hook c), st)
      else case target_pod c of
        None \<Rightarrow> (Stop_With_Error, st)
      | Some p \<Rightarrow>
          let manual = parse_victim_pid_csv (victim_pids_csv c)
          in if victim_pids_csv c \<noteq> [] \<and> manual = [] then (Stop_With_Error, st)
             else
               let st1 = (if victim_pids_csv c \<noteq> [] then snd (set_victim_pids manual st) else st);
                   manual1 = (if victim_pids_csv c \<noteq> [] then manual else []);
                   tp = full_pod_name ns_env p;
                   ns = before_char CHR ''/'' tp; pod = after_char CHR ''/'' tp;
                   auto_pids = finder ns pod;
                   need = fixed_delay_ns c > 0 \<and> manual1 = []
               in if need \<and> auto_pids = [] then (Stop_With_Error, st1)
                  else
                    let st2 = (if need then snd (set_victim_pids auto_pids st1) else st1);
                        manual2 = (if need then auto_pids else manual1);
                        node = pod_node ns pod;
                        is_local = (case my_node of None \<Rightarrow> True | Some n \<Rightarrow> node = [] \<or> node = n)
                    in if request_aware c \<and> fixed_delay_ns c = 0 then (Stop_With_Error, st2)
                       else if is_local
                       then (if request_aware c then Aware_Sampler (fixed_delay_ns c)
                             else if fixed_delay_ns c > 0 then Fixed_Injector (fixed_delay_ns c)
                             else Sync_Sampler, st2)
                       else (Consumer_Only (\<not> request_aware c \<and> fixed_delay_ns c = 0 \<and> manual2 = []), st2))"

text \<open>
  The threads a mode detaches and the function \<^verbatim>\<open>main\<close> then calls, the cgroup of the target once opened. \<open>others\<close> are the victims waited for, none when
  process ids were given.
\<close>

datatype activity =
    Delay_Consumer "string list"
  | Request_Aware_Sampler int u64 "string list"
  | Fixed_Delay_Injector int u64 "string list"
  | Perf_Sampler_Sync int "string list"

fun launch :: "run_mode \<Rightarrow> int \<Rightarrow> string list \<Rightarrow> activity list \<times> activity option" where
  "launch (Aware_Sampler d) period others = ([Delay_Consumer others], Some (Request_Aware_Sampler period d others))"
| "launch (Fixed_Injector d) period others = ([], Some (Fixed_Delay_Injector period d others))"
| "launch Sync_Sampler period others = ([Delay_Consumer others], Some (Perf_Sampler_Sync period others))"
| "launch (Consumer_Only here) period others = ([], Some (Delay_Consumer (if here then others else [])))"
| "launch (Credit_Daemon d hook) period others = ([], None)"
| "launch Stop_With_Error period others = ([], None)"

end
