(* ===== verification/Host_Main_Facts.thy ===== *)
theory Host_Main_Facts
  imports Host_Main Host_Delay_Facts
begin

text \<open>Facts about the command line: process ids, quoting, the search for cgroups and the modes.\<close>

section \<open>Process ids\<close>

fun csv_text :: "nat list \<Rightarrow> string" where
  "csv_text [] = []"
| "csv_text [p] = print_nat p"
| "csv_text (p # ps) = print_nat p @ CHR '','' # csv_text ps"

lemma comma_not_digit: "CHR '','' \<notin> set (print_nat n)"
  using print_nat_all_digits [of "CHR '',''" n] by (auto simp: is_digit_def char_code_def)

lemma get_lines_csv: "get_lines CHR '','' (csv_text ps) = map print_nat ps"
proof (induction ps rule: csv_text.induct)
  case (2 p)
  then show ?case
    using comma_not_digit [of p] by (subst get_lines.simps) (simp add: before_char_none)
next
  case (3 p p' ps)
  then show ?case
    using split_at_char [OF comma_not_digit [of p]] by (subst get_lines.simps) simp
qed (simp add: get_lines.simps)

lemma csv_pid_print:
  assumes "0 < p" "p < 2 ^ 31"
  shows "csv_pid (print_nat p) = Some (int p)"
proof -
  have "sint (of_nat p :: i64) = int p" using assms by (simp add: signed_of_nat signed_take_bit_int_eq_self)
  then show ?thesis
    using assms by (simp add: csv_pid_def trim_print_nat c_str_print_nat strtoll_print_nat not_sym [OF print_nat_ne])
qed

text \<open>
  A list of process ids given on the command line is read as exactly the set of these ids, in
  increasing order and each once.
\<close>

theorem victim_csv_roundtrip:
  assumes "\<forall>p\<in>set ps. 0 < p \<and> p < 2 ^ 31"
  shows "set (parse_victim_pid_csv (csv_text ps)) = int ` set ps \<and>
     sorted (parse_victim_pid_csv (csv_text ps)) \<and> distinct (parse_victim_pid_csv (csv_text ps))"
proof -
  have "List.map_filter csv_pid (map print_nat ps) = map int ps"
    using assms by (induction ps) (auto simp: List.map_filter_simps csv_pid_print)
  then show ?thesis
    using sort_unique_spec [of "map int ps"] by (simp add: parse_victim_pid_csv_def get_lines_csv)
qed

theorem victim_csv_roundtrip_witness:
  "set (parse_victim_pid_csv (csv_text [30, 7, 30])) = {7, 30}"
  using victim_csv_roundtrip [of "[30, 7, 30]"] by auto

section \<open>Quoting\<close>

text \<open>
  How a POSIX shell reads one word: outside quotes a blank ends it, a backslash makes the next
  character literal and an apostrophe opens a quoted part, inside which only the closing
  apostrophe is special. The result is the word and the rest of the line.
\<close>

fun sh_word :: "bool \<Rightarrow> string \<Rightarrow> string \<times> string" where
  "sh_word quot [] = ([], [])"
| "sh_word True (c # s) =
     (if c = CHR 0x27 then sh_word False s else case sh_word True s of (w, r) \<Rightarrow> (c # w, r))"
| "sh_word False (c # s) =
     (if c = CHR '' '' then ([], c # s)
      else if c = CHR 0x27 then sh_word True s
      else if c = CHR 0x5C
      then (case s of [] \<Rightarrow> ([c], []) | d # s' \<Rightarrow> (case sh_word False s' of (w, r) \<Rightarrow> (d # w, r)))
      else (case sh_word False s of (w, r) \<Rightarrow> (c # w, r)))"

lemma sh_word_quoted:
  "sh_word True (concat (map (\<lambda>c. if c = CHR 0x27 then [CHR 0x27, CHR 0x5C, CHR 0x27, CHR 0x27] else [c]) s) @
     CHR 0x27 # CHR '' '' # t) = (s, CHR '' '' # t)"
  by (induction s) auto

lemma sh_word_shell_quote: "sh_word False (shell_quote s @ CHR '' '' # t) = (s, CHR '' '' # t)"
  using sh_word_quoted [of s t] by (simp add: shell_quote_def)

text \<open>
  The command line that runs the finder is read by the shell as the script, the pod and the
  namespace, whatever characters these contain: no text can break out of its argument.
\<close>

theorem finder_command_words:
  "\<exists>r1 r2. sh_word False (finder_command script ns pod) = (script, CHR '' '' # r1) \<and>
     sh_word False r1 = (pod, CHR '' '' # r2) \<and> sh_word False r2 = (ns, '' 2>/dev/null'')"
proof -
  have "sh_word False (shell_quote ns @ '' 2>/dev/null'') = (ns, '' 2>/dev/null'')"
    using sh_word_shell_quote [of ns "''2>/dev/null''"] by simp
  moreover have "sh_word False (shell_quote pod @ '' '' @ u) = (pod, CHR '' '' # u)" for u
    using sh_word_shell_quote [of pod u] by simp
  moreover have "sh_word False (finder_command script ns pod) =
      (script, CHR '' '' # shell_quote pod @ '' '' @ shell_quote ns @ '' 2>/dev/null'')"
    using sh_word_shell_quote [of script] by (simp add: finder_command_def)
  ultimately show ?thesis by blast
qed

section \<open>The search for a victim's cgroup\<close>

text \<open>The first directory with tasks among those hit by a token, else the first one hit.\<close>

definition first_hit :: "(string \<Rightarrow> bool) \<Rightarrow> string list \<Rightarrow> string list \<Rightarrow> string" where
  "first_hit has_pid dirs tokens =
     (let hits = filter (\<lambda>d. list_ex (token_hits d) tokens) dirs
      in case find has_pid hits of Some d \<Rightarrow> d | None \<Rightarrow> (case hits of [] \<Rightarrow> [] | d # ds \<Rightarrow> d))"

lemma scan_tasks_spec:
  assumes "[] \<notin> set dirs"
  shows "scan_tokens has_pid tokens True dirs fallback =
     (let hits = filter (\<lambda>d. list_ex (token_hits d) tokens) dirs
      in case find has_pid hits of
           Some d \<Rightarrow> d
         | None \<Rightarrow> if fallback \<noteq> [] then fallback else (case hits of [] \<Rightarrow> [] | d # ds \<Rightarrow> d))"
  using assms
proof (induction dirs arbitrary: fallback)
  case (Cons dir dirs)
  then show ?case by (auto simp: Let_def split: option.splits)
qed (simp add: Let_def)

lemma scan_any_spec:
  "scan_tokens has_pid tokens False dirs [] =
     (case filter (\<lambda>d. list_ex (token_hits d) tokens) dirs of [] \<Rightarrow> [] | d # ds \<Rightarrow> d)"
  by (induction dirs) auto

lemma find_in_set: "find P xs = Some x \<Longrightarrow> x \<in> set xs"
  by (induction xs) (auto split: if_splits)

text \<open>
  The search returns the first directory hit by a container-scope token that has tasks, else the
  first hit by one at all, and only without any such hit the same for all tokens. (The two scans
  that do not ask for tasks never change the result.)
\<close>

theorem cgroup_by_tokens_found:
  assumes "[] \<notin> set dirs"
  shows "find_cgroup_by_tokens has_pid dirs tokens =
     (if first_hit has_pid dirs (filter strong_token tokens) \<noteq> []
      then first_hit has_pid dirs (filter strong_token tokens) else first_hit has_pid dirs tokens)"
proof -
  have tasks: "scan_tokens has_pid toks True dirs [] = first_hit has_pid dirs toks" for toks
    using scan_tasks_spec [OF assms, of has_pid toks "[]"] by (simp add: first_hit_def Let_def split: option.split)
  have any: "scan_tokens has_pid toks False dirs [] = []" if none: "first_hit has_pid dirs toks = []" for toks
  proof -
    let ?hits = "filter (\<lambda>d. list_ex (token_hits d) toks) dirs"
    have ne: "[] \<notin> set ?hits" using assms by simp
    have "find has_pid ?hits \<noteq> Some d" for d
      using none ne find_in_set [of has_pid ?hits d] by (auto simp: first_hit_def Let_def)
    then have "find has_pid ?hits = None" by (cases "find has_pid ?hits") auto
    then have "?hits = []" using none ne by (cases ?hits) (auto simp: first_hit_def Let_def)
    then show ?thesis unfolding scan_any_spec by simp
  qed
  have none: "first_hit has_pid dirs [] = []" by (simp add: first_hit_def)
  show ?thesis
    using any [of "filter strong_token tokens"] any [of tokens] none
    by (auto simp: find_cgroup_by_tokens_def tasks Let_def)
qed

theorem cgroup_by_tokens_found_witness:
  "find_cgroup_by_tokens (\<lambda>d. d = ''/b/x'') [''/a/x'', ''/b/x''] [''x''] = ''/b/x''"
proof -
  have "first_hit (\<lambda>d. d = ''/b/x'') [''/a/x'', ''/b/x''] [] = []"
    "first_hit (\<lambda>d. d = ''/b/x'') [''/a/x'', ''/b/x''] [''x''] = ''/b/x''" "\<not> strong_token ''x''"
    by code_simp+
  then show ?thesis
    using cgroup_by_tokens_found [of "[''/a/x'', ''/b/x'']" "\<lambda>d. d = ''/b/x''" "[''x'']"] by simp
qed

section \<open>Modes\<close>

text \<open>A fixed delay never starts without victims, a request-aware sampler never without a delay.\<close>

lemma choose_mode_safe:
  assumes "choose_mode finder ns_env my_node pod_node c st = (mode, st')"
  shows "mode = Aware_Sampler d \<Longrightarrow> d \<noteq> 0" "mode = Fixed_Injector d \<Longrightarrow> d \<noteq> 0"
  using assms by (auto simp: choose_mode_def Let_def split: if_splits option.splits)

section \<open>Delays by the cgroup files\<close>

text \<open>The content a file is left with, and the time slept.\<close>

fun left_in :: "string \<Rightarrow> host_effect list \<Rightarrow> string option \<Rightarrow> string option" where
  "left_in f [] c = c"
| "left_in f (Write_File g t # es) c = left_in f es (if f = g then Some t else c)"
| "left_in f (Sleep_Us u # es) c = left_in f es c"

lemma left_in_append: "left_in f (es @ es') c = left_in f es' (left_in f es c)"
  by (induction f es c rule: left_in.induct) simp_all

lemma left_in_freezer:
  "left_in (p @ ''/cgroup.freeze'') (inject_delay others usec ''freezer'') c =
     (if p \<in> set others then Some ''0'' else c)"
  by (induction others arbitrary: c) (simp_all add: inject_delay_def delay_effects_def left_in_append)

text \<open>No cgroup stays frozen, and none but the victims is touched.\<close>

lemma inject_delay_thaws:
  "p \<in> set others \<Longrightarrow> left_in (p @ ''/cgroup.freeze'') (inject_delay others usec ''freezer'') c = Some ''0''"
  "p \<notin> set others \<Longrightarrow> left_in (p @ ''/cgroup.freeze'') (inject_delay others usec ''freezer'') c = c"
  by (simp_all add: left_in_freezer)

end
