(* ===== verification/Crd_Sync.thy ===== *)
theory Crd_Sync
  imports Host_Delay
begin

text \<open>
  The global delay kept in a Kubernetes resource (\<^verbatim>\<open>hostctl_cpp/perf.cpp\<close>, the CRD helpers): the
  names and commands, the reading of the resource, and the update thread, which adds the pending
  delay of its node to the value. What \<^verbatim>\<open>kubectl\<close> prints, and whether a patch succeeds, are
  arguments. (No other code adds to the pending delay or starts the threads.)
\<close>

section \<open>The resource\<close>

record cr_spec =
  cr_group :: string
  cr_version :: string
  cr_plural :: string
  cr_name :: string
  cr_ns :: string

definition load_crspec :: "(string \<rightharpoonup> string) \<Rightarrow> cr_spec" where
  "load_crspec env =
     \<lparr>cr_group = env_or env ''KUBE_GROUP'' ''example.com'', cr_version = env_or env ''KUBE_VERSION'' ''v1alpha1'',
      cr_plural = env_or env ''KUBE_PLURAL'' ''globaldelays'', cr_name = env_or env ''GLOBAL_DELAY_NAME'' ''global-delay'',
      cr_ns = env_or env ''CR_NAMESPACE'' []\<rparr>"

definition res_qualified :: "cr_spec \<Rightarrow> string" where
  "res_qualified s = cr_plural s @ ''.'' @ cr_group s"

definition ns_flag :: "cr_spec \<Rightarrow> string" where
  "ns_flag s = (if cr_ns s = [] \<or> cr_ns s = ''-'' then [] else '' -n '' @ cr_ns s)"

definition get_command :: "cr_spec \<Rightarrow> string" where
  "get_command s =
     ''kubectl get '' @ res_qualified s @ '' '' @ cr_name s @ ns_flag s @ '' -o jsonpath='' @ [CHR 0x27] @
     ''{.spec.value} {.spec.version}'' @ [CHR 0x27]"

definition patch_command :: "cr_spec \<Rightarrow> u64 \<Rightarrow> u64 \<Rightarrow> string" where
  "patch_command s val ver =
     ''kubectl patch '' @ res_qualified s @ '' '' @ cr_name s @ ns_flag s @ '' --type merge -p '' @ [CHR 0x27] @
     ''{'' @ [CHR 0x22] @ ''spec'' @ [CHR 0x22] @ '':{'' @ [CHR 0x22] @ ''value'' @ [CHR 0x22] @ '':'' @
     print_nat (unat val) @ '','' @ [CHR 0x22] @ ''version'' @ [CHR 0x22] @ '':'' @ print_nat (unat ver) @
     ''}}'' @ [CHR 0x27] @ '' >/dev/null 2>&1''"

text \<open>\<^verbatim>\<open>std::stoull\<close>; \<open>None\<close> for its exceptions.\<close>

definition stoull :: "string \<Rightarrow> u64 option" where
  "stoull s = (case strtoull (c_str s) of (v, r, err) \<Rightarrow> if err \<or> r = c_str s then None else Some v)"

text \<open>\<open>run\<close> is what a command prints.\<close>

definition read_spec :: "(string \<Rightarrow> string option) \<Rightarrow> cr_spec \<Rightarrow> (u64 \<times> u64) option" where
  "read_spec run s =
     (case run (get_command s) of
        None \<Rightarrow> None
      | Some out \<Rightarrow>
          let line = rev (dropWhile is_space (rev (takeWhile (\<lambda>c. char_code c \<noteq> 0) (take 255 (before_char CHR 0x0A out)))));
              w1 = next_word line; w2 = next_word (snd w1)
          in if line = [] \<or> fst w1 = [] then None
             else (case stoull (fst w1) of
                     None \<Rightarrow> None
                   | Some v \<Rightarrow> Some (v, case stoull (fst w2) of None \<Rightarrow> 0 | Some ver \<Rightarrow> ver)))"

definition kubectl_get_spec :: "(string \<Rightarrow> string option) \<Rightarrow> cr_spec \<Rightarrow> (u64 \<times> u64) option" where
  "kubectl_get_spec run s =
     (case read_spec run s of
        Some r \<Rightarrow> Some r
      | None \<Rightarrow>
          read_spec run (s\<lparr>cr_plural := (if cr_plural s \<noteq> [] \<and> last (cr_plural s) = CHR ''s''
                                         then butlast (cr_plural s) else cr_plural s @ ''s'')\<rparr>))"

section \<open>The threads\<close>

record crd_node =
  pending_delta :: u64
  cached_val :: u64
  cached_ver :: u64
  crd_delay :: u64

text \<open>A round of the watch thread: the value last seen and what it reads.\<close>

definition watch_step :: "(u64 \<times> u64) option \<Rightarrow> u64 \<times> crd_node \<Rightarrow> u64 \<times> crd_node" where
  "watch_step got s =
     (case got of
        None \<Rightarrow> s
      | Some (v, ver) \<Rightarrow> if v \<noteq> fst s then (v, (snd s)\<lparr>crd_delay := v\<rparr>) else s)"

text \<open>
  A round of the update thread: first it takes the pending delay and decides what to write (reading
  the resource may fail), then the patch succeeds or not.
\<close>

definition update_plan :: "(u64 \<times> u64) option \<Rightarrow> crd_node \<Rightarrow> (u64 \<times> u64) option" where
  "update_plan got n =
     (if pending_delta n = 0 then None
      else case (case got of None \<Rightarrow> (cached_val n, cached_ver n) | Some cur \<Rightarrow> cur) of
             (v, ver) \<Rightarrow> Some (v + pending_delta n, ver + 1))"

definition update_step :: "(u64 \<times> u64) option \<Rightarrow> bool \<Rightarrow> crd_node \<Rightarrow> crd_node \<times> (u64 \<times> u64) option" where
  "update_step got patch_ok n =
     (case update_plan got n of
        None \<Rightarrow> (n, None)
      | Some (v, ver) \<Rightarrow>
          if patch_ok
          then (n\<lparr>pending_delta := 0, cached_val := v, cached_ver := ver, crd_delay := v\<rparr>, Some (v, ver))
          else (n, None))"

section \<open>One node publishes everything, two nodes may not\<close>

text \<open>
  The resource and one node: time is added to what is pending, and the update thread runs, its read
  failing or not, its patch failing or not. The last component counts what was ever added.
\<close>

inductive one_node :: "(u64 \<times> u64) \<Rightarrow> crd_node \<Rightarrow> u64 \<Rightarrow> bool" where
  begins: "one_node (v, ver) \<lparr>pending_delta = 0, cached_val = v, cached_ver = ver, crd_delay = d\<rparr> v"
| adds: "one_node cr n s \<Longrightarrow> one_node cr (n\<lparr>pending_delta := pending_delta n + x\<rparr>) (s + x)"
| updates: "one_node cr n s \<Longrightarrow> got \<in> {None, Some cr} \<Longrightarrow> update_step got ok n = (n', w) \<Longrightarrow>
     one_node (case w of None \<Rightarrow> cr | Some cr' \<Rightarrow> cr') n' s"

lemma one_node_conserves: "one_node cr n s \<Longrightarrow> fst cr + pending_delta n = s \<and> (cached_val n, cached_ver n) = cr"
  by (induction rule: one_node.induct)
    (auto simp: update_step_def update_plan_def algebra_simps split: option.splits if_splits prod.splits)

text \<open>
  Two nodes that read the resource before either writes it: both patches succeed and one node's delay
  is gone.
\<close>

lemma concurrent_update_lost:
  assumes "pending_delta a \<noteq> 0" "pending_delta b \<noteq> 0"
  shows "snd (update_step (Some (v, ver)) True a) = Some (v + pending_delta a, ver + 1) \<and>
     snd (update_step (Some (v, ver)) True b) = Some (v + pending_delta b, ver + 1)"
  using assms by (simp add: update_step_def update_plan_def)

end
