(* ===== verification/Kernel_Delay.thy ===== *)
theory Kernel_Delay
  imports Coz_Prelude
begin

text \<open>
  The kernel module \<^verbatim>\<open>kernel/mcoz.c\<close>: an ioctl that spins on the current CPU for the
  requested time, with preemption, migration and optionally bottom halves disabled. The
  clock is the sequence of values \<^verbatim>\<open>ktime_get_ns\<close> returns; what the kernel answers for the
  user copy and the capabilities are parameters of the handler.
\<close>

section \<open>The request and the device\<close>

record mcoz_delay_req =
  ns :: u64
  flags :: u32

text \<open>\<^verbatim>\<open>_IOW('m', 1, struct mcoz_delay_req)\<close>: direction 1, size 16, type 109, number 1.\<close>

definition MCOZ_IOC_DELAY :: u32 where
  "MCOZ_IOC_DELAY = push_bit 30 1 OR push_bit 16 16 OR push_bit 8 109 OR 1"

definition ENOTTY :: int where "ENOTTY = 25"
definition EFAULT :: int where "EFAULT = 14"
definition EINVAL :: int where "EINVAL = 22"
definition EPERM :: int where "EPERM = 1"

lemmas errno_defs = ENOTTY_def EFAULT_def EINVAL_def EPERM_def

section \<open>The spin\<close>

text \<open>The nesting counts the kernel keeps per CPU and task.\<close>

record cpu_state =
  preempt_depth :: nat
  migrate_depth :: nat
  bh_depth :: nat

definition preempt_disable :: "cpu_state \<Rightarrow> cpu_state" where
  "preempt_disable c = c\<lparr>preempt_depth := preempt_depth c + 1\<rparr>"
definition preempt_enable :: "cpu_state \<Rightarrow> cpu_state" where
  "preempt_enable c = c\<lparr>preempt_depth := preempt_depth c - 1\<rparr>"
definition migrate_disable :: "cpu_state \<Rightarrow> cpu_state" where
  "migrate_disable c = c\<lparr>migrate_depth := migrate_depth c + 1\<rparr>"
definition migrate_enable :: "cpu_state \<Rightarrow> cpu_state" where
  "migrate_enable c = c\<lparr>migrate_depth := migrate_depth c - 1\<rparr>"
definition local_bh_disable :: "cpu_state \<Rightarrow> cpu_state" where
  "local_bh_disable c = c\<lparr>bh_depth := bh_depth c + 1\<rparr>"
definition local_bh_enable :: "cpu_state \<Rightarrow> cpu_state" where
  "local_bh_enable c = c\<lparr>bh_depth := bh_depth c - 1\<rparr>"

lemmas cpu_defs = preempt_disable_def preempt_enable_def migrate_disable_def
  migrate_enable_def local_bh_disable_def local_bh_enable_def

text \<open>
  The loop reads the clock at each turn (\<open>k\<close> counts the readings) and leaves when the
  elapsed time, a 64-bit difference, reaches \<open>ns\<close>. It may spin for ever, so its value is an
  option: the reading at which it left.
\<close>

partial_function (option) hog_loop :: "(nat \<Rightarrow> u64) \<Rightarrow> u64 \<Rightarrow> u64 \<Rightarrow> nat \<Rightarrow> nat option" where
  "hog_loop clock start n k =
     (if clock k - start \<ge> n then Some k else hog_loop clock start n (Suc k))"

text \<open>
  The whole function: the state in which it spins, the state it leaves and the reading at
  which the spin ended.
\<close>

definition mcoz_hog_on_this_cpu ::
  "(nat \<Rightarrow> u64) \<Rightarrow> u64 \<Rightarrow> bool \<Rightarrow> cpu_state \<Rightarrow> (cpu_state \<times> cpu_state \<times> nat) option" where
  "mcoz_hog_on_this_cpu clock n block_bh c0 =
     (let start = clock 0;
          c1 = migrate_disable (preempt_disable c0);
          c2 = (if block_bh then local_bh_disable c1 else c1)
      in case hog_loop clock start n 1 of
           None \<Rightarrow> None
         | Some k \<Rightarrow>
             let c3 = (if block_bh then local_bh_enable c2 else c2)
             in Some (c2, preempt_enable (migrate_enable c3), k))"

section \<open>The ioctl handler and the module\<close>

record ioctl_env =
  user_req :: "mcoz_delay_req option" \<comment> \<open>what \<^verbatim>\<open>copy_from_user\<close> copies, if it can\<close>
  cap_sys_nice :: bool
  cap_sys_admin :: bool

text \<open>The return value, and the CPU state after it; \<open>None\<close> when the spin never ends.\<close>

definition mcoz_ioctl ::
  "ioctl_env \<Rightarrow> (nat \<Rightarrow> u64) \<Rightarrow> u32 \<Rightarrow> cpu_state \<Rightarrow> (int \<times> cpu_state) option" where
  "mcoz_ioctl env clock cmd c =
     (if cmd \<noteq> MCOZ_IOC_DELAY then Some (- ENOTTY, c)
      else case user_req env of
        None \<Rightarrow> Some (- EFAULT, c)
      | Some req \<Rightarrow>
          if ns req = 0 then Some (- EINVAL, c)
          else if \<not> cap_sys_nice env \<and> \<not> cap_sys_admin env then Some (- EPERM, c)
          else (case mcoz_hog_on_this_cpu clock (ns req) (flags req AND 1 \<noteq> 0) c of
                  None \<Rightarrow> None
                | Some (_, c', _) \<Rightarrow> Some (0, c')))"

text \<open>Loading and unloading register and remove the misc device.\<close>

definition mcoz_init :: "int \<Rightarrow> bool \<Rightarrow> bool \<times> int" where
  "mcoz_init misc_register_rc registered =
     (registered \<or> misc_register_rc = 0, misc_register_rc)"

definition mcoz_exit :: "bool \<Rightarrow> bool" where
  "mcoz_exit registered = False"

section \<open>The spin ends, and not before its time\<close>

lemma hog_loop_first:
  assumes "j \<le> k" "n \<le> clock k - start" "\<forall>i. j \<le> i \<longrightarrow> i < k \<longrightarrow> \<not> n \<le> clock i - start"
  shows "hog_loop clock start n j = Some k"
  using assms
proof (induction "k - j" arbitrary: j)
  case 0
  then show ?case by (simp add: hog_loop.simps [of clock start n j])
next
  case (Suc d)
  then have "\<not> n \<le> clock j - start" by simp
  moreover have "hog_loop clock start n (Suc j) = Some k" using Suc by simp
  ultimately show ?case by (simp add: hog_loop.simps [of clock start n j])
qed

text \<open>
  The clock hypothesis: the readings are a strictly increasing time \<open>T\<close> truncated to 64
  bits, and between two readings less time passes than the wrap-around leaves. \<open>T 0\<close> is
  the start.
\<close>

definition steady_clock :: "(nat \<Rightarrow> u64) \<Rightarrow> (nat \<Rightarrow> nat) \<Rightarrow> u64 \<Rightarrow> bool" where
  "steady_clock clock T n \<longleftrightarrow>
     (\<forall>k. clock k = of_nat (T k)) \<and> (\<forall>k. T k < T (Suc k)) \<and>
     (\<forall>k. T (Suc k) - T k \<le> 2 ^ 64 - unat n)"

lemma steady_clock_elapsed:
  assumes "steady_clock clock T n" "T k - T 0 < 2 ^ 64"
  shows "unat (clock k - clock 0) = T k - T 0"
proof -
  have "strict_mono T" using assms(1) by (simp add: steady_clock_def strict_mono_Suc_iff)
  then have "T 0 \<le> T k" by (simp add: strict_mono_less_eq)
  then have "clock k - clock 0 = of_nat (T k - T 0)"
    using assms(1) by (simp add: steady_clock_def)
  then show ?thesis using assms(2) by (simp add: unat_of_nat)
qed

lemma hog_loop_ends:
  assumes clk: "steady_clock clock T n" and pos: "0 < n"
  obtains k where "0 < k" "hog_loop clock (clock 0) n 1 = Some k"
    "unat n \<le> T k - T 0" "\<forall>i. 0 < i \<longrightarrow> i < k \<longrightarrow> T i - T 0 < unat n"
proof -
  let ?P = "\<lambda>k. unat n \<le> T k - T 0"
  have grow: "k + T 0 \<le> T k" for k
  proof (induction k)
    case (Suc k)
    have "T k < T (Suc k)" using clk by (simp add: steady_clock_def)
    with Suc show ?case by linarith
  qed simp
  have "?P (unat n)" using grow [of "unat n"] by simp
  then have ex: "\<exists>k. ?P k" by blast
  define k where "k = Least ?P"
  have Pk: "?P k" unfolding k_def by (rule LeastI_ex [OF ex])
  have before: "T i - T 0 < unat n" if "i < k" for i
    using not_less_Least [of i ?P] that by (simp add: k_def)
  have n0: "0 < unat n" using pos by (simp add: word_less_nat_alt)
  have k0: "0 < k" using Pk n0 by (cases k) auto
  then obtain j where j: "k = Suc j" by (cases k) auto
  have "T k - T 0 < 2 ^ 64"
  proof -
    have "T k - T j \<le> 2 ^ 64 - unat n" using clk by (simp add: steady_clock_def j)
    moreover have "T j - T 0 < unat n" using before j by simp
    moreover have "T 0 \<le> T j" using grow [of j] by simp
    moreover have "T j < T k" using clk by (simp add: steady_clock_def j)
    moreover have "unat n < 2 ^ 64" using unat_bound [of n] by simp
    ultimately show ?thesis by linarith
  qed
  then have "n \<le> clock k - clock 0"
    using steady_clock_elapsed [OF clk] Pk by (simp add: word_le_nat_alt)
  moreover have "\<not> n \<le> clock i - clock 0" if "i < k" for i
  proof -
    have "T i - T 0 < 2 ^ 64" using before [OF that] unat_bound [of n] by simp
    then show ?thesis
      using steady_clock_elapsed [OF clk] before [OF that] by (simp add: word_le_nat_alt)
  qed
  ultimately have "hog_loop clock (clock 0) n 1 = Some k"
    using k0 by (intro hog_loop_first) auto
  then show ?thesis using that k0 Pk before by blast
qed



text \<open>
  Whatever the outcome, a call that returns leaves the nesting counts as it found them, and
  it succeeds only for a well-formed, privileged request.
\<close>

lemma mcoz_ioctl_returns:
  assumes "mcoz_ioctl env clock cmd c = Some (r, c')"
  shows "c' = c" and "r = 0 \<longleftrightarrow> cmd = MCOZ_IOC_DELAY \<and>
     (\<exists>req. user_req env = Some req \<and> ns req \<noteq> 0) \<and> (cap_sys_nice env \<or> cap_sys_admin env)"
  using assms
  by (auto simp: mcoz_ioctl_def mcoz_hog_on_this_cpu_def Let_def cpu_defs errno_defs
      split: if_splits option.splits)

end
