(* ===== verification/Static_Map.thy ===== *)
theory Static_Map
  imports Coz_Prelude
begin

text \<open>
  The lock-free hash map of \<^verbatim>\<open>libcoz/ccutil/static_map.h\<close>, which maps thread ids to thread
  states: open addressing with linear probing over a fixed array. The template parameter
  \<^verbatim>\<open>MapSize\<close> is the length of the arrays, the null key is 0. \<^verbatim>\<open>compare_exchange_weak\<close> may
  fail although the entry is empty: the argument \<open>weak_fail\<close> says at which probes it does.
  The interface the profiler relies on is the locale \<open>thread_table\<close>.
\<close>

section \<open>The map\<close>

record 'v static_map =
  tags :: "nat list"
  vals :: "'v list"

definition map_size :: "'v static_map \<Rightarrow> nat" where
  "map_size m = length (tags m)"

definition get_bucket :: "'v static_map \<Rightarrow> nat \<Rightarrow> nat" where
  "get_bucket m key = key mod map_size m"

definition probe :: "'v static_map \<Rightarrow> nat \<Rightarrow> nat \<Rightarrow> nat" where
  "probe m key offset = (get_bucket m key + offset) mod map_size m"

primrec insert_from ::
  "(nat \<Rightarrow> bool) \<Rightarrow> nat \<Rightarrow> nat list \<Rightarrow> 'v static_map \<Rightarrow> ('v static_map \<times> nat) option" where
  "insert_from weak_fail key [] m = None"
| "insert_from weak_fail key (offset # rest) m =
     (let index = probe m key offset
      in if tags m ! index = 0 \<and> \<not> weak_fail offset
         then Some (m\<lparr>tags := (tags m)[index := key]\<rparr>, index)
         else insert_from weak_fail key rest m)"

definition sm_insert ::
  "(nat \<Rightarrow> bool) \<Rightarrow> nat \<Rightarrow> 'v static_map \<Rightarrow> ('v static_map \<times> nat) option" where
  "sm_insert weak_fail key m = insert_from weak_fail key [0..<map_size m] m"

primrec find_from :: "nat \<Rightarrow> nat list \<Rightarrow> 'v static_map \<Rightarrow> nat option" where
  "find_from key [] m = None"
| "find_from key (offset # rest) m =
     (let index = probe m key offset
      in if tags m ! index = key then Some index else find_from key rest m)"

definition sm_find :: "'v static_map \<Rightarrow> nat \<Rightarrow> nat option" where
  "sm_find m key = find_from key [0..<map_size m] m"

primrec remove_from :: "nat \<Rightarrow> nat list \<Rightarrow> 'v static_map \<Rightarrow> 'v static_map" where
  "remove_from key [] m = m"
| "remove_from key (offset # rest) m =
     (let index = probe m key offset
      in if tags m ! index = key then m\<lparr>tags := (tags m)[index := 0]\<rparr>
         else remove_from key rest m)"

definition sm_remove :: "nat \<Rightarrow> 'v static_map \<Rightarrow> 'v static_map" where
  "sm_remove key m = remove_from key [0..<map_size m] m"

section \<open>The interface\<close>

text \<open>
  What a table of live threads promises: an insertion of a thread that is not in it adds
  exactly that thread, a removal removes exactly it, and no two threads share an entry.
\<close>

locale thread_table =
  fixes lookup :: "'t \<Rightarrow> nat \<Rightarrow> nat option"
    and ins :: "(nat \<Rightarrow> bool) \<Rightarrow> nat \<Rightarrow> 't \<Rightarrow> ('t \<times> nat) option"
    and rem :: "nat \<Rightarrow> 't \<Rightarrow> 't"
    and inv :: "'t \<Rightarrow> bool"
  assumes ins_inv: "inv t \<Longrightarrow> k \<noteq> 0 \<Longrightarrow> lookup t k = None \<Longrightarrow> ins w k t = Some (t', i) \<Longrightarrow> inv t'"
    and lookup_ins: "inv t \<Longrightarrow> k \<noteq> 0 \<Longrightarrow> lookup t k = None \<Longrightarrow> ins w k t = Some (t', i) \<Longrightarrow>
      j \<noteq> 0 \<Longrightarrow> lookup t' j = (if j = k then Some i else lookup t j)"
    and rem_inv: "inv t \<Longrightarrow> k \<noteq> 0 \<Longrightarrow> inv (rem k t)"
    and lookup_rem: "inv t \<Longrightarrow> k \<noteq> 0 \<Longrightarrow> j \<noteq> 0 \<Longrightarrow>
      lookup (rem k t) j = (if j = k then None else lookup t j)"
    and lookup_inj: "inv t \<Longrightarrow> j \<noteq> 0 \<Longrightarrow> k \<noteq> 0 \<Longrightarrow>
      lookup t j = Some i \<Longrightarrow> lookup t k = Some i \<Longrightarrow> j = k"
begin

text \<open>Threads starting and ending, in any order; a full table refuses the start.\<close>

inductive table_run :: "'t \<Rightarrow> nat set \<Rightarrow> 't \<Rightarrow> nat set \<Rightarrow> bool" where
  stop: "table_run t live t live"
| start: "table_run t live t1 live1 \<Longrightarrow> k \<noteq> 0 \<Longrightarrow> k \<notin> live1 \<Longrightarrow> ins w k t1 = Some (t2, i) \<Longrightarrow>
     table_run t live t2 (insert k live1)"
| refuse: "table_run t live t1 live1 \<Longrightarrow> ins w k t1 = None \<Longrightarrow> table_run t live t1 live1"
| finish: "table_run t live t1 live1 \<Longrightarrow> k \<in> live1 \<Longrightarrow> table_run t live (rem k t1) (live1 - {k})"

lemma table_run_live:
  assumes "table_run t live t' live'" "inv t" "0 \<notin> live"
    "\<forall>k. k \<noteq> 0 \<longrightarrow> (k \<in> live \<longleftrightarrow> lookup t k \<noteq> None)"
  shows "inv t' \<and> 0 \<notin> live' \<and> (\<forall>k. k \<noteq> 0 \<longrightarrow> (k \<in> live' \<longleftrightarrow> lookup t' k \<noteq> None))"
  using assms
proof (induction rule: table_run.induct)
  case (start t live t1 live1 k w t2 i)
  then have IH: "inv t1" "0 \<notin> live1" "\<forall>k. k \<noteq> 0 \<longrightarrow> (k \<in> live1 \<longleftrightarrow> lookup t1 k \<noteq> None)" by auto
  with start.hyps have "lookup t1 k = None" by blast
  note ins = ins_inv [OF IH(1) start.hyps(2) this start.hyps(4)]
    lookup_ins [OF IH(1) start.hyps(2) this start.hyps(4)]
  show ?case using IH ins start.hyps(2) by auto
next
  case (finish t live t1 live1 k)
  then have IH: "inv t1" "0 \<notin> live1" "\<forall>k. k \<noteq> 0 \<longrightarrow> (k \<in> live1 \<longleftrightarrow> lookup t1 k \<noteq> None)" by auto
  with finish.hyps have "k \<noteq> 0" by metis
  with IH rem_inv lookup_rem [OF IH(1) this] show ?case by auto
qed auto

lemma table_run_slots_disjoint:
  assumes "table_run t live t' live'" "inv t" "0 \<notin> live"
    "\<forall>k. k \<noteq> 0 \<longrightarrow> (k \<in> live \<longleftrightarrow> lookup t k \<noteq> None)" "j \<in> live'" "k \<in> live'" "j \<noteq> k"
  shows "lookup t' j \<noteq> None \<and> lookup t' k \<noteq> None \<and> lookup t' j \<noteq> lookup t' k"
proof -
  note L = table_run_live [OF assms(1-4)]
  then have jk: "j \<noteq> 0" "k \<noteq> 0" using assms(5,6) by metis+
  with L assms(5-7) lookup_inj [of t' j k] show ?thesis by fastforce
qed

end

section \<open>The probes reach every entry\<close>

text \<open>No two entries hold the same thread id.\<close>

definition sm_inv :: "'v static_map \<Rightarrow> bool" where
  "sm_inv m \<longleftrightarrow> 0 < map_size m \<and> length (vals m) = map_size m \<and>
     (\<forall>i<map_size m. \<forall>j<map_size m. tags m ! i = tags m ! j \<longrightarrow> tags m ! i \<noteq> 0 \<longrightarrow> i = j)"

lemma probe_less: "0 < map_size m \<Longrightarrow> probe m key offset < map_size m"
  by (simp add: probe_def)

lemma probe_onto:
  assumes "i < map_size m"
  shows "\<exists>offset<map_size m. probe m key offset = i"
proof -
  let ?n = "map_size m" and ?b = "get_bucket m key"
  have b: "?b < ?n" using assms by (simp add: get_bucket_def)
  show ?thesis
  proof (cases "?b \<le> i")
    case True
    with b assms show ?thesis by (intro exI [of _ "i - ?b"]) (auto simp: probe_def)
  next
    case False
    then have "?b + (?n - ?b + i) = i + ?n" using b by simp
    then have "probe m key (?n - ?b + i) = i" using assms by (simp add: probe_def)
    with False b show ?thesis by (intro exI [of _ "?n - ?b + i"]) auto
  qed
qed

lemma find_from_Some:
  "find_from key offs m = Some i \<Longrightarrow> tags m ! i = key \<and> (\<exists>offset\<in>set offs. i = probe m key offset)"
  by (induction offs) (auto simp: Let_def split: if_splits)

lemma find_from_None:
  "find_from key offs m = None \<longleftrightarrow> (\<forall>offset\<in>set offs. tags m ! probe m key offset \<noteq> key)"
  by (induction offs) (auto simp: Let_def)

lemma sm_find_Some:
  assumes "sm_inv m" "sm_find m key = Some i"
  shows "i < map_size m \<and> tags m ! i = key"
proof -
  have "0 < map_size m" using assms(1) by (simp only: sm_inv_def)
  then have "probe m key offset < map_size m" for offset by (rule probe_less)
  with find_from_Some [OF assms(2) [unfolded sm_find_def]] show ?thesis by metis
qed

lemma sm_find_None:
  assumes "sm_find m key = None" "i < map_size m"
  shows "tags m ! i \<noteq> key"
  using assms probe_onto [OF assms(2), of key] by (auto simp: sm_find_def find_from_None)

lemma sm_find_iff:
  assumes "sm_inv m" "key \<noteq> 0"
  shows "sm_find m key = Some i \<longleftrightarrow> i < map_size m \<and> tags m ! i = key"
proof
  assume i: "i < map_size m \<and> tags m ! i = key"
  then obtain j where j: "sm_find m key = Some j" using sm_find_None by fastforce
  with sm_find_Some [OF assms(1) j] i assms show "sm_find m key = Some i"
    by (auto simp: sm_inv_def)
qed (rule sm_find_Some [OF assms(1)])

lemma sm_find_eqI:
  assumes "sm_inv m" "sm_inv m'" "j \<noteq> 0" "map_size m' = map_size m"
    "\<And>i. i < map_size m \<Longrightarrow> tags m' ! i = j \<longleftrightarrow> tags m ! i = j"
  shows "sm_find m' j = sm_find m j"
  using sm_find_iff [OF assms(1,3)] sm_find_iff [OF assms(2,3)] assms(4,5)
  by (metis not_None_eq option.exhaust)

lemma insert_from_Some:
  "insert_from w key offs m = Some (m', i) \<Longrightarrow>
   tags m ! i = 0 \<and> m' = m\<lparr>tags := (tags m)[i := key]\<rparr> \<and> (\<exists>offset\<in>set offs. i = probe m key offset)"
  by (induction offs) (auto simp: Let_def split: if_splits)

lemma insert_from_None:
  "insert_from w key offs m = None \<longleftrightarrow>
   (\<forall>offset\<in>set offs. tags m ! probe m key offset \<noteq> 0 \<or> w offset)"
  by (induction offs) (auto simp: Let_def)

lemma sm_insert_Some:
  assumes "0 < map_size m" "sm_insert w key m = Some (m', i)"
  shows "i < map_size m" "tags m ! i = 0" "m' = m\<lparr>tags := (tags m)[i := key]\<rparr>"
  using insert_from_Some [OF assms(2) [unfolded sm_insert_def]] probe_less [OF assms(1)] by auto

lemma remove_from_eq:
  "remove_from key offs m =
     (case find_from key offs m of None \<Rightarrow> m | Some i \<Rightarrow> m\<lparr>tags := (tags m)[i := 0]\<rparr>)"
  by (induction offs) (auto simp: Let_def)

lemma sm_remove_eq:
  "sm_remove key m =
     (case sm_find m key of None \<Rightarrow> m | Some i \<Rightarrow> m\<lparr>tags := (tags m)[i := 0]\<rparr>)"
  by (simp add: sm_remove_def sm_find_def remove_from_eq)

lemma sm_inv_update:
  assumes "sm_inv m" "i < map_size m"
    "\<forall>j<map_size m. j \<noteq> i \<longrightarrow> tags m ! j = t \<longrightarrow> t = 0"
  shows "sm_inv (m\<lparr>tags := (tags m)[i := t]\<rparr>)"
  using assms by (fastforce simp: sm_inv_def map_size_def nth_list_update)

lemma sm_update_tags:
  "map_size (m\<lparr>tags := (tags m)[i := t]\<rparr>) = map_size m"
  by (simp add: map_size_def)

lemma sm_insert_step:
  assumes "sm_inv m" "key \<noteq> 0" "sm_find m key = None" "sm_insert w key m = Some (m', i)"
  shows "sm_inv m'" "j \<noteq> 0 \<Longrightarrow> sm_find m' j = (if j = key then Some i else sm_find m j)"
proof -
  have pos: "0 < map_size m" using assms(1) by (simp only: sm_inv_def)
  note ins = sm_insert_Some [OF pos assms(4)]
  have fresh: "\<forall>x<map_size m. tags m ! x \<noteq> key" using sm_find_None [OF assms(3)] by blast
  show inv': "sm_inv m'" unfolding ins(3)
    by (rule sm_inv_update [OF assms(1) ins(1)]) (use fresh in blast)
  show "sm_find m' j = (if j = key then Some i else sm_find m j)" if "j \<noteq> 0"
  proof (cases "j = key")
    case True
    from ins(1) have "i < map_size m' \<and> tags m' ! i = key"
      unfolding ins(3) sm_update_tags by (simp add: map_size_def)
    with True show ?thesis using sm_find_iff [OF inv' that, of i] by simp
  next
    case False
    have "sm_find m' j = sm_find m j"
    proof (rule sm_find_eqI [OF assms(1) inv' that])
      show "map_size m' = map_size m" by (simp add: ins(3) sm_update_tags)
      show "tags m' ! x = j \<longleftrightarrow> tags m ! x = j" if "x < map_size m" for x
        using that ins False \<open>j \<noteq> 0\<close> by (auto simp: nth_list_update map_size_def)
    qed
    with False show ?thesis by simp
  qed
qed

lemma sm_remove_step:
  assumes "sm_inv m" "key \<noteq> 0"
  shows "sm_inv (sm_remove key m)"
    "j \<noteq> 0 \<Longrightarrow> sm_find (sm_remove key m) j = (if j = key then None else sm_find m j)"
proof -
  show inv': "sm_inv (sm_remove key m)"
    using sm_find_Some [OF assms(1), of key] assms(1)
    by (auto simp: sm_remove_eq split: option.split intro!: sm_inv_update)
  show "sm_find (sm_remove key m) j = (if j = key then None else sm_find m j)" if j: "j \<noteq> 0"
  proof (cases "sm_find m key")
    case None
    then show ?thesis by (simp add: sm_remove_eq)
  next
    case (Some i)
    then have rm: "sm_remove key m = m\<lparr>tags := (tags m)[i := 0]\<rparr>" by (simp add: sm_remove_eq)
    note i = sm_find_Some [OF assms(1) Some]
    show ?thesis
    proof (cases "j = key")
      case True
      have "sm_find (sm_remove key m) key \<noteq> Some x" for x
        using i assms sm_find_iff [OF inv' assms(2)] rm
        by (auto simp: sm_update_tags nth_list_update map_size_def sm_inv_def)
      with True show ?thesis by auto
    next
      case False
      have "sm_find (sm_remove key m) j = sm_find m j"
      proof (rule sm_find_eqI [OF assms(1) inv' j])
        show "map_size (sm_remove key m) = map_size m" by (simp add: rm sm_update_tags)
        show "tags (sm_remove key m) ! x = j \<longleftrightarrow> tags m ! x = j" if "x < map_size m" for x
          using that i False j rm by (auto simp: nth_list_update map_size_def)
      qed
      with False show ?thesis by simp
    qed
  qed
qed

interpretation tt: thread_table sm_find sm_insert sm_remove sm_inv
proof (unfold_locales, goal_cases)
  case 1 then show ?case by (rule sm_insert_step(1))
next
  case 2 then show ?case by (rule sm_insert_step(2))
next
  case 3 then show ?case by (rule sm_remove_step(1))
next
  case 4 then show ?case by (rule sm_remove_step(2))
next
  case (5 t j k i)
  then show ?case using sm_find_Some [of t j i] sm_find_Some [of t k i] by simp
qed

section \<open>The table over a run of threads\<close>

definition empty_map :: "nat \<Rightarrow> 'v \<Rightarrow> 'v static_map" where
  "empty_map n v = \<lparr>tags = replicate n 0, vals = replicate n v\<rparr>"

datatype thread_event = Start nat "nat list" | Finish nat

text \<open>
  A start names the probes at which the weak compare-and-swap fails spuriously. The operating
  system starts a thread id only when it is not live; a refused start never becomes live.
\<close>

fun table_event :: "thread_event \<Rightarrow> 'v static_map \<times> nat set \<Rightarrow> ('v static_map \<times> nat set) option"
where
  "table_event (Start key fails) (m, live) =
     (if key = 0 \<or> key \<in> live then None
      else (case sm_insert (\<lambda>offset. offset \<in> set fails) key m of
              None \<Rightarrow> Some (m, live)
            | Some (m', i) \<Rightarrow> Some (m', insert key live)))"
| "table_event (Finish key) (m, live) =
     (if key \<in> live then Some (sm_remove key m, live - {key}) else None)"

fun table_events ::
  "thread_event list \<Rightarrow> 'v static_map \<times> nat set \<Rightarrow> ('v static_map \<times> nat set) option" where
  "table_events [] s = Some s"
| "table_events (e # es) s = (case table_event e s of None \<Rightarrow> None | Some s' \<Rightarrow> table_events es s')"

lemma empty_map_inv: "0 < n \<Longrightarrow> sm_inv (empty_map n v)"
  by (simp add: sm_inv_def empty_map_def map_size_def)

lemma empty_map_find:
  assumes "0 < n" "k \<noteq> 0"
  shows "sm_find (empty_map n v) k = None"
proof (cases "sm_find (empty_map n v) k")
  case (Some i)
  from sm_find_Some [OF empty_map_inv [OF assms(1)] Some] assms(2)
  have False by (auto simp: empty_map_def map_size_def)
  then show ?thesis ..
qed simp

lemma table_event_run:
  "tt.table_run m0 live0 m live \<Longrightarrow> table_event e (m, live) = Some (m', live') \<Longrightarrow>
   tt.table_run m0 live0 m' live'"
  by (cases e) (auto split: if_splits option.splits intro: tt.table_run.intros)

lemma table_events_run:
  "table_events es (m, live) = Some (m', live') \<Longrightarrow> tt.table_run m0 live0 m live \<Longrightarrow>
   tt.table_run m0 live0 m' live'"
proof (induction es arbitrary: m live)
  case (Cons e es)
  then obtain m1 live1 where e: "table_event e (m, live) = Some (m1, live1)"
    and es: "table_events es (m1, live1) = Some (m', live')"
    by (auto split: option.splits)
  show ?case by (rule Cons.IH [OF es table_event_run [OF Cons.prems(2) e]])
qed simp

text \<open>
  C18. After any sequence of thread starts and ends from the empty table, whatever probes fail
  spuriously: exactly the live threads are found, and two live threads have different entries.
\<close>

theorem live_threads_have_own_entries:
  assumes "0 < n" "table_events es (empty_map n v, {}) = Some (m, live)" "j \<noteq> 0" "k \<noteq> 0" "j \<noteq> k"
  shows "(sm_find m j \<noteq> None \<longleftrightarrow> j \<in> live) \<and>
    (j \<in> live \<longrightarrow> k \<in> live \<longrightarrow> sm_find m j \<noteq> sm_find m k)"
proof -
  note run = table_events_run [OF assms(2) tt.stop]
  have start: "\<forall>k. k \<noteq> 0 \<longrightarrow> (k \<in> {} \<longleftrightarrow> sm_find (empty_map n v) k \<noteq> None)"
    by (simp add: empty_map_find assms(1))
  show ?thesis
    using tt.table_run_live [OF run empty_map_inv [OF assms(1)] _ start]
      tt.table_run_slots_disjoint [OF run empty_map_inv [OF assms(1)] _ start, of j k] assms(3-5)
    by (metis empty_iff)
qed

theorem live_threads_have_own_entries_witness:
  "\<exists>m. table_events [Start 5 [], Start 8 [0], Start 2 [], Start 3 [], Finish 8, Start 9 []]
          (empty_map 3 (), {}) = Some (m, {5, 2, 9}) \<and>
     sm_find m 8 = None \<and> sm_find m 5 \<noteq> sm_find m 9"
proof -
  let ?es = "[Start 5 [], Start 8 [0], Start 2 [], Start 3 [], Finish 8, Start 9 []]"
  let ?m = "\<lparr>tags = [9, 2, 5], vals = [(), (), ()]\<rparr>"
  have run: "table_events ?es (empty_map 3 (), {}) = Some (?m, {5, 2, 9})" by code_simp
  from live_threads_have_own_entries [OF _ this, of 8 5]
    live_threads_have_own_entries [OF _ this, of 5 9] run
  show ?thesis by auto
qed

lemma sm_insert_refused:
  "sm_insert w key m = None \<longleftrightarrow>
   (\<forall>offset<map_size m. tags m ! probe m key offset \<noteq> 0 \<or> w offset)"
  by (auto simp: sm_insert_def insert_from_None)

lemma all_probes: "(\<forall>offset<map_size m. P (probe m key offset)) \<longleftrightarrow> (\<forall>i<map_size m. P i)"
proof
  assume "\<forall>offset<map_size m. P (probe m key offset)"
  then show "\<forall>i<map_size m. P i" using probe_onto by metis
next
  assume all: "\<forall>i<map_size m. P i"
  show "\<forall>offset<map_size m. P (probe m key offset)"
  proof (intro allI impI)
    fix offset assume "offset < map_size m"
    then have "0 < map_size m" by simp
    with all probe_less show "P (probe m key offset)" by blast
  qed
qed

text \<open>
  An insertion is refused exactly when every probed entry is taken or fails its
  compare-and-swap; when no compare-and-swap fails spuriously, exactly when no entry of the
  table is empty. A successful insertion writes the tag of one empty entry and nothing else:
  the value the previous thread left there is kept.
\<close>

theorem sm_insert_outcome:
  "(case sm_insert w key m of
      None \<Rightarrow> \<forall>offset<map_size m. tags m ! probe m key offset = 0 \<longrightarrow> w offset
    | Some (m', i) \<Rightarrow> tags m ! i = 0 \<and> i < map_size m \<and> tags m' = (tags m)[i := key] \<and> vals m' = vals m)
   \<and> (sm_insert (\<lambda>offset. False) key m = None \<longleftrightarrow> 0 \<notin> set (tags m))"
proof
  show "case sm_insert w key m of
      None \<Rightarrow> \<forall>offset<map_size m. tags m ! probe m key offset = 0 \<longrightarrow> w offset
    | Some (m', i) \<Rightarrow> tags m ! i = 0 \<and> i < map_size m \<and> tags m' = (tags m)[i := key] \<and> vals m' = vals m"
  proof (cases "sm_insert w key m")
    case None
    from None [unfolded sm_insert_refused] show ?thesis unfolding None option.case by blast
  next
    case (Some r)
    obtain m' i where r: "r = (m', i)" by (cases r)
    have "0 < map_size m" using Some by (cases "map_size m") (simp_all add: sm_insert_def)
    from sm_insert_Some [OF this, of w key m' i] Some r show ?thesis by auto
  qed
  have "sm_insert (\<lambda>offset. False) key m = None \<longleftrightarrow> (\<forall>i<map_size m. tags m ! i \<noteq> 0)"
    using all_probes [of m "\<lambda>i. tags m ! i \<noteq> 0" key] by (simp only: sm_insert_refused simp_thms)
  then show "sm_insert (\<lambda>offset. False) key m = None \<longleftrightarrow> 0 \<notin> set (tags m)"
    by (metis in_set_conv_nth map_size_def)
qed

end
