(* ===== verification/Memory_Map.thy ===== *)
theory Memory_Map
  imports Coz_Prelude "HOL-Library.Char_ord" "HOL-Library.List_Lexorder"
begin

text \<open>
  The memory map of \<^verbatim>\<open>libcoz/inspect.cpp\<close> and \<^verbatim>\<open>libcoz/inspect.h\<close>: scope patterns, canonical
  paths, and the map from code addresses to source lines. The map is a \<^verbatim>\<open>std::map\<close> keyed by
  intervals whose order calls overlapping intervals equal; it is modelled as the list of its
  entries in key order. Reading ELF and DWARF is not modelled: the rows of a line table are an
  argument of the walk that files them.
\<close>

section \<open>Splitting and canonical paths\<close>

text \<open>\<^verbatim>\<open>split\<close> of \<^verbatim>\<open>util.h\<close>: the non-empty pieces between delimiters.\<close>

fun split_acc :: "char \<Rightarrow> string \<Rightarrow> string \<Rightarrow> string list" where
  "split_acc delim item [] = (if item = [] then [] else [item])"
| "split_acc delim item (c # s) =
     (if c = delim then (if item = [] then [] else [item]) @ split_acc delim [] s
      else split_acc delim (item @ [c]) s)"

definition split_str :: "string \<Rightarrow> char \<Rightarrow> string list" where
  "split_str s delim = split_acc delim [] s"

text \<open>The empty file name reads the terminating zero character, which is no slash.\<close>

definition absolute_path :: "string \<Rightarrow> string \<Rightarrow> string" where
  "absolute_path cwd filename =
     (if filename \<noteq> [] \<and> hd filename = CHR ''/'' then filename else cwd @ ''/'' @ filename)"

fun reduce_parts :: "string list \<Rightarrow> string list \<Rightarrow> c_fault + string list" where
  "reduce_parts reduced [] = Inr reduced"
| "reduce_parts reduced (part # parts) =
     (if part = ''..'' then
        (if reduced = [] then Inl Aborted else reduce_parts (butlast reduced) parts)
      else if part \<noteq> [] \<and> part \<noteq> ''.'' then reduce_parts (reduced @ [part]) parts
      else reduce_parts reduced parts)"

definition join_parts :: "string list \<Rightarrow> string" where
  "join_parts reduced = concat (map (\<lambda>part. CHR ''/'' # part) reduced)"

definition canonicalize_path :: "string \<Rightarrow> string \<Rightarrow> c_fault + string" where
  "canonicalize_path cwd filename =
     ebind (reduce_parts [] (split_str (absolute_path cwd filename) (CHR ''/'')))
       (\<lambda>reduced. Inr (join_parts reduced))"

section \<open>Scope patterns\<close>

fun skip_literals :: "string \<Rightarrow> string \<Rightarrow> (string \<times> string) option" where
  "skip_literals (s # ss) (p # ps) =
     (if p = CHR ''%'' then Some (s # ss, p # ps)
      else if p \<noteq> s then None
      else skip_literals ss ps)"
| "skip_literals ss ps = Some (ss, ps)"

lemma skip_literals_shorter:
  "skip_literals ss ps = Some (ss', ps') \<Longrightarrow> length ps' \<le> length ps"
  by (induction ss ps rule: skip_literals.induct) (auto split: if_splits)

lemma skip_literals_strict:
  "skip_literals (s # ss) (p # ps) = Some (ss', ps') \<Longrightarrow> p \<noteq> CHR ''%'' \<Longrightarrow>
   length ps' < length (p # ps)"
  using skip_literals_shorter [of ss ps ss' ps'] by (auto split: if_splits)

text \<open>
  \<^verbatim>\<open>wildcard_match\<close>: at a wildcard the longest match is tried first, so the suffixes of the
  subject are tried from the empty one on.
\<close>

function wildcard_match :: "string \<Rightarrow> string \<Rightarrow> bool" where
  "wildcard_match subject pattern =
     (if (pattern = []) \<noteq> (subject = []) then False
      else if pattern = [] then True
      else if hd pattern = CHR ''%'' then
        (\<exists>n\<in>set (rev [0..<Suc (length subject)]). wildcard_match (drop n subject) (tl pattern))
      else (case skip_literals subject pattern of
              None \<Rightarrow> False
            | Some (subject', pattern') \<Rightarrow> wildcard_match subject' pattern'))"
  by pat_completeness auto
termination
proof (relation "measure (\<lambda>(s, p). length p)", goal_cases)
  case (2 subject pattern n)
  then show ?case by (cases pattern) auto
next
  case (3 subject pattern a subject' pattern')
  then obtain s ss p ps where "subject = s # ss" "pattern = p # ps"
    by (cases subject; cases pattern) auto
  with 3 skip_literals_strict [of s ss p ps subject' pattern'] show ?case by auto
qed auto

declare wildcard_match.simps [simp del]

fun in_scope_norm :: "string \<Rightarrow> string list \<Rightarrow> bool" where
  "in_scope_norm normalized [] = False"
| "in_scope_norm normalized (pattern # scope) =
     (if wildcard_match normalized pattern then True else in_scope_norm normalized scope)"

definition in_scope :: "string \<Rightarrow> string \<Rightarrow> string list \<Rightarrow> c_fault + bool" where
  "in_scope cwd fname scope =
     ebind (canonicalize_path cwd fname) (\<lambda>normalized. Inr (in_scope_norm normalized scope))"

section \<open>Intervals and the map from addresses to lines\<close>

record interval =
  ibase :: u64
  ilimit :: u64

definition unit_interval :: "u64 \<Rightarrow> interval" where
  "unit_interval p = \<lparr>ibase = p, ilimit = p + 1\<rparr>"

definition ishift :: "interval \<Rightarrow> u64 \<Rightarrow> interval" where
  "ishift r x = \<lparr>ibase = ibase r + x, ilimit = ilimit r + x\<rparr>"

definition iless :: "interval \<Rightarrow> interval \<Rightarrow> bool" where
  "iless a b \<longleftrightarrow> ilimit a \<le> ibase b"

definition icontains :: "interval \<Rightarrow> u64 \<Rightarrow> bool" where
  "icontains r x \<longleftrightarrow> ibase r \<le> x \<and> x < ilimit r"

text \<open>A line is identified by its file name and number, as \<^verbatim>\<open>file::get_line\<close> shares it.\<close>

type_synonym line_id = "string \<times> u64"
type_synonym ranges = "(interval \<times> line_id) list"

text \<open>\<^verbatim>\<open>std::map::find\<close>: the first key that is not less, unless the sought key is less than it.\<close>

fun ranges_find :: "interval \<Rightarrow> ranges \<Rightarrow> line_id option" where
  "ranges_find key [] = None"
| "ranges_find key ((r, l) # rs) =
     (if iless r key then ranges_find key rs
      else if iless key r then None
      else Some l)"

text \<open>\<^verbatim>\<open>std::map::emplace\<close>: no insertion when an equivalent key is there.\<close>

fun ranges_emplace :: "interval \<Rightarrow> line_id \<Rightarrow> ranges \<Rightarrow> ranges" where
  "ranges_emplace key v [] = [(key, v)]"
| "ranges_emplace key v ((r, l) # rs) =
     (if iless r key then (r, l) # ranges_emplace key v rs
      else if iless key r then (key, v) # (r, l) # rs
      else (r, l) # rs)"

definition add_range :: "string \<Rightarrow> u64 \<Rightarrow> interval \<Rightarrow> ranges \<Rightarrow> ranges" where
  "add_range fname line_no r rs = ranges_emplace r (fname, line_no) rs"

definition find_line :: "ranges \<Rightarrow> u64 \<Rightarrow> line_id option" where
  "find_line rs addr = ranges_find (unit_interval addr) rs"

text \<open>
  The files with their lines, in the order of the \<^verbatim>\<open>std::map\<close>: \<^verbatim>\<open>get_file\<close> followed by \<^verbatim>\<open>get_line\<close>,
  which create what is not there.
\<close>

type_synonym file_table = "(string \<times> u64 list) list"

fun file_get_line :: "string \<Rightarrow> u64 \<Rightarrow> file_table \<Rightarrow> file_table" where
  "file_get_line fname n [] = [(fname, [n])]"
| "file_get_line fname n ((g, ns) # fs) =
     (if fname = g then (g, if n \<in> set ns then ns else ns @ [n]) # fs
      else if fname < g then (fname, [n]) # (g, ns) # fs
      else (g, ns) # file_get_line fname n fs)"

record mem_map =
  mm_files :: file_table
  mm_ranges :: ranges

text \<open>\<^verbatim>\<open>memory_map::add_range\<close> files the line even when its range is not inserted.\<close>

definition mm_add_range :: "string \<Rightarrow> u64 \<Rightarrow> interval \<Rightarrow> mem_map \<Rightarrow> mem_map" where
  "mm_add_range fname n r m =
     \<lparr>mm_files = file_get_line fname n (mm_files m), mm_ranges = add_range fname n r (mm_ranges m)\<rparr>"

section \<open>The walk over a line table\<close>

record line_row =
  row_file :: string
  row_line :: u64
  row_address :: u64
  row_end_sequence :: bool

record walk_state =
  prev_filename :: string
  prev_line :: u64
  prev_address :: u64
  walk_map :: mem_map

definition walk_row ::
  "string \<Rightarrow> string list \<Rightarrow> u64 \<Rightarrow> line_row \<Rightarrow> walk_state \<Rightarrow> c_fault + walk_state" where
  "walk_row cwd scope load_address row st =
     ebind (in_scope cwd (prev_filename st) scope) (\<lambda>scoped.
       let st1 = (if scoped \<and> prev_address st \<noteq> 0 then
                    st\<lparr>walk_map := mm_add_range (prev_filename st) (prev_line st)
                         (ishift \<lparr>ibase = prev_address st, ilimit = row_address row\<rparr> load_address)
                         (walk_map st)\<rparr>
                  else st)
       in if row_end_sequence row then Inr (st1\<lparr>prev_address := 0\<rparr>)
          else ebind (canonicalize_path cwd (row_file row)) (\<lambda>path.
                 Inr (st1\<lparr>prev_filename := path, prev_line := row_line row,
                          prev_address := row_address row\<rparr>)))"

primrec walk_rows_from ::
  "string \<Rightarrow> string list \<Rightarrow> u64 \<Rightarrow> line_row list \<Rightarrow> walk_state \<Rightarrow> c_fault + walk_state" where
  "walk_rows_from cwd scope load_address [] st = Inr st"
| "walk_rows_from cwd scope load_address (row # rows) st =
     ebind (walk_row cwd scope load_address row st) (walk_rows_from cwd scope load_address rows)"

definition walk_rows ::
  "string \<Rightarrow> string list \<Rightarrow> u64 \<Rightarrow> line_row list \<Rightarrow> mem_map \<Rightarrow> c_fault + mem_map" where
  "walk_rows cwd scope load_address rows m =
     ebind (walk_rows_from cwd scope load_address rows
              \<lparr>prev_filename = [], prev_line = 0, prev_address = 0, walk_map = m\<rparr>)
       (\<lambda>st. Inr (walk_map st))"

section \<open>Canonical paths\<close>

lemma split_acc_parts:
  assumes "delim \<notin> set item" "part \<in> set (split_acc delim item s)"
  shows "part \<noteq> [] \<and> delim \<notin> set part"
  using assms
proof (induction s arbitrary: item)
  case (Cons c s)
  show ?case
  proof (cases "c = delim")
    case True
    with Cons.prems Cons.IH [of "[]"] show ?thesis by (auto split: if_splits)
  next
    case False
    with Cons.prems Cons.IH [of "item @ [c]"] show ?thesis by simp
  qed
qed (simp split: if_splits)

lemma split_acc_join:
  "\<forall>part\<in>set parts. part \<noteq> [] \<and> delim \<notin> set part \<Longrightarrow> delim \<notin> set item \<Longrightarrow>
   split_acc delim item (concat (map (\<lambda>part. delim # part) parts))
     = (if item = [] then [] else [item]) @ parts"
proof (induction parts arbitrary: item)
  case (Cons part parts)
  have app: "delim \<notin> set p \<Longrightarrow> split_acc delim i (p @ s) = split_acc delim (i @ p) s" for p i s
    by (induction p arbitrary: i) auto
  show ?case using Cons.prems Cons.IH [of part] by (simp add: app)
qed simp

definition plain_part :: "string \<Rightarrow> bool" where
  "plain_part part \<longleftrightarrow> part \<noteq> [] \<and> part \<noteq> ''.'' \<and> part \<noteq> ''..'' \<and> CHR ''/'' \<notin> set part"

lemma reduce_parts_plain:
  assumes "\<forall>part\<in>set parts. part \<noteq> [] \<and> CHR ''/'' \<notin> set part" "\<forall>part\<in>set reduced. plain_part part"
    "reduce_parts reduced parts = Inr result"
  shows "\<forall>part\<in>set result. plain_part part"
  using assms
proof (induction parts arbitrary: reduced)
  case (Cons part parts)
  have parts: "\<forall>part\<in>set parts. part \<noteq> [] \<and> CHR ''/'' \<notin> set part"
    and part: "part \<noteq> []" "CHR ''/'' \<notin> set part" using Cons.prems(1) by simp_all
  note IH = Cons.IH [OF parts]
  consider "part = ''..''" | "part = ''.''" | "part \<noteq> ''..''" "part \<noteq> ''.''" by blast
  then show ?case
  proof cases
    case 1
    have "\<forall>part\<in>set (butlast reduced). plain_part part"
      using Cons.prems(2) by (auto dest: in_set_butlastD)
    from IH [OF this] 1 Cons.prems(3) show ?thesis by (cases "reduced = []") simp_all
  next
    case 2
    with IH [OF Cons.prems(2)] Cons.prems(3) show ?thesis by simp
  next
    case 3
    then have "\<forall>p\<in>set (reduced @ [part]). plain_part p"
      using Cons.prems(2) part by (auto simp only: plain_part_def set_append list.set)
    from IH [OF this] 3 part(1) Cons.prems(3) show ?thesis by simp
  qed
qed simp

lemma reduce_parts_id:
  "\<forall>part\<in>set parts. plain_part part \<Longrightarrow> reduce_parts reduced parts = Inr (reduced @ parts)"
  by (induction parts arbitrary: reduced) (auto simp: plain_part_def)

lemma canonicalize_path_form:
  assumes "canonicalize_path cwd fname = Inr path"
  obtains reduced where "path = join_parts reduced" "\<forall>part\<in>set reduced. plain_part part"
proof -
  from assms obtain reduced
    where r: "reduce_parts [] (split_str (absolute_path cwd fname) (CHR ''/'')) = Inr reduced"
      "path = join_parts reduced"
    by (auto simp: canonicalize_path_def ebind_Inr_iff)
  have "\<forall>part\<in>set reduced. plain_part part"
    by (rule reduce_parts_plain [OF _ _ r(1)]) (auto simp: split_str_def dest!: split_acc_parts [rotated])
  with r(2) show thesis by (rule that)
qed

lemma join_parts_canonical:
  assumes "\<forall>part\<in>set reduced. plain_part part" "reduced \<noteq> []"
  shows "canonicalize_path cwd (join_parts reduced) = Inr (join_parts reduced)"
proof -
  have "join_parts reduced \<noteq> []" "hd (join_parts reduced) = CHR ''/''"
    using assms(2) by (cases reduced; simp add: join_parts_def)+
  then have "absolute_path cwd (join_parts reduced) = join_parts reduced"
    by (simp add: absolute_path_def)
  moreover have "split_str (join_parts reduced) (CHR ''/'') = reduced"
    using split_acc_join [of reduced "CHR ''/''" "[]"] assms(1)
    by (auto simp: split_str_def join_parts_def plain_part_def)
  ultimately show ?thesis
    using reduce_parts_id [OF assms(1), of "[]"] by (simp add: canonicalize_path_def)
qed

text \<open>
  A canonical path is canonical: it has no empty, \<^verbatim>\<open>.\<close> or \<^verbatim>\<open>..\<close> part, and making it
  canonical again, from any working directory, changes nothing. Only the root itself, whose
  canonical path is empty, is read as relative the second time.
\<close>

theorem canonicalize_path_idempotent:
  assumes "canonicalize_path cwd fname = Inr path" "path \<noteq> []"
  shows "canonicalize_path cwd' path = Inr path \<and>
    (\<forall>part\<in>set (split_str path (CHR ''/'')). plain_part part)"
proof -
  obtain reduced where r: "path = join_parts reduced" "\<forall>part\<in>set reduced. plain_part part"
    using canonicalize_path_form [OF assms(1)] .
  then have ne: "reduced \<noteq> []" using assms(2) by (auto simp: join_parts_def)
  have "split_str path (CHR ''/'') = reduced"
    using split_acc_join [of reduced "CHR ''/''" "[]"] r
    by (auto simp: split_str_def join_parts_def plain_part_def)
  with join_parts_canonical [OF r(2) ne] r show ?thesis by simp
qed

theorem canonicalize_path_idempotent_witness:
  "canonicalize_path ''/root'' ''../usr/./lib//x'' = Inr ''/usr/lib/x'' \<and>
   canonicalize_path ''/tmp'' ''/usr/lib/x'' = Inr ''/usr/lib/x''"
proof -
  have "canonicalize_path ''/root'' ''../usr/./lib//x'' = Inr ''/usr/lib/x''" by code_simp
  from this canonicalize_path_idempotent [OF this, of "''/tmp''"] show ?thesis by simp
qed

section \<open>What a scope pattern matches\<close>

text \<open>The usual reading of a pattern: \<^verbatim>\<open>%\<close> stands for any string, the empty one included.\<close>

fun glob :: "string \<Rightarrow> string \<Rightarrow> bool" where
  "glob s [] \<longleftrightarrow> s = []"
| "glob s (p # ps) \<longleftrightarrow>
     (if p = CHR ''%'' then \<exists>n\<le>length s. glob (drop n s) ps
      else s \<noteq> [] \<and> hd s = p \<and> glob (tl s) ps)"

text \<open>The code's matching, a character at a time.\<close>

fun wm :: "string \<Rightarrow> string \<Rightarrow> bool" where
  "wm s [] \<longleftrightarrow> s = []"
| "wm s (p # ps) \<longleftrightarrow> s \<noteq> [] \<and>
     (if p = CHR ''%'' then \<exists>n\<le>length s. wm (drop n s) ps else hd s = p \<and> wm (tl s) ps)"

lemma skip_literals_wm:
  "wm s p \<longleftrightarrow> (case skip_literals s p of None \<Rightarrow> False | Some (s', p') \<Rightarrow> wm s' p')"
  by (induction s p rule: skip_literals.induct) auto

lemma wildcard_match_wm: "wildcard_match s p = wm s p"
proof (induction s p rule: wildcard_match.induct)
  case (1 s p)
  show ?case
  proof (cases "(p = []) \<noteq> (s = []) \<or> p = []")
    case True
    then show ?thesis by (subst wildcard_match.simps; cases p) auto
  next
    case ne: False
    then obtain c p' where p: "p = c # p'" by (cases p) auto
    show ?thesis
    proof (cases "c = CHR ''%''")
      case True
      have "wildcard_match s p \<longleftrightarrow> (\<exists>n\<in>set (rev [0..<Suc (length s)]). wm (drop n s) p')"
        using 1(1) ne True p by (subst wildcard_match.simps) auto
      also have "set (rev [0..<Suc (length s)]) = {n. n \<le> length s}" by (auto simp: less_Suc_eq_le)
      finally have "wildcard_match s p \<longleftrightarrow> (\<exists>n\<le>length s. wm (drop n s) p')"
        by (simp only: mem_Collect_eq Bex_def)
      then show ?thesis using ne True p by auto
    next
      case False
      have "wildcard_match s p \<longleftrightarrow>
          (case skip_literals s p of None \<Rightarrow> False | Some (s', p') \<Rightarrow> wm s' p')"
        using 1(2) ne False p by (subst wildcard_match.simps) (auto split: option.splits)
      then show ?thesis by (simp only: skip_literals_wm [symmetric])
    qed
  qed
qed

lemma glob_Nil: "glob [] p \<longleftrightarrow> set p \<subseteq> {CHR ''%''}"
  by (induction p) auto

lemma glob_take_star:
  "(\<exists>k<length s. glob (take k s) (CHR ''%'' # p)) \<longleftrightarrow>
   (\<exists>n\<le>length s. \<exists>m<length (drop n s). glob (take m (drop n s)) p)"
proof
  assume "\<exists>k<length s. glob (take k s) (CHR ''%'' # p)"
  then obtain k n where "k < length s" "n \<le> k" "glob (drop n (take k s)) p" by auto
  then show "\<exists>n\<le>length s. \<exists>m<length (drop n s). glob (take m (drop n s)) p"
    by (intro exI [of _ n] conjI exI [of _ "k - n"]) (auto simp: drop_take)
next
  assume "\<exists>n\<le>length s. \<exists>m<length (drop n s). glob (take m (drop n s)) p"
  then obtain n m where "n \<le> length s" "m < length s - n" "glob (take m (drop n s)) p" by auto
  then show "\<exists>k<length s. glob (take k s) (CHR ''%'' # p)"
    by (intro exI [of _ "n + m"]) (auto simp: drop_take intro!: exI [of _ n])
qed

lemma wm_glob:
  "wm s p \<longleftrightarrow> (if p \<noteq> [] \<and> last p = CHR ''%'' then \<exists>n<length s. glob (take n s) (butlast p)
               else glob s p)"
proof (induction p arbitrary: s)
  case (Cons c p)
  show ?case
  proof (cases "p = []")
    case True
    then show ?thesis by (cases s) auto
  next
    case ne: False
    show ?thesis
    proof (cases "last p = CHR ''%''")
      case last: True
      show ?thesis
      proof (cases "c = CHR ''%''")
        case True
        have "wm s (c # p) \<longleftrightarrow>
            (\<exists>n\<le>length s. \<exists>m<length (drop n s). glob (take m (drop n s)) (butlast p))"
          using Cons.IH ne last True by auto
        also have "\<dots> \<longleftrightarrow> (\<exists>k<length s. glob (take k s) (c # butlast p))"
          unfolding True by (rule glob_take_star [symmetric])
        finally show ?thesis using ne last by simp
      next
        case False
        then show ?thesis using Cons.IH [of "tl s"] ne last
          by (cases s) (auto simp: Ex_less_Suc2)
      qed
    next
      case last: False
      have "glob [] p \<Longrightarrow> False" using last ne last_in_set [OF ne] unfolding glob_Nil by (metis singletonD subsetD)
      then show ?thesis using Cons.IH ne last by auto
    qed
  qed
qed simp

text \<open>
  A pattern that does not end in a wildcard matches in the usual reading; in a pattern that
  ends in one, that last wildcard must match at least one character: \<^verbatim>\<open>/usr/lib%\<close> does not
  match \<^verbatim>\<open>/usr/lib\<close>, although a wildcard anywhere else matches the empty string.
\<close>

theorem wildcard_match_spec:
  "wildcard_match s p \<longleftrightarrow>
     (if p \<noteq> [] \<and> last p = CHR ''%'' then \<exists>n<length s. glob (take n s) (butlast p)
      else glob s p)"
  unfolding wildcard_match_wm by (rule wm_glob)

text \<open>The case the rule above leaves out, on the code's own function.\<close>

lemma trailing_wildcard_not_empty:
  "\<not> wildcard_match ''ab'' ''ab%'' \<and> wildcard_match ''ab'' ''a%b'' \<and> glob ''ab'' ''ab%''"
  by code_simp

section \<open>The interval map\<close>

text \<open>The entries are in key order: each ends no later than the next begins.\<close>

definition ranges_ok :: "ranges \<Rightarrow> bool" where
  "ranges_ok rs \<longleftrightarrow> (\<forall>e\<in>set rs. ibase (fst e) \<le> ilimit (fst e)) \<and>
     sorted_wrt (\<lambda>a b. iless (fst a) (fst b)) rs"

definition overlaps :: "interval \<Rightarrow> interval \<Rightarrow> bool" where
  "overlaps a b \<longleftrightarrow> \<not> iless a b \<and> \<not> iless b a"

lemma ranges_ok_Cons:
  "ranges_ok (e # rs) \<longleftrightarrow> ibase (fst e) \<le> ilimit (fst e) \<and>
     (\<forall>x\<in>set rs. iless (fst e) (fst x)) \<and> ranges_ok rs"
  by (auto simp: ranges_ok_def)

lemma iless_trans:
  "iless a b \<Longrightarrow> ibase b \<le> ilimit b \<Longrightarrow> iless b c \<Longrightarrow> iless a c"
  by (simp add: iless_def)

lemma ranges_emplace_set:
  assumes "ranges_ok rs" "ibase key \<le> ilimit key"
  shows "set (ranges_emplace key v rs) =
    (if \<exists>e\<in>set rs. overlaps (fst e) key then set rs else insert (key, v) (set rs))"
  using assms(1)
proof (induction rs)
  case (Cons e rs)
  obtain r l where e: "e = (r, l)" by (cases e)
  note ok = Cons.prems [unfolded ranges_ok_Cons e fst_conv]
  show ?case
  proof (cases "iless r key")
    case True
    with Cons.IH ok show ?thesis by (auto simp: e overlaps_def)
  next
    case False
    show ?thesis
    proof (cases "iless key r")
      case True
      have "iless key (fst x)" if "x \<in> set rs" for x
        using iless_trans [OF True] ok that by blast
      with True False show ?thesis by (auto simp: e overlaps_def)
    next
      case False
      with \<open>\<not> iless r key\<close> show ?thesis by (simp add: e overlaps_def)
    qed
  qed
qed simp

lemma ranges_emplace_ok:
  assumes "ranges_ok rs" "ibase key \<le> ilimit key"
  shows "ranges_ok (ranges_emplace key v rs)"
  using assms(1)
proof (induction rs)
  case Nil
  then show ?case using assms(2) by (simp add: ranges_ok_def)
next
  case (Cons e rs)
  obtain r l where e: "e = (r, l)" by (cases e)
  note ok = Cons.prems [unfolded ranges_ok_Cons e fst_conv]
  have set: "set (ranges_emplace key v rs) \<subseteq> insert (key, v) (set rs)"
    using ranges_emplace_set [of rs key v] ok assms(2) by (auto split: if_splits)
  show ?case
  proof (cases "iless r key")
    case True
    with Cons.IH ok set show ?thesis by (auto simp: e ranges_ok_Cons)
  next
    case False
    have "iless key (fst x)" if "iless key r" "x \<in> set rs" for x
      using iless_trans [OF that(1)] ok that(2) by blast
    with False ok Cons.prems assms(2) show ?thesis by (auto simp: e ranges_ok_Cons)
  qed
qed

lemma iless_unit:
  assumes "addr \<noteq> - 1"
  shows "iless r (unit_interval addr) \<longleftrightarrow> ilimit r \<le> addr"
    "iless (unit_interval addr) r \<longleftrightarrow> addr < ibase r"
  using assms by (auto simp: iless_def unit_interval_def inc_less_eq_iff)

lemma find_line_contains:
  assumes "ranges_ok rs" "addr \<noteq> - 1"
  shows "find_line rs addr = Some l \<longleftrightarrow> (\<exists>r. (r, l) \<in> set rs \<and> icontains r addr)"
  using assms(1)
proof (induction rs)
  case Nil
  then show ?case by (simp add: find_line_def)
next
  case (Cons e rs)
  obtain r l0 where e: "e = (r, l0)" by (cases e)
  note ok = Cons.prems [unfolded ranges_ok_Cons e fst_conv]
  have later: "addr < ibase (fst x)" if "addr < ilimit r" "x \<in> set rs" for x
    using ok that by (auto simp: iless_def intro: less_le_trans)
  have rest: "\<not> (\<exists>r'. (r', l) \<in> set rs \<and> icontains r' addr)" if "addr < ilimit r"
    using later [OF that] by (fastforce simp: icontains_def)
  show ?case
  proof (cases "ilimit r \<le> addr")
    case True
    then have "\<not> icontains r addr" by (auto simp: icontains_def)
    with True Cons.IH ok show ?thesis
      by (auto simp: e find_line_def iless_unit [OF assms(2)])
  next
    case False
    then have "icontains r addr \<longleftrightarrow> \<not> addr < ibase r" by (auto simp: icontains_def)
    moreover have "addr < ilimit r" using False by simp
    note rest [OF this]
    ultimately show ?thesis using False
      by (auto simp: e find_line_def iless_unit [OF assms(2)])
  qed
qed

lemma add_range_find:
  assumes "ranges_ok rs" "ibase r \<le> ilimit r" "addr \<noteq> - 1"
  shows "find_line (add_range f n r rs) addr =
    (if icontains r addr \<and> \<not> (\<exists>e\<in>set rs. overlaps (fst e) r) then Some (f, n)
     else find_line rs addr)"
proof -
  let ?rs = "add_range f n r rs"
  have ok: "ranges_ok ?rs" using assms(1,2) by (simp add: add_range_def ranges_emplace_ok)
  have set: "set ?rs = (if \<exists>e\<in>set rs. overlaps (fst e) r then set rs else insert (r, f, n) (set rs))"
    using ranges_emplace_set [OF assms(1,2)] by (simp add: add_range_def)
  have eq: "find_line ?rs addr = x" if "\<And>l. find_line ?rs addr = Some l \<longleftrightarrow> x = Some l" for x
    using that by (metis option.exhaust)
  show ?thesis
  proof (cases "icontains r addr \<and> \<not> (\<exists>e\<in>set rs. overlaps (fst e) r)")
    case True
    then have "find_line ?rs addr = Some (f, n)"
      unfolding find_line_contains [OF ok assms(3)] set by auto
    with True show ?thesis by simp
  next
    case False
    have "find_line ?rs addr = find_line rs addr"
      by (rule eq, unfold find_line_contains [OF ok assms(3)] find_line_contains [OF assms(1,3)] set)
        (use False in auto)
    with False show ?thesis by auto
  qed
qed

text \<open>
  Filing a range keeps the map in order, and changes the lookups of exactly the addresses in
  it, provided no earlier range overlaps it; a range that overlaps an earlier one is dropped
  whole. So the lines of the first range win.
\<close>

theorem add_range_first_wins:
  assumes "ranges_ok rs" "ibase r \<le> ilimit r" "addr \<noteq> - 1"
  shows "ranges_ok (add_range f n r rs) \<and>
    find_line (add_range f n r rs) addr =
      (if icontains r addr \<and> \<not> (\<exists>e\<in>set rs. overlaps (fst e) r) then Some (f, n)
       else find_line rs addr)"
  using assms ranges_emplace_ok add_range_find by (simp add: add_range_def)

theorem add_range_first_wins_witness:
  "find_line (add_range ''b.c'' 7 \<lparr>ibase = 30, ilimit = 40\<rparr>
      [(\<lparr>ibase = 10, ilimit = 20\<rparr>, ''a.c'', 1), (\<lparr>ibase = 50, ilimit = 60\<rparr>, ''a.c'', 2)]) 35
    = Some (''b.c'', 7) \<and>
   find_line (add_range ''b.c'' 7 \<lparr>ibase = 15, ilimit = 40\<rparr>
      [(\<lparr>ibase = 10, ilimit = 20\<rparr>, ''a.c'', 1), (\<lparr>ibase = 50, ilimit = 60\<rparr>, ''a.c'', 2)]) 35
    = None"
proof -
  let ?rs = "[(\<lparr>ibase = 10, ilimit = 20\<rparr>, ''a.c'', 1), (\<lparr>ibase = 50, ilimit = 60\<rparr>, ''a.c'', 2)]
    :: (interval \<times> line_id) list"
  have ok: "ranges_ok ?rs" by (simp add: ranges_ok_def iless_def)
  show ?thesis
    using add_range_first_wins [OF ok, of "\<lparr>ibase = 30, ilimit = 40\<rparr>" 35 "''b.c''" 7]
      add_range_first_wins [OF ok, of "\<lparr>ibase = 15, ilimit = 40\<rparr>" 35 "''b.c''" 7]
    by (simp add: icontains_def overlaps_def iless_def find_line_def unit_interval_def)
qed

text \<open>An empty interval is less than itself, so the order is not irreflexive.\<close>

lemma empty_interval_less_itself: "ibase r = ilimit r \<Longrightarrow> iless r r"
  by (simp add: iless_def)

section \<open>The lines of a table\<close>

lemma add_range_set: "set (add_range f n r rs) \<subseteq> insert (r, f, n) (set rs)"
  unfolding add_range_def by (induction rs) (auto split: if_splits)

definition scoped_map :: "string \<Rightarrow> string list \<Rightarrow> mem_map \<Rightarrow> bool" where
  "scoped_map cwd scope m \<longleftrightarrow> (\<forall>e\<in>set (mm_ranges m). in_scope cwd (fst (snd e)) scope = Inr True)"

lemma mm_add_range_scoped:
  "scoped_map cwd scope m \<Longrightarrow> in_scope cwd f scope = Inr True \<Longrightarrow> scoped_map cwd scope (mm_add_range f n r m)"
  using add_range_set [of f n r "mm_ranges m"] by (auto simp: scoped_map_def mm_add_range_def)

lemma walk_row_scoped:
  assumes "walk_row cwd scope la row st = Inr st'" "scoped_map cwd scope (walk_map st)"
  shows "scoped_map cwd scope (walk_map st')"
proof -
  obtain b where "in_scope cwd (prev_filename st) scope = Inr b"
    using assms(1) by (auto simp: walk_row_def ebind_Inr_iff)
  then show ?thesis using assms mm_add_range_scoped
    by (auto simp: walk_row_def ebind_Inr_iff Let_def split: if_splits)
qed

lemma walk_rows_from_scoped:
  "walk_rows_from cwd scope la rows st = Inr st' \<Longrightarrow> scoped_map cwd scope (walk_map st) \<Longrightarrow>
   scoped_map cwd scope (walk_map st')"
  by (induction rows arbitrary: st) (auto simp: ebind_Inr_iff dest: walk_row_scoped)

lemma walk_rows_scoped:
  "walk_rows cwd scope la rows m = Inr m' \<Longrightarrow> scoped_map cwd scope m \<Longrightarrow> scoped_map cwd scope m'"
  by (auto simp: walk_rows_def ebind_Inr_iff dest: walk_rows_from_scoped)

lemma ranges_find_member: "ranges_find key rs = Some l \<Longrightarrow> \<exists>r. (r, l) \<in> set rs"
  by (induction key rs rule: ranges_find.induct) (auto split: if_splits)

text \<open>What the map resolves is in scope, if its ranges are.\<close>

lemma scoped_map_find:
  assumes "scoped_map cwd scope m" "find_line (mm_ranges m) addr = Some (f, n)"
  shows "in_scope cwd f scope = Inr True"
proof -
  obtain r where "(r, f, n) \<in> set (mm_ranges m)"
    using ranges_find_member assms(2) unfolding find_line_def by blast
  then show ?thesis using assms(1) unfolding scoped_map_def by (metis fst_conv snd_conv)
qed

end
