(* ===== verification/Progress_Points.thy ===== *)
theory Progress_Points
  imports Coz_Prelude
begin

text \<open>
  Progress points: the counters of \<^verbatim>\<open>include/coz.h\<close> and the macro that bumps them, the
  throughput and latency points of \<^verbatim>\<open>libcoz/progress_point.h\<close> with their saved copies, and
  the registry that finds or creates them by name (\<^verbatim>\<open>profiler.h\<close>, and
  \<^verbatim>\<open>_coz_get_counter\<close> of \<^verbatim>\<open>libcoz.cpp\<close>). The registry is the list of its entries in
  creation order; a pointer to a counter is the type and name it is reached by.
\<close>

section \<open>Counters and points\<close>

record coz_counter =
  count :: u64
  backoff :: u64

datatype progress_point_type = Throughput | Begin | End_Point

definition ppt_code :: "progress_point_type \<Rightarrow> nat" where
  "ppt_code t = (case t of Throughput \<Rightarrow> 1 | Begin \<Rightarrow> 2 | End_Point \<Rightarrow> 3)"

definition ppt_of_code :: "nat \<Rightarrow> progress_point_type option" where
  "ppt_of_code n = (if n = 1 then Some Throughput else if n = 2 then Some Begin
     else if n = 3 then Some End_Point else None)"

definition new_counter :: coz_counter where
  "new_counter = \<lparr>count = 0, backoff = 0\<rparr>"

definition visit_counter :: "u64 \<Rightarrow> coz_counter \<Rightarrow> coz_counter" where
  "visit_counter visits c = c\<lparr>count := count c + visits\<rparr>"

record throughput_point =
  tp_name :: string
  tp_counter :: coz_counter

definition new_throughput_point :: "string \<Rightarrow> throughput_point" where
  "new_throughput_point nm = \<lparr>tp_name = nm, tp_counter = new_counter\<rparr>"

definition tp_visit :: "u64 \<Rightarrow> throughput_point \<Rightarrow> throughput_point" where
  "tp_visit visits p = p\<lparr>tp_counter := visit_counter visits (tp_counter p)\<rparr>"

definition tp_get_count :: "throughput_point \<Rightarrow> u64" where
  "tp_get_count p = count (tp_counter p)"

record latency_point =
  lp_name :: string
  lp_begin :: coz_counter
  lp_end :: coz_counter

definition new_latency_point :: "string \<Rightarrow> latency_point" where
  "new_latency_point nm = \<lparr>lp_name = nm, lp_begin = new_counter, lp_end = new_counter\<rparr>"

definition visit_begin :: "u64 \<Rightarrow> latency_point \<Rightarrow> latency_point" where
  "visit_begin visits p = p\<lparr>lp_begin := visit_counter visits (lp_begin p)\<rparr>"

definition visit_end :: "u64 \<Rightarrow> latency_point \<Rightarrow> latency_point" where
  "visit_end visits p = p\<lparr>lp_end := visit_counter visits (lp_end p)\<rparr>"

definition get_begin_count :: "latency_point \<Rightarrow> u64" where
  "get_begin_count p = count (lp_begin p)"

definition get_end_count :: "latency_point \<Rightarrow> u64" where
  "get_end_count p = count (lp_end p)"

section \<open>The registry\<close>

record registry =
  throughput_points :: "(string \<times> throughput_point) list"
  latency_points :: "(string \<times> latency_point) list"

definition get_throughput_point :: "string \<Rightarrow> registry \<Rightarrow> registry \<times> throughput_point" where
  "get_throughput_point nm rg =
     (case map_of (throughput_points rg) nm of
        Some p \<Rightarrow> (rg, p)
      | None \<Rightarrow> (rg\<lparr>throughput_points := throughput_points rg @ [(nm, new_throughput_point nm)]\<rparr>,
                new_throughput_point nm))"

definition get_latency_point :: "string \<Rightarrow> registry \<Rightarrow> registry \<times> latency_point" where
  "get_latency_point nm rg =
     (case map_of (latency_points rg) nm of
        Some p \<Rightarrow> (rg, p)
      | None \<Rightarrow> (rg\<lparr>latency_points := latency_points rg @ [(nm, new_latency_point nm)]\<rparr>,
                new_latency_point nm))"

type_synonym counter_ref = "progress_point_type \<times> string"

text \<open>\<^verbatim>\<open>_coz_get_counter\<close>; an unknown type yields the null pointer.\<close>

definition coz_get_counter :: "nat \<Rightarrow> string \<Rightarrow> registry \<Rightarrow> registry \<times> counter_ref option" where
  "coz_get_counter t nm rg =
     (case ppt_of_code t of
        Some Throughput \<Rightarrow> (fst (get_throughput_point nm rg), Some (Throughput, nm))
      | Some Begin \<Rightarrow> (fst (get_latency_point nm rg), Some (Begin, nm))
      | Some End_Point \<Rightarrow> (fst (get_latency_point nm rg), Some (End_Point, nm))
      | None \<Rightarrow> (rg, None))"

text \<open>An update through the pointer to a counter.\<close>

definition update_entry :: "string \<Rightarrow> ('a \<Rightarrow> 'a) \<Rightarrow> (string \<times> 'a) list \<Rightarrow> (string \<times> 'a) list" where
  "update_entry nm f es = map (\<lambda>(n, p). (n, if n = nm then f p else p)) es"

fun add_through :: "counter_ref \<Rightarrow> u64 \<Rightarrow> registry \<Rightarrow> registry" where
  "add_through (Throughput, nm) n rg =
     rg\<lparr>throughput_points := update_entry nm (tp_visit n) (throughput_points rg)\<rparr>"
| "add_through (Begin, nm) n rg =
     rg\<lparr>latency_points := update_entry nm (visit_begin n) (latency_points rg)\<rparr>"
| "add_through (End_Point, nm) n rg =
     rg\<lparr>latency_points := update_entry nm (visit_end n) (latency_points rg)\<rparr>"

section \<open>The increment macro\<close>

text \<open>
  \<^verbatim>\<open>_call_coz_get_counter\<close> keeps the looked-up function in a static: \<open>fn_found\<close> is whether
  it is non-null. The environment says whether \<^verbatim>\<open>dlsym\<close> is linked and finds the symbol.
\<close>

record coz_env =
  dlsym_linked :: bool
  symbol_found :: bool

record lookup_static =
  lk_initialized :: bool
  fn_found :: bool

definition call_coz_get_counter ::
  "coz_env \<Rightarrow> nat \<Rightarrow> string \<Rightarrow> lookup_static \<Rightarrow> registry
     \<Rightarrow> lookup_static \<times> registry \<times> counter_ref option" where
  "call_coz_get_counter env t nm lk rg =
     (let lk1 = (if \<not> lk_initialized lk then
                   lk\<lparr>lk_initialized := True,
                      fn_found := (if dlsym_linked env then symbol_found env else fn_found lk)\<rparr>
                 else lk)
      in if fn_found lk1 then (lk1, coz_get_counter t nm rg) else (lk1, rg, None))"

text \<open>The statics of one use of the macro.\<close>

record site_static =
  st_initialized :: bool
  st_counter :: "counter_ref option"

definition coz_increment_counter ::
  "coz_env \<Rightarrow> nat \<Rightarrow> string \<Rightarrow> site_static \<times> lookup_static \<times> registry
     \<Rightarrow> site_static \<times> lookup_static \<times> registry" where
  "coz_increment_counter env t nm s =
     (case s of (site, lk, rg) \<Rightarrow>
        let (site1, lk1, rg1) =
              (if \<not> st_initialized site then
                 (case call_coz_get_counter env t nm lk rg of
                    (lk', rg', c) \<Rightarrow> (\<lparr>st_initialized = True, st_counter = c\<rparr>, lk', rg'))
               else (site, lk, rg))
        in (case st_counter site1 of
              None \<Rightarrow> (site1, lk1, rg1)
            | Some c \<Rightarrow> (site1, lk1, add_through c 1 rg1)))"

section \<open>Saved points\<close>

record tp_saved =
  ts_start_count :: u64

definition tp_save :: "throughput_point \<Rightarrow> tp_saved" where
  "tp_save p = \<lparr>ts_start_count = tp_get_count p\<rparr>"

definition tp_get_delta :: "tp_saved \<Rightarrow> throughput_point \<Rightarrow> u64" where
  "tp_get_delta s p = tp_get_count p - ts_start_count s"

record lp_saved =
  ls_begin_start_count :: u64
  ls_end_start_count :: u64

definition lp_save :: "latency_point \<Rightarrow> lp_saved" where
  "lp_save p = \<lparr>ls_begin_start_count = get_begin_count p, ls_end_start_count = get_end_count p\<rparr>"

definition get_begin_delta :: "lp_saved \<Rightarrow> latency_point \<Rightarrow> u64" where
  "get_begin_delta s p = get_begin_count p - ls_begin_start_count s"

definition get_end_delta :: "lp_saved \<Rightarrow> latency_point \<Rightarrow> u64" where
  "get_end_delta s p = get_end_count p - ls_end_start_count s"

definition get_difference :: "latency_point \<Rightarrow> u64" where
  "get_difference p = get_begin_count p - get_end_count p"

section \<open>A program running its macros\<close>

text \<open>The program's macro uses are numbered; each has a fixed type and name.\<close>

record coz_program =
  site_code :: "nat \<Rightarrow> nat"
  site_name :: "nat \<Rightarrow> string"

record coz_run =
  run_sites :: "nat \<Rightarrow> site_static"
  run_lookup :: lookup_static
  run_registry :: registry

definition coz_start :: coz_run where
  "coz_start = \<lparr>run_sites = (\<lambda>_. \<lparr>st_initialized = False, st_counter = None\<rparr>),
     run_lookup = \<lparr>lk_initialized = False, fn_found = False\<rparr>,
     run_registry = \<lparr>throughput_points = [], latency_points = []\<rparr>\<rparr>"

definition run_site :: "coz_env \<Rightarrow> coz_program \<Rightarrow> nat \<Rightarrow> coz_run \<Rightarrow> coz_run" where
  "run_site env prog i r =
     (case coz_increment_counter env (site_code prog i) (site_name prog i)
             (run_sites r i, run_lookup r, run_registry r) of
        (site, lk, rg) \<Rightarrow>
          \<lparr>run_sites = (run_sites r)(i := site), run_lookup = lk, run_registry = rg\<rparr>)"

definition run_program :: "coz_env \<Rightarrow> coz_program \<Rightarrow> nat list \<Rightarrow> coz_run \<Rightarrow> coz_run" where
  "run_program env prog trace r = fold (run_site env prog) trace r"

definition counter_value :: "registry \<Rightarrow> counter_ref \<Rightarrow> u64 option" where
  "counter_value rg c =
     (case c of
        (Throughput, nm) \<Rightarrow> map_option tp_get_count (map_of (throughput_points rg) nm)
      | (Begin, nm) \<Rightarrow> map_option get_begin_count (map_of (latency_points rg) nm)
      | (End_Point, nm) \<Rightarrow> map_option get_end_count (map_of (latency_points rg) nm))"

text \<open>The value an absent counter would be created with.\<close>

definition counter_or_0 :: "registry \<Rightarrow> counter_ref \<Rightarrow> u64" where
  "counter_or_0 rg c = (case counter_value rg c of None \<Rightarrow> 0 | Some n \<Rightarrow> n)"

definition visits_of :: "coz_program \<Rightarrow> counter_ref \<Rightarrow> nat list \<Rightarrow> nat" where
  "visits_of prog c trace =
     length (filter (\<lambda>i. ppt_of_code (site_code prog i) = Some (fst c) \<and> site_name prog i = snd c)
       trace)"

definition loaded :: "coz_env \<Rightarrow> bool" where
  "loaded env \<longleftrightarrow> dlsym_linked env \<and> symbol_found env"

section \<open>Counting visits\<close>

lemmas counter_defs = counter_or_0_def counter_value_def tp_get_count_def get_begin_count_def
  get_end_count_def visit_counter_def tp_visit_def visit_begin_def visit_end_def
  new_throughput_point_def new_latency_point_def new_counter_def

lemma map_of_update_entry:
  "map_of (update_entry nm f es) n = (if n = nm then map_option f (map_of es n) else map_of es n)"
  by (induction es) (auto simp: update_entry_def)

lemma get_point_value [simp]:
  "counter_or_0 (fst (get_throughput_point nm rg)) c = counter_or_0 rg c"
  "counter_or_0 (fst (get_latency_point nm rg)) c = counter_or_0 rg c"
  by (cases c; cases "fst c";
      auto simp: get_throughput_point_def get_latency_point_def counter_defs map_add_def
        split: option.splits)+

lemma coz_get_counter_value [simp]:
  "counter_or_0 (fst (coz_get_counter t nm rg)) c = counter_or_0 rg c"
  by (simp add: coz_get_counter_def split: option.splits progress_point_type.splits)

text \<open>A counter is there once the registry was asked for it, and nothing ever removes one.\<close>

definition present :: "registry \<Rightarrow> counter_ref \<Rightarrow> bool" where
  "present rg c \<longleftrightarrow> counter_value rg c \<noteq> None"

lemma present_kept:
  "present rg c \<Longrightarrow> present (fst (coz_get_counter t nm rg)) c"
  "present rg c \<Longrightarrow> present (add_through d n rg) c"
proof -
  show "present rg c \<Longrightarrow> present (fst (coz_get_counter t nm rg)) c"
    by (cases c; cases "fst c"; auto simp: present_def coz_get_counter_def get_throughput_point_def
        get_latency_point_def counter_value_def map_add_def
        split: option.splits progress_point_type.splits)
  show "present rg c \<Longrightarrow> present (add_through d n rg) c"
    by (cases c; cases "fst c"; cases d; cases "fst d";
        auto simp: present_def counter_value_def map_of_update_entry split: if_splits)
qed

lemma coz_get_counter_present:
  "snd (coz_get_counter t nm rg) = Some c \<Longrightarrow>
   present (fst (coz_get_counter t nm rg)) c \<and> ppt_of_code t = Some (fst c) \<and> nm = snd c"
  by (auto simp: present_def coz_get_counter_def get_throughput_point_def get_latency_point_def
      counter_value_def map_add_def split: option.splits progress_point_type.splits)

lemma add_through_value:
  "present rg d \<Longrightarrow>
   counter_or_0 (add_through d n rg) c = counter_or_0 rg c + (if c = d then n else 0)"
  by (cases c; cases "fst c"; cases d; cases "fst d";
      auto simp: present_def counter_defs map_of_update_entry split: option.splits)

definition site_ref :: "coz_program \<Rightarrow> nat \<Rightarrow> counter_ref option" where
  "site_ref prog i = map_option (\<lambda>t. (t, site_name prog i)) (ppt_of_code (site_code prog i))"

definition run_inv :: "coz_env \<Rightarrow> coz_program \<Rightarrow> coz_run \<Rightarrow> bool" where
  "run_inv env prog r \<longleftrightarrow>
     fn_found (run_lookup r) = (lk_initialized (run_lookup r) \<and> loaded env) \<and>
     (\<forall>i. st_initialized (run_sites r i) \<longrightarrow>
        st_counter (run_sites r i) = (if loaded env then site_ref prog i else None) \<and>
        (\<forall>c. st_counter (run_sites r i) = Some c \<longrightarrow> present (run_registry r) c))"

lemma coz_get_counter_ref:
  "snd (coz_get_counter (site_code prog i) (site_name prog i) rg) = site_ref prog i"
  by (auto simp: coz_get_counter_def site_ref_def split: option.splits progress_point_type.splits)

lemma call_coz_get_counter_eq:
  assumes "fn_found lk = (lk_initialized lk \<and> loaded env)"
  shows "call_coz_get_counter env t nm lk rg =
    (lk\<lparr>lk_initialized := True, fn_found := loaded env\<rparr>,
     if loaded env then coz_get_counter t nm rg else (rg, None))"
  using assms by (cases lk) (auto simp: call_coz_get_counter_def loaded_def Let_def)

lemma run_site_step:
  assumes "run_inv env prog r"
  shows "run_inv env prog (run_site env prog i r)"
    "counter_or_0 (run_registry (run_site env prog i r)) c =
       counter_or_0 (run_registry r) c
         + (if loaded env \<and> site_ref prog i = Some c then 1 else 0)"
proof -
  define rg1 where "rg1 = (if \<not> st_initialized (run_sites r i) \<and> loaded env
    then fst (coz_get_counter (site_code prog i) (site_name prog i) (run_registry r))
    else run_registry r)"
  define ref where "ref = (if loaded env then site_ref prog i else None)"
  define rg2 where "rg2 = (case ref of None \<Rightarrow> rg1 | Some d \<Rightarrow> add_through d 1 rg1)"
  let ?lk = "if st_initialized (run_sites r i) then run_lookup r
    else (run_lookup r)\<lparr>lk_initialized := True, fn_found := loaded env\<rparr>"
  have inv: "fn_found (run_lookup r) = (lk_initialized (run_lookup r) \<and> loaded env)"
    "st_initialized (run_sites r i) \<Longrightarrow> st_counter (run_sites r i) = ref"
    using assms by (auto simp: run_inv_def ref_def)
  have step: "run_site env prog i r =
      \<lparr>run_sites = (run_sites r)(i := \<lparr>st_initialized = True, st_counter = ref\<rparr>),
       run_lookup = ?lk, run_registry = rg2\<rparr>"
  proof (cases "st_initialized (run_sites r i)")
    case True
    then have "run_sites r i = \<lparr>st_initialized = True, st_counter = ref\<rparr>"
      using inv(2) by (cases "run_sites r i") simp
    then show ?thesis
      by (simp add: run_site_def coz_increment_counter_def rg2_def rg1_def split: option.split)
  next
    case False
    obtain rg' c' where g: "coz_get_counter (site_code prog i) (site_name prog i) (run_registry r) = (rg', c')"
      by (cases "coz_get_counter (site_code prog i) (site_name prog i) (run_registry r)")
    with coz_get_counter_ref [of prog i "run_registry r"] have "c' = site_ref prog i" by simp
    with False g show ?thesis
      by (simp add: run_site_def coz_increment_counter_def call_coz_get_counter_eq [OF inv(1)]
          rg2_def rg1_def ref_def split: option.split)
  qed
  have present1: "present rg1 d" if "ref = Some d" for d
  proof (cases "st_initialized (run_sites r i)")
    case True
    with that inv(2) have "st_counter (run_sites r i) = Some d" by simp
    then have "present (run_registry r) d"
      using assms True unfolding run_inv_def by blast
    with True show ?thesis by (simp add: rg1_def)
  next
    case False
    with that coz_get_counter_present [of "site_code prog i" "site_name prog i" "run_registry r" d]
    show ?thesis by (auto simp: rg1_def ref_def coz_get_counter_ref split: if_splits)
  qed
  have kept: "present rg2 d" if "present (run_registry r) d \<or> present rg1 d" for d
    using that by (auto simp: rg2_def rg1_def present_kept split: option.split)
  show "run_inv env prog (run_site env prog i r)"
    using assms kept present1 by (auto simp: step run_inv_def ref_def)
  show "counter_or_0 (run_registry (run_site env prog i r)) c =
       counter_or_0 (run_registry r) c
         + (if loaded env \<and> site_ref prog i = Some c then 1 else 0)"
    using present1 by (auto simp: step rg2_def rg1_def ref_def add_through_value split: option.splits)
qed

lemma run_program_count:
  "run_inv env prog r \<Longrightarrow>
   run_inv env prog (run_program env prog trace r) \<and>
   counter_or_0 (run_registry (run_program env prog trace r)) c =
     counter_or_0 (run_registry r) c + (if loaded env then of_nat (visits_of prog c trace) else 0)"
proof (induction trace arbitrary: r)
  case (Cons i trace)
  have site: "site_ref prog i = Some c \<longleftrightarrow>
      ppt_of_code (site_code prog i) = Some (fst c) \<and> site_name prog i = snd c"
    by (cases c) (auto simp: site_ref_def)
  from Cons.IH [OF run_site_step(1) [OF Cons.prems, of i]] run_site_step(2) [OF Cons.prems, of i c]
  show ?case by (auto simp: run_program_def visits_of_def site)
qed (simp add: run_program_def visits_of_def)

lemma coz_start_inv: "run_inv env prog coz_start"
  by (simp add: run_inv_def coz_start_def)

lemma coz_start_value: "counter_or_0 (run_registry coz_start) c = 0"
  by (cases c; cases "fst c"; simp add: coz_start_def counter_or_0_def counter_value_def)

text \<open>
  C27. However often and in whatever order a program runs its progress macros, the counter of a
  progress point holds exactly the number of visits of the macro uses with its type and name,
  modulo \<open>2 ^ 64\<close>, several uses of one name adding up; without the profiler loaded no
  counter exists and no use has an effect.
\<close>

theorem progress_counters_count_visits:
  "counter_or_0 (run_registry (run_program env prog trace coz_start)) c =
     (if loaded env then of_nat (visits_of prog c trace) else 0)"
  using run_program_count [OF coz_start_inv, of env prog trace c] by (simp add: coz_start_value)

text \<open>
  What a saved point reports later is the number of visits made since it was saved, modulo
  \<open>2 ^ 64\<close>, even when the counter wrapped in between.
\<close>

theorem saved_delta_counts_visits:
  assumes "loaded env" "run_inv env prog r"
    "map_of (throughput_points (run_registry r)) nm = Some p"
    "map_of (throughput_points (run_registry (run_program env prog trace r))) nm = Some p'"
  shows "tp_get_delta (tp_save p) p' = of_nat (visits_of prog (Throughput, nm) trace)"
  using run_program_count [OF assms(2), of trace "(Throughput, nm)"] assms
  by (simp add: counter_or_0_def counter_value_def tp_get_delta_def tp_save_def)

definition sample_prog :: coz_program where
  "sample_prog = \<lparr>site_code = (\<lambda>i. if i = 2 then 2 else 1), site_name = (\<lambda>i. ''req'')\<rparr>"

definition sample_env :: coz_env where
  "sample_env = \<lparr>dlsym_linked = True, symbol_found = True\<rparr>"

theorem saved_delta_counts_visits_witness:
  "\<exists>p p'. map_of (throughput_points (run_registry (run_program sample_env sample_prog [0] coz_start)))
       ''req'' = Some p \<and>
     map_of (throughput_points (run_registry (run_program sample_env sample_prog [0, 1, 2, 0] coz_start)))
       ''req'' = Some p' \<and> tp_get_delta (tp_save p) p' = 2"
proof -
  let ?r = "run_program sample_env sample_prog [0] coz_start"
  let ?pt = "\<lambda>n. \<lparr>tp_name = ''req'', tp_counter = \<lparr>count = n, backoff = 0\<rparr>\<rparr>"
  have r: "map_of (throughput_points (run_registry ?r)) ''req'' = Some (?pt 1)" by code_simp
  have r': "map_of (throughput_points (run_registry
      (run_program sample_env sample_prog [0, 1, 2, 0] coz_start))) ''req'' = Some (?pt 3)"
    by code_simp
  have app: "run_program sample_env sample_prog [0, 1, 2, 0] coz_start
      = run_program sample_env sample_prog [1, 2, 0] ?r"
    by (simp add: run_program_def)
  have inv: "run_inv sample_env sample_prog ?r"
    using run_program_count [OF coz_start_inv] by blast
  have "loaded sample_env" by (simp add: loaded_def sample_env_def)
  from saved_delta_counts_visits [OF this inv r r' [unfolded app]] r r'
  show ?thesis by (simp add: visits_of_def sample_prog_def ppt_of_code_def)
qed

end
