(* ===== verification/Profiler.thy ===== *)
theory Profiler
  imports Static_Map Progress_Points Memory_Map
begin

text \<open>
  The causal profiler of \<^verbatim>\<open>libcoz/profiler.cpp\<close>, \<^verbatim>\<open>profiler.h\<close> and
  \<^verbatim>\<open>thread_state.h\<close>: sample matching, the accounting of virtual delays per thread and
  globally, blocking, thread start and exit, and the experiment loop. The records of the
  sampler, the clock and the measured length of a sleep are arguments; the kernel's sampler
  keeps only whether it runs.
\<close>

section \<open>State\<close>

definition SamplePeriod :: nat where "SamplePeriod = 1000000"
definition SampleBatchSize :: nat where "SampleBatchSize = 10"
definition SpeedupDivisions :: nat where "SpeedupDivisions = 20"
definition ZeroSpeedupWeight :: nat where "ZeroSpeedupWeight = 7"
definition ExperimentMinTime :: nat where "ExperimentMinTime = SamplePeriod * SampleBatchSize * 50"
definition ExperimentTargetDelta :: nat where "ExperimentTargetDelta = 5"

lemmas profiler_constants = SamplePeriod_def SampleBatchSize_def SpeedupDivisions_def
  ZeroSpeedupWeight_def ExperimentMinTime_def ExperimentTargetDelta_def

record thread_state =
  in_use :: bool
  local_delay :: u64
  sampler_running :: bool
  pre_block_time :: u64

definition new_thread_state :: thread_state where
  "new_thread_state =
     \<lparr>in_use = False, local_delay = 0, sampler_running = False, pre_block_time = 0\<rparr>"

record profiler =
  thread_states :: "thread_state static_map"
  num_threads_running :: u64
  experiment_active :: bool
  global_delay :: u64
  delay_size :: u64
  selected_line :: "line_id option"
  next_line :: "line_id option"
  running :: bool
  fixed_line :: "line_id option"
  fixed_delay_size :: int
  enable_end_to_end :: bool
  shutdown_run :: bool
  points :: registry
  line_ranges :: ranges
  line_samples :: "line_id \<Rightarrow> u64"
  known_lines :: "line_id list"

text \<open>One record of the perf ring buffer.\<close>

record perf_record =
  is_sample :: bool
  sample_ip :: u64
  callchain :: "u64 list"

section \<open>Startup options\<close>

definition startup_options ::
  "line_id option \<Rightarrow> int \<Rightarrow> bool \<Rightarrow> profiler \<Rightarrow> profiler" where
  "startup_options fixed speedup end_to_end pr =
     (let pr1 = (if fixed \<noteq> None then pr\<lparr>fixed_line := fixed\<rparr> else pr);
          pr2 = (if 0 \<le> speedup \<and> speedup \<le> 100
                 then pr1\<lparr>fixed_delay_size := c_div (int SamplePeriod * speedup) 100\<rparr> else pr1)
      in pr2\<lparr>enable_end_to_end := end_to_end\<rparr>)"

text \<open>\<open>wait\<close> of \<^verbatim>\<open>util.h\<close>: the argument \<open>slept\<close> is the measured length of a sleep.\<close>

definition wait_ns :: "(u64 \<Rightarrow> u64) \<Rightarrow> u64 \<Rightarrow> u64" where
  "wait_ns slept ns = (if ns = 0 then 0 else slept ns)"

section \<open>The thread table\<close>

definition get_thread_state :: "nat \<Rightarrow> profiler \<Rightarrow> thread_state option" where
  "get_thread_state tid pr =
     (case sm_find (thread_states pr) tid of
        None \<Rightarrow> None
      | Some i \<Rightarrow> Some (vals (thread_states pr) ! i))"

text \<open>A write through the pointer to the thread's state.\<close>

definition put_thread_state :: "nat \<Rightarrow> thread_state \<Rightarrow> profiler \<Rightarrow> profiler" where
  "put_thread_state tid st pr =
     (case sm_find (thread_states pr) tid of
        None \<Rightarrow> pr
      | Some i \<Rightarrow> pr\<lparr>thread_states :=
          (thread_states pr)\<lparr>vals := (vals (thread_states pr))[i := st]\<rparr>\<rparr>)"

definition add_thread :: "(nat \<Rightarrow> bool) \<Rightarrow> nat \<Rightarrow> profiler \<Rightarrow> profiler \<times> bool" where
  "add_thread weak_fail tid pr =
     (case sm_insert weak_fail tid (thread_states pr) of
        None \<Rightarrow> (pr, False)
      | Some (m, i) \<Rightarrow>
          (pr\<lparr>thread_states := m, num_threads_running := num_threads_running pr + 1\<rparr>, True))"

definition remove_thread :: "nat \<Rightarrow> profiler \<Rightarrow> profiler" where
  "remove_thread tid pr =
     pr\<lparr>thread_states := sm_remove tid (thread_states pr),
        num_threads_running := num_threads_running pr - 1\<rparr>"

definition begin_sampling :: "thread_state \<Rightarrow> thread_state" where
  "begin_sampling st = st\<lparr>sampler_running := True\<rparr>"

section \<open>Samples and delays\<close>

fun walk_callchain ::
  "ranges \<Rightarrow> line_id option \<Rightarrow> u64 list \<Rightarrow> line_id option \<Rightarrow> bool \<Rightarrow> line_id option \<times> bool" where
  "walk_callchain rs selected [] res first_hit = (res, False)"
| "walk_callchain rs selected (pc # pcs) res first_hit =
     (case find_line rs (pc - 1) of
        None \<Rightarrow> walk_callchain rs selected pcs res first_hit
      | Some l \<Rightarrow>
          if selected = Some l then (Some l, True)
          else walk_callchain rs selected pcs (if first_hit then res else Some l) True)"

definition match_line :: "profiler \<Rightarrow> perf_record \<Rightarrow> line_id option \<times> bool" where
  "match_line pr r =
     (if \<not> is_sample r then (None, False)
      else (case find_line (line_ranges pr) (sample_ip r) of
              Some l \<Rightarrow> if selected_line pr = Some l then (Some l, True)
                        else walk_callchain (line_ranges pr) (selected_line pr) (callchain r)
                               (Some l) True
            | None \<Rightarrow> walk_callchain (line_ranges pr) (selected_line pr) (callchain r) None False))"

definition add_sample :: "line_id \<Rightarrow> profiler \<Rightarrow> profiler" where
  "add_sample l pr = pr\<lparr>line_samples := (line_samples pr)(l := line_samples pr l + 1)\<rparr>"

text \<open>
  \<^verbatim>\<open>add_delays\<close> reads the global delay once and then acts on that snapshot; other threads may
  run in between, so the two halves are definitions of their own.
\<close>

definition add_delays_at ::
  "(u64 \<Rightarrow> u64) \<Rightarrow> u64 \<Rightarrow> profiler \<Rightarrow> thread_state \<Rightarrow> profiler \<times> thread_state" where
  "add_delays_at slept snapshot pr st =
     (if snapshot < local_delay st then
        (pr\<lparr>global_delay := global_delay pr + (local_delay st - snapshot)\<rparr>, st)
      else if local_delay st < snapshot then
        (pr, st\<lparr>local_delay := local_delay st + wait_ns slept (snapshot - local_delay st),
                sampler_running := True\<rparr>)
      else (pr, st))"

definition add_delays ::
  "(u64 \<Rightarrow> u64) \<Rightarrow> profiler \<Rightarrow> thread_state \<Rightarrow> profiler \<times> thread_state" where
  "add_delays slept pr st =
     (if experiment_active pr then add_delays_at slept (global_delay pr) pr st
      else (pr, st\<lparr>local_delay := global_delay pr\<rparr>))"

definition process_record :: "perf_record \<Rightarrow> profiler \<times> thread_state \<Rightarrow> profiler \<times> thread_state" where
  "process_record r s =
     (case s of (pr, st) \<Rightarrow>
        if is_sample r then
          (let sampled = match_line pr r;
               pr1 = (case fst sampled of None \<Rightarrow> pr | Some l \<Rightarrow> add_sample l pr)
           in if experiment_active pr1 then
                (pr1, if snd sampled then st\<lparr>local_delay := local_delay st + delay_size pr1\<rparr> else st)
              else if fst sampled \<noteq> None \<and> next_line pr1 = None then
                (pr1\<lparr>next_line := fst sampled\<rparr>, st)
              else (pr1, st))
        else (pr, st))"

definition process_samples ::
  "(u64 \<Rightarrow> u64) \<Rightarrow> perf_record list \<Rightarrow> profiler \<Rightarrow> thread_state \<Rightarrow> profiler \<times> thread_state" where
  "process_samples slept recs pr st =
     (case fold process_record recs (pr, st) of (pr1, st1) \<Rightarrow> add_delays slept pr1 st1)"

section \<open>The operations of a thread\<close>

definition samples_ready :: "(u64 \<Rightarrow> u64) \<Rightarrow> nat \<Rightarrow> perf_record list \<Rightarrow> profiler \<Rightarrow> profiler" where
  "samples_ready slept tid recs pr =
     (case get_thread_state tid pr of
        None \<Rightarrow> pr
      | Some st \<Rightarrow>
          if in_use st then pr
          else (case process_samples slept recs pr st of (pr1, st1) \<Rightarrow> put_thread_state tid st1 pr1))"

definition catch_up :: "(u64 \<Rightarrow> u64) \<Rightarrow> nat \<Rightarrow> profiler \<Rightarrow> profiler" where
  "catch_up slept tid pr =
     (case get_thread_state tid pr of
        None \<Rightarrow> pr
      | Some st \<Rightarrow>
          if experiment_active pr then
            (case add_delays slept pr (st\<lparr>in_use := True\<rparr>) of
               (pr1, st1) \<Rightarrow> put_thread_state tid (st1\<lparr>in_use := False\<rparr>) pr1)
          else pr)"

definition pre_block :: "nat \<Rightarrow> profiler \<Rightarrow> profiler" where
  "pre_block tid pr =
     (case get_thread_state tid pr of
        None \<Rightarrow> pr
      | Some st \<Rightarrow> put_thread_state tid (st\<lparr>pre_block_time := global_delay pr\<rparr>) pr)"

definition post_block :: "nat \<Rightarrow> bool \<Rightarrow> profiler \<Rightarrow> profiler" where
  "post_block tid skip_delays pr =
     (case get_thread_state tid pr of
        None \<Rightarrow> pr
      | Some st \<Rightarrow>
          let st1 = st\<lparr>in_use := True\<rparr>;
              st2 = (if skip_delays then
                       st1\<lparr>local_delay := local_delay st1 + (global_delay pr - pre_block_time st1)\<rparr>
                     else st1)
          in put_thread_state tid (st2\<lparr>in_use := False\<rparr>) pr)"

definition end_sampling :: "(u64 \<Rightarrow> u64) \<Rightarrow> nat \<Rightarrow> perf_record list \<Rightarrow> profiler \<Rightarrow> profiler" where
  "end_sampling slept tid recs pr =
     (case get_thread_state tid pr of
        None \<Rightarrow> pr
      | Some st \<Rightarrow>
          (case process_samples slept recs pr (st\<lparr>in_use := True\<rparr>) of
             (pr1, st1) \<Rightarrow>
               remove_thread tid (put_thread_state tid (st1\<lparr>sampler_running := False\<rparr>) pr1)))"

definition shutdown :: "(u64 \<Rightarrow> u64) \<Rightarrow> nat \<Rightarrow> perf_record list \<Rightarrow> profiler \<Rightarrow> profiler" where
  "shutdown slept tid recs pr =
     (if shutdown_run pr then pr
      else (end_sampling slept tid recs (pr\<lparr>shutdown_run := True\<rparr>))\<lparr>running := False\<rparr>)"

definition handle_pthread_exit ::
  "(u64 \<Rightarrow> u64) \<Rightarrow> nat \<Rightarrow> perf_record list \<Rightarrow> profiler \<Rightarrow> profiler" where
  "handle_pthread_exit slept tid recs pr =
     (let pr1 = end_sampling slept tid recs pr
      in if num_threads_running pr1 = 0 then shutdown slept tid [] pr1 else pr1)"

text \<open>
  Thread creation: the parent passes on its local delay (\<^verbatim>\<open>handle_pthread_create\<close>, which first
  starts the profiler when the parent is unknown), and the child starts with it
  (\<^verbatim>\<open>start_thread\<close>). \<^verbatim>\<open>init_coz\<close> is an argument.
\<close>

definition handle_pthread_create ::
  "(profiler \<Rightarrow> profiler) \<Rightarrow> nat \<Rightarrow> profiler \<Rightarrow> c_fault + profiler \<times> u64" where
  "handle_pthread_create init_coz parent pr =
     (let pr1 = (if get_thread_state parent pr = None then init_coz pr else pr)
      in (case get_thread_state parent pr1 of
            None \<Rightarrow> Inl Aborted
          | Some st \<Rightarrow> Inr (pr1, local_delay st)))"

definition start_thread ::
  "(nat \<Rightarrow> bool) \<Rightarrow> nat \<Rightarrow> u64 \<Rightarrow> profiler \<Rightarrow> c_fault + profiler" where
  "start_thread weak_fail tid parent_delay_time pr =
     (case add_thread weak_fail tid pr of
        (pr1, False) \<Rightarrow> Inl Aborted
      | (pr1, True) \<Rightarrow>
          (case get_thread_state tid pr1 of
             None \<Rightarrow> Inl Aborted
           | Some st \<Rightarrow>
               Inr (put_thread_state tid
                      (begin_sampling (st\<lparr>local_delay := parent_delay_time\<rparr>)) pr1)))"

section \<open>The experiment loop\<close>

text \<open>The zero speedup is chosen for a draw of at most \<open>ZeroSpeedupWeight\<close>.\<close>

definition choose_delay_size :: "profiler \<Rightarrow> nat \<Rightarrow> u64" where
  "choose_delay_size pr r =
     (if 0 \<le> fixed_delay_size pr then word_of_int (fixed_delay_size pr)
      else if r \<le> ZeroSpeedupWeight then 0
      else (of_nat r - of_nat ZeroSpeedupWeight) * of_nat SamplePeriod div of_nat SpeedupDivisions)"

datatype log_line =
    Log_Startup u64
  | Log_Experiment line_id u64 u64 u64
  | Log_Throughput string u64
  | Log_Latency string u64 u64 u64
  | Log_Runtime u64
  | Log_Samples line_id u64

text \<open>A running experiment: what the loop body saved when it started.\<close>

record running_experiment =
  ex_selected :: line_id
  ex_delay_size :: u64
  ex_start_time :: u64
  ex_starting_samples :: u64
  ex_starting_delay_time :: u64
  ex_throughput :: "(string \<times> tp_saved) list"
  ex_latency :: "(string \<times> lp_saved) list"

record loop_state =
  experiment_length :: u64
  profiler_start_time :: u64
  sample_log_interval :: u64
  sample_log_countdown :: u64

definition start_loop :: "u64 \<Rightarrow> loop_state \<times> log_line list" where
  "start_loop now =
     (\<lparr>experiment_length = of_nat ExperimentMinTime, profiler_start_time = now,
       sample_log_interval = 32, sample_log_countdown = 32\<rparr>, [Log_Startup now])"

text \<open>\<open>None\<close> when there is no line to speed up yet: the loop keeps waiting for one.\<close>

definition begin_experiment ::
  "u64 \<Rightarrow> nat \<Rightarrow> profiler \<Rightarrow> (profiler \<times> running_experiment) option" where
  "begin_experiment now r pr =
     (case (if fixed_line pr \<noteq> None then fixed_line pr else next_line pr) of
        None \<Rightarrow> None
      | Some selected \<Rightarrow>
          let d = choose_delay_size pr r;
              pr1 = pr\<lparr>selected_line := Some selected, delay_size := d\<rparr>
          in Some (pr1\<lparr>experiment_active := True\<rparr>,
               \<lparr>ex_selected = selected, ex_delay_size = d, ex_start_time = now,
                ex_starting_samples = line_samples pr1 selected,
                ex_starting_delay_time = global_delay pr1,
                ex_throughput = map (\<lambda>(nm, p). (nm, tp_save p)) (throughput_points (points pr1)),
                ex_latency = map (\<lambda>(nm, p). (nm, lp_save p)) (latency_points (points pr1))\<rparr>))"

definition throughput_deltas :: "profiler \<Rightarrow> running_experiment \<Rightarrow> (string \<times> u64) list" where
  "throughput_deltas pr ex =
     List.map_filter (\<lambda>(nm, s). map_option (\<lambda>p. (nm, tp_get_delta s p))
       (map_of (throughput_points (points pr)) nm)) (ex_throughput ex)"

definition latency_deltas :: "profiler \<Rightarrow> running_experiment \<Rightarrow> (string \<times> u64 \<times> u64 \<times> u64) list" where
  "latency_deltas pr ex =
     List.map_filter (\<lambda>(nm, s). map_option
         (\<lambda>p. (nm, get_begin_delta s p, get_end_delta s p, get_difference p))
       (map_of (latency_points (points pr)) nm)) (ex_latency ex)"

definition lower_min :: "u64 \<Rightarrow> u64 \<Rightarrow> u64" where
  "lower_min delta min_delta = (if delta < min_delta then delta else min_delta)"

definition min_delta_of :: "profiler \<Rightarrow> running_experiment \<Rightarrow> u64" where
  "min_delta_of pr ex =
     fold (\<lambda>(nm, b, e, d) m. lower_min e (lower_min b m)) (latency_deltas pr ex)
       (fold (\<lambda>(nm, d) m. lower_min d m) (throughput_deltas pr ex) (- 1))"

definition adapt_length :: "u64 \<Rightarrow> u64 \<Rightarrow> u64" where
  "adapt_length min_delta len =
     (if min_delta < of_nat ExperimentTargetDelta then len * 2
      else if of_nat ExperimentTargetDelta * 2 < min_delta \<and> of_nat ExperimentMinTime * 2 \<le> len
      then len div 2
      else len)"

definition log_samples :: "u64 \<Rightarrow> u64 \<Rightarrow> profiler \<Rightarrow> log_line list" where
  "log_samples now start_time pr =
     Log_Runtime (now - start_time) #
     List.map_filter (\<lambda>l. if 0 < line_samples pr l then Some (Log_Samples l (line_samples pr l)) else None)
       (known_lines pr)"

text \<open>
  The end of the loop body. The \<open>start_time\<close> that the periodic log is handed is the one of the
  experiment, which hides the profiler's.
\<close>

definition end_experiment ::
  "u64 \<Rightarrow> u64 \<Rightarrow> profiler \<Rightarrow> running_experiment \<Rightarrow> loop_state \<Rightarrow> profiler \<times> loop_state \<times> log_line list" where
  "end_experiment now log_time pr ex ls =
     (let experiment_delay = global_delay pr - ex_starting_delay_time ex;
          duration = now - ex_start_time ex - experiment_delay;
          selected_samples = line_samples pr (ex_selected ex) - ex_starting_samples ex;
          entries = Log_Experiment (ex_selected ex) (ex_delay_size ex) duration selected_samples #
            map (\<lambda>(nm, d). Log_Throughput nm d) (throughput_deltas pr ex) @
            map (\<lambda>(nm, b, e, d). Log_Latency nm b e d) (latency_deltas pr ex);
          ls1 = ls\<lparr>experiment_length := adapt_length (min_delta_of pr ex) (experiment_length ls)\<rparr>;
          pr1 = pr\<lparr>next_line := None, experiment_active := False\<rparr>;
          countdown = sample_log_countdown ls1 - 1
      in if countdown = 0 then
           (let interval = (if sample_log_interval ls1 < 20 then sample_log_interval ls1 * 2
                            else sample_log_interval ls1)
            in (pr1, ls1\<lparr>sample_log_interval := interval, sample_log_countdown := interval\<rparr>,
                entries @ log_samples log_time (ex_start_time ex) pr1))
         else (pr1, ls1\<lparr>sample_log_countdown := countdown\<rparr>, entries))"

definition finish_loop :: "u64 \<Rightarrow> profiler \<Rightarrow> loop_state \<Rightarrow> log_line list" where
  "finish_loop now pr ls = log_samples now (profiler_start_time ls) pr"

section \<open>Events\<close>

text \<open>
  Everything the threads and the experiment loop do, each as one event. \<open>over\<close> is by how much a
  sleep exceeds the time asked for.
\<close>

datatype prof_event =
    Samples nat u64 "perf_record list"
  | Catch_Up nat u64
  | Pre_Block nat
  | Post_Block nat bool
  | Create nat nat "nat list"
  | Exit_Thread nat u64 "perf_record list"
  | Begin_Experiment u64 nat
  | End_Experiment

text \<open>A creation is impossible from an unknown thread, or of a thread that already runs.\<close>

fun prof_exec :: "prof_event \<Rightarrow> profiler \<Rightarrow> profiler option" where
  "prof_exec (Samples tid over recs) pr = Some (samples_ready (\<lambda>ns. ns + over) tid recs pr)"
| "prof_exec (Catch_Up tid over) pr = Some (catch_up (\<lambda>ns. ns + over) tid pr)"
| "prof_exec (Pre_Block tid) pr = Some (pre_block tid pr)"
| "prof_exec (Post_Block tid skip) pr = Some (post_block tid skip pr)"
| "prof_exec (Create parent child fails) pr =
     (if child = 0 \<or> get_thread_state child pr \<noteq> None then None
      else (case handle_pthread_create id parent pr of
              Inl e \<Rightarrow> None
            | Inr (pr1, delay) \<Rightarrow>
                (case start_thread (\<lambda>offset. offset \<in> set fails) child delay pr1 of
                   Inl e \<Rightarrow> None
                 | Inr pr2 \<Rightarrow> Some pr2)))"
| "prof_exec (Exit_Thread tid over recs) pr =
     (if tid = 0 then None else Some (handle_pthread_exit (\<lambda>ns. ns + over) tid recs pr))"
| "prof_exec (Begin_Experiment now r) pr = map_option fst (begin_experiment now r pr)"
| "prof_exec End_Experiment pr = Some (pr\<lparr>next_line := None, experiment_active := False\<rparr>)"

fun prof_run :: "prof_event list \<Rightarrow> profiler \<Rightarrow> profiler option" where
  "prof_run [] pr = Some pr"
| "prof_run (e # es) pr = (case prof_exec e pr of None \<Rightarrow> None | Some pr' \<Rightarrow> prof_run es pr')"

fun event_tid :: "prof_event \<Rightarrow> nat option" where
  "event_tid (Samples tid _ _) = Some tid"
| "event_tid (Catch_Up tid _) = Some tid"
| "event_tid (Pre_Block tid) = Some tid"
| "event_tid (Post_Block tid _) = Some tid"
| "event_tid (Create _ child _) = Some child"
| "event_tid (Exit_Thread tid _ _) = Some tid"
| "event_tid (Begin_Experiment _ _) = None"
| "event_tid End_Experiment = None"

section \<open>What a sample matches\<close>

text \<open>The lines a sample shows, innermost first: its own, then those of its call sites.\<close>

definition sample_lines :: "profiler \<Rightarrow> perf_record \<Rightarrow> line_id list" where
  "sample_lines pr r =
     List.map_filter (find_line (line_ranges pr)) (sample_ip r # map (\<lambda>pc. pc - 1) (callchain r))"

lemma walk_callchain_eq:
  "walk_callchain rs sel pcs res hit =
     (let ls = List.map_filter (find_line rs) (map (\<lambda>pc. pc - 1) pcs)
      in case sel of
           Some l \<Rightarrow> if l \<in> set ls then (Some l, True)
                     else (if hit then res else if ls = [] then res else Some (hd ls), False)
         | None \<Rightarrow> (if hit then res else if ls = [] then res else Some (hd ls), False))"
proof (induction rs sel pcs res hit rule: walk_callchain.induct)
  case (2 rs sel pc pcs res hit)
  then show ?case
    by (auto simp: map_filter_simps Let_def split: option.splits)
qed (simp add: map_filter_simps split: option.split)

text \<open>
  A sample is credited to the line selected for the experiment when that line is anywhere in
  its call chain, and otherwise to the innermost known line of the chain; it counts as a hit
  exactly in the first case.
\<close>

theorem match_line_spec:
  "match_line pr r =
     (if \<not> is_sample r then (None, False)
      else case selected_line pr of
        Some l \<Rightarrow> if l \<in> set (sample_lines pr r) then (Some l, True)
                  else (List.find (\<lambda>_. True) (sample_lines pr r), False)
      | None \<Rightarrow> (List.find (\<lambda>_. True) (sample_lines pr r), False))"
proof -
  have first: "List.find (\<lambda>_. True) ls = (if ls = [] then None else Some (hd ls))"
    for ls :: "line_id list" by (cases ls) auto
  show ?thesis
    by (auto simp: match_line_def sample_lines_def walk_callchain_eq first map_filter_simps Let_def
        split: option.split)
qed

section \<open>Delays of one thread\<close>

text \<open>How many of the records hit the selected line.\<close>

definition hits :: "profiler \<Rightarrow> perf_record list \<Rightarrow> nat" where
  "hits pr recs = length (filter (\<lambda>r. snd (match_line pr r)) recs)"

text \<open>Matching looks only at the lines of the map and the selected line.\<close>

lemma match_line_cong:
  "line_ranges pr = line_ranges pr' \<Longrightarrow> selected_line pr = selected_line pr' \<Longrightarrow>
   match_line pr r = match_line pr' r"
  by (simp add: match_line_def cong: option.case_cong if_cong)

lemma match_line_hit_sample: "snd (match_line pr r) \<Longrightarrow> is_sample r"
  by (simp add: match_line_def split: if_splits)

lemma process_record_active:
  assumes "experiment_active pr"
  shows "process_record r (pr, st) =
    (case fst (match_line pr r) of None \<Rightarrow> pr | Some l \<Rightarrow> add_sample l pr,
     if snd (match_line pr r) then st\<lparr>local_delay := local_delay st + delay_size pr\<rparr> else st)"
  using assms by (auto simp: process_record_def add_sample_def Let_def match_line_def split: option.split)

lemma process_records_active:
  assumes "experiment_active pr"
  shows "\<exists>samples. fold process_record recs (pr, st) =
    (pr\<lparr>line_samples := samples\<rparr>,
     st\<lparr>local_delay := local_delay st + of_nat (hits pr recs) * delay_size pr\<rparr>)"
  using assms
proof (induction recs arbitrary: pr st)
  case Nil
  show ?case by (rule exI [of _ "line_samples pr"]) (simp add: hits_def)
next
  case (Cons r recs)
  define pr1 where "pr1 = (case fst (match_line pr r) of None \<Rightarrow> pr | Some l \<Rightarrow> add_sample l pr)"
  have same: "line_ranges pr1 = line_ranges pr" "selected_line pr1 = selected_line pr"
    "delay_size pr1 = delay_size pr" "experiment_active pr1"
    "pr1\<lparr>line_samples := s\<rparr> = pr\<lparr>line_samples := s\<rparr>" for s
    using Cons.prems by (auto simp: pr1_def add_sample_def split: option.split)
  have hits: "hits pr1 recs = hits pr recs"
    using match_line_cong [OF same(1,2)] by (simp add: hits_def)
  define st1 where
    "st1 = (if snd (match_line pr r) then st\<lparr>local_delay := local_delay st + delay_size pr\<rparr> else st)"
  obtain samples where "fold process_record recs (pr1, st1) =
    (pr1\<lparr>line_samples := samples\<rparr>,
     st1\<lparr>local_delay := local_delay st1 + of_nat (hits pr1 recs) * delay_size pr1\<rparr>)"
    using Cons.IH [OF same(4), of st1] by blast
  moreover have "process_record r (pr, st) = (pr1, st1)"
    by (simp add: process_record_active [OF Cons.prems] pr1_def st1_def)
  moreover have "hits pr (r # recs) = (if snd (match_line pr r) then 1 else 0) + hits pr recs"
    by (simp add: hits_def)
  ultimately show ?case
    by (intro exI [of _ samples]) (simp add: same hits st1_def algebra_simps)
qed

text \<open>
  What \<^verbatim>\<open>add_delays\<close> leaves when a sleep lasts exactly as long as asked: the thread and the
  program agree on the delay.
\<close>

lemma add_delays_agree:
  assumes "add_delays (\<lambda>ns. ns) pr st = (pr', st')"
  shows "local_delay st' = global_delay pr'"
  using assms by (auto simp: add_delays_def add_delays_at_def wait_ns_def split: if_splits)

lemma add_delays_frame:
  assumes "add_delays slept pr st = (pr', st')"
  shows "pr' = pr\<lparr>global_delay := global_delay pr'\<rparr>"
    "global_delay pr' = (if experiment_active pr \<and> global_delay pr < local_delay st
       then local_delay st else global_delay pr)"
  using assms by (auto simp: add_delays_def add_delays_at_def split: if_splits)

end
