(* ===== verification/Profiler_Accounting.thy ===== *)
theory Profiler_Accounting
  imports Profiler
begin

text \<open>
  What the profiler's bookkeeping adds up to: how the local and global delays relate after
  samples, pauses and blocking, that the operations of one thread leave the others' states
  alone, that the number of running threads is the number of table entries in use, and how the
  experiment loop chooses speedups, adapts its length and logs.
\<close>

section \<open>Samples and pauses\<close>


text \<open>A profiler with one thread, for the samples below.\<close>

definition sample_profiler :: profiler where
  "sample_profiler =
     \<lparr>thread_states = \<lparr>tags = [0, 9, 0, 0],
        vals = replicate 4 (new_thread_state\<lparr>local_delay := 100\<rparr>)\<rparr>,
      num_threads_running = 1, experiment_active = True, global_delay = 300, delay_size = 250,
      selected_line = Some (''a.c'', 7), next_line = None, running = True, fixed_line = None,
      fixed_delay_size = - 1, enable_end_to_end = False, shutdown_run = False,
      points = \<lparr>throughput_points = [(''req'', new_throughput_point ''req'')], latency_points = []\<rparr>,
      line_ranges = [(\<lparr>ibase = 64, ilimit = 80\<rparr>, ''a.c'', 7), (\<lparr>ibase = 80, ilimit = 96\<rparr>, ''a.c'', 8)],
      line_samples = (\<lambda>l. 0), known_lines = [(''a.c'', 7), (''a.c'', 8)]\<rparr>"

definition sample_records :: "perf_record list" where
  "sample_records =
     [\<lparr>is_sample = True, sample_ip = 85, callchain = [200, 73]\<rparr>,
      \<lparr>is_sample = True, sample_ip = 85, callchain = [200]\<rparr>,
      \<lparr>is_sample = False, sample_ip = 0, callchain = []\<rparr>]"


section \<open>The thread table\<close>

lemma find_vals [simp]: "sm_find (m\<lparr>vals := vs\<rparr>) k = sm_find m k"
proof -
  have "find_from k offs (m\<lparr>vals := vs\<rparr>) = find_from k offs m" for offs
    by (induction offs) (simp_all add: probe_def get_bucket_def map_size_def Let_def)
  then show ?thesis by (simp add: sm_find_def map_size_def)
qed

lemma inv_vals: "length vs = length (vals m) \<Longrightarrow> sm_inv (m\<lparr>vals := vs\<rparr>) = sm_inv m"
  by (simp add: sm_inv_def map_size_def)

definition table_ok :: "profiler \<Rightarrow> bool" where
  "table_ok pr \<longleftrightarrow> sm_inv (thread_states pr)"

lemma find_less:
  "table_ok pr \<Longrightarrow> sm_find (thread_states pr) t = Some i \<Longrightarrow> i < length (vals (thread_states pr))"
  using sm_find_Some [of "thread_states pr" t i] by (auto simp: table_ok_def sm_inv_def)

lemma find_same:
  assumes "table_ok pr" "t \<noteq> 0" "u \<noteq> 0" "sm_find (thread_states pr) t = Some i"
    "sm_find (thread_states pr) u = Some i"
  shows "t = u"
  using assms tt.lookup_inj unfolding table_ok_def by blast

lemma put_table_ok [simp]: "table_ok (put_thread_state t st pr) = table_ok pr"
  by (simp add: table_ok_def put_thread_state_def inv_vals split: option.split)

lemma put_find [simp]:
  "sm_find (thread_states (put_thread_state t st pr)) u = sm_find (thread_states pr) u"
  by (simp add: put_thread_state_def split: option.split)

lemma get_put:
  assumes "table_ok pr" "t \<noteq> 0" "u \<noteq> 0"
  shows "get_thread_state u (put_thread_state t st pr) =
    (if u = t then map_option (\<lambda>_. st) (get_thread_state t pr) else get_thread_state u pr)"
proof (cases "sm_find (thread_states pr) t")
  case None
  then show ?thesis by (simp add: get_thread_state_def put_thread_state_def)
next
  case (Some i)
  note less = find_less [OF assms(1) Some]
  show ?thesis
  proof (cases "u = t")
    case True
    with Some less show ?thesis by (simp add: get_thread_state_def put_thread_state_def)
  next
    case False
    have "j \<noteq> i" if "sm_find (thread_states pr) u = Some j" for j
      using find_same [OF assms Some] that False by blast
    with False Some show ?thesis
      by (auto simp: get_thread_state_def put_thread_state_def split: option.split)
  qed
qed

lemma get_thread_state_cong:
  "thread_states pr = thread_states pr' \<Longrightarrow> get_thread_state t pr = get_thread_state t pr'"
  by (simp add: get_thread_state_def cong: option.case_cong)

text \<open>Processing samples changes neither the table nor the number of threads.\<close>

lemma process_record_frame:
  "thread_states (fst (process_record r s)) = thread_states (fst s) \<and>
   num_threads_running (fst (process_record r s)) = num_threads_running (fst s)"
  by (auto simp: process_record_def add_sample_def Let_def split: prod.split option.split)

lemma process_records_frame:
  "thread_states (fst (fold process_record recs s)) = thread_states (fst s) \<and>
   num_threads_running (fst (fold process_record recs s)) = num_threads_running (fst s)"
  by (induction recs arbitrary: s) (simp_all add: process_record_frame)

lemma add_delays_threads:
  "add_delays slept pr st = (pr', st') \<Longrightarrow>
   thread_states pr' = thread_states pr \<and> num_threads_running pr' = num_threads_running pr"
  by (auto simp: add_delays_def add_delays_at_def split: if_splits)

lemma process_samples_frame:
  assumes "process_samples slept recs pr st = (pr', st')"
  shows "thread_states pr' = thread_states pr" "num_threads_running pr' = num_threads_running pr"
  using assms process_records_frame [of recs "(pr, st)"]
  by (auto simp: process_samples_def split: prod.splits dest!: add_delays_threads)

text \<open>The threads that run, and the invariant on their number.\<close>

definition live :: "profiler \<Rightarrow> nat set" where
  "live pr = {t. t \<noteq> 0 \<and> get_thread_state t pr \<noteq> None}"

lemma live_find: "t \<in> live pr \<longleftrightarrow> t \<noteq> 0 \<and> sm_find (thread_states pr) t \<noteq> None"
  by (auto simp: live_def get_thread_state_def split: option.splits)

definition prof_inv :: "profiler \<Rightarrow> bool" where
  "prof_inv pr \<longleftrightarrow> table_ok pr \<and> num_threads_running pr = of_nat (card (live pr))"

lemma finite_live: "table_ok pr \<Longrightarrow> finite (live pr)"
proof (rule finite_subset)
  assume "table_ok pr"
  then show "live pr \<subseteq> set (tags (thread_states pr))"
    using sm_find_Some by (fastforce simp: live_find table_ok_def map_size_def in_set_conv_nth)
qed simp

lemma live_put [simp]: "live (put_thread_state t st pr) = live pr"
  by (auto simp: live_find)

lemma put_num [simp]: "num_threads_running (put_thread_state t st pr) = num_threads_running pr"
  by (simp add: put_thread_state_def split: option.split)

lemma prof_inv_put [simp]: "prof_inv (put_thread_state t st pr) = prof_inv pr"
  by (simp add: prof_inv_def)

lemma prof_inv_cong:
  "thread_states pr' = thread_states pr \<Longrightarrow> num_threads_running pr' = num_threads_running pr \<Longrightarrow>
   prof_inv pr' = prof_inv pr"
  by (simp add: prof_inv_def table_ok_def live_find set_eq_iff cong: conj_cong)
     (metis live_find subset_antisym subsetI)

lemma remove_thread_inv:
  assumes "prof_inv pr" "t \<in> live pr"
  shows "prof_inv (remove_thread t pr)" "live (remove_thread t pr) = live pr - {t}"
proof -
  have ok: "sm_inv (thread_states pr)" "t \<noteq> 0"
    using assms by (auto simp: prof_inv_def table_ok_def live_find)
  show live: "live (remove_thread t pr) = live pr - {t}"
    by (auto simp: live_find remove_thread_def tt.lookup_rem [OF ok] split: if_splits)
  have "card (live pr) \<noteq> 0" using assms finite_live by (auto simp: prof_inv_def)
  then have "(of_nat (card (live pr)) :: u64) - 1 = of_nat (card (live pr) - 1)"
    by (cases "card (live pr)") simp_all
  then show "prof_inv (remove_thread t pr)"
    unfolding prof_inv_def live using assms tt.rem_inv [OF ok]
    by (simp add: remove_thread_def table_ok_def prof_inv_def)
qed

lemma add_thread_inv:
  assumes "prof_inv pr" "t \<noteq> 0" "get_thread_state t pr = None" "add_thread w t pr = (pr', True)"
  shows "prof_inv pr'" "live pr' = insert t (live pr)"
proof -
  obtain m i where ins: "sm_insert w t (thread_states pr) = Some (m, i)"
    and pr': "pr' = pr\<lparr>thread_states := m, num_threads_running := num_threads_running pr + 1\<rparr>"
    using assms(4) by (auto simp: add_thread_def split: option.splits)
  have new: "sm_find (thread_states pr) t = None"
    using assms(3) by (simp add: get_thread_state_def split: option.splits)
  have ok: "sm_inv (thread_states pr)" using assms(1) by (simp add: prof_inv_def table_ok_def)
  show live: "live pr' = insert t (live pr)"
    using assms(2) by (auto simp: live_find pr' tt.lookup_ins [OF ok assms(2) new ins] split: if_splits)
  have "t \<notin> live pr" "finite (live pr)"
    using new finite_live assms(1) by (auto simp: live_find prof_inv_def)
  then show "prof_inv pr'"
    unfolding prof_inv_def live using assms(1) tt.ins_inv [OF ok assms(2) new ins]
    by (simp add: pr' table_ok_def prof_inv_def)
qed

lemma process_samples_inv:
  "process_samples slept recs pr st = (pr', st') \<Longrightarrow> prof_inv pr' = prof_inv pr"
  by (rule prof_inv_cong) (rule process_samples_frame, assumption)+

lemma add_delays_inv: "add_delays slept pr st = (pr', st') \<Longrightarrow> prof_inv pr' = prof_inv pr"
  using add_delays_threads by (intro prof_inv_cong) blast+

lemma samples_ready_inv: "prof_inv pr \<Longrightarrow> prof_inv (samples_ready slept t recs pr)"
  by (simp add: samples_ready_def process_samples_inv split: option.split prod.split)

lemma catch_up_inv: "prof_inv pr \<Longrightarrow> prof_inv (catch_up slept t pr)"
  by (simp add: catch_up_def add_delays_inv split: option.split prod.split)

lemma end_sampling_inv:
  assumes "prof_inv pr" "t \<noteq> 0"
  shows "prof_inv (end_sampling slept t recs pr)"
    "live (end_sampling slept t recs pr) = live pr - {t}"
proof -
  have "prof_inv (end_sampling slept t recs pr) \<and>
    live (end_sampling slept t recs pr) = live pr - {t}"
  proof (cases "get_thread_state t pr")
    case None
    with assms show ?thesis by (auto simp: end_sampling_def live_def)
  next
    case (Some st)
    obtain pr1 st1 where p: "process_samples slept recs pr (st\<lparr>in_use := True\<rparr>) = (pr1, st1)"
      by (cases "process_samples slept recs pr (st\<lparr>in_use := True\<rparr>)")
    have inv1: "prof_inv pr1" using prof_inv_cong [OF process_samples_frame [OF p]] assms by simp
    have live1: "live pr1 = live pr"
      using process_samples_frame(1) [OF p] by (simp add: live_find set_eq_iff)
    have "t \<in> live pr" using Some assms by (simp add: live_def)
    then have mem: "t \<in> live (put_thread_state t (st1\<lparr>sampler_running := False\<rparr>) pr1)"
      by (simp add: live1)
    have inv2: "prof_inv (put_thread_state t (st1\<lparr>sampler_running := False\<rparr>) pr1)" using inv1 by simp
    show ?thesis
      using remove_thread_inv [OF inv2 mem] by (simp add: end_sampling_def Some p live1)
  qed
  then show "prof_inv (end_sampling slept t recs pr)"
    "live (end_sampling slept t recs pr) = live pr - {t}" by blast+
qed

lemma handle_pthread_exit_inv:
  assumes "prof_inv pr" "t \<noteq> 0"
  shows "prof_inv (handle_pthread_exit slept t recs pr)"
proof -
  note e = end_sampling_inv [OF assms, of slept recs]
  let ?pr1 = "(end_sampling slept t recs pr)\<lparr>shutdown_run := True\<rparr>"
  have "prof_inv ?pr1" using e(1) by (subst prof_inv_cong) simp_all
  from end_sampling_inv(1) [OF this assms(2), of slept "[]"]
  have "prof_inv ((end_sampling slept t [] ?pr1)\<lparr>running := False\<rparr>)"
    by (subst prof_inv_cong) simp_all
  with e show ?thesis by (simp add: handle_pthread_exit_def shutdown_def Let_def)
qed

lemma start_thread_inv:
  assumes "prof_inv pr" "t \<noteq> 0" "get_thread_state t pr = None" "start_thread w t d pr = Inr pr'"
  shows "prof_inv pr'"
  using assms(4) add_thread_inv [OF assms(1-3)]
  by (auto simp: start_thread_def split: prod.splits bool.splits option.splits)

lemma begin_experiment_inv:
  "prof_inv pr \<Longrightarrow> begin_experiment now r pr = Some (pr', ex) \<Longrightarrow> prof_inv pr'"
  by (subst prof_inv_cong [of pr' pr]) (auto simp: begin_experiment_def Let_def split: option.splits)

lemma create_exec:
  assumes "prof_exec (Create parent child fails) pr = Some pr'"
  obtains d where "child \<noteq> 0" "get_thread_state child pr = None"
    "start_thread (\<lambda>offset. offset \<in> set fails) child d pr = Inr pr'"
    "map_option local_delay (get_thread_state parent pr) = Some d"
  using assms
  by (auto simp: handle_pthread_create_def Let_def split: if_splits sum.splits option.splits)

lemma prof_exec_inv:
  assumes "prof_inv pr" "prof_exec e pr = Some pr'"
  shows "prof_inv pr'"
proof (cases e)
  case (Create parent child fails)
  from assms(2) [unfolded Create] obtain d where "child \<noteq> 0" "get_thread_state child pr = None"
    "start_thread (\<lambda>offset. offset \<in> set fails) child d pr = Inr pr'"
    by (rule create_exec)
  then show ?thesis using start_thread_inv [OF assms(1)] by blast
next
  case (Begin_Experiment now r)
  with assms begin_experiment_inv show ?thesis by auto
next
  case End_Experiment
  with assms show ?thesis by (subst prof_inv_cong [of pr' pr]) auto
next
  case (Samples t over recs)
  with assms samples_ready_inv show ?thesis by auto
next
  case (Catch_Up t over)
  with assms catch_up_inv show ?thesis by auto
next
  case (Pre_Block t)
  with assms have "pr' = pre_block t pr" by simp
  with assms(1) show ?thesis by (simp add: pre_block_def split: option.split)
next
  case (Post_Block t skip)
  with assms have "pr' = post_block t skip pr" by simp
  with assms(1) show ?thesis by (simp add: post_block_def Let_def split: option.split)
next
  case (Exit_Thread t over recs)
  with assms handle_pthread_exit_inv show ?thesis by (auto split: if_splits)
qed

text \<open>
  C20. However threads start, run, block and exit, the count the profiler keeps of running threads
  is the number of threads in its table; so the exit that finds the count 0 is the last one.
\<close>

theorem running_threads_counted:
  "prof_inv pr \<Longrightarrow> prof_run es pr = Some pr' \<Longrightarrow>
   num_threads_running pr' = of_nat (card (live pr'))"
proof (induction es arbitrary: pr)
  case Nil
  then show ?case by (simp add: prof_inv_def)
next
  case (Cons e es)
  from Cons.prems(2) obtain pr1 where "prof_exec e pr = Some pr1" "prof_run es pr1 = Some pr'"
    by (auto split: option.splits)
  with Cons.IH prof_exec_inv [OF Cons.prems(1)] show ?case by blast
qed

lemma sample_profiler_inv: "prof_inv sample_profiler"
proof -
  have "sm_find (thread_states sample_profiler) 9 = Some 1" by code_simp
  moreover have ok: "table_ok sample_profiler"
    by (simp add: table_ok_def sm_inv_def sample_profiler_def map_size_def)
      (simp add: less_Suc_eq numeral_eq_Suc)
  moreover have "t \<in> {0, 9}" if "sm_find (thread_states sample_profiler) t = Some i" for t i
    using sm_find_Some [OF ok [unfolded table_ok_def] that]
    by (simp add: sample_profiler_def map_size_def) (auto simp: less_Suc_eq numeral_eq_Suc)
  ultimately have "t \<in> live sample_profiler \<longleftrightarrow> t = 9" for t
    unfolding live_find by (metis insertE not_None_eq option.distinct(1) singletonD zero_neq_numeral)
  then have "live sample_profiler = {9}" by blast
  with ok show ?thesis by (simp add: prof_inv_def sample_profiler_def)
qed

theorem running_threads_counted_witness:
  "map_option num_threads_running
     (prof_run [Create 9 5 [], Samples 5 0 sample_records, Create 5 13 [1], Exit_Thread 9 7 []]
       sample_profiler) = Some 2 \<and>
   (\<exists>pr'. prof_run [Create 9 5 [], Samples 5 0 sample_records, Create 5 13 [1], Exit_Thread 9 7 []]
       sample_profiler = Some pr' \<and> (of_nat (card (live pr')) :: u64) = 2)"
proof -
  let ?es = "[Create 9 5 [], Samples 5 0 sample_records, Create 5 13 [1], Exit_Thread 9 7 []]"
  have "map_option num_threads_running (prof_run ?es sample_profiler) = Some 2" by code_simp
  moreover from this obtain pr' where "prof_run ?es sample_profiler = Some pr'" by auto
  ultimately show ?thesis
    using running_threads_counted [OF sample_profiler_inv, of ?es pr'] by auto
qed

section \<open>A blocked thread\<close>

text \<open>What other threads do leaves a thread's state alone.\<close>

lemma get_put_other:
  "table_ok pr \<Longrightarrow> t \<noteq> 0 \<Longrightarrow> u \<noteq> 0 \<Longrightarrow> u \<noteq> t \<Longrightarrow>
   get_thread_state u (put_thread_state t st pr) = get_thread_state u pr"
  by (simp add: get_put)

lemma vals_remove [simp]: "vals (sm_remove t m) = vals m"
  by (simp add: sm_remove_eq split: option.split)

lemma get_remove_other:
  assumes "table_ok pr" "t \<noteq> 0" "u \<noteq> 0" "u \<noteq> t"
  shows "get_thread_state u (remove_thread t pr) = get_thread_state u pr"
  using tt.lookup_rem [OF assms(1) [unfolded table_ok_def] assms(2,3)] assms(4)
  by (simp add: get_thread_state_def remove_thread_def cong: option.case_cong)

lemma get_add_other:
  assumes "table_ok pr" "t \<noteq> 0" "u \<noteq> 0" "u \<noteq> t" "get_thread_state t pr = None"
    "add_thread w t pr = (pr', b)"
  shows "get_thread_state u pr' = get_thread_state u pr"
proof (cases "sm_insert w t (thread_states pr)")
  case None
  with assms(6) show ?thesis by (simp add: add_thread_def)
next
  case (Some mi)
  obtain m i where mi: "mi = (m, i)" by (cases mi)
  have new: "sm_find (thread_states pr) t = None"
    using assms(5) by (simp add: get_thread_state_def split: option.splits)
  have ok: "sm_inv (thread_states pr)" using assms(1) by (simp add: table_ok_def)
  have "0 < map_size (thread_states pr)" using ok by (simp only: sm_inv_def)
  from sm_insert_Some(3) [OF this Some [unfolded mi]] have "vals m = vals (thread_states pr)" by simp
  moreover have "sm_find m u = sm_find (thread_states pr) u"
    using tt.lookup_ins [OF ok assms(2) new Some [unfolded mi] assms(3)] assms(4) by simp
  ultimately show ?thesis
    using assms(6) Some mi by (auto simp: add_thread_def get_thread_state_def cong: option.case_cong)
qed

lemma get_fields [simp]:
  "get_thread_state u (pr\<lparr>shutdown_run := b\<rparr>) = get_thread_state u pr"
  "get_thread_state u (pr\<lparr>running := b\<rparr>) = get_thread_state u pr"
  by (rule get_thread_state_cong, simp)+

lemma process_samples_get:
  "process_samples slept recs pr st = (pr', st') \<Longrightarrow>
   get_thread_state u pr' = get_thread_state u pr \<and> table_ok pr' = table_ok pr"
  using process_samples_frame(1) get_thread_state_cong by (metis table_ok_def)

lemma add_delays_get:
  "add_delays slept pr st = (pr', st') \<Longrightarrow>
   get_thread_state u pr' = get_thread_state u pr \<and> table_ok pr' = table_ok pr"
  using add_delays_threads get_thread_state_cong by (metis table_ok_def)

lemma end_sampling_other:
  assumes "table_ok pr" "t \<noteq> 0" "u \<noteq> 0" "u \<noteq> t"
  shows "get_thread_state u (end_sampling slept t recs pr) = get_thread_state u pr"
  using assms process_samples_get
  by (auto simp: end_sampling_def get_put_other get_remove_other split: option.split prod.split)

lemma exit_other:
  assumes "prof_inv pr" "t \<noteq> 0" "u \<noteq> 0" "u \<noteq> t"
  shows "get_thread_state u (handle_pthread_exit slept t recs pr) = get_thread_state u pr"
proof -
  let ?e = "end_sampling slept t recs pr"
  have ok: "table_ok pr" using assms(1) by (simp add: prof_inv_def)
  have "table_ok ?e" using end_sampling_inv(1) [OF assms(1,2)] by (simp add: prof_inv_def)
  then have "table_ok (?e\<lparr>shutdown_run := True\<rparr>)" by (simp add: table_ok_def)
  from end_sampling_other [OF this assms(2-4), of slept "[]"] end_sampling_other [OF ok assms(2-4)]
  show ?thesis
    by (simp add: handle_pthread_exit_def shutdown_def Let_def)
qed

lemma prof_exec_other:
  assumes "prof_inv pr" "prof_exec e pr = Some pr'" "u \<noteq> 0" "event_tid e \<noteq> Some u"
    "event_tid e \<noteq> Some 0"
  shows "get_thread_state u pr' = get_thread_state u pr"
proof -
  have ok: "table_ok pr" using assms(1) by (simp add: prof_inv_def)
  note put = get_put_other [OF ok _ assms(3)]
  show ?thesis
  proof (cases e)
    case (Create parent child fails)
    from assms(2) [unfolded Create] obtain d where c: "child \<noteq> 0" "get_thread_state child pr = None"
      "start_thread (\<lambda>offset. offset \<in> set fails) child d pr = Inr pr'"
      by (rule create_exec)
    obtain pr1 b where a: "add_thread (\<lambda>offset. offset \<in> set fails) child pr = (pr1, b)"
      by (cases "add_thread (\<lambda>offset. offset \<in> set fails) child pr")
    from c(3) a have b: b by (cases b) (simp_all add: start_thread_def)
    have "table_ok pr1"
      using add_thread_inv(1) [OF assms(1) c(1,2)] a b by (simp add: prof_inv_def)
    with c(1,3) a b assms(3,4) get_add_other [OF ok c(1) assms(3) _ c(2) a] Create
    show ?thesis by (auto simp: start_thread_def get_put_other split: option.splits)
  next
    case (Begin_Experiment now r)
    with assms(2) show ?thesis
      by (intro get_thread_state_cong) (auto simp: begin_experiment_def Let_def split: option.splits)
  next
    case End_Experiment
    with assms(2) show ?thesis by (intro get_thread_state_cong) auto
  next
    case (Samples t over recs)
    with assms put process_samples_get show ?thesis
      by (auto simp: samples_ready_def get_put_other ok split: option.split prod.split)
  next
    case (Catch_Up t over)
    with assms put add_delays_get show ?thesis
      by (auto simp: catch_up_def get_put_other ok split: option.split prod.split)
  next
    case (Pre_Block t)
    with assms put show ?thesis by (auto simp: pre_block_def split: option.split)
  next
    case (Post_Block t skip)
    with assms put show ?thesis by (auto simp: post_block_def Let_def split: option.split)
  next
    case (Exit_Thread t over recs)
    with assms exit_other show ?thesis by auto
  qed
qed

lemma prof_run_other:
  "prof_inv pr \<Longrightarrow> prof_run es pr = Some pr' \<Longrightarrow> u \<noteq> 0 \<Longrightarrow>
   \<forall>e\<in>set es. event_tid e \<noteq> Some u \<and> event_tid e \<noteq> Some 0 \<Longrightarrow>
   prof_inv pr' \<and> get_thread_state u pr' = get_thread_state u pr"
proof (induction es arbitrary: pr)
  case (Cons e es)
  from Cons.prems(2) obtain pr1 where e: "prof_exec e pr = Some pr1" "prof_run es pr1 = Some pr'"
    by (auto split: option.splits)
  from Cons.IH [OF prof_exec_inv [OF Cons.prems(1) e(1)] e(2)] Cons.prems
    prof_exec_other [OF Cons.prems(1) e(1)]
  show ?case by auto
qed simp

lemma prof_run_append:
  "prof_run (es @ fs) pr = (case prof_run es pr of None \<Rightarrow> None | Some pr1 \<Rightarrow> prof_run fs pr1)"
  by (induction es arbitrary: pr) (auto split: option.split)

lemma blocked_thread_skips:
  assumes "prof_inv pr" "u \<noteq> 0" "get_thread_state u pr = Some st"
    "prof_run (Pre_Block u # es @ [Post_Block u skip]) pr = Some pr'"
    "\<forall>e\<in>set es. event_tid e \<noteq> Some u \<and> event_tid e \<noteq> Some 0"
  shows "map_option local_delay (get_thread_state u pr') =
    Some (local_delay st + (if skip then global_delay pr' - global_delay pr else 0))"
proof -
  let ?st = "st\<lparr>pre_block_time := global_delay pr\<rparr>"
  have ok: "table_ok pr" using assms(1) by (simp add: prof_inv_def)
  obtain pr1 pr2 where
    r: "prof_exec (Pre_Block u) pr = Some pr1" "prof_run es pr1 = Some pr2"
      "prof_exec (Post_Block u skip) pr2 = Some pr'"
    using assms(4) by (auto simp: prof_run_append split: option.splits)
  have "get_thread_state u pr1 = Some ?st"
    using r(1) assms(3) get_put [OF ok assms(2,2)] by (auto simp: pre_block_def)
  with prof_run_other [OF prof_exec_inv [OF assms(1) r(1)] r(2) assms(2,5)]
  have g: "get_thread_state u pr2 = Some ?st" and ok2: "table_ok pr2"
    by (auto simp: prof_inv_def)
  have "global_delay (put_thread_state u s pr2) = global_delay pr2" for s
    by (simp add: put_thread_state_def split: option.split)
  with r(3) g get_put [OF ok2 assms(2,2)] show ?thesis
    by (auto simp: post_block_def Let_def)
qed

text \<open>
  A thread that blocks, whatever the other threads do meanwhile, and is then woken by another
  thread is excused from exactly the delays the program inserted while it was blocked; one that
  was not woken by a thread still owes all of them. The delay it has done is otherwise unchanged.
\<close>

theorem blocked_thread_skips_delays:
  assumes "prof_inv pr" "u \<noteq> 0" "get_thread_state u pr = Some st"
    "prof_run (Pre_Block u # es @ [Post_Block u skip]) pr = Some pr'"
    "\<forall>e\<in>set es. event_tid e \<noteq> Some u \<and> event_tid e \<noteq> Some 0"
  shows "map_option local_delay (get_thread_state u pr') =
    Some (local_delay st + (if skip then global_delay pr' - global_delay pr else 0))"
  using assms by (rule blocked_thread_skips)

theorem blocked_thread_skips_delays_witness:
  "\<exists>pr'. prof_run [Create 9 5 [], Pre_Block 5, Samples 9 0 (sample_records @ sample_records),
             Post_Block 5 True] sample_profiler = Some pr' \<and>
     global_delay pr' = 600 \<and> map_option local_delay (get_thread_state 5 pr') = Some 400"
proof -
  obtain pr where c: "prof_run [Create 9 5 []] sample_profiler = Some pr"
    "get_thread_state 5 pr =
       Some \<lparr>in_use = False, local_delay = 100, sampler_running = True, pre_block_time = 0\<rparr>"
    "global_delay pr = 300"
  proof -
    have "map_option (\<lambda>pr. (get_thread_state 5 pr, global_delay pr))
        (prof_run [Create 9 5 []] sample_profiler) =
      Some (Some \<lparr>in_use = False, local_delay = 100, sampler_running = True, pre_block_time = 0\<rparr>, 300)"
      by code_simp
    then show thesis using that by auto
  qed
  let ?es = "[Samples 9 0 (sample_records @ sample_records)]"
  have "map_option global_delay (prof_run ([Create 9 5 []] @ Pre_Block 5 # ?es @ [Post_Block 5 True])
      sample_profiler) = Some 600" by code_simp
  then obtain pr' where r: "prof_run (Pre_Block 5 # ?es @ [Post_Block 5 True]) pr = Some pr'"
    "global_delay pr' = 600"
    unfolding prof_run_append c(1) by auto
  have inv: "prof_inv pr"
    using c(1) prof_exec_inv [OF sample_profiler_inv] by (auto split: option.splits simp del: prof_exec.simps)
  have "prof_run ([Create 9 5 []] @ Pre_Block 5 # ?es @ [Post_Block 5 True]) sample_profiler = Some pr'"
    unfolding prof_run_append c(1) using r(1) by simp
  with blocked_thread_skips_delays [OF inv _ c(2) r(1)] r(2) c(3) show ?thesis by simp
qed

section \<open>Choosing a speedup\<close>

lemma choose_delay_random_unat:
  assumes "fixed_delay_size pr < 0" "r \<le> ZeroSpeedupWeight + SpeedupDivisions"
  shows "unat (choose_delay_size pr r) = (r - ZeroSpeedupWeight) * 50000"
proof (cases "r \<le> ZeroSpeedupWeight")
  case True
  with assms(1) show ?thesis by (simp add: choose_delay_size_def)
next
  case False
  define q where "q = r - ZeroSpeedupWeight"
  have r: "r = ZeroSpeedupWeight + q" and q: "q \<le> 20"
    using False assms(2) by (simp_all add: q_def profiler_constants)
  have "choose_delay_size pr r = of_nat q * of_nat SamplePeriod div of_nat SpeedupDivisions"
    using assms(1) False by (simp add: choose_delay_size_def r)
  also have "\<dots> = of_nat (q * 1000000) div 20" by (simp add: profiler_constants)
  finally have "unat (choose_delay_size pr r) = unat (of_nat (q * 1000000) :: u64) div 20"
    by (simp only: unat_div) simp
  also have "unat (of_nat (q * 1000000) :: u64) = q * 1000000"
    using q by (simp only: unat_of_nat) simp
  finally show ?thesis by (simp add: q_def)
qed

lemma startup_fixed_delay:
  assumes "0 \<le> speedup" "speedup \<le> 100"
  shows "uint (choose_delay_size (startup_options fixed speedup e2e pr) r) = speedup * 10000"
proof -
  have "c_div (int SamplePeriod * speedup) 100 = speedup * 10000"
    using assms(1) by (simp add: c_div_nonneg profiler_constants)
  then have "choose_delay_size (startup_options fixed speedup e2e pr) r = word_of_int (speedup * 10000)"
    using assms by (simp add: choose_delay_size_def startup_options_def Let_def del: of_int_mult)
  moreover have "speedup * 10000 mod 2 ^ 64 = speedup * 10000"
    using assms by (intro mod_pos_pos_trivial) simp_all
  ultimately show ?thesis by (simp only: uint_word_of_int) simp
qed

text \<open>
  Without a fixed speedup, the draw \<open>r\<close> gives the speedup of \<open>5 * (r - 7)\<close> percent of the
  sample period, so every delay is at most one period and 8 of the 28 draws give none; a fixed
  speedup of \<open>n\<close> percent always gives \<open>n\<close> percent of the period.
\<close>

theorem delay_size_choice:
  "(fixed_delay_size pr < 0 \<longrightarrow>
      (\<forall>r\<le>ZeroSpeedupWeight + SpeedupDivisions.
         100 * unat (choose_delay_size pr r) = 5 * (r - ZeroSpeedupWeight) * SamplePeriod) \<and>
      card {r. r \<le> ZeroSpeedupWeight + SpeedupDivisions \<and> choose_delay_size pr r = 0} = 8) \<and>
   (0 \<le> n \<and> n \<le> 100 \<longrightarrow>
      100 * uint (choose_delay_size (startup_options fixed n e2e pr) r) = n * int SamplePeriod)"
proof -
  have "card {r. r \<le> ZeroSpeedupWeight + SpeedupDivisions \<and> choose_delay_size pr r = 0} = 8"
    if "fixed_delay_size pr < 0"
  proof -
    have "choose_delay_size pr r = 0 \<longleftrightarrow> r \<le> 7" if "r \<le> ZeroSpeedupWeight + SpeedupDivisions" for r
      using choose_delay_random_unat [OF \<open>fixed_delay_size pr < 0\<close> that]
      by (simp add: unat_eq_0 profiler_constants flip: unat_eq_0)
    then have "{r. r \<le> ZeroSpeedupWeight + SpeedupDivisions \<and> choose_delay_size pr r = 0} = {..7}"
      by (auto simp: profiler_constants)
    then show ?thesis by simp
  qed
  then show ?thesis
    using choose_delay_random_unat startup_fixed_delay by (simp add: profiler_constants)
qed

theorem delay_size_choice_witness:
  "100 * unat (choose_delay_size sample_profiler 27) = 5 * (27 - ZeroSpeedupWeight) * SamplePeriod \<and>
   100 * uint (choose_delay_size (startup_options None 35 False sample_profiler) 0) = 35 * int SamplePeriod"
  using delay_size_choice [of sample_profiler 35 None False 0]
  by (simp add: sample_profiler_def profiler_constants)

section \<open>The experiment loop over its rounds\<close>

text \<open>The ends of successive experiments: the times, the profiler and the experiment at each.\<close>

type_synonym round = "u64 \<times> u64 \<times> profiler \<times> running_experiment"

definition end_round :: "round \<Rightarrow> loop_state \<Rightarrow> loop_state" where
  "end_round rd ls = (case rd of (now, log_time, pr, ex) \<Rightarrow> fst (snd (end_experiment now log_time pr ex ls)))"

definition round_log :: "round \<Rightarrow> loop_state \<Rightarrow> log_line list" where
  "round_log rd ls = (case rd of (now, log_time, pr, ex) \<Rightarrow> snd (snd (end_experiment now log_time pr ex ls)))"

definition loop_after :: "u64 \<Rightarrow> round list \<Rightarrow> loop_state" where
  "loop_after now rds = fold end_round rds (fst (start_loop now))"

lemma adapt_length_step:
  assumes "unat len = ExperimentMinTime * 2 ^ k" "k < 35"
  shows "\<exists>k'. (k' = k \<or> k' = Suc k \<or> Suc k' = k) \<and> unat (adapt_length d len) = ExperimentMinTime * 2 ^ k'"
proof -
  have "(2::nat) ^ k \<le> 2 ^ 34" using assms(2) by (intro power_increasing) simp_all
  then have "unat (len * 2) = unat len * 2"
    using assms(1) by (simp add: unat_word_ariths ExperimentMinTime_def SamplePeriod_def SampleBatchSize_def)
  then have dbl: "unat (len * 2) = ExperimentMinTime * 2 ^ Suc k" using assms(1) by simp
  have half: "\<exists>k'. Suc k' = k \<and> unat (len div 2) = ExperimentMinTime * 2 ^ k'"
    if "of_nat ExperimentMinTime * 2 \<le> len"
  proof -
    have "unat (of_nat ExperimentMinTime * 2 :: u64) = ExperimentMinTime * 2"
      by (simp add: ExperimentMinTime_def SamplePeriod_def SampleBatchSize_def)
    then have "ExperimentMinTime * 2 \<le> unat len" using that by (simp only: word_le_nat_alt)
    then have "k \<noteq> 0" using assms(1)
      by (cases k) (simp_all add: ExperimentMinTime_def SamplePeriod_def SampleBatchSize_def)
    then obtain k' where k': "k = Suc k'" by (cases k) auto
    have "unat (len div 2) = unat len div 2" by (simp add: unat_div)
    also have "\<dots> = ExperimentMinTime * 2 ^ k'" unfolding assms(1) k' by simp
    finally show ?thesis using k' by blast
  qed
  consider "adapt_length d len = len * 2"
    | "adapt_length d len = len div 2" "of_nat ExperimentMinTime * 2 \<le> len"
    | "adapt_length d len = len"
    unfolding adapt_length_def by metis
  then show ?thesis
  proof cases
    case 1
    show ?thesis unfolding 1 using dbl by blast
  next
    case 2
    show ?thesis unfolding 2(1) using half [OF 2(2)] by blast
  next
    case 3
    show ?thesis unfolding 3 using assms(1) by blast
  qed
qed

lemma end_round_length:
  "\<exists>d. experiment_length (end_round rd ls) = adapt_length d (experiment_length ls)"
proof -
  obtain now lt pr ex where rd: "rd = (now, lt, pr, ex)" by (cases rd)
  show ?thesis
    by (intro exI [of _ "min_delta_of pr ex"]) (simp add: rd end_round_def end_experiment_def Let_def)
qed

lemma loop_after_length:
  "length rds \<le> 35 \<Longrightarrow>
   \<exists>k\<le>length rds. unat (experiment_length (loop_after now rds)) = ExperimentMinTime * 2 ^ k"
proof (induction rds rule: rev_induct)
  case Nil
  then show ?case by (simp add: loop_after_def start_loop_def profiler_constants)
next
  case (snoc rd rds)
  then obtain k where k: "k \<le> length rds"
    "unat (experiment_length (loop_after now rds)) = ExperimentMinTime * 2 ^ k" by auto
  obtain d where d: "experiment_length (loop_after now (rds @ [rd])) =
      adapt_length d (experiment_length (loop_after now rds))"
    using end_round_length [of rd "loop_after now rds"] by (auto simp: loop_after_def)
  have "k < 35" using k(1) snoc.prems by simp
  from adapt_length_step [OF k(2) this, of d] obtain k'
    where k': "k' = k \<or> k' = Suc k \<or> Suc k' = k"
      "unat (adapt_length d (experiment_length (loop_after now rds))) = ExperimentMinTime * 2 ^ k'" by blast
  with k(1) d show ?case by (intro exI [of _ k']) auto
qed


definition sample_experiment :: running_experiment where
  "sample_experiment =
     \<lparr>ex_selected = (''a.c'', 7), ex_delay_size = 250, ex_start_time = 5000, ex_starting_samples = 0,
      ex_starting_delay_time = 0, ex_throughput = [(''req'', \<lparr>ts_start_count = 0\<rparr>)], ex_latency = []\<rparr>"

definition sample_round :: round where
  "sample_round = (9000, 9001, sample_profiler, sample_experiment)"


text \<open>The log interval stays 32, since it is doubled only while it is below 20.\<close>

lemma end_round_log:
  "sample_log_interval ls = 32 \<Longrightarrow>
   sample_log_interval (end_round rd ls) = 32 \<and>
   sample_log_countdown (end_round rd ls) =
     (if sample_log_countdown ls = 1 then 32 else sample_log_countdown ls - 1)"
  by (cases rd) (simp add: end_round_def end_experiment_def Let_def)

lemma loop_after_log:
  "sample_log_interval (loop_after now rds) = 32 \<and>
   sample_log_countdown (loop_after now rds) = of_nat (32 - length rds mod 32)"
proof (induction rds rule: rev_induct)
  case Nil
  then show ?case by (simp add: loop_after_def start_loop_def)
next
  case (snoc rd rds)
  define k where "k = length rds mod 32"
  have k: "k < 32" by (simp add: k_def)
  have "Suc (length rds) mod 32 = (if k = 31 then 0 else Suc k)"
    by (simp add: k_def mod_Suc)
  moreover have "(of_nat (32 - k) :: u64) = 1 \<longleftrightarrow> 32 - k = 1"
  proof
    assume "(of_nat (32 - k) :: u64) = 1"
    then have "unat (of_nat (32 - k) :: u64) = 1" by simp
    moreover have "(32 - k) mod 2 ^ 64 = 32 - k" using k by (intro mod_less) simp
    ultimately show "32 - k = 1" by (simp only: unat_of_nat len_num1 len_bit0) simp
  qed simp
  moreover have "(of_nat (32 - k) :: u64) - 1 = of_nat (32 - Suc k)" if "k < 31"
    using that by (simp add: of_nat_diff)
  ultimately show ?case
    using end_round_log [of "loop_after now rds" rd] snoc.IH k
    by (auto simp: loop_after_def k_def)
qed

text \<open>
  Sample counts are logged after every 32nd experiment, always 32 and never a doubled number,
  and the run time logged with them is the time since that experiment began, not since the
  profiler started, which is what the log at the end of the run reports.
\<close>

theorem periodic_sample_log:
  "(Log_Runtime t \<in> set (round_log (now, log_time, pr, ex) (loop_after start rds)) \<longleftrightarrow>
      Suc (length rds) mod 32 = 0 \<and> t = log_time - ex_start_time ex) \<and>
   hd (finish_loop end_time pr (loop_after start rds)) =
      Log_Runtime (end_time - profiler_start_time (loop_after start rds)) \<and>
   profiler_start_time (loop_after start rds) = start"
proof -
  have start: "profiler_start_time (loop_after start rds) = start"
  proof (induction rds rule: rev_induct)
    case (snoc rd rds)
    then show ?case
      by (cases rd) (simp add: loop_after_def end_round_def end_experiment_def Let_def)
  qed (simp add: loop_after_def start_loop_def)
  have count: "sample_log_countdown (loop_after start rds) - 1 = 0 \<longleftrightarrow> Suc (length rds) mod 32 = 0"
  proof -
    define k where "k = length rds mod 32"
    have k: "k < 32" by (simp add: k_def)
    have "unat (of_nat (32 - k) :: u64) = 32 - k"
      using k by (simp only: unat_of_nat) simp
    then have "(of_nat (32 - k) :: u64) = 1 \<longleftrightarrow> 32 - k = 1" by (metis of_nat_1 unat_1)
    then show ?thesis using loop_after_log [of start rds] k by (auto simp: k_def mod_Suc)
  qed
  have none: "Log_Runtime t \<notin> set (map (\<lambda>(nm, d). Log_Throughput nm d) xs)"
    "Log_Runtime t \<notin> set (map (\<lambda>(nm, b, e, d). Log_Latency nm b e d) ys)" for xs ys
    by auto
  have "Log_Runtime t \<notin> set (List.map_filter
      (\<lambda>l. if 0 < line_samples p l then Some (Log_Samples l (line_samples p l)) else None) ls)"
    for p :: profiler and ls
    by (auto simp: List.map_filter_def split: if_splits)
  then have samples: "Log_Runtime t \<in> set (log_samples log_time s p) \<longleftrightarrow> t = log_time - s" for s p
    by (simp add: log_samples_def)
  show ?thesis
    using start count none samples
    by (simp add: round_log_def end_experiment_def Let_def) (simp add: finish_loop_def log_samples_def)
qed

section \<open>Two behaviours that over-count and lose samples\<close>

text \<open>
  Two threads that are both ahead and act on the same snapshot of the global delay both add
  their own excess: the global delay becomes the sum of the excesses above the snapshot, more
  than either thread is ahead, so the program pauses longer than any thread asked for.
\<close>

theorem concurrent_add_delays_overcount:
  assumes "g < local_delay st1" "g < local_delay st2" "global_delay pr = g"
    "unat (local_delay st1) + unat (local_delay st2) < 2 ^ 64"
  shows "let pr1 = fst (add_delays_at slept g pr st1); pr2 = fst (add_delays_at slept g pr1 st2)
    in unat (global_delay pr2) = unat (local_delay st1) + unat (local_delay st2) - unat g \<and>
       local_delay st1 < global_delay pr2 \<and> local_delay st2 < global_delay pr2"
proof -
  let ?pr2 = "fst (add_delays_at slept g (fst (add_delays_at slept g pr st1)) st2)"
  have less: "unat g < unat (local_delay st1)" "unat g < unat (local_delay st2)"
    using assms(1,2) by (simp_all add: word_less_nat_alt)
  have "global_delay ?pr2 = local_delay st1 + local_delay st2 - g"
    using assms(1-3) by (simp add: add_delays_at_def)
  moreover have "unat (local_delay st1 + local_delay st2) = unat (local_delay st1) + unat (local_delay st2)"
    using assms(4) by (simp add: unat_word_ariths)
  moreover from this less have "g \<le> local_delay st1 + local_delay st2"
    by (simp add: word_le_nat_alt)
  ultimately have "unat (global_delay ?pr2) = unat (local_delay st1) + unat (local_delay st2) - unat g"
    by (simp add: unat_sub)
  with less show ?thesis unfolding Let_def word_less_nat_alt by arith
qed

theorem concurrent_add_delays_overcount_witness:
  "let st1 = new_thread_state\<lparr>local_delay := 400\<rparr>; st2 = new_thread_state\<lparr>local_delay := 450\<rparr>;
       pr1 = fst (add_delays_at id 300 sample_profiler st1)
   in unat (global_delay (fst (add_delays_at id 300 pr1 st2))) = 550"
  using concurrent_add_delays_overcount [of 300 "new_thread_state\<lparr>local_delay := 400\<rparr>"
      "new_thread_state\<lparr>local_delay := 450\<rparr>" sample_profiler id]
  by (simp add: sample_profiler_def Let_def)

text \<open>
  \<^verbatim>\<open>end_sampling\<close> leaves \<open>in_use\<close> set in the entry it frees, and the next thread that is
  given the entry starts with it set: its sample signals do nothing until it blocks once.
\<close>

lemma reused_entry_ignores_samples:
  "\<exists>pr. prof_run [Create 9 5 [], Exit_Thread 5 0 [], Create 9 13 []] sample_profiler = Some pr \<and>
     map_option in_use (get_thread_state 13 pr) = Some True \<and>
     samples_ready slept 13 recs pr = pr"
proof -
  have "map_option (\<lambda>pr. map_option in_use (get_thread_state 13 pr))
      (prof_run [Create 9 5 [], Exit_Thread 5 0 [], Create 9 13 []] sample_profiler)
    = Some (Some True)" by code_simp
  then obtain pr where "prof_run [Create 9 5 [], Exit_Thread 5 0 [], Create 9 13 []] sample_profiler = Some pr"
    "map_option in_use (get_thread_state 13 pr) = Some True" by auto
  then show ?thesis by (auto simp: samples_ready_def)
qed

end
