(* ===== verification/Lua_Values.thy ===== *)
theory Lua_Values
  imports C_Text
begin

text \<open>
  The part of the Lua C API and of the C library that the Thrift bindings under
  \<^verbatim>\<open>lua-thrift/src\<close> use. Lua is third-party code: its numbers are a type parameter and the
  conversions the bindings rely on are the fields of \<open>lua_api\<close>. The machine is little-endian.
\<close>

section \<open>Values, errors and the API\<close>

text \<open>\<open>L_Long\<close> is a userdata whose metatable is the one of long numbers.\<close>

datatype 'n lua_value =
    L_Nil
  | L_Boolean bool
  | L_Number 'n
  | L_String string
  | L_Long i64
  | L_Other

text \<open>A raised Lua error (a bad argument and its number), or a fault of the C code.\<close>

datatype lua_error = Arg_Error nat | C_Fault c_fault

text \<open>
  \<open>num_trunc\<close> is a number's integer part, \<open>None\<close> when it is not finite; \<open>num_of_int\<close> the number
  nearest an integer; \<open>num_bytes\<close> and \<open>bytes_num\<close> its 8 bytes in memory; \<open>str_num\<close> the
  number a string denotes; \<open>num_str\<close> the string of a number; \<open>pow_trunc\<close> the integer part of
  \<^verbatim>\<open>pow\<close> of two integers.
\<close>

record 'n lua_api =
  num_trunc :: "'n \<Rightarrow> int option"
  num_of_int :: "int \<Rightarrow> 'n"
  num_bytes :: "'n \<Rightarrow> u8 list"
  bytes_num :: "u8 list \<Rightarrow> 'n"
  str_num :: "string \<Rightarrow> 'n option"
  num_str :: "'n \<Rightarrow> string"
  pow_trunc :: "int \<Rightarrow> int \<Rightarrow> int option"

text \<open>
  What the properties rely on: integers up to \<open>2 ^ 53\<close> are numbers exactly, and the bytes of a
  number are 8 and read back as it.
\<close>

definition lua_api_ok :: "'n lua_api \<Rightarrow> bool" where
  "lua_api_ok api \<longleftrightarrow>
     (\<forall>z. \<bar>z\<bar> \<le> 2 ^ 53 \<longrightarrow> num_trunc api (num_of_int api z) = Some z) \<and>
     (\<forall>x. length (num_bytes api x) = 8 \<and> bytes_num api (num_bytes api x) = x)"

type_synonym 'n lua_args = "'n lua_value list"
type_synonym 'n lua_result = "lua_error + 'n lua_value list"

definition arg :: "'n lua_args \<Rightarrow> nat \<Rightarrow> 'n lua_value" where
  "arg args i = (if 0 < i \<and> i \<le> length args then args ! (i - 1) else L_Nil)"

text \<open>A fault of the C code inside a binding.\<close>

fun c_fault_of :: "c_fault + 'a \<Rightarrow> lua_error + 'a" where
  "c_fault_of (Inl e) = Inl (C_Fault e)"
| "c_fault_of (Inr x) = Inr x"

definition check_number :: "'n lua_api \<Rightarrow> 'n lua_args \<Rightarrow> nat \<Rightarrow> lua_error + 'n" where
  "check_number api args i =
     (case arg args i of
        L_Number x \<Rightarrow> Inr x
      | L_String s \<Rightarrow> (case str_num api s of Some x \<Rightarrow> Inr x | None \<Rightarrow> Inl (Arg_Error i))
      | _ \<Rightarrow> Inl (Arg_Error i))"

text \<open>
  C's conversion of a floating number to a signed integer type: undefined when the integer part
  is out of range. \<^verbatim>\<open>luaL_checkinteger\<close> converts to the 64-bit \<^verbatim>\<open>lua_Integer\<close>.
\<close>

definition num_to_signed :: "'n lua_api \<Rightarrow> 'n \<Rightarrow> lua_error + 'a::len word" where
  "num_to_signed api x =
     (case num_trunc api x of
        None \<Rightarrow> Inl (C_Fault Signed_Overflow)
      | Some z \<Rightarrow> c_fault_of (s_result z))"

definition num_to_unsigned :: "'n lua_api \<Rightarrow> 'n \<Rightarrow> lua_error + 'a::len word" where
  "num_to_unsigned api x =
     (case num_trunc api x of
        None \<Rightarrow> Inl (C_Fault Signed_Overflow)
      | Some z \<Rightarrow> if 0 \<le> z \<and> z < 2 ^ LENGTH('a) then Inr (word_of_int z)
                  else Inl (C_Fault Signed_Overflow))"

definition check_integer :: "'n lua_api \<Rightarrow> 'n lua_args \<Rightarrow> nat \<Rightarrow> lua_error + i64" where
  "check_integer api args i = ebind (check_number api args i) (num_to_signed api)"

definition check_string :: "'n lua_api \<Rightarrow> 'n lua_args \<Rightarrow> nat \<Rightarrow> lua_error + string" where
  "check_string api args i =
     (case arg args i of
        L_String s \<Rightarrow> Inr s
      | L_Number x \<Rightarrow> Inr (num_str api x)
      | _ \<Rightarrow> Inl (Arg_Error i))"

definition push_int :: "'n lua_api \<Rightarrow> 'a::len word \<Rightarrow> 'n lua_value" where
  "push_int api w = L_Number (num_of_int api (sint w))"

definition push_uint :: "'n lua_api \<Rightarrow> 'a::len word \<Rightarrow> 'n lua_value" where
  "push_uint api w = L_Number (num_of_int api (uint w))"

end
