(* ===== verification/Lua_Long.thy ===== *)
theory Lua_Long
  imports Lua_Values
begin

text \<open>
  The 64-bit integers of the Lua Thrift bindings: \<^verbatim>\<open>longnumberutils.c\<close> (taking a long from a
  Lua value, pushing one), \<^verbatim>\<open>lualongnumber.c\<close> (the arithmetic, comparison and text
  metamethods, the constructor and the method table) and \<^verbatim>\<open>luabitwise.c\<close> (bit operations on
  32-bit integers). Signed overflow, division by zero and shifts out of range are faults; a left
  shift of a negative number shifts its bits, as the compilers do.
\<close>

section \<open>Taking and pushing longs\<close>

definition checklong :: "'n lua_api \<Rightarrow> 'n lua_args \<Rightarrow> nat \<Rightarrow> lua_error + i64" where
  "checklong api args i =
     (case arg args i of
        L_Number x \<Rightarrow> num_to_signed api x
      | L_String s \<Rightarrow> Inr (atoll s)
      | L_Long w \<Rightarrow> Inr w
      | _ \<Rightarrow> Inl (Arg_Error i))"

text \<open>\<open>junk\<close> is what the fresh userdata holds: it stays there when no value is given.\<close>

definition pushlong :: "i64 \<Rightarrow> i64 option \<Rightarrow> 'n lua_value" where
  "pushlong junk val = L_Long (case val of None \<Rightarrow> junk | Some v \<Rightarrow> v)"

section \<open>Text\<close>

definition l_serialize :: "nat \<Rightarrow> i64 \<Rightarrow> string" where
  "l_serialize len val = snprintf_i64 len val"

definition l_deserialize :: "string \<Rightarrow> i64" where
  "l_deserialize buf =
     (case (if take 2 buf = ''0x'' then scan_x64 buf else scan_i64 buf) of
        Some data \<Rightarrow> data
      | None \<Rightarrow> 0)"

definition l_new :: "i64 \<Rightarrow> 'n lua_api \<Rightarrow> 'n lua_args \<Rightarrow> 'n lua_result" where
  "l_new junk api args =
     (case arg args 1 of
        L_String s \<Rightarrow> Inr [pushlong junk (Some (l_deserialize s))]
      | L_Number x \<Rightarrow> ebind (num_to_signed api x) (\<lambda>val. Inr [pushlong junk (Some val)])
      | _ \<Rightarrow> Inr [pushlong junk None])"

section \<open>Arithmetic and comparison\<close>

definition long2 ::
  "(i64 \<Rightarrow> i64 \<Rightarrow> c_fault + 'n lua_value) \<Rightarrow> 'n lua_api \<Rightarrow> 'n lua_args \<Rightarrow> 'n lua_result" where
  "long2 f api args =
     ebind (checklong api args 1) (\<lambda>a.
     ebind (checklong api args 2) (\<lambda>b.
     ebind (c_fault_of (f a b)) (\<lambda>v. Inr [v])))"

definition long_value :: "c_fault + i64 \<Rightarrow> c_fault + 'n lua_value" where
  "long_value r = ebind r (\<lambda>c. Inr (pushlong 0 (Some c)))"

definition l_add :: "'n lua_api \<Rightarrow> 'n lua_args \<Rightarrow> 'n lua_result" where
  "l_add = long2 (\<lambda>a b. long_value (s_result (sint a + sint b)))"

definition l_sub :: "'n lua_api \<Rightarrow> 'n lua_args \<Rightarrow> 'n lua_result" where
  "l_sub = long2 (\<lambda>a b. long_value (s_result (sint a - sint b)))"

definition l_mul :: "'n lua_api \<Rightarrow> 'n lua_args \<Rightarrow> 'n lua_result" where
  "l_mul = long2 (\<lambda>a b. long_value (s_result (sint a * sint b)))"

text \<open>The remainder overflows when the quotient does.\<close>

definition s_div :: "i64 \<Rightarrow> i64 \<Rightarrow> c_fault + i64" where
  "s_div a b = (if b = 0 then Inl Division_By_Zero else s_result (c_div (sint a) (sint b)))"

definition s_mod :: "i64 \<Rightarrow> i64 \<Rightarrow> c_fault + i64" where
  "s_mod a b = ebind (s_div a b) (\<lambda>_. s_result (c_mod (sint a) (sint b)))"

definition l_div :: "'n lua_api \<Rightarrow> 'n lua_args \<Rightarrow> 'n lua_result" where
  "l_div = long2 (\<lambda>a b. long_value (s_div a b))"

definition l_mod :: "'n lua_api \<Rightarrow> 'n lua_args \<Rightarrow> 'n lua_result" where
  "l_mod = long2 (\<lambda>a b. long_value (s_mod a b))"

definition l_pow :: "'n lua_api \<Rightarrow> 'n lua_args \<Rightarrow> 'n lua_result" where
  "l_pow api args =
     long2 (\<lambda>a b. case pow_trunc api (sint a) (sint b) of
                    None \<Rightarrow> Inl Signed_Overflow
                  | Some z \<Rightarrow> long_value (s_result z)) api args"

definition l_eq :: "'n lua_api \<Rightarrow> 'n lua_args \<Rightarrow> 'n lua_result" where
  "l_eq = long2 (\<lambda>a b. Inr (L_Boolean (a = b)))"

definition l_lt :: "'n lua_api \<Rightarrow> 'n lua_args \<Rightarrow> 'n lua_result" where
  "l_lt = long2 (\<lambda>a b. Inr (L_Boolean (sint a < sint b)))"

definition l_le :: "'n lua_api \<Rightarrow> 'n lua_args \<Rightarrow> 'n lua_result" where
  "l_le = long2 (\<lambda>a b. Inr (L_Boolean (sint a \<le> sint b)))"

definition l_unm :: "'n lua_api \<Rightarrow> 'n lua_args \<Rightarrow> 'n lua_result" where
  "l_unm api args =
     ebind (checklong api args 1) (\<lambda>a.
     ebind (c_fault_of (long_value (s_result (- sint a)))) (\<lambda>v. Inr [v]))"

definition l_tostring :: "'n lua_api \<Rightarrow> 'n lua_args \<Rightarrow> 'n lua_result" where
  "l_tostring api args = ebind (checklong api args 1) (\<lambda>a. Inr [L_String (l_serialize 256 a)])"

text \<open>The collector takes the metatable off: the value is no long any more. No result.\<close>

definition l_gc :: "'n lua_args \<Rightarrow> 'n lua_args \<times> 'n lua_result" where
  "l_gc args =
     ((case args of L_Long w # rest \<Rightarrow> L_Other # rest | _ \<Rightarrow> args), Inr [])"

section \<open>The method table\<close>

datatype long_op = Op_Add | Op_Div | Op_Eq | Op_Gc | Op_Lt | Op_Le | Op_Mod | Op_Mul | Op_Pow
  | Op_Sub | Op_Tostring | Op_Unm

definition long_methods :: "(string \<times> long_op) list" where
  "long_methods =
     [(''__add'', Op_Add), (''__div'', Op_Div), (''__eq'', Op_Eq), (''__gc'', Op_Gc),
      (''__lt'', Op_Lt), (''__le'', Op_Le), (''__mod'', Op_Mod), (''__mul'', Op_Mul),
      (''__pow'', Op_Pow), (''__sub'', Op_Sub), (''__tostring'', Op_Tostring), (''__unm'', Op_Unm)]"

primrec set_methods ::
  "(string \<times> long_op) list \<Rightarrow> (string \<Rightarrow> long_op option) \<Rightarrow> string \<Rightarrow> long_op option" where
  "set_methods [] mt = mt"
| "set_methods (m # ms) mt = set_methods ms (mt(fst m \<mapsto> snd m))"

definition luaopen_liblualongnumber :: "string \<Rightarrow> long_op option" where
  "luaopen_liblualongnumber = set_methods long_methods (\<lambda>_. None)"

definition run_long_op :: "long_op \<Rightarrow> 'n lua_api \<Rightarrow> 'n lua_args \<Rightarrow> 'n lua_result" where
  "run_long_op op =
     (case op of Op_Add \<Rightarrow> l_add | Op_Div \<Rightarrow> l_div | Op_Eq \<Rightarrow> l_eq | Op_Gc \<Rightarrow> (\<lambda>api args. snd (l_gc args))
      | Op_Lt \<Rightarrow> l_lt | Op_Le \<Rightarrow> l_le | Op_Mod \<Rightarrow> l_mod | Op_Mul \<Rightarrow> l_mul | Op_Pow \<Rightarrow> l_pow
      | Op_Sub \<Rightarrow> l_sub | Op_Tostring \<Rightarrow> l_tostring | Op_Unm \<Rightarrow> l_unm)"

section \<open>Bit operations on 32-bit integers\<close>

definition check_int :: "'n lua_api \<Rightarrow> 'n lua_args \<Rightarrow> nat \<Rightarrow> lua_error + i32" where
  "check_int api args i = ebind (check_integer api args i) (\<lambda>w. Inr (ucast w))"

definition int2 :: "(i32 \<Rightarrow> i32 \<Rightarrow> c_fault + i32) \<Rightarrow> 'n lua_api \<Rightarrow> 'n lua_args \<Rightarrow> 'n lua_result" where
  "int2 f api args =
     ebind (check_int api args 1) (\<lambda>a.
     ebind (check_int api args 2) (\<lambda>b.
     ebind (c_fault_of (f a b)) (\<lambda>r. Inr [push_int api r])))"

definition l_not :: "'n lua_api \<Rightarrow> 'n lua_args \<Rightarrow> 'n lua_result" where
  "l_not api args = ebind (check_int api args 1) (\<lambda>a. Inr [push_int api (NOT a)])"

definition l_xor :: "'n lua_api \<Rightarrow> 'n lua_args \<Rightarrow> 'n lua_result" where
  "l_xor = int2 (\<lambda>a b. Inr (a XOR b))"

definition l_and :: "'n lua_api \<Rightarrow> 'n lua_args \<Rightarrow> 'n lua_result" where
  "l_and = int2 (\<lambda>a b. Inr (a AND b))"

definition l_or :: "'n lua_api \<Rightarrow> 'n lua_args \<Rightarrow> 'n lua_result" where
  "l_or = int2 (\<lambda>a b. Inr (a OR b))"

definition shift_right :: "i32 \<Rightarrow> i32 \<Rightarrow> c_fault + i32" where
  "shift_right a b =
     (if sint b < 0 \<or> 32 \<le> sint b then Inl Shift_Out_Of_Range
      else Inr (signed_drop_bit (unat b) a))"

definition shift_left :: "i32 \<Rightarrow> i32 \<Rightarrow> c_fault + i32" where
  "shift_left a b =
     (if sint b < 0 \<or> 32 \<le> sint b then Inl Shift_Out_Of_Range else Inr (push_bit (unat b) a))"

definition l_shiftr :: "'n lua_api \<Rightarrow> 'n lua_args \<Rightarrow> 'n lua_result" where
  "l_shiftr = int2 shift_right"

definition l_shiftl :: "'n lua_api \<Rightarrow> 'n lua_args \<Rightarrow> 'n lua_result" where
  "l_shiftl = int2 shift_left"

datatype bit_op = Bit_And | Bit_Or | Bit_Xor | Bit_Not | Bit_Shl | Bit_Shr

definition luaopen_libluabitwise :: "string \<Rightarrow> bit_op option" where
  "luaopen_libluabitwise =
     map_of [(''band'', Bit_And), (''bor'', Bit_Or), (''bxor'', Bit_Xor), (''bnot'', Bit_Not),
             (''shiftl'', Bit_Shl), (''shiftr'', Bit_Shr)]"

definition run_bit_op :: "bit_op \<Rightarrow> 'n lua_api \<Rightarrow> 'n lua_args \<Rightarrow> 'n lua_result" where
  "run_bit_op op =
     (case op of Bit_And \<Rightarrow> l_and | Bit_Or \<Rightarrow> l_or | Bit_Xor \<Rightarrow> l_xor | Bit_Not \<Rightarrow> l_not
      | Bit_Shl \<Rightarrow> l_shiftl | Bit_Shr \<Rightarrow> l_shiftr)"

section \<open>Text round trip\<close>

lemma print_int_no_hex: "take 2 (print_int z) \<noteq> ''0x''"
proof
  assume a: "take 2 (print_int z) = ''0x''"
  show False
  proof (cases "z < 0")
    case True
    with a show False by (simp add: print_int_def numeral_2_eq_2)
  next
    case False
    obtain c s where p: "print_nat (nat z) = c # s"
      using print_nat_ne [of "nat z"] by (cases "print_nat (nat z)") blast+
    with a False have "take 1 s = ''x''" by (simp add: print_int_def numeral_2_eq_2)
    then have "CHR ''x'' \<in> set s" by (cases s) auto
    with print_nat_digits [of "nat z"] p have "digit_val (CHR ''x'') < 10" by auto
    then show False by (simp add: digit_val_def)
  qed
qed

text \<open>
  A long number written as text by \<^verbatim>\<open>__tostring\<close> and read back by \<^verbatim>\<open>new\<close> is the same
  number, for all \<open>2 ^ 64\<close> values; the text fits its buffer of 256 characters whole.
\<close>

theorem long_text_roundtrip:
  "\<exists>s. l_tostring api [L_Long w] = Inr [L_String s] \<and> length s < 256 \<and>
     s = print_int (sint w) \<and> l_new junk api [L_String s] = Inr [L_Long w]"
proof -
  have "snprintf_i64 256 w = print_int (sint w)"
    using print_int_length [of w] by (simp add: snprintf_i64_def)
  then show ?thesis
    using print_int_length [of w] print_int_no_hex [of "sint w"] scan_print_int [of w]
    by (simp add: l_tostring_def l_serialize_def checklong_def arg_def l_new_def l_deserialize_def
        pushlong_def)
qed

section \<open>Division\<close>

lemma c_div_unit: "c_div a 1 = a" "c_div a (- 1) = - a"
  by (simp_all add: c_div_def signed_divide_int_def sgn_if)

lemma s_div_overflow:
  fixes a b :: i64
  assumes "b \<noteq> 0"
  shows "fits_signed 64 (c_div (sint a) (sint b)) \<longleftrightarrow> \<not> (sint a = - (2 ^ 63) \<and> sint b = - 1)"
proof -
  have b: "sint b \<noteq> 0" using assms by (simp add: signed_eq_0_iff)
  have a: "- (2 ^ 63) \<le> sint a" "sint a < 2 ^ 63"
    using sint_fits [of a] by (simp_all add: fits_signed_def)
  consider "sint b = 1" | "sint b = - 1" | "2 \<le> \<bar>sint b\<bar>" using b by linarith
  then show ?thesis
  proof cases
    case 3
    have "\<bar>sint a\<bar> div \<bar>sint b\<bar> \<le> \<bar>sint a\<bar> div 2" using 3 by (intro zdiv_mono2) simp_all
    then have "\<bar>c_div (sint a) (sint b)\<bar> \<le> \<bar>sint a\<bar> div 2" using abs_c_div order_trans by blast
    moreover have "\<bar>sint a\<bar> div 2 < 2 ^ 63" using a by auto
    ultimately have "\<bar>c_div (sint a) (sint b)\<bar> < 2 ^ 63" by linarith
    with 3 show ?thesis by (auto simp: fits_signed_def)
  qed (use a in \<open>auto simp: c_div_unit fits_signed_def\<close>)
qed

lemma c_mod_fits:
  fixes a b :: i64
  assumes "b \<noteq> 0"
  shows "fits_signed 64 (c_mod (sint a) (sint b))" "\<bar>c_mod (sint a) (sint b)\<bar> < \<bar>sint b\<bar>"
    "c_mod (sint a) (sint b) = 0 \<or> sgn (c_mod (sint a) (sint b)) = sgn (sint a)"
proof -
  have b: "sint b \<noteq> 0" using assms by (simp add: signed_eq_0_iff)
  have eq: "c_mod (sint a) (sint b) = sgn (sint a) * (\<bar>sint a\<bar> mod \<bar>sint b\<bar>)"
    by (simp add: c_mod_def signed_modulo_int_def)
  have m: "0 \<le> \<bar>sint a\<bar> mod \<bar>sint b\<bar>" "\<bar>sint a\<bar> mod \<bar>sint b\<bar> < \<bar>sint b\<bar>" using b by simp_all
  show bound: "\<bar>c_mod (sint a) (sint b)\<bar> < \<bar>sint b\<bar>"
    using m b by (simp add: eq abs_mult abs_sgn_eq)
  have "- (2 ^ 63) \<le> sint b" "sint b < 2 ^ 63"
    using sint_fits [of b] by (simp_all add: fits_signed_def)
  with bound show "fits_signed 64 (c_mod (sint a) (sint b))" by (auto simp: fits_signed_def)
  show "c_mod (sint a) (sint b) = 0 \<or> sgn (c_mod (sint a) (sint b)) = sgn (sint a)"
    using m by (auto simp: eq sgn_mult sgn_if)
qed

text \<open>
  Dividing two longs faults exactly when the divisor is 0 or the quotient is the one that does
  not fit; otherwise quotient and remainder satisfy the division equation, with a remainder
  smaller than the divisor and of the sign of the dividend.
\<close>

theorem long_division:
  "(if b = 0 then l_div api [L_Long a, L_Long b] = Inl (C_Fault Division_By_Zero) \<and>
                  l_mod api [L_Long a, L_Long b] = Inl (C_Fault Division_By_Zero)
    else if sint a = - (2 ^ 63) \<and> sint b = - 1
    then l_div api [L_Long a, L_Long b] = Inl (C_Fault Signed_Overflow) \<and>
         l_mod api [L_Long a, L_Long b] = Inl (C_Fault Signed_Overflow)
    else \<exists>q r. l_div api [L_Long a, L_Long b] = Inr [L_Long q] \<and>
         l_mod api [L_Long a, L_Long b] = Inr [L_Long r] \<and>
         sint a = sint q * sint b + sint r \<and> \<bar>sint r\<bar> < \<bar>sint b\<bar> \<and>
         (r = 0 \<or> sgn (sint r) = sgn (sint a)))"
proof (cases "b = 0")
  case True
  then show ?thesis
    by (simp add: l_div_def l_mod_def long2_def checklong_def arg_def s_div_def s_mod_def long_value_def)
next
  case b: False
  have div: "l_div api [L_Long a, L_Long b] = (case s_div a b of Inl e \<Rightarrow> Inl (C_Fault e) | Inr q \<Rightarrow> Inr [L_Long q])"
    by (cases "s_div a b") (simp_all add: l_div_def long2_def checklong_def arg_def long_value_def pushlong_def)
  have mod: "l_mod api [L_Long a, L_Long b] = (case s_mod a b of Inl e \<Rightarrow> Inl (C_Fault e) | Inr q \<Rightarrow> Inr [L_Long q])"
    by (cases "s_mod a b") (simp_all add: l_mod_def long2_def checklong_def arg_def long_value_def pushlong_def)
  show ?thesis
  proof (cases "sint a = - (2 ^ 63) \<and> sint b = - 1")
    case True
    then have "s_div a b = Inl Signed_Overflow"
      using s_div_overflow [OF b, of a] b by (simp add: s_div_def s_result_def)
    with True b show ?thesis by (simp add: div mod s_mod_def)
  next
    case False
    define q r where "q = (word_of_int (c_div (sint a) (sint b)) :: i64)"
      and "r = (word_of_int (c_mod (sint a) (sint b)) :: i64)"
    have fit: "fits_signed 64 (c_div (sint a) (sint b))" using s_div_overflow [OF b] False by blast
    have q: "sint q = c_div (sint a) (sint b)"
      using sint_word_of_int_fits [where 'a = 64, of "c_div (sint a) (sint b)"] fit by (simp add: q_def)
    have r: "sint r = c_mod (sint a) (sint b)"
      using sint_word_of_int_fits [where 'a = 64, of "c_mod (sint a) (sint b)"] c_mod_fits(1) [OF b]
      by (simp add: r_def)
    have "s_div a b = Inr q" "s_mod a b = Inr r"
      using fit c_mod_fits(1) [OF b, of a] b by (simp_all add: s_div_def s_mod_def s_result_def q_def r_def)
    moreover have "sint a = sint q * sint b + sint r" by (simp add: q r c_div_mod)
    moreover have "r = 0 \<or> sgn (sint r) = sgn (sint a)"
      using c_mod_fits(3) [OF b, of a] by (auto simp: r [symmetric] signed_eq_0_iff)
    ultimately show ?thesis
      using c_mod_fits(2) [OF b, of a] b False by (simp add: div mod r)
  qed
qed

section \<open>Bit operations\<close>

lemma shift_values:
  assumes "0 \<le> sint b" "sint b < 32"
  shows "\<exists>r l. shift_right a b = Inr r \<and> sint r = sint a div 2 ^ unat b \<and>
    shift_left a b = Inr l \<and> l = a * 2 ^ unat b"
  using assms
  by (simp add: shift_right_def shift_left_def push_bit_eq_mult sint_signed_drop_bit_eq drop_bit_eq_div)

text \<open>
  The shifts of \<^verbatim>\<open>libluabitwise\<close> are the floor division by, and the multiplication (modulo
  \<open>2 ^ 32\<close>) with, a power of two for the counts 0 to 31, and faults for all others.
\<close>

theorem bit_shifts:
  "(if 0 \<le> sint b \<and> sint b < 32
    then \<exists>r l. shift_right a b = Inr r \<and> sint r = sint a div 2 ^ unat b \<and>
               shift_left a b = Inr l \<and> l = a * 2 ^ unat b
    else shift_right a b = Inl Shift_Out_Of_Range \<and> shift_left a b = Inl Shift_Out_Of_Range)"
  using shift_values by (simp add: shift_right_def shift_left_def)

end
