(* ===== verification/Machine_Bytes.thy ===== *)
theory Machine_Bytes
  imports Coz_Prelude
begin

text \<open>
  Integers in the memory of a little-endian machine: the bytes of a word, lowest first, and the word
  read from bytes. Reading what was stored gives it back.
\<close>

definition le_bytes :: "nat \<Rightarrow> 'a::len word \<Rightarrow> u8 list" where
  "le_bytes k w = map (\<lambda>i. ucast (drop_bit (8 * i) w)) [0..<k]"

primrec of_le_bytes :: "u8 list \<Rightarrow> 'a::len word" where
  "of_le_bytes [] = 0"
| "of_le_bytes (b # bs) = ucast b OR push_bit 8 (of_le_bytes bs)"

lemma length_le_bytes [simp]: "length (le_bytes k w) = k"
  by (simp add: le_bytes_def)

lemma bit_le_bytes: "i < k \<Longrightarrow> bit (le_bytes k w ! i) j \<longleftrightarrow> j < 8 \<and> bit w (8 * i + j)"
  by (auto simp: le_bytes_def bit_simps)

lemma bit_of_le_bytes:
  "bit (of_le_bytes bs :: 'a::len word) n \<longleftrightarrow>
     n < LENGTH('a) \<and> n div 8 < length bs \<and> bit (bs ! (n div 8)) (n mod 8)"
proof (induction bs arbitrary: n)
  case Nil
  then show ?case by simp
next
  case (Cons b bs)
  show ?case
  proof (cases "n < 8")
    case True
    then show ?thesis by (auto simp: bit_simps)
  next
    case False
    then obtain m where n: "n = m + 8" by (metis add.commute le_Suc_ex not_less)
    have "\<not> bit b (m + 8)" using bit_imp_le_length [of b "m + 8"] by auto
    moreover have "(m + 8) div 8 = Suc (m div 8)" by simp
    ultimately show ?thesis using Cons.IH [of m] by (auto simp: n bit_simps)
  qed
qed

lemma le_bytes_of_le_bytes:
  assumes "length bs = k" "LENGTH('a) = 8 * k"
  shows "le_bytes k (of_le_bytes bs :: 'a::len word) = bs"
proof (rule nth_equalityI)
  fix i assume "i < length (le_bytes k (of_le_bytes bs :: 'a word))"
  then have i: "i < k" by simp
  show "le_bytes k (of_le_bytes bs :: 'a word) ! i = bs ! i"
  proof (rule bit_word_eqI)
    fix j assume "j < LENGTH(8)"
    then have "j < 8" by simp
    then have "(8 * i + j) div 8 = i" "(8 * i + j) mod 8 = j" "8 * i + j < 8 * k" using i by auto
    with i assms \<open>j < 8\<close> show "bit (le_bytes k (of_le_bytes bs :: 'a word) ! i) j = bit (bs ! i) j"
      by (simp add: bit_le_bytes bit_of_le_bytes)
  qed
qed (use assms in simp)

lemma of_le_bytes_le_bytes:
  assumes "LENGTH('a) \<le> 8 * k"
  shows "of_le_bytes (le_bytes k w) = (w :: 'a::len word)"
proof (rule bit_word_eqI)
  fix n assume "n < LENGTH('a)"
  moreover from this assms have "n div 8 < k" by auto
  ultimately show "bit (of_le_bytes (le_bytes k w) :: 'a word) n = bit w n"
    by (simp add: bit_of_le_bytes bit_le_bytes)
qed

text \<open>
  A file mapped in whole pages with one byte more than it has: the rest of its last page reads as zero,
  and a page behind the file cannot be accessed.
\<close>

definition map_file :: "nat \<Rightarrow> u8 list \<Rightarrow> u8 list" where
  "map_file page contents = contents @ replicate ((page - length contents mod page) mod page) 0"

lemma map_file_pads:
  assumes "0 < page" "length contents mod page \<noteq> 0"
  shows "\<exists>z. map_file page contents = contents @ 0 # z"
proof -
  let ?n = "page - length contents mod page"
  have pos: "0 < page" "0 < length contents mod page" using assms by simp_all
  then have "0 < ?n" by simp
  moreover have "?n < page" using pos by simp
  ultimately have "0 < ?n mod page" by simp
  then obtain m where "?n mod page = Suc m" by (meson gr0_implies_Suc)
  then show ?thesis by (simp add: map_file_def)
qed

end
