(* ===== verification/Lua_Pack.thy ===== *)
theory Lua_Pack
  imports Lua_Long Machine_Bytes
begin

text \<open>
  The wire encodings of \<^verbatim>\<open>luabpack.c\<close>: network byte order, \<^verbatim>\<open>bpack\<close> and
  \<^verbatim>\<open>bunpack\<close>, zigzag and varint integers, and the message type of the compact protocol. The
  bytes of an integer in memory are those of a little-endian machine. \<open>read_varint64\<close> is the
  loop of \<^verbatim>\<open>TCompactProtocol.lua\<close> that feeds \<^verbatim>\<open>fromVarint64\<close>.
\<close>

section \<open>Bytes\<close>

definition bytes_str :: "u8 list \<Rightarrow> string" where
  "bytes_str bs = map (\<lambda>b. char_of (unat b)) bs"

definition str_bytes :: "string \<Rightarrow> u8 list" where
  "str_bytes s = map (\<lambda>c. of_nat (of_char c)) s"

text \<open>\<^verbatim>\<open>htons\<close>, \<^verbatim>\<open>htonl\<close> and their inverses swap the bytes.\<close>

definition swap_bytes :: "nat \<Rightarrow> 'a::len word \<Rightarrow> 'a word" where
  "swap_bytes k w = of_le_bytes (rev (le_bytes k w))"

definition htons :: "u16 \<Rightarrow> u16" where "htons = swap_bytes 2"
definition htonl :: "u32 \<Rightarrow> u32" where "htonl = swap_bytes 4"

definition T_htonll :: "u64 \<Rightarrow> i64" where
  "T_htonll data =
     (let d1 = htonl (ucast data);
          d2 = htonl (ucast (drop_bit 32 data))
      in push_bit 32 (ucast d1) + ucast d2)"

definition T_ntohll :: "u64 \<Rightarrow> i64" where
  "T_ntohll data =
     (let d1 = htonl (ucast data);
          d2 = htonl (ucast (drop_bit 32 data))
      in push_bit 32 (ucast d1) + ucast d2)"

section \<open>Packing and unpacking\<close>

text \<open>
  The format code is one character; the code looks at the character after it, which in the
  empty string is past its end.
\<close>

fun format_code :: "string \<Rightarrow> lua_error + char" where
  "format_code [] = Inl (C_Fault Out_Of_Bounds)"
| "format_code [c] = Inr c"
| "format_code (c # d # s) = (if d = char_of (0::nat) then Inr c else Inl (Arg_Error 0))"

definition l_bpack :: "'n lua_api \<Rightarrow> 'n lua_args \<Rightarrow> 'n lua_result" where
  "l_bpack api args =
     ebind (check_string api args 1) (\<lambda>code.
     ebind (format_code code) (\<lambda>c.
       if c = CHR ''c'' then
         ebind (check_number api args 2) (\<lambda>x.
         ebind (num_to_signed api x) (\<lambda>data.
           Inr [L_String (bytes_str (le_bytes 1 (data :: i8)))]))
       else if c = CHR ''s'' then
         ebind (check_number api args 2) (\<lambda>x.
         ebind (num_to_signed api x) (\<lambda>data.
           Inr [L_String (bytes_str (le_bytes 2 (htons data)))]))
       else if c = CHR ''i'' then
         ebind (check_integer api args 2) (\<lambda>data.
           Inr [L_String (bytes_str (le_bytes 4 (htonl (ucast data))))])
       else if c = CHR ''l'' then
         ebind (checklong api args 2) (\<lambda>data.
           Inr [L_String (bytes_str (le_bytes 8 (T_htonll data)))])
       else if c = CHR ''d'' then
         ebind (check_number api args 2) (\<lambda>x. Inr [L_String (bytes_str (num_bytes api x))])
       else Inl (Arg_Error 0)))"

definition sized :: "nat \<Rightarrow> string \<Rightarrow> lua_error + u8 list" where
  "sized n data = (if length data = n then Inr (str_bytes data) else Inl (Arg_Error 1))"

definition l_bunpack :: "'n lua_api \<Rightarrow> 'n lua_args \<Rightarrow> 'n lua_result" where
  "l_bunpack api args =
     ebind (check_string api args 1) (\<lambda>code.
     ebind (format_code code) (\<lambda>c.
     ebind (check_string api args 2) (\<lambda>data.
       if c = CHR ''c'' then
         ebind (sized 1 data) (\<lambda>bs. Inr [push_int api (of_le_bytes bs :: i8)])
       else if c = CHR ''C'' then
         ebind (sized 1 data) (\<lambda>bs. Inr [push_uint api (of_le_bytes bs :: u8)])
       else if c = CHR ''s'' then
         ebind (sized 2 data) (\<lambda>bs. Inr [push_int api (htons (of_le_bytes bs))])
       else if c = CHR ''i'' then
         ebind (sized 4 data) (\<lambda>bs. Inr [push_int api (htonl (of_le_bytes bs))])
       else if c = CHR ''l'' then
         ebind (sized 8 data) (\<lambda>bs. Inr [pushlong 0 (Some (T_ntohll (of_le_bytes bs)))])
       else if c = CHR ''d'' then
         ebind (sized 8 data) (\<lambda>bs. Inr [L_Number (bytes_num api bs)])
       else Inl (Arg_Error 0))))"

section \<open>Zigzag\<close>

definition i64_zigzag :: "i64 \<Rightarrow> i64" where
  "i64_zigzag n = push_bit 1 n XOR signed_drop_bit 63 n"

definition i32_zigzag :: "i32 \<Rightarrow> u32" where
  "i32_zigzag n = push_bit 1 n XOR signed_drop_bit 31 n"

definition zigzag_i32 :: "u32 \<Rightarrow> i32" where
  "zigzag_i32 n = drop_bit 1 n XOR (- (n AND 1))"

text \<open>Here \<open>n\<close> is signed, so its shift copies the top bit.\<close>

definition zigzag_i64 :: "i64 \<Rightarrow> i64" where
  "zigzag_i64 n = signed_drop_bit 1 n XOR (- (n AND 1))"

definition l_i64ToZigzag :: "'n lua_api \<Rightarrow> 'n lua_args \<Rightarrow> 'n lua_result" where
  "l_i64ToZigzag api args =
     ebind (checklong api args 1) (\<lambda>n. Inr [pushlong 0 (Some (i64_zigzag n))])"

definition l_i32ToZigzag :: "'n lua_api \<Rightarrow> 'n lua_args \<Rightarrow> 'n lua_result" where
  "l_i32ToZigzag api args =
     ebind (check_int api args 1) (\<lambda>n. Inr [push_uint api (i32_zigzag n)])"

definition l_zigzagToI32 :: "'n lua_api \<Rightarrow> 'n lua_args \<Rightarrow> 'n lua_result" where
  "l_zigzagToI32 api args =
     ebind (check_int api args 1) (\<lambda>n. Inr [push_int api (zigzag_i32 n)])"

definition l_zigzagToI64 :: "'n lua_api \<Rightarrow> 'n lua_args \<Rightarrow> 'n lua_result" where
  "l_zigzagToI64 api args =
     ebind (checklong api args 1) (\<lambda>n. Inr [pushlong 0 (Some (zigzag_i64 n))])"

section \<open>Varints\<close>

text \<open>The write loop, with a store outside the buffer of \<open>cap\<close> bytes as a fault.\<close>

lemma high_bits_zero: "n AND NOT 0x7F = 0 \<longleftrightarrow> drop_bit 7 n = 0" for n :: "'a::len word"
proof -
  have m: "(0x7F :: 'a word) = mask 7" by (simp add: mask_eq_exp_minus_1)
  show ?thesis unfolding m
  proof
    assume a: "n AND NOT (mask 7) = 0"
    show "drop_bit 7 n = 0"
    proof (rule bit_word_eqI)
      fix k assume "k < LENGTH('a)"
      from a have "\<not> bit (n AND NOT (mask 7)) (7 + k)" by simp
      then show "bit (drop_bit 7 n) k = bit 0 k"
        using bit_imp_le_length [of n "7 + k"] by (auto simp: bit_simps)
    qed
  next
    assume a: "drop_bit 7 n = 0"
    show "n AND NOT (mask 7) = 0"
    proof (rule bit_word_eqI)
      fix k
      from a have "\<not> bit (drop_bit 7 n) (k - 7)" by simp
      then show "bit (n AND NOT (mask 7)) k = bit 0 k" by (cases "k < 7") (auto simp: bit_simps)
    qed
  qed
qed

lemma unat_drop7: "unat (drop_bit 7 n) = unat n div 128" for n :: "'a::len word"
proof -
  have "unat (drop_bit 7 n) = drop_bit 7 (unat n)" by (rule unat_drop_bit_eq)
  then show ?thesis by (simp add: drop_bit_eq_div)
qed

lemma drop7_less:
  fixes n :: "'a::len word"
  assumes "n AND NOT 0x7F \<noteq> 0"
  shows "unat (drop_bit 7 n) < unat n"
proof -
  have "n \<noteq> 0" using assms by auto
  then have "0 < unat n" by (simp add: unat_gt_0)
  then show ?thesis by (simp add: unat_drop7)
qed

function varint_loop :: "nat \<Rightarrow> 'a::len word \<Rightarrow> u8 list \<Rightarrow> c_fault + u8 list" where
  "varint_loop cap n buf =
     (if cap \<le> length buf then Inl Out_Of_Bounds
      else if n AND NOT 0x7F = 0 then Inr (buf @ [ucast n])
      else varint_loop cap (drop_bit 7 n) (buf @ [ucast ((n AND 0x7F) OR 0x80)]))"
  by pat_completeness auto
termination
  by (relation "measure (\<lambda>(cap, n, buf). unat n)") (simp_all add: drop7_less)

declare varint_loop.simps [simp del]

definition l_toVarint32 :: "'n lua_api \<Rightarrow> 'n lua_args \<Rightarrow> 'n lua_result" where
  "l_toVarint32 api args =
     ebind (check_int api args 1) (\<lambda>n.
     ebind (c_fault_of (varint_loop 5 n [])) (\<lambda>bs. Inr [L_String (bytes_str bs)]))"

definition l_toVarint64 :: "'n lua_api \<Rightarrow> 'n lua_args \<Rightarrow> 'n lua_result" where
  "l_toVarint64 api args =
     ebind (checklong api args 1) (\<lambda>n.
     ebind (c_fault_of (varint_loop 10 n [])) (\<lambda>bs. Inr [L_String (bytes_str bs)]))"

text \<open>The first component: whether more bytes follow.\<close>

definition from_varint64 :: "u8 \<Rightarrow> i32 \<Rightarrow> u64 \<Rightarrow> c_fault + bool \<times> i64" where
  "from_varint64 byte shift n =
     (if sint shift < 0 \<or> 64 \<le> sint shift then Inl Shift_Out_Of_Range
      else let n1 = n OR push_bit (unat shift) (ucast (byte AND 0x7F))
           in if byte AND 0x80 = 0 then Inr (False, drop_bit 1 n1 XOR (- (n1 AND 1)))
              else Inr (True, n1))"

definition l_fromVarint64 :: "'n lua_api \<Rightarrow> 'n lua_args \<Rightarrow> 'n lua_result" where
  "l_fromVarint64 api args =
     ebind (check_number api args 1) (\<lambda>x.
     ebind (num_to_unsigned api x) (\<lambda>byte.
     ebind (check_number api args 2) (\<lambda>y.
     ebind (num_to_signed api y) (\<lambda>shift.
     ebind (checklong api args 3) (\<lambda>n.
     ebind (c_fault_of (from_varint64 byte shift n)) (\<lambda>(cont, result).
       Inr [L_Number (num_of_int api (if cont then 1 else 0)), pushlong 0 (Some result)]))))))"

text \<open>
  \<^verbatim>\<open>readVarint64\<close>: each byte is unpacked with the code \<open>code\<close>, which is \<^verbatim>\<open>c\<close> in the protocol;
  the result is the value and the bytes left, \<open>None\<close> when the bytes run out.
\<close>

fun read_varint64 ::
  "'n lua_api \<Rightarrow> char \<Rightarrow> u8 list \<Rightarrow> nat \<Rightarrow> 'n lua_value \<Rightarrow> (lua_error + 'n lua_value \<times> u8 list) option"
where
  "read_varint64 api code [] shiftl data = None"
| "read_varint64 api code (b # bs) shiftl data =
     (case ebind (l_bunpack api [L_String [code], L_String (bytes_str [b])]) (\<lambda>vs.
             l_fromVarint64 api [hd vs, L_Number (num_of_int api (int shiftl)), data]) of
        Inl e \<Rightarrow> Some (Inl e)
      | Inr vs \<Rightarrow>
          if (case hd vs of L_Number x \<Rightarrow> num_trunc api x = Some 0 | _ \<Rightarrow> False)
          then Some (Inr (vs ! 1, bs))
          else read_varint64 api code bs (shiftl + 7) (vs ! 1))"

section \<open>Message types\<close>

definition pack_mesg_type :: "i32 \<Rightarrow> i32 \<Rightarrow> i32 \<Rightarrow> i32 \<Rightarrow> i32 \<Rightarrow> c_fault + i32" where
  "pack_mesg_type version_n version_mask messagetype type_shift_amount type_mask =
     ebind (shift_left messagetype type_shift_amount) (\<lambda>t.
       Inr ((version_n AND version_mask) OR (t AND type_mask)))"

definition l_packMesgType :: "'n lua_api \<Rightarrow> 'n lua_args \<Rightarrow> 'n lua_result" where
  "l_packMesgType api args =
     ebind (check_int api args 1) (\<lambda>version_n.
     ebind (check_int api args 2) (\<lambda>version_mask.
     ebind (check_int api args 3) (\<lambda>messagetype.
     ebind (check_int api args 4) (\<lambda>type_shift_amount.
     ebind (check_int api args 5) (\<lambda>type_mask.
     ebind (c_fault_of (pack_mesg_type version_n version_mask messagetype type_shift_amount type_mask))
       (\<lambda>r. Inr [push_int api r]))))))"

datatype pack_op = Bpack | Bunpack | I32ToZigzag | I64ToZigzag | ZigzagToI32 | ZigzagToI64
  | ToVarint32 | ToVarint64 | FromVarint64 | PackMesgType

definition luaopen_libluabpack :: "string \<Rightarrow> pack_op option" where
  "luaopen_libluabpack =
     map_of [(''bpack'', Bpack), (''bunpack'', Bunpack), (''i32ToZigzag'', I32ToZigzag),
             (''i64ToZigzag'', I64ToZigzag), (''zigzagToI32'', ZigzagToI32),
             (''zigzagToI64'', ZigzagToI64), (''toVarint32'', ToVarint32),
             (''toVarint64'', ToVarint64), (''fromVarint64'', FromVarint64),
             (''packMesgType'', PackMesgType)]"

definition run_pack_op :: "pack_op \<Rightarrow> 'n lua_api \<Rightarrow> 'n lua_args \<Rightarrow> 'n lua_result" where
  "run_pack_op op =
     (case op of Bpack \<Rightarrow> l_bpack | Bunpack \<Rightarrow> l_bunpack | I32ToZigzag \<Rightarrow> l_i32ToZigzag
      | I64ToZigzag \<Rightarrow> l_i64ToZigzag | ZigzagToI32 \<Rightarrow> l_zigzagToI32 | ZigzagToI64 \<Rightarrow> l_zigzagToI64
      | ToVarint32 \<Rightarrow> l_toVarint32 | ToVarint64 \<Rightarrow> l_toVarint64 | FromVarint64 \<Rightarrow> l_fromVarint64
      | PackMesgType \<Rightarrow> l_packMesgType)"

end
