(* ===== verification/Lua_Codec.thy ===== *)
theory Lua_Codec
  imports Lua_Pack
begin

text \<open>
  The encodings of the Lua Thrift bindings read back: byte order, fixed-size integers, zigzag
  and varints, with the reference encoder on natural numbers that the word loops implement, and
  the two places where a value does not come back.
\<close>

section \<open>Byte order\<close>

lemma swap_bytes_bytes:
  "LENGTH('a) = 8 * k \<Longrightarrow> le_bytes k (swap_bytes k w) = rev (le_bytes k (w :: 'a::len word))"
  by (simp add: swap_bytes_def le_bytes_of_le_bytes)

lemma swap_bytes_swap:
  "LENGTH('a) = 8 * k \<Longrightarrow> swap_bytes k (swap_bytes k w) = (w :: 'a::len word)"
  by (simp add: swap_bytes_def [of k "swap_bytes k w"] swap_bytes_bytes of_le_bytes_le_bytes)

lemma htons_htons [simp]: "htons (htons w) = w"
  by (simp add: htons_def swap_bytes_swap)

lemma htonl_htonl [simp]: "htonl (htonl w) = w"
  by (simp add: htonl_def swap_bytes_swap)

text \<open>The two halves do not overlap, so their sum joins them.\<close>

lemma join_halves:
  "bit (push_bit 32 (ucast (d1 :: u32)) + ucast (d2 :: u32) :: u64) n \<longleftrightarrow>
     (if n < 32 then bit d2 n else n < 64 \<and> bit d1 (n - 32))"
proof -
  have "push_bit 32 (ucast d1) + ucast d2 = (push_bit 32 (ucast d1) OR ucast d2 :: u64)"
    by (rule disjunctive_add) (auto simp: bit_simps dest: bit_imp_le_length)
  then show ?thesis by (auto simp: bit_simps dest: bit_imp_le_length)
qed

lemma ucast_low: "ucast (push_bit 32 (ucast (d1 :: u32)) + ucast (d2 :: u32) :: u64) = d2"
  by (rule bit_word_eqI) (simp add: bit_unsigned_iff join_halves)

lemma ucast_high: "ucast (drop_bit 32 (push_bit 32 (ucast (d1 :: u32)) + ucast (d2 :: u32) :: u64)) = d1"
  by (rule bit_word_eqI) (simp add: bit_unsigned_iff bit_drop_bit_eq join_halves)

lemma split_halves: "push_bit 32 (ucast (ucast (drop_bit 32 w) :: u32)) + ucast (ucast w :: u32) = (w :: u64)"
  by (rule bit_word_eqI) (auto simp: join_halves bit_unsigned_iff bit_drop_bit_eq)

lemma T_ntohll_htonll [simp]: "T_ntohll (T_htonll w) = w"
  unfolding T_ntohll_def T_htonll_def Let_def ucast_low ucast_high htonl_htonl by (rule split_halves)

lemma bit_htonl: "bit (htonl d) n \<longleftrightarrow> n < 32 \<and> bit d (8 * (3 - n div 8) + n mod 8)"
proof (cases "n < 32")
  case True
  then have "n div 8 < 4" by auto
  with True show ?thesis
    by (simp add: htonl_def swap_bytes_def bit_of_le_bytes rev_nth bit_le_bytes)
qed (auto simp: htonl_def swap_bytes_def bit_of_le_bytes)

lemma bit_T_htonll: "bit (T_htonll w) n \<longleftrightarrow> n < 64 \<and> bit w (8 * (7 - n div 8) + n mod 8)"
proof (cases "n < 32")
  case True
  then have "n div 8 < 4" by auto
  then have "32 + (8 * (3 - n div 8) + n mod 8) = 8 * (7 - n div 8) + n mod 8"
    "8 * (3 - n div 8) + n mod 8 < 32" by auto
  with True show ?thesis
    by (simp add: T_htonll_def Let_def join_halves bit_htonl bit_unsigned_iff bit_drop_bit_eq
        add.assoc [symmetric])
next
  case False
  show ?thesis
  proof (cases "n < 64")
    case True
    obtain m where n: "n = m + 32" and m: "m < 32"
      using False True by (metis add.commute le_Suc_ex nat_add_left_cancel_less not_less numeral_Bit0)
    have "(m + 32) mod 8 = m mod 8" by presburger
    moreover have "m div 8 < 4" "(m + 32) div 8 = m div 8 + 4" using m by auto
    ultimately have "8 * (7 - (m + 32) div 8) + (m + 32) mod 8 = 8 * (3 - m div 8) + m mod 8"
      "8 * (3 - m div 8) + m mod 8 < 32" by auto
    with m show ?thesis
      by (simp add: n T_htonll_def Let_def join_halves bit_htonl bit_unsigned_iff)
  qed (use False in \<open>simp add: T_htonll_def Let_def join_halves\<close>)
qed

lemma T_htonll_bytes: "le_bytes 8 (T_htonll w) = rev (le_bytes 8 w)"
proof (rule nth_equalityI)
  fix i assume "i < length (le_bytes 8 (T_htonll w))"
  then have i: "i < 8" by simp
  show "le_bytes 8 (T_htonll w) ! i = rev (le_bytes 8 w) ! i"
  proof (rule bit_word_eqI)
    fix j assume "j < LENGTH(8)"
    then have j: "j < 8" by simp
    have "(8 * i + j) div 8 = i" "(8 * i + j) mod 8 = j" "8 * i + j < 64" using i j by auto
    with i j show "bit (le_bytes 8 (T_htonll w) ! i) j = bit (rev (le_bytes 8 w) ! i) j"
      by (simp add: bit_le_bytes rev_nth bit_T_htonll)
  qed
qed simp

text \<open>
  The byte-order conversions put the most significant byte first, for 2, 4 and 8 bytes, and
  converting twice gives the number back.
\<close>

theorem network_order:
  "le_bytes 2 (htons h) = rev (le_bytes 2 h) \<and> le_bytes 4 (htonl i) = rev (le_bytes 4 i) \<and>
   le_bytes 8 (T_htonll l) = rev (le_bytes 8 l) \<and>
   htons (htons h) = h \<and> htonl (htonl i) = i \<and> T_ntohll (T_htonll l) = l"
  by (simp add: T_htonll_bytes) (simp add: htons_def htonl_def swap_bytes_bytes)

section \<open>Fixed-size integers\<close>

lemma str_bytes_str [simp]: "str_bytes (bytes_str bs) = bs"
proof -
  have "(of_nat (of_char (char_of (unat b) :: char)) :: u8) = b" for b :: u8
  proof -
    have "unat b mod 256 = unat b" using unat_bound [of b] by simp
    then show ?thesis by (simp add: of_char_of)
  qed
  then show ?thesis by (simp add: str_bytes_def bytes_str_def comp_def)
qed

lemma length_bytes_str [simp]: "length (bytes_str bs) = length bs"
  by (simp add: bytes_str_def)

lemma num_of_sint:
  assumes "lua_api_ok api" "LENGTH('a::len) \<le> 32"
  shows "num_trunc api (num_of_int api (sint (w :: 'a word))) = Some (sint w)"
proof -
  have "(2::int) ^ (LENGTH('a) - 1) \<le> 2 ^ 31" using assms(2) by (intro power_increasing) simp_all
  with sint_fits [of w] have "\<bar>sint w\<bar> \<le> 2 ^ 53" by (simp add: fits_signed_def abs_le_iff)
  with assms(1) show ?thesis by (simp add: lua_api_ok_def)
qed

lemma num_of_uint:
  assumes "lua_api_ok api" "LENGTH('a::len) \<le> 32"
  shows "num_trunc api (num_of_int api (uint (w :: 'a word))) = Some (uint w)"
proof -
  have "(2::int) ^ LENGTH('a) \<le> 2 ^ 32" using assms(2) by (intro power_increasing) simp_all
  with unsigned_less [of w] have "uint w < 2 ^ 32" by (rule order.strict_trans2)
  then have "\<bar>uint w\<bar> \<le> 2 ^ 53" by simp
  with assms(1) show ?thesis by (simp add: lua_api_ok_def)
qed

lemma num_to_signed_sint:
  assumes "lua_api_ok api" "LENGTH('a::len) \<le> 32"
  shows "num_to_signed api (num_of_int api (sint (w :: 'a word))) = Inr w"
  using sint_fits [of w] by (simp add: num_to_signed_def num_of_sint [OF assms] s_result_def)

lemma check_int_sint:
  assumes "lua_api_ok api"
  shows "check_int api [L_String c, push_int api (w :: i32)] 2 = Inr w"
    "check_int api [push_int api w] 1 = Inr w"
proof -
  have f: "fits_signed 64 (sint w)"
    using sint_fits [of w] by (auto simp: fits_signed_def)
  have c: "(ucast (word_of_int (sint w) :: i64) :: i32) = w"
  proof (rule bit_word_eqI)
    fix n assume "n < LENGTH(32)"
    then consider "n < 31" | "n = 31" by fastforce
    then show "bit (ucast (word_of_int (sint w) :: i64) :: i32) n = bit w n"
      by cases (simp_all add: bit_unsigned_iff bit_word_of_int_iff bit_signed_iff)
  qed
  show "check_int api [L_String c, push_int api w] 2 = Inr w"
    "check_int api [push_int api w] 1 = Inr w"
    using f c by (simp_all add: check_int_def check_integer_def check_number_def arg_def push_int_def
        num_to_signed_def num_of_sint [OF assms] s_result_def)
qed

lemma bpack_bytes:
  assumes "lua_api_ok api"
  shows "l_bpack api [L_String ''c'', push_int api (c :: i8)] = Inr [L_String (bytes_str (le_bytes 1 c))]"
    "l_bpack api [L_String ''s'', push_int api (s :: i16)] = Inr [L_String (bytes_str (le_bytes 2 (htons s)))]"
    "l_bpack api [L_String ''i'', push_int api (i :: i32)] = Inr [L_String (bytes_str (le_bytes 4 (htonl i)))]"
    "l_bpack api [L_String ''l'', L_Long l] = Inr [L_String (bytes_str (le_bytes 8 (T_htonll l)))]"
    "l_bpack api [L_String ''d'', L_Number x] = Inr [L_String (bytes_str (num_bytes api x))]"
proof -
  show "l_bpack api [L_String ''c'', push_int api c] = Inr [L_String (bytes_str (le_bytes 1 c))]"
    using num_to_signed_sint [OF assms, of c]
    by (simp add: l_bpack_def check_string_def check_number_def arg_def push_int_def)
  show "l_bpack api [L_String ''s'', push_int api s] = Inr [L_String (bytes_str (le_bytes 2 (htons s)))]"
    using num_to_signed_sint [OF assms, of s]
    by (simp add: l_bpack_def check_string_def check_number_def arg_def push_int_def)
  have "check_int api [L_String ''i'', push_int api i] 2 = Inr i" by (rule check_int_sint(1) [OF assms])
  then obtain w where "check_integer api [L_String ''i'', push_int api i] 2 = Inr w" "ucast w = i"
    by (auto simp: check_int_def ebind_Inr_iff)
  then show "l_bpack api [L_String ''i'', push_int api i] = Inr [L_String (bytes_str (le_bytes 4 (htonl i)))]"
    by (simp add: l_bpack_def check_string_def arg_def)
  show "l_bpack api [L_String ''l'', L_Long l] = Inr [L_String (bytes_str (le_bytes 8 (T_htonll l)))]"
    by (simp add: l_bpack_def check_string_def arg_def checklong_def)
  show "l_bpack api [L_String ''d'', L_Number x] = Inr [L_String (bytes_str (num_bytes api x))]"
    by (simp add: l_bpack_def check_string_def check_number_def arg_def)
qed

lemma bunpack_bytes:
  "l_bunpack api [L_String ''c'', L_String (bytes_str (le_bytes 1 (c :: i8)))] = Inr [push_int api c]"
  "l_bunpack api [L_String ''C'', L_String (bytes_str (le_bytes 1 (c :: i8)))] = Inr [push_uint api c]"
  "l_bunpack api [L_String ''s'', L_String (bytes_str (le_bytes 2 (htons s)))] = Inr [push_int api s]"
  "l_bunpack api [L_String ''i'', L_String (bytes_str (le_bytes 4 (htonl i)))] = Inr [push_int api i]"
  "l_bunpack api [L_String ''l'', L_String (bytes_str (le_bytes 8 (T_htonll l)))] = Inr [L_Long l]"
  "length (num_bytes api x) = 8 \<Longrightarrow> bytes_num api (num_bytes api x) = x \<Longrightarrow>
   l_bunpack api [L_String ''d'', L_String (bytes_str (num_bytes api x))] = Inr [L_Number x]"
  by (simp_all add: l_bunpack_def check_string_def arg_def sized_def of_le_bytes_le_bytes pushlong_def)

text \<open>
  C30. What \<^verbatim>\<open>bpack\<close> packs, \<^verbatim>\<open>bunpack\<close> with the same code gives back: bytes, shorts, ints,
  longs and doubles; a byte unpacked with the code \<^verbatim>\<open>C\<close> comes back unsigned.
\<close>

theorem pack_unpack:
  assumes "lua_api_ok api"
  shows "ebind (l_bpack api [L_String ''c'', push_int api (c :: i8)])
           (\<lambda>vs. l_bunpack api [L_String ''c'', hd vs]) = Inr [push_int api c] \<and>
    ebind (l_bpack api [L_String ''c'', push_int api c])
           (\<lambda>vs. l_bunpack api [L_String ''C'', hd vs]) = Inr [push_uint api c] \<and>
    ebind (l_bpack api [L_String ''s'', push_int api (s :: i16)])
           (\<lambda>vs. l_bunpack api [L_String ''s'', hd vs]) = Inr [push_int api s] \<and>
    ebind (l_bpack api [L_String ''i'', push_int api (i :: i32)])
           (\<lambda>vs. l_bunpack api [L_String ''i'', hd vs]) = Inr [push_int api i] \<and>
    ebind (l_bpack api [L_String ''l'', L_Long l])
           (\<lambda>vs. l_bunpack api [L_String ''l'', hd vs]) = Inr [L_Long l] \<and>
    ebind (l_bpack api [L_String ''d'', L_Number x])
           (\<lambda>vs. l_bunpack api [L_String ''d'', hd vs]) = Inr [L_Number x]"
  using assms by (simp add: bpack_bytes bunpack_bytes lua_api_ok_def del: One_nat_def)

text \<open>A concrete Lua whose numbers are 64-bit integers.\<close>

definition int_lua :: "i64 lua_api" where
  "int_lua = \<lparr>num_trunc = (\<lambda>w. Some (sint w)), num_of_int = word_of_int, num_bytes = le_bytes 8,
     bytes_num = of_le_bytes, str_num = scan_i64, num_str = (\<lambda>w. print_int (sint w)),
     pow_trunc = (\<lambda>a b. Some (a ^ nat b))\<rparr>"

lemma int_lua_ok: "lua_api_ok int_lua"
proof -
  have "sint (word_of_int z :: i64) = z" if "\<bar>z\<bar> \<le> 2 ^ 53" for z
    using that by (intro sint_word_of_int_fits) (auto simp: fits_signed_def abs_le_iff)
  then show ?thesis by (simp add: lua_api_ok_def int_lua_def of_le_bytes_le_bytes)
qed

theorem pack_unpack_witness:
  "ebind (l_bpack int_lua [L_String ''i'', push_int int_lua (- 5 :: i32)])
     (\<lambda>vs. l_bunpack int_lua [L_String ''i'', hd vs]) = Inr [push_int int_lua (- 5 :: i32)]"
  using pack_unpack [OF int_lua_ok, where i = "- 5"] by blast

section \<open>Zigzag\<close>

lemma signed_drop_all: "signed_drop_bit (LENGTH('a) - 1) w = (if sint w < 0 then - 1 else 0)"
  for w :: "'a::len word"
proof -
  have f: "- (2 ^ (LENGTH('a) - 1)) \<le> sint w" "sint w < 2 ^ (LENGTH('a) - 1)"
    using sint_fits [of w] by (simp_all add: fits_signed_def)
  have "sint (signed_drop_bit (LENGTH('a) - 1) w) = sint w div 2 ^ (LENGTH('a) - 1)"
    by (simp add: sint_signed_drop_bit_eq drop_bit_eq_div)
  also have "\<dots> = (if sint w < 0 then - 1 else 0)"
  proof (cases "sint w < 0")
    case True
    have "sint w div 2 ^ (LENGTH('a) - 1) = - 1"
      by (rule int_div_pos_eq [where r = "sint w + 2 ^ (LENGTH('a) - 1)"]) (use f True in auto)
    with True show ?thesis by simp
  qed (use f in \<open>simp add: div_pos_pos_trivial\<close>)
  finally have "sint (signed_drop_bit (LENGTH('a) - 1) w) = sint (if sint w < 0 then - 1 else 0 :: 'a word)"
    by simp
  then show ?thesis by (rule signed_word_eqI)
qed

lemma neg_and_1: "- (n AND 1) = (if odd n then - 1 else 0)" for n :: "'a::len word"
  by (simp add: and_one_eq odd_iff_mod_2_eq_one)

text \<open>The decoding with a logical shift, as on unsigned numbers.\<close>

definition unzigzag :: "'a::len word \<Rightarrow> 'a word" where
  "unzigzag n = drop_bit 1 n XOR (- (n AND 1))"

lemma unzigzag_zigzag:
  "unzigzag (push_bit 1 w XOR signed_drop_bit (LENGTH('a) - 1) w) = w" for w :: "'a::len word"
proof -
  define p where "p = push_bit 1 w"
  have p: "bit p k \<longleftrightarrow> 1 \<le> k \<and> k < LENGTH('a) \<and> bit w (k - 1)" for k
    unfolding p_def by (auto simp only: bit_push_bit_iff possible_bit_word)
  have "\<not> bit p 0" unfolding p by simp
  then have "even p" by (simp add: bit_0)
  have z: "p XOR signed_drop_bit (LENGTH('a) - 1) w = (if sint w < 0 then NOT p else p)"
    unfolding signed_drop_all by simp
  have top: "bit w (LENGTH('a) - 1) \<longleftrightarrow> sint w < 0" by (simp add: bit_last_iff)
  have "unzigzag (p XOR signed_drop_bit (LENGTH('a) - 1) w) = w"
  proof (rule bit_word_eqI)
    fix n assume n: "n < LENGTH('a)"
    then have "\<not> Suc n < LENGTH('a) \<Longrightarrow> n = LENGTH('a) - 1" by simp
    with n top p [of "Suc n"] \<open>even p\<close>
    show "bit (unzigzag (p XOR signed_drop_bit (LENGTH('a) - 1) w)) n = bit w n"
      unfolding z unzigzag_def neg_and_1 by (auto simp: bit_simps)
  qed
  then show ?thesis by (simp only: p_def)
qed

text \<open>The code as a number: \<open>0, -1, 1, -2, 2, \<dots>\<close> are \<open>0, 1, 2, 3, 4, \<dots>\<close>.\<close>

definition zigzag_int :: "int \<Rightarrow> int" where
  "zigzag_int z = (if z < 0 then - 2 * z - 1 else 2 * z)"

lemma zigzag_value:
  "uint (push_bit 1 w XOR signed_drop_bit (LENGTH('a) - 1) w) = zigzag_int (sint w)"
  for w :: "'a::len word"
proof -
  have f: "- (2 ^ (LENGTH('a) - 1)) \<le> sint w" "sint w < 2 ^ (LENGTH('a) - 1)"
    using sint_fits [of w] by (simp_all add: fits_signed_def)
  have two: "(2::int) ^ LENGTH('a) = 2 * 2 ^ (LENGTH('a) - 1)"
    by (simp flip: power_Suc)
  have p: "push_bit 1 w = word_of_int (2 * sint w)"
    by (simp add: push_bit_eq_mult mult.commute)
  have "push_bit 1 w XOR signed_drop_bit (LENGTH('a) - 1) w = word_of_int (zigzag_int (sint w))"
    unfolding signed_drop_all p by (simp add: zigzag_int_def not_eq_complement)
  moreover have "0 \<le> zigzag_int (sint w)" "zigzag_int (sint w) < 2 ^ LENGTH('a)"
    using f two by (auto simp: zigzag_int_def)
  ultimately show ?thesis by (simp add: uint_word_of_int)
qed

lemma sint_nonneg_uint: "0 \<le> sint n \<longleftrightarrow> uint n < 2 ^ 63" for n :: i64
proof (cases "uint n < 2 ^ 63")
  case True
  then have "fits_signed 64 (uint n)" by (simp add: fits_signed_def order_trans [of _ 0])
  then have "sint (word_of_int (uint n) :: i64) = uint n" by (intro sint_word_of_int_fits) simp
  with True show ?thesis by simp
next
  case False
  have "uint n < 2 ^ 64" using unsigned_less [of n] by simp
  with False have "fits_signed 64 (uint n - 2 ^ 64)" by (simp add: fits_signed_def)
  then have "sint (word_of_int (uint n - 2 ^ 64) :: i64) = uint n - 2 ^ 64"
    by (intro sint_word_of_int_fits) simp
  moreover have "(word_of_int (uint n - 2 ^ 64) :: i64) = n" by simp
  ultimately have "sint n = uint n - 2 ^ 64" by (simp only:)
  with \<open>uint n < 2 ^ 64\<close> False show ?thesis by linarith
qed

text \<open>With the signed shift the decoding is right exactly when the top bit of the code is 0.\<close>

lemma signed_shift_unzigzag: "zigzag_i64 n = unzigzag n \<longleftrightarrow> 0 \<le> sint n"
proof
  assume "zigzag_i64 n = unzigzag n"
  then have "(signed_drop_bit 1 n XOR - (n AND 1)) XOR - (n AND 1) =
      (drop_bit 1 n XOR - (n AND 1)) XOR - (n AND 1)"
    by (simp only: zigzag_i64_def unzigzag_def)
  then have "signed_drop_bit 1 n = drop_bit 1 n"
    by (simp only: xor.assoc xor_self_eq xor.right_neutral)
  then have "bit (signed_drop_bit 1 n) 63 = bit (drop_bit 1 n) 63" by simp
  then have "\<not> bit n 63" using bit_imp_le_length [of n 64] by (auto simp: bit_simps)
  then show "0 \<le> sint n" using bit_last_iff [of n] by simp
next
  assume "0 \<le> sint n"
  then have top: "\<not> bit n 63" using bit_last_iff [of n] by simp
  have "signed_drop_bit 1 n = drop_bit 1 n"
  proof (rule bit_word_eqI)
    fix k assume "k < LENGTH(64)"
    then consider "k < 63" | "k = 63" by fastforce
    then show "bit (signed_drop_bit 1 n) k = bit (drop_bit 1 n) k"
      using top bit_imp_le_length [of n 64] by cases (auto simp: bit_signed_drop_bit_iff bit_drop_bit_eq)
  qed
  then show "zigzag_i64 n = unzigzag n" by (simp add: zigzag_i64_def unzigzag_def)
qed

text \<open>
  Zigzag of 32-bit numbers is the interleaving of the non-negative and the negative numbers
  and decodes to the number for all of them. Zigzag of 64-bit numbers is the same, but decoding
  by \<^verbatim>\<open>zigzagToI64\<close> shifts the code as a signed number, and gives the number back exactly when
  it lies between \<open>- 2 ^ 62\<close> and \<open>2 ^ 62 - 1\<close>.
\<close>

theorem zigzag_roundtrip:
  "uint (i32_zigzag v) = zigzag_int (sint v) \<and> zigzag_i32 (i32_zigzag v) = v \<and>
   uint (i64_zigzag w) = zigzag_int (sint w) \<and>
   (zigzag_i64 (i64_zigzag w) = w \<longleftrightarrow> - (2 ^ 62) \<le> sint w \<and> sint w < 2 ^ 62)"
proof -
  have z32: "zigzag_i32 n = unzigzag n" for n by (simp add: zigzag_i32_def unzigzag_def)
  have u: "uint (i64_zigzag w) = zigzag_int (sint w)"
    using zigzag_value [of w] by (simp add: i64_zigzag_def)
  have inv: "unzigzag (i64_zigzag w) = w" using unzigzag_zigzag [of w] by (simp add: i64_zigzag_def)
  have "zigzag_i64 (i64_zigzag w) = w \<longleftrightarrow> 0 \<le> sint (i64_zigzag w)"
    using signed_shift_unzigzag [of "i64_zigzag w"] by (simp only: inv)
  also have "\<dots> \<longleftrightarrow> - (2 ^ 62) \<le> sint w \<and> sint w < 2 ^ 62"
    unfolding sint_nonneg_uint u by (auto simp: zigzag_int_def)
  finally show ?thesis
    using u zigzag_value [of v] unzigzag_zigzag [of v] by (simp add: z32 i32_zigzag_def)
qed

section \<open>Varints\<close>

text \<open>The reference: base-128 digits, least significant first, a flag on all but the last.\<close>

fun varint_nat :: "nat \<Rightarrow> nat list" where
  "varint_nat n = (if n < 128 then [n] else (n mod 128 + 128) # varint_nat (n div 128))"

declare varint_nat.simps [simp del]

lemma varint_nat_length: "n < 128 ^ k \<Longrightarrow> 0 < k \<Longrightarrow> length (varint_nat n) \<le> k"
proof (induction n arbitrary: k rule: varint_nat.induct)
  case (1 n)
  show ?case
  proof (cases "n < 128")
    case True
    with 1 show ?thesis by (subst varint_nat.simps) simp
  next
    case False
    with 1(2,3) have "1 < k" by (cases "k = 1") auto
    then obtain j where j: "k = Suc j" "0 < j" by (cases k) auto
    have "n div 128 < 128 ^ j" using 1(2) j by (simp add: less_mult_imp_div_less mult.commute)
    from 1(1) [OF False this j(2)] False j show ?thesis by (subst varint_nat.simps) simp
  qed
qed

lemma small_iff: "n AND NOT 0x7F = 0 \<longleftrightarrow> unat n < 128" for n :: "'a::len word"
proof -
  have "drop_bit 7 n = 0 \<longleftrightarrow> unat (drop_bit 7 n) = 0" by (rule unat_eq_0 [symmetric])
  also have "\<dots> \<longleftrightarrow> unat n < 128" unfolding unat_drop7 by auto
  finally show ?thesis by (simp only: high_bits_zero)
qed

lemmas small_iff_simp = small_iff [simplified]

lemma ucast_of_nat: "ucast n = (of_nat (unat n) :: 'b::len word)" for n :: "'a::len word"
  by (rule bit_word_eqI) (simp add: bit_unsigned_iff bit_of_nat_iff)

lemma and_7F: "n AND 0x7F = take_bit 7 n" for n :: "'a::len word"
proof -
  have "(0x7F :: 'a word) = mask 7" by (simp add: mask_eq_exp_minus_1)
  then show ?thesis by (simp only: take_bit_eq_mask)
qed

lemma more_byte:
  fixes n :: "'a::len word"
  assumes "8 \<le> LENGTH('a)"
  shows "(ucast ((n AND 0x7F) OR 0x80) :: u8) = of_nat (unat n mod 128 + 128)"
proof -
  have "unat (take_bit 7 n) = take_bit 7 (unat n)" by (rule unsigned_take_bit_eq)
  then have "unat (take_bit 7 n) = unat n mod 128" by (simp only: take_bit_eq_mod) simp
  then have low: "ucast (n AND 0x7F) = (of_nat (unat n mod 128) :: u8)"
    by (simp only: and_7F ucast_of_nat)
  have e: "(0x80 :: 'a word) = push_bit 7 1" by simp
  have "ucast (0x80 :: 'a word) = (0x80 :: u8)"
    unfolding e by (rule bit_word_eqI) (use assms in \<open>auto simp: bit_unsigned_iff bit_simps\<close>)
  then have "(ucast ((n AND 0x7F) OR 0x80) :: u8) = ucast (n AND 0x7F) OR 0x80"
    by (simp add: unsigned_or_eq)
  also have "\<dots> = ucast (n AND 0x7F) + 0x80"
  proof (rule disjunctive_add [symmetric])
    fix k
    have e8: "(0x80 :: u8) = push_bit 7 1" by simp
    have "bit (0x80 :: u8) k \<Longrightarrow> k = 7"
      unfolding e8 by (auto simp only: bit_push_bit_iff bit_1_iff)
    then show "\<not> bit (ucast (n AND 0x7F) :: u8) k \<or> \<not> bit (0x80 :: u8) k"
      by (auto simp: bit_unsigned_iff and_7F bit_take_bit_iff)
  qed
  finally show ?thesis by (simp add: low)
qed

lemma varint_loop_eq:
  fixes n :: "'a::len word"
  assumes "8 \<le> LENGTH('a)"
  shows "varint_loop cap n buf =
    (if length buf + length (varint_nat (unat n)) \<le> cap
     then Inr (buf @ map of_nat (varint_nat (unat n))) else Inl Out_Of_Bounds)"
proof (induction cap n buf rule: varint_loop.induct)
  case (1 cap n buf)
  show ?case
  proof (cases "cap \<le> length buf")
    case True
    then have "\<not> length buf + length (varint_nat (unat n)) \<le> cap" by (simp add: varint_nat.simps [of "unat n"])
    with True show ?thesis by (simp add: varint_loop.simps [of cap n buf])
  next
    case fit: False
    show ?thesis
    proof (cases "unat n < 128")
      case True
      with fit show ?thesis
        by (simp add: varint_loop.simps [of cap n buf] varint_nat.simps [of "unat n"] small_iff_simp)
    next
      case False
      have v: "varint_nat (unat n) = (unat n mod 128 + 128) # varint_nat (unat (drop_bit 7 n))"
        using False by (simp add: varint_nat.simps [of "unat n"] unat_drop7)
      have "varint_loop cap n buf = varint_loop cap (drop_bit 7 n) (buf @ [of_nat (unat n mod 128 + 128)])"
        using fit False by (simp add: varint_loop.simps [of cap n buf] small_iff_simp more_byte [OF assms, simplified])
      then show ?thesis using 1 [OF fit] False by (simp add: v small_iff_simp more_byte [OF assms, simplified])
    qed
  qed
qed

text \<open>
  A varint is the base-128 digits of the unsigned number, least significant first, with the
  top bit set on all but the last; it takes 1 to 5 bytes for 32-bit and 1 to 10 for 64-bit
  numbers, so the buffers of that size never overflow.
\<close>

theorem varint_bytes:
  "varint_loop 5 n [] = Inr (map of_nat (varint_nat (unat (n :: u32)))) \<and>
   length (varint_nat (unat n)) \<in> {1..5} \<and>
   varint_loop 10 m [] = Inr (map of_nat (varint_nat (unat (m :: u64)))) \<and>
   length (varint_nat (unat m)) \<in> {1..10}"
proof -
  have "unat n < 128 ^ 5" using unat_bound [of n] by simp
  then have n: "length (varint_nat (unat n)) \<le> 5" by (rule varint_nat_length) simp
  have "unat m < 128 ^ 10" using unat_bound [of m] by simp
  then have m: "length (varint_nat (unat m)) \<le> 10" by (rule varint_nat_length) simp
  have ne: "length (varint_nat k) \<noteq> 0" for k by (subst varint_nat.simps) simp
  show ?thesis
    using n m ne [of "unat n"] ne [of "unat m"] by (simp add: varint_loop_eq Suc_le_eq)
qed

text \<open>One more byte of a varint: seven more bits above those read.\<close>

lemma add_varint_byte:
  fixes a :: u64
  assumes "unat a < 2 ^ s" "s < 64" "unat a + c * 2 ^ s < 2 ^ 64" "c < 128"
  shows "a OR push_bit s (ucast ((of_nat c :: u8) AND 0x7F)) = of_nat (unat a + c * 2 ^ s)"
proof -
  have small: "(ucast ((of_nat c :: u8) AND 0x7F) :: u64) = of_nat c"
  proof -
    have "unat ((of_nat c :: u8) AND 0x7F) = take_bit 7 (unat (of_nat c :: u8))"
      unfolding and_7F by (rule unsigned_take_bit_eq)
    also have "unat (of_nat c :: u8) = c" using assms(4) by (simp only: unat_of_nat) simp
    also have "take_bit 7 c = c" using assms(4) by (simp add: take_bit_nat_eq_self_iff)
    finally show ?thesis by (simp only: ucast_of_nat)
  qed
  have "bit a k \<Longrightarrow> k < s" for k
  proof -
    assume "bit a k"
    then have "bit (unat a) k" using bit_imp_le_length [of a k] by (simp add: bit_unsigned_iff)
    moreover have "take_bit s (unat a) = unat a" using assms(1) by (simp add: take_bit_nat_eq_self_iff)
    ultimately show "k < s" by (metis bit_take_bit_iff)
  qed
  then have "a OR push_bit s (of_nat c) = a + push_bit s (of_nat c)"
    by (intro disjunctive_add [symmetric]) (auto simp: bit_push_bit_iff not_le)
  also have "\<dots> = of_nat (unat a + c * 2 ^ s)" by (simp add: push_bit_eq_mult)
  finally show ?thesis by (simp only: small)
qed

lemma flag_byte:
  assumes "c < 128"
  shows "(of_nat (c + 128) :: u8) AND 0x7F = of_nat c AND 0x7F"
    "(of_nat (c + 128) :: u8) AND 0x80 \<noteq> 0" "(of_nat c :: u8) AND 0x80 = 0"
proof -
  have all: "\<forall>c\<in>set [0..<128]. (of_nat (c + 128) :: u8) AND 0x7F = of_nat c AND 0x7F \<and>
      (of_nat (c + 128) :: u8) AND 0x80 \<noteq> 0 \<and> (of_nat c :: u8) AND 0x80 = 0" by code_simp
  show "(of_nat (c + 128) :: u8) AND 0x7F = of_nat c AND 0x7F"
    "(of_nat (c + 128) :: u8) AND 0x80 \<noteq> 0" "(of_nat c :: u8) AND 0x80 = 0"
    using bspec [OF all, of c] assms by auto
qed

lemma from_varint64_eval:
  assumes "s < 64"
  shows "from_varint64 b (of_nat s) n =
    (let n1 = n OR push_bit s (ucast (b AND 0x7F))
     in if b AND 0x80 = 0 then Inr (False, unzigzag n1) else Inr (True, n1))"
proof -
  have "sint (of_nat s :: i32) = int s"
    using sint_word_of_int_fits [where 'a = 32, of "int s"] assms by (simp add: fits_signed_def)
  moreover have "unat (of_nat s :: i32) = s" using assms by (simp only: unat_of_nat) simp
  ultimately show ?thesis using assms by (simp add: from_varint64_def unzigzag_def Let_def)
qed

lemma l_fromVarint64_eval:
  assumes "lua_api_ok api" "s < 64"
  shows "l_fromVarint64 api [push_uint api (b :: u8), L_Number (num_of_int api (int s)), L_Long n] =
    (case from_varint64 b (of_nat s) n of
       Inl e \<Rightarrow> Inl (C_Fault e)
     | Inr (cont, r) \<Rightarrow> Inr [L_Number (num_of_int api (if cont then 1 else 0)), L_Long r])"
proof -
  have "num_trunc api (num_of_int api (int s)) = Some (int s)"
    using assms by (simp add: lua_api_ok_def)
  then have s: "num_to_signed api (num_of_int api (int s)) = Inr (of_nat s :: i32)"
    using assms(2) by (simp add: num_to_signed_def s_result_def fits_signed_def)
  have b: "num_to_unsigned api (num_of_int api (uint b)) = Inr b"
    using unsigned_less [of b] by (simp add: num_to_unsigned_def num_of_uint [OF assms(1)])
  show ?thesis
    using s b by (auto simp: l_fromVarint64_def check_number_def arg_def push_uint_def checklong_def
        pushlong_def split: sum.splits)
qed

lemma bunpack_byte:
  "l_bunpack api [L_String ''C'', L_String (bytes_str [b])] = Inr [push_uint api (b :: u8)]"
  "l_bunpack api [L_String ''c'', L_String (bytes_str [b])] = Inr [push_int api b]"
  by (simp_all add: l_bunpack_def check_string_def arg_def sized_def)

lemma read_varint64_C:
  assumes "lua_api_ok api" "unat a < 2 ^ s" "s < 64" "unat a + m * 2 ^ s < 2 ^ 64"
  shows "read_varint64 api (CHR ''C'') (map of_nat (varint_nat m) @ rest) s (L_Long a) =
    Some (Inr (L_Long (unzigzag (of_nat (unat a + m * 2 ^ s))), rest))"
  using assms(2-4)
proof (induction m arbitrary: a s rule: varint_nat.induct)
  case (1 m)
  have t0: "num_trunc api (num_of_int api 0) = Some 0" "num_trunc api (num_of_int api 1) = Some 1"
    using assms(1) by (simp_all add: lua_api_ok_def)
  show ?case
  proof (cases "m < 128")
    case True
    have "from_varint64 (of_nat m) (of_nat s) a = Inr (False, unzigzag (of_nat (unat a + m * 2 ^ s)))"
      using add_varint_byte [OF 1(2-4) True] flag_byte(3) [OF True]
      by (simp only: from_varint64_eval [OF 1(3)] Let_def refl if_True)
    with True show ?thesis
      by (simp add: varint_nat.simps [of m] bunpack_byte l_fromVarint64_eval [OF assms(1) 1(3)] t0)
  next
    case False
    define c where "c = m mod 128"
    have c: "c < 128" "m = c + 128 * (m div 128)" by (simp_all add: c_def)
    have mult: "m * 2 ^ s = c * 2 ^ s + (m div 128) * 2 ^ (s + 7)"
      by (subst c(2)) (simp add: power_add algebra_simps)
    have small: "unat a + c * 2 ^ s < 2 ^ 64" using 1(4) mult by simp
    define a' where "a' = (of_nat (unat a + c * 2 ^ s) :: u64)"
    have a': "unat a' = unat a + c * 2 ^ s" unfolding a'_def using small by (simp only: unat_of_nat) simp
    have "c * 2 ^ s \<le> 127 * 2 ^ s" using c(1) by (intro mult_right_mono) simp_all
    moreover have "(2::nat) ^ (s + 7) = 128 * 2 ^ s" by (simp add: power_add)
    ultimately have lt: "unat a' < 2 ^ (s + 7)" using 1(2) unfolding a' by linarith
    have total: "unat a' + (m div 128) * 2 ^ (s + 7) = unat a + m * 2 ^ s" using mult a' by simp
    have "1 \<le> m div 128" using False by (simp add: div_greater_zero_iff)
    then have "2 ^ (s + 7) \<le> (m div 128) * 2 ^ (s + 7)" by simp
    then have "(2::nat) ^ (s + 7) < 2 ^ 64" using total 1(4) by linarith
    then have s7: "s + 7 < 64" by (simp only: power_strict_increasing_iff)
    have "from_varint64 (of_nat (c + 128)) (of_nat s) a = Inr (True, a')"
      using add_varint_byte [OF 1(2,3) small c(1)] flag_byte(1,2) [OF c(1)]
      by (simp only: from_varint64_eval [OF 1(3)] Let_def if_False a'_def)
    then have step: "l_fromVarint64 api [push_uint api (of_nat (c + 128) :: u8), L_Number (num_of_int api (int s)), L_Long a]
        = Inr [L_Number (num_of_int api 1), L_Long a']"
      by (simp only: l_fromVarint64_eval [OF assms(1) 1(3)]) simp
    have v: "varint_nat m = (c + 128) # varint_nat (m div 128)"
      using False by (simp add: varint_nat.simps [of m] c_def)
    have "read_varint64 api (CHR ''C'') (map of_nat (varint_nat m) @ rest) s (L_Long a) =
        read_varint64 api (CHR ''C'') (map of_nat (varint_nat (m div 128)) @ rest) (s + 7) (L_Long a')"
      using step by (simp add: v bunpack_byte t0 del: of_nat_add)
    also have "\<dots> = Some (Inr (L_Long (unzigzag (of_nat (unat a' + (m div 128) * 2 ^ (s + 7)))), rest))"
      by (rule 1(1) [OF False lt s7]) (use total 1(4) in simp)
    finally show ?thesis unfolding total .
  qed
qed

text \<open>
  A long written by \<^verbatim>\<open>i64ToZigzag\<close> and \<^verbatim>\<open>toVarint64\<close> is read back by
  \<^verbatim>\<open>fromVarint64\<close>, fed the bytes one at a time as unsigned numbers, for all \<open>2 ^ 64\<close> values,
  leaving what follows it unread.
\<close>

theorem varint64_roundtrip:
  assumes "lua_api_ok api"
  shows "\<exists>bs. l_i64ToZigzag api [L_Long w] = Inr [L_Long (i64_zigzag w)] \<and>
    l_toVarint64 api [L_Long (i64_zigzag w)] = Inr [L_String (bytes_str bs)] \<and>
    read_varint64 api (CHR ''C'') (bs @ rest) 0 (L_Long 0) = Some (Inr (L_Long w, rest))"
proof -
  let ?z = "i64_zigzag w"
  let ?bs = "map of_nat (varint_nat (unat ?z)) :: u8 list"
  have "unat ?z < 128 ^ 10" using unat_bound [of ?z] by simp
  then have "length (varint_nat (unat ?z)) \<le> 10" by (rule varint_nat_length) simp
  then have "varint_loop 10 ?z [] = Inr ?bs" by (simp add: varint_loop_eq)
  moreover have "read_varint64 api (CHR ''C'') (?bs @ rest) 0 (L_Long 0) = Some (Inr (L_Long (unzigzag ?z), rest))"
    using read_varint64_C [OF assms, of 0 0 "unat ?z" rest] unat_bound [of ?z] by simp
  moreover have "unzigzag ?z = w" using unzigzag_zigzag [of w] by (simp add: i64_zigzag_def)
  ultimately show ?thesis
    by (intro exI [of _ ?bs]) (simp add: l_i64ToZigzag_def l_toVarint64_def checklong_def arg_def pushlong_def)
qed

theorem varint64_roundtrip_witness:
  "\<exists>bs. l_toVarint64 int_lua [L_Long (i64_zigzag (- 3000000000))] = Inr [L_String (bytes_str bs)] \<and>
     read_varint64 int_lua (CHR ''C'') (bs @ [7]) 0 (L_Long 0) = Some (Inr (L_Long (- 3000000000), [7]))"
  using varint64_roundtrip [OF int_lua_ok, of "- 3000000000" "[7]"] by blast

text \<open>
  The protocol unpacks the bytes with the code \<^verbatim>\<open>c\<close>, as signed numbers: every byte but the
  last of a varint is then negative, and its conversion to an unsigned byte is undefined. So
  reading any number of more than one byte runs into undefined behaviour at its first byte.
\<close>

theorem signed_byte_varint_fault:
  assumes "lua_api_ok api" "128 \<le> unat (z :: u64)"
  shows "read_varint64 api (CHR ''c'') (map of_nat (varint_nat (unat z))) 0 data =
    Some (Inl (C_Fault Signed_Overflow))"
proof -
  define c where "c = unat z mod 128"
  have c: "c < 128" by (simp add: c_def)
  have v: "varint_nat (unat z) = (c + 128) # varint_nat (unat z div 128)"
    using assms(2) by (simp add: varint_nat.simps [of "unat z"] c_def)
  have all: "\<forall>c\<in>set [0..<128]. sint (of_nat (c + 128) :: u8) < 0" by code_simp
  then have neg: "sint (of_nat (c + 128) :: u8) < 0" using c by auto
  have "num_to_unsigned api (num_of_int api (sint (of_nat (c + 128) :: u8))) =
      (Inl (C_Fault Signed_Overflow) :: lua_error + u8)"
    using neg by (simp add: num_to_unsigned_def num_of_sint [OF assms(1)] del: of_nat_add)
  then have "l_fromVarint64 api [push_int api (of_nat (c + 128) :: u8), n, data] =
      Inl (C_Fault Signed_Overflow)" for n
    by (simp add: l_fromVarint64_def check_number_def arg_def push_int_def del: of_nat_add)
  then show ?thesis by (simp add: v bunpack_byte del: of_nat_add)
qed

theorem signed_byte_varint_fault_witness:
  "read_varint64 int_lua (CHR ''c'') (map of_nat (varint_nat (unat (300 :: u64)))) 0 (L_Long 0) =
     Some (Inl (C_Fault Signed_Overflow))"
  using signed_byte_varint_fault [OF int_lua_ok, of 300] by simp

end
