(* ===== verification/Usocket.thy ===== *)
theory Usocket
  imports Coz_Prelude
begin

text \<open>
  The socket layer of the Lua Thrift bindings, \<^verbatim>\<open>usocket.c\<close> and \<^verbatim>\<open>socket.h\<close>. The
  operating system is a list of replies: each system call takes the next one and is recorded with
  it in a trace. A computation whose replies run out has no result (\<open>None\<close>): the call never
  returns. A reply carries any \<^verbatim>\<open>errno\<close>, so the values the code reads after a call that did
  not set it are covered. Time is in microseconds; \<open>strerror\<close> is an argument.
\<close>

section \<open>System calls\<close>

datatype syscall =
    Sys_Time
  | Sys_Select int bool bool int
  | Sys_Socket
  | Sys_Close int
  | Sys_Bind int string nat
  | Sys_Getsockname int
  | Sys_Accept int
  | Sys_Listen int int
  | Sys_Connect int string nat
  | Sys_Send int "u8 list"
  | Sys_Recv int nat
  | Sys_Getfl int
  | Sys_Setfl int "32 word"
  | Sys_Resolve string
  | Sys_Sleep int

text \<open>\<open>r_readable\<close>: the read set after \<^verbatim>\<open>select\<close>. \<open>r_host\<close> and \<open>r_port\<close>: an address.\<close>

record reply =
  r_ret :: int
  r_errno :: int
  r_bytes :: "u8 list"
  r_readable :: bool
  r_host :: string
  r_port :: u16

record os =
  trace :: "(syscall \<times> reply) list"
  replies :: "reply list"

definition sys_call :: "syscall \<Rightarrow> os \<Rightarrow> (reply \<times> os) option" where
  "sys_call c s =
     (case replies s of
        [] \<Rightarrow> None
      | r # rs \<Rightarrow> Some (r, s\<lparr>trace := trace s @ [(c, r)], replies := rs\<rparr>))"

text \<open>Sequencing; a computation that never returns stays so.\<close>

definition obind :: "('a \<times> os) option \<Rightarrow> ('a \<Rightarrow> os \<Rightarrow> ('b \<times> os) option) \<Rightarrow> ('b \<times> os) option" where
  "obind m f = (case m of None \<Rightarrow> None | Some (x, s) \<Rightarrow> f x s)"

lemma obind_Some_iff: "obind m f = Some y \<longleftrightarrow> (\<exists>x s. m = Some (x, s) \<and> f x s = Some y)"
  by (auto simp: obind_def split: option.splits)

lemma obind_cong [fundef_cong]:
  "m = m' \<Longrightarrow> (\<And>x s. m' = Some (x, s) \<Longrightarrow> f x s = f' x s) \<Longrightarrow> obind m f = obind m' f'"
  by (auto simp: obind_def split: option.splits)

lemma sys_call_shorter: "sys_call c s = Some (r, s') \<Longrightarrow> length (replies s') < length (replies s)"
  by (auto simp: sys_call_def split: list.splits)

definition SUCCESS :: int where "SUCCESS = 0"
definition TIMEOUT :: int where "TIMEOUT = - 1"
definition CLOSED :: int where "CLOSED = - 2"
definition EINTR :: int where "EINTR = 4"
definition EAGAIN :: int where "EAGAIN = 11"
definition ECONNABORTED :: int where "ECONNABORTED = 103"
definition EINPROGRESS :: int where "EINPROGRESS = 115"
definition O_NONBLOCK :: "32 word" where "O_NONBLOCK = 0x800"

lemmas err_defs = SUCCESS_def TIMEOUT_def CLOSED_def EINTR_def EAGAIN_def ECONNABORTED_def
  EINPROGRESS_def

section \<open>Waiting\<close>

datatype wait_mode = Wait_R | Wait_W | Wait_C

definition wait_reads :: "wait_mode \<Rightarrow> bool" where "wait_reads m \<longleftrightarrow> m \<noteq> Wait_W"
definition wait_writes :: "wait_mode \<Rightarrow> bool" where "wait_writes m \<longleftrightarrow> m \<noteq> Wait_R"

text \<open>The loop yields the last \<^verbatim>\<open>select\<close> result, its \<^verbatim>\<open>errno\<close> and whether the socket is readable.\<close>

function wait_loop ::
  "int \<Rightarrow> wait_mode \<Rightarrow> int \<Rightarrow> int \<times> int \<times> bool \<Rightarrow> os \<Rightarrow> ((int \<times> int \<times> bool) \<times> os) option" where
  "wait_loop sock mode end_time prev s =
     obind (sys_call Sys_Time s) (\<lambda>now s1.
       let t = end_time - r_ret now
       in if t < 0 then Some ((fst prev, fst (snd prev), wait_reads mode), s1)
          else obind (sys_call (Sys_Select sock (wait_reads mode) (wait_writes mode) t) s1) (\<lambda>r s2.
                 if r_ret r = - 1 \<and> r_errno r = EINTR
                 then wait_loop sock mode end_time (r_ret r, r_errno r, r_readable r) s2
                 else Some ((r_ret r, r_errno r, r_readable r), s2)))"
  by pat_completeness auto
termination
  by (relation "measure (\<lambda>(_, _, _, _, s). length (replies s))")
    (auto dest!: sys_call_shorter)

declare wait_loop.simps [simp del]

text \<open>\<^verbatim>\<open>timeout/1000\<close> is an integer division: a timeout below a second is no time at all.\<close>

definition socket_wait :: "int \<Rightarrow> wait_mode \<Rightarrow> int \<Rightarrow> os \<Rightarrow> (int \<times> os) option" where
  "socket_wait sock mode timeout s =
     (if timeout = 0 then Some (TIMEOUT, s)
      else obind (sys_call Sys_Time s) (\<lambda>now s1.
        obind (wait_loop sock mode (r_ret now + c_div timeout 1000 * 1000000) (0, 0, False) s1)
          (\<lambda>(ret, errno, readable) s2.
            if ret = - 1 then Some (errno, s2)
            else if ret = 0 then Some (TIMEOUT, s2)
            else if readable then
              obind (sys_call (Sys_Recv sock 0) s2) (\<lambda>r s3.
                if r_ret r \<noteq> 0 then Some (r_errno r, s3) else Some (SUCCESS, s3))
            else Some (SUCCESS, s2))))"

section \<open>General\<close>

definition socket_setblocking :: "int \<Rightarrow> os \<Rightarrow> (int \<times> os) option" where
  "socket_setblocking sock s =
     obind (sys_call (Sys_Getfl sock) s) (\<lambda>f s1.
     obind (sys_call (Sys_Setfl sock (word_of_int (r_ret f) AND NOT O_NONBLOCK)) s1) (\<lambda>r s2.
       Some (if r_ret r \<noteq> - 1 then SUCCESS else r_errno r, s2)))"

definition socket_setnonblocking :: "int \<Rightarrow> os \<Rightarrow> (int \<times> os) option" where
  "socket_setnonblocking sock s =
     obind (sys_call (Sys_Getfl sock) s) (\<lambda>f s1.
     obind (sys_call (Sys_Setfl sock (word_of_int (r_ret f) OR O_NONBLOCK)) s1) (\<lambda>r s2.
       Some (if r_ret r \<noteq> - 1 then SUCCESS else r_errno r, s2)))"

text \<open>The error and the new value of \<open>*sock\<close>.\<close>

definition socket_create :: "os \<Rightarrow> ((int \<times> int) \<times> os) option" where
  "socket_create s =
     obind (sys_call Sys_Socket s) (\<lambda>r s1.
       Some ((if 0 < r_ret r then SUCCESS else r_errno r, r_ret r), s1))"

definition socket_destroy :: "int \<Rightarrow> os \<Rightarrow> ((int \<times> int) \<times> os) option" where
  "socket_destroy sock s =
     (if 0 < sock then
        obind (socket_setblocking sock s) (\<lambda>_ s1.
        obind (sys_call (Sys_Close sock) s1) (\<lambda>_ s2. Some ((SUCCESS, - 1), s2)))
      else Some ((SUCCESS, sock), s))"

definition socket_bind :: "int \<Rightarrow> string \<Rightarrow> nat \<Rightarrow> os \<Rightarrow> (int \<times> os) option" where
  "socket_bind sock host port s =
     obind (socket_setblocking sock s) (\<lambda>ret s1.
       if ret \<noteq> SUCCESS then Some (ret, s1)
       else obind (sys_call (Sys_Bind sock host port) s1) (\<lambda>b s2.
              let ret1 = (if r_ret b \<noteq> 0 then r_errno b else ret)
              in obind (socket_setnonblocking sock s2) (\<lambda>ret2 s3.
                   Some (if ret1 = SUCCESS then ret2 else ret1, s3))))"

definition socket_get_info :: "int \<Rightarrow> os \<Rightarrow> ((int \<times> string \<times> u16) \<times> os) option" where
  "socket_get_info sock s =
     obind (sys_call (Sys_Getsockname sock) s) (\<lambda>r s1.
       if r_ret r = 0 then Some ((SUCCESS, r_host r, r_port r), s1)
       else Some ((r_errno r, [], 0), s1))"

section \<open>Server\<close>

function accept_loop :: "int \<Rightarrow> os \<Rightarrow> ((int \<times> int) \<times> os) option" where
  "accept_loop sock s =
     obind (sys_call (Sys_Accept sock) s) (\<lambda>r s1.
       if 0 < r_ret r then Some ((SUCCESS, r_ret r), s1)
       else if r_errno r = EINTR then accept_loop sock s1
       else Some ((r_errno r, r_ret r), s1))"
  by pat_completeness auto
termination
  by (relation "measure (\<lambda>(_, s). length (replies s))") (auto dest!: sys_call_shorter)

declare accept_loop.simps [simp del]

text \<open>The error and the new value of \<open>*client\<close>, which the caller leaves unset.\<close>

definition socket_accept :: "int \<Rightarrow> int \<Rightarrow> int \<Rightarrow> os \<Rightarrow> ((int \<times> int) \<times> os) option" where
  "socket_accept sock client timeout s =
     (if sock < 0 then Some ((CLOSED, client), s)
      else obind (accept_loop sock s) (\<lambda>(err, client1) s1.
        if err = SUCCESS \<and> 0 < client1 then Some ((SUCCESS, client1), s1)
        else if err = EAGAIN \<or> err = ECONNABORTED then
          obind (socket_wait sock Wait_R timeout s1) (\<lambda>e s2. Some ((e, client1), s2))
        else Some ((err, client1), s1)))"

definition socket_listen :: "int \<Rightarrow> int \<Rightarrow> os \<Rightarrow> (int \<times> os) option" where
  "socket_listen sock backlog s =
     obind (socket_setblocking sock s) (\<lambda>ret s1.
       if ret \<noteq> SUCCESS then Some (ret, s1)
       else obind (sys_call (Sys_Listen sock backlog) s1) (\<lambda>b s2.
              let ret1 = (if r_ret b \<noteq> 0 then r_errno b else ret)
              in obind (socket_setnonblocking sock s2) (\<lambda>ret2 s3.
                   Some (if ret1 = SUCCESS then ret2 else ret1, s3))))"

section \<open>Client\<close>

text \<open>The first component: whether the connection was made at once.\<close>

function connect_loop :: "int \<Rightarrow> string \<Rightarrow> nat \<Rightarrow> os \<Rightarrow> ((bool \<times> int) \<times> os) option" where
  "connect_loop sock host port s =
     obind (sys_call (Sys_Connect sock host port) s) (\<lambda>r s1.
       if r_ret r = 0 then Some ((True, SUCCESS), s1)
       else if r_errno r = EINTR then connect_loop sock host port s1
       else Some ((False, r_errno r), s1))"
  by pat_completeness auto
termination
  by (relation "measure (\<lambda>(_, _, _, s). length (replies s))") (auto dest!: sys_call_shorter)

declare connect_loop.simps [simp del]

definition socket_connect :: "int \<Rightarrow> string \<Rightarrow> nat \<Rightarrow> int \<Rightarrow> os \<Rightarrow> (int \<times> os) option" where
  "socket_connect sock host port timeout s =
     (if sock < 0 then Some (CLOSED, s)
      else obind (connect_loop sock host port s) (\<lambda>(ok, err) s1.
        if ok then Some (SUCCESS, s1)
        else if err \<noteq> EINPROGRESS \<and> err \<noteq> EAGAIN then Some (err, s1)
        else socket_wait sock Wait_C timeout s1))"

function send_loop :: "int \<Rightarrow> u8 list \<Rightarrow> os \<Rightarrow> ((bool \<times> int) \<times> os) option" where
  "send_loop sock data s =
     obind (sys_call (Sys_Send sock data) s) (\<lambda>r s1.
       if 0 < r_ret r then Some ((True, SUCCESS), s1)
       else if r_errno r = EINTR then send_loop sock data s1
       else Some ((False, r_errno r), s1))"
  by pat_completeness auto
termination
  by (relation "measure (\<lambda>(_, _, s). length (replies s))") (auto dest!: sys_call_shorter)

declare send_loop.simps [simp del]

definition socket_send :: "int \<Rightarrow> u8 list \<Rightarrow> int \<Rightarrow> os \<Rightarrow> (int \<times> os) option" where
  "socket_send sock data timeout s =
     (if sock < 0 then Some (CLOSED, s)
      else obind (send_loop sock data s) (\<lambda>(ok, err) s1.
        if ok then Some (SUCCESS, s1)
        else if err = EAGAIN then socket_wait sock Wait_W timeout s1
        else Some (err, s1)))"

function recv_loop :: "int \<Rightarrow> nat \<Rightarrow> os \<Rightarrow> ((int \<times> u8 list) \<times> os) option" where
  "recv_loop sock len s =
     obind (sys_call (Sys_Recv sock len) s) (\<lambda>r s1.
       if 0 < r_ret r then Some ((SUCCESS, r_bytes r), s1)
       else if r_ret r = 0 then Some ((CLOSED, []), s1)
       else if r_errno r = EINTR then recv_loop sock len s1
       else Some ((r_errno r, []), s1))"
  by pat_completeness auto
termination
  by (relation "measure (\<lambda>(_, _, s). length (replies s))") (auto dest!: sys_call_shorter)

declare recv_loop.simps [simp del]

text \<open>The error and the bytes received, none after a wait.\<close>

definition socket_recv :: "int \<Rightarrow> nat \<Rightarrow> int \<Rightarrow> os \<Rightarrow> ((int \<times> u8 list) \<times> os) option" where
  "socket_recv sock len timeout s =
     (if sock < 0 then Some ((CLOSED, []), s)
      else obind (recv_loop sock len s) (\<lambda>(err, bytes) s1.
        if err = EAGAIN then
          obind (socket_wait sock Wait_R timeout s1) (\<lambda>e s2. Some ((e, []), s2))
        else Some ((err, bytes), s1)))"

section \<open>TCP\<close>

definition error_str :: "(int \<Rightarrow> string) \<Rightarrow> int \<Rightarrow> string option" where
  "error_str strerror err =
     (if err = SUCCESS then None
      else if err = TIMEOUT then Some ''Timeout''
      else if err = CLOSED then Some ''Connection Closed''
      else Some (strerror err))"

definition tcp_create :: "(int \<Rightarrow> string) \<Rightarrow> os \<Rightarrow> ((string option \<times> int) \<times> os) option" where
  "tcp_create strerror s =
     obind (socket_create s) (\<lambda>(err, sock) s1. Some ((error_str strerror err, sock), s1))"

definition tcp_destroy :: "(int \<Rightarrow> string) \<Rightarrow> int \<Rightarrow> os \<Rightarrow> ((string option \<times> int) \<times> os) option" where
  "tcp_destroy strerror sock s =
     obind (socket_destroy sock s) (\<lambda>(err, sock1) s1. Some ((error_str strerror err, sock1), s1))"

text \<open>
  The address of a host: \<^verbatim>\<open>*\<close> is any address; otherwise \<^verbatim>\<open>inet_aton\<close> and
  \<^verbatim>\<open>gethostbyname\<close>, as one call that fails with the message of \<open>hstrerror\<close>.
\<close>

definition tcp_address ::
  "(int \<Rightarrow> string) \<Rightarrow> string \<Rightarrow> os \<Rightarrow> ((string + string) \<times> os) option" where
  "tcp_address hstrerror host s =
     (if host = ''*'' then Some (Inr ''0.0.0.0'', s)
      else obind (sys_call (Sys_Resolve host) s) (\<lambda>r s1.
        if r_ret r = 0 then Some (Inr (r_host r), s1) else Some (Inl (hstrerror (r_errno r)), s1)))"

definition tcp_bind ::
  "(int \<Rightarrow> string) \<Rightarrow> (int \<Rightarrow> string) \<Rightarrow> int \<Rightarrow> string \<Rightarrow> nat \<Rightarrow> os \<Rightarrow> (string option \<times> os) option" where
  "tcp_bind strerror hstrerror sock host port s =
     obind (tcp_address hstrerror host s) (\<lambda>a s1.
       case a of
         Inl msg \<Rightarrow> Some (Some msg, s1)
       | Inr addr \<Rightarrow> obind (socket_bind sock addr port s1) (\<lambda>err s2. Some (error_str strerror err, s2)))"

definition tcp_listen :: "(int \<Rightarrow> string) \<Rightarrow> int \<Rightarrow> int \<Rightarrow> os \<Rightarrow> (string option \<times> os) option" where
  "tcp_listen strerror sock backlog s =
     obind (socket_listen sock backlog s) (\<lambda>err s1. Some (error_str strerror err, s1))"

definition tcp_accept ::
  "(int \<Rightarrow> string) \<Rightarrow> int \<Rightarrow> int \<Rightarrow> int \<Rightarrow> os \<Rightarrow> ((string option \<times> int) \<times> os) option" where
  "tcp_accept strerror sock client timeout s =
     obind (socket_accept sock client timeout s) (\<lambda>(err, client1) s1.
       Some ((error_str strerror err, client1), s1))"

definition tcp_connect ::
  "(int \<Rightarrow> string) \<Rightarrow> (int \<Rightarrow> string) \<Rightarrow> int \<Rightarrow> string \<Rightarrow> nat \<Rightarrow> int \<Rightarrow> os \<Rightarrow> (string option \<times> os) option"
where
  "tcp_connect strerror hstrerror sock host port timeout s =
     obind (tcp_address hstrerror host s) (\<lambda>a s1.
       case a of
         Inl msg \<Rightarrow> Some (Some msg, s1)
       | Inr addr \<Rightarrow> obind (socket_connect sock addr port timeout s1) (\<lambda>err s2.
           Some (error_str strerror err, s2)))"

definition WRITE_STEP :: nat where "WRITE_STEP = 8192"

text \<open>The position moves on by the size of the piece, whatever part of it was taken.\<close>

function send_pieces :: "int \<Rightarrow> u8 list \<Rightarrow> nat \<Rightarrow> int \<Rightarrow> os \<Rightarrow> (int \<times> os) option" where
  "send_pieces sock data put timeout s =
     (let w_len = length data;
          step = (if WRITE_STEP < w_len - put then WRITE_STEP else w_len - put)
      in obind (socket_send sock (take step (drop put data)) timeout s) (\<lambda>err s1.
           if err = SUCCESS \<and> put + step < w_len then send_pieces sock data (put + step) timeout s1
           else Some (err, s1)))"
  by pat_completeness auto
termination
  by (relation "measure (\<lambda>(_, data, put, _, _). length data - put)")
    (auto simp: WRITE_STEP_def split: if_splits)

declare send_pieces.simps [simp del]

definition tcp_send ::
  "(int \<Rightarrow> string) \<Rightarrow> int \<Rightarrow> u8 list \<Rightarrow> int \<Rightarrow> os \<Rightarrow> (string option \<times> os) option" where
  "tcp_send strerror sock data timeout s =
     (if data = [] then Some (None, s)
      else obind (send_pieces sock data 0 timeout s) (\<lambda>err s1. Some (error_str strerror err, s1)))"

definition tcp_raw_receive ::
  "(int \<Rightarrow> string) \<Rightarrow> int \<Rightarrow> nat \<Rightarrow> int \<Rightarrow> os \<Rightarrow> ((string option \<times> u8 list) \<times> os) option" where
  "tcp_raw_receive strerror sock r_len timeout s =
     obind (socket_recv sock r_len timeout s) (\<lambda>(err, bytes) s1.
       Some ((error_str strerror err, bytes), s1))"

section \<open>What was sent\<close>

text \<open>The bytes the operating system took, and a trace in which it took every piece whole.\<close>

definition accepted :: "(syscall \<times> reply) list \<Rightarrow> u8 list" where
  "accepted tr = concat (map (\<lambda>(c, r).
     case c of Sys_Send sock d \<Rightarrow> take (nat (r_ret r)) d | _ \<Rightarrow> []) tr)"

definition whole_writes :: "(syscall \<times> reply) list \<Rightarrow> bool" where
  "whole_writes tr \<longleftrightarrow> (\<forall>(c, r)\<in>set tr.
     case c of Sys_Send sock d \<Rightarrow>
         (0 < r_ret r \<and> r_ret r = int (length d)) \<or>
         (r_ret r \<le> 0 \<and> r_errno r \<noteq> EAGAIN \<and> r_errno r \<noteq> SUCCESS)
     | _ \<Rightarrow> True)"

lemma accepted_append [simp]: "accepted (a @ b) = accepted a @ accepted b"
  by (simp add: accepted_def)

lemma whole_writes_append [simp]: "whole_writes (a @ b) \<longleftrightarrow> whole_writes a \<and> whole_writes b"
  by (auto simp: whole_writes_def)

lemma sys_call_trace:
  "sys_call c s = Some (r, s') \<longleftrightarrow>
     (\<exists>rs. replies s = r # rs \<and> s' = s\<lparr>trace := trace s @ [(c, r)], replies := rs\<rparr>)"
  by (auto simp: sys_call_def split: list.splits)

lemma error_str_None [simp]: "error_str strerror err = None \<longleftrightarrow> err = SUCCESS"
  by (simp add: error_str_def)

text \<open>Waiting only adds to the trace, and neither sends nor takes any byte.\<close>

fun quiet_call :: "syscall \<Rightarrow> bool" where
  "quiet_call Sys_Time = True"
| "quiet_call (Sys_Select fd rd wr t) = True"
| "quiet_call (Sys_Recv fd n) = (n = 0)"
| "quiet_call c = False"

definition quiet :: "(syscall \<times> reply) list \<Rightarrow> bool" where
  "quiet tr \<longleftrightarrow> (\<forall>e\<in>set tr. quiet_call (fst e))"

lemma quiet_simps [simp]: "quiet []" "quiet (e # tr) \<longleftrightarrow> quiet_call (fst e) \<and> quiet tr"
  "quiet (tr @ tr') \<longleftrightarrow> quiet tr \<and> quiet tr'"
  by (auto simp: quiet_def)

lemma wait_loop_trace:
  "wait_loop sock mode end_time prev s = Some (x, s') \<Longrightarrow>
   \<exists>tr. trace s' = trace s @ tr \<and> quiet tr \<and> length (replies s') < length (replies s)"
proof (induction sock mode end_time prev s arbitrary: x s' rule: wait_loop.induct)
  case (1 sock mode end_time prev s)
  from 1(2) obtain now s1 where t: "sys_call Sys_Time s = Some (now, s1)"
    and rest: "(if end_time - r_ret now < 0 then Some ((fst prev, fst (snd prev), wait_reads mode), s1)
      else obind (sys_call (Sys_Select sock (wait_reads mode) (wait_writes mode) (end_time - r_ret now)) s1)
        (\<lambda>r s2. if r_ret r = - 1 \<and> r_errno r = EINTR
           then wait_loop sock mode end_time (r_ret r, r_errno r, r_readable r) s2
           else Some ((r_ret r, r_errno r, r_readable r), s2))) = Some (x, s')"
    by (subst (asm) wait_loop.simps) (auto simp: obind_Some_iff Let_def)
  show ?case
  proof (cases "end_time - r_ret now < 0")
    case True
    with t rest show ?thesis by (auto simp: sys_call_trace)
  next
    case False
    with rest obtain r s2
      where c: "sys_call (Sys_Select sock (wait_reads mode) (wait_writes mode) (end_time - r_ret now)) s1 = Some (r, s2)"
      and k: "(if r_ret r = - 1 \<and> r_errno r = EINTR
           then wait_loop sock mode end_time (r_ret r, r_errno r, r_readable r) s2
           else Some ((r_ret r, r_errno r, r_readable r), s2)) = Some (x, s')"
      by (auto simp: obind_Some_iff)
    show ?thesis
    proof (cases "r_ret r = - 1 \<and> r_errno r = EINTR")
      case True
      with k have "wait_loop sock mode end_time (r_ret r, r_errno r, r_readable r) s2 = Some (x, s')" by simp
      from 1(1) [OF t refl False c True this] t c show ?thesis by (auto simp: sys_call_trace)
    next
      case False
      with k t c show ?thesis by (auto simp: sys_call_trace)
    qed
  qed
qed

lemma socket_wait_trace:
  "socket_wait sock mode timeout s = Some (x, s') \<Longrightarrow>
   \<exists>tr. trace s' = trace s @ tr \<and> quiet tr \<and> length (replies s') \<le> length (replies s)"
  by (auto simp: socket_wait_def obind_Some_iff sys_call_trace dest!: wait_loop_trace split: if_splits)

lemma send_loop_whole:
  "send_loop sock data s = Some ((ok, err), s') \<Longrightarrow> whole_writes (trace s') \<Longrightarrow>
   whole_writes (trace s) \<and> (ok \<longrightarrow> accepted (trace s') = accepted (trace s) @ data) \<and>
   (\<not> ok \<longrightarrow> err \<noteq> EAGAIN \<and> err \<noteq> SUCCESS)"
proof (induction sock data s arbitrary: ok err s' rule: send_loop.induct)
  case (1 sock data s)
  from 1(2) obtain r s1 where c: "sys_call (Sys_Send sock data) s = Some (r, s1)"
    by (subst (asm) send_loop.simps) (auto simp: obind_Some_iff)
  then have tr: "trace s1 = trace s @ [(Sys_Send sock data, r)]" by (auto simp: sys_call_trace)
  have step: "send_loop sock data s =
      (if 0 < r_ret r then Some ((True, SUCCESS), s1)
       else if r_errno r = EINTR then send_loop sock data s1
       else Some ((False, r_errno r), s1))"
    by (subst send_loop.simps) (simp add: c obind_def)
  consider "0 < r_ret r" | "\<not> 0 < r_ret r" "r_errno r = EINTR" | "\<not> 0 < r_ret r" "r_errno r \<noteq> EINTR"
    by blast
  then show ?case
  proof cases
    case 1
    then have "\<not> r_ret r \<le> 0" by simp
    with 1 step "1.prems" tr show ?thesis by (auto simp: accepted_def whole_writes_def)
  next
    case 2
    then have "send_loop sock data s1 = Some ((ok, err), s')" using step "1.prems"(1) by simp
    from "1.IH" [OF c 2 this "1.prems"(2)] 2 show ?thesis
      by (auto simp: tr) (auto simp: accepted_def)
  next
    case 3
    with step "1.prems" tr show ?thesis by (auto simp: whole_writes_def)
  qed
qed

lemma send_pieces_whole:
  "send_pieces sock data put timeout s = Some (SUCCESS, s') \<Longrightarrow> whole_writes (trace s') \<Longrightarrow> put \<le> length data \<Longrightarrow>
   accepted (trace s') = accepted (trace s) @ drop put data \<and> whole_writes (trace s)"
proof (induction sock data put timeout s arbitrary: s' rule: send_pieces.induct)
  case (1 sock data put timeout s)
  define step where "step = (if WRITE_STEP < length data - put then WRITE_STEP else length data - put)"
  have step_le: "put + step \<le> length data" using "1.prems"(3) by (auto simp: step_def)
  have unfold: "send_pieces sock data put timeout s =
      obind (socket_send sock (take step (drop put data)) timeout s) (\<lambda>err s1.
        if err = SUCCESS \<and> put + step < length data then send_pieces sock data (put + step) timeout s1
        else Some (err, s1))"
    by (subst send_pieces.simps) (simp only: step_def [symmetric] Let_def)
  with "1.prems"(1) obtain err s1
    where send: "socket_send sock (take step (drop put data)) timeout s = Some (err, s1)"
      and rest: "(if err = SUCCESS \<and> put + step < length data
          then send_pieces sock data (put + step) timeout s1 else Some (err, s1)) = Some (SUCCESS, s')"
    by (auto simp: obind_Some_iff)
  have err: "err = SUCCESS" using rest by (auto split: if_splits)
  have after: "whole_writes (trace s1) \<and> accepted (trace s') = accepted (trace s1) @ drop (put + step) data"
  proof (cases "put + step < length data")
    case True
    have "send_pieces sock data (put + step) timeout s1 = Some (SUCCESS, s')"
      using rest err True by simp
    from "1.IH" [OF refl step_def _ _ this "1.prems"(2) step_le] send err True show ?thesis by simp
  next
    case False
    with rest err step_le "1.prems"(2) show ?thesis by auto
  qed
  have nonneg: "\<not> sock < 0"
    using send err by (auto simp: socket_send_def err_defs)
  with send obtain ok e s2 where loop: "send_loop sock (take step (drop put data)) s = Some ((ok, e), s2)"
    and wait: "(if ok then Some (SUCCESS, s2) else if e = EAGAIN then socket_wait sock Wait_W timeout s2
        else Some (e, s2)) = Some (err, s1)"
    by (auto simp: socket_send_def obind_Some_iff)
  show ?case
  proof (cases ok)
    case True
    with wait have "s1 = s2" by simp
    with send_loop_whole [OF loop] after True show ?thesis
      by (auto simp: append_assoc) (metis append_take_drop_id drop_drop add.commute)
  next
    case False
    have "whole_writes (trace s2)"
    proof (cases "e = EAGAIN")
      case True
      with wait False have "socket_wait sock Wait_W timeout s2 = Some (err, s1)" by simp
      from socket_wait_trace [OF this] after show ?thesis by auto
    qed (use wait False after in simp)
    from send_loop_whole [OF loop this] False wait err show ?thesis by simp
  qed
qed

text \<open>
  When the operating system takes every piece whole, a \<^verbatim>\<open>tcp_send\<close> that reports success has
  sent exactly the data, in order, through interruptions; no byte is lost, added or sent twice.
\<close>

theorem tcp_send_sends_data:
  assumes "tcp_send strerror sock data timeout \<lparr>trace = [], replies = rs\<rparr> = Some (None, s')"
    "whole_writes (trace s')"
  shows "accepted (trace s') = data"
proof (cases "data = []")
  case True
  with assms(1) show ?thesis by (auto simp: tcp_send_def accepted_def)
next
  case False
  with assms(1) have "send_pieces sock data 0 timeout \<lparr>trace = [], replies = rs\<rparr> = Some (SUCCESS, s')"
    by (auto simp: tcp_send_def obind_Some_iff)
  from send_pieces_whole [OF this assms(2)] show ?thesis by (simp add: accepted_def)
qed

definition reply_of :: "int \<Rightarrow> int \<Rightarrow> reply" where
  "reply_of ret err = \<lparr>r_ret = ret, r_errno = err, r_bytes = [], r_readable = False, r_host = [], r_port = 0\<rparr>"

theorem tcp_send_sends_data_witness:
  "\<exists>s'. tcp_send (\<lambda>_. []) 3 [10, 20, 30] 0 \<lparr>trace = [], replies = [reply_of (- 1) 4, reply_of 3 0]\<rparr>
      = Some (None, s') \<and> accepted (trace s') = [10, 20, 30]"
proof -
  let ?s = "\<lparr>trace = [(Sys_Send 3 [10, 20, 30], reply_of (- 1) 4), (Sys_Send 3 [10, 20, 30], reply_of 3 0)],
    replies = []\<rparr>"
  have run: "tcp_send (\<lambda>_. []) 3 [10, 20, 30] 0
      \<lparr>trace = [], replies = [reply_of (- 1) 4, reply_of 3 0]\<rparr> = Some (None, ?s)"
    by (simp add: tcp_send_def send_pieces.simps socket_send_def send_loop.simps obind_def sys_call_def
        reply_of_def WRITE_STEP_def err_defs error_str_def)
  moreover have "whole_writes (trace ?s)" by (simp add: whole_writes_def reply_of_def err_defs)
  ultimately show ?thesis using tcp_send_sends_data [OF run] by auto
qed

text \<open>
  When the system takes only part of the last piece, or says the socket is not ready and then
  ready, \<^verbatim>\<open>tcp_send\<close> reports success all the same, and the rest of the piece is never sent.
\<close>

theorem tcp_send_short_write_lost:
  assumes "0 \<le> sock" "data \<noteq> []" "length data \<le> WRITE_STEP" "0 < r_ret r"
  shows "tcp_send strerror sock data timeout \<lparr>trace = [], replies = r # rs\<rparr> =
      Some (None, \<lparr>trace = [(Sys_Send sock data, r)], replies = rs\<rparr>) \<and>
    accepted [(Sys_Send sock data, r)] = take (nat (r_ret r)) data"
  using assms
  by (simp add: tcp_send_def send_pieces.simps [of sock data 0] socket_send_def send_loop.simps [of sock data]
      obind_def sys_call_def accepted_def Let_def)

theorem tcp_send_short_write_lost_witness:
  "accepted [(Sys_Send 3 [1, 2, 3, 4, 5], reply_of 2 0)] = [1, 2] \<and>
   tcp_send (\<lambda>_. []) 3 [1, 2, 3, 4, 5] 0 \<lparr>trace = [], replies = [reply_of 2 0]\<rparr> =
     Some (None, \<lparr>trace = [(Sys_Send 3 [1, 2, 3, 4, 5], reply_of 2 0)], replies = []\<rparr>)"
  using tcp_send_short_write_lost [of 3 "[1, 2, 3, 4, 5]" "reply_of 2 0" "\<lambda>_. []" 0 "[]"]
  by (simp add: reply_of_def WRITE_STEP_def)

text \<open>
  A timeout below one second is no time: as soon as the clock has moved between its two
  readings, the wait reports a timeout without ever looking at the socket.
\<close>

theorem short_timeout_is_zero:
  assumes "timeout \<noteq> 0" "\<bar>timeout\<bar> < 1000" "r_ret a < r_ret b"
  shows "socket_wait sock mode timeout \<lparr>trace = [], replies = a # b # rs\<rparr> =
    Some (TIMEOUT, \<lparr>trace = [(Sys_Time, a), (Sys_Time, b)], replies = rs\<rparr>)"
proof -
  have "c_div timeout 1000 = 0"
    using assms(2) by (rule c_div_small)
  then show ?thesis using assms
    by (simp add: socket_wait_def wait_loop.simps [of sock mode] obind_def sys_call_def)
qed

theorem short_timeout_is_zero_witness:
  "socket_wait 3 Wait_R 500 \<lparr>trace = [], replies = [reply_of 7000000 0, reply_of 7000001 0]\<rparr> =
     Some (TIMEOUT, \<lparr>trace = [(Sys_Time, reply_of 7000000 0), (Sys_Time, reply_of 7000001 0)], replies = []\<rparr>)"
  using short_timeout_is_zero [of 500 "reply_of 7000000 0" "reply_of 7000001 0" 3 Wait_R "[]"]
  by (simp add: reply_of_def)

text \<open>Destroying a socket leaves it closed, and destroying it again does nothing.\<close>

lemma socket_destroy_again:
  "socket_destroy sock s = Some ((err, sock'), s') \<Longrightarrow>
   err = SUCCESS \<and> sock' \<le> 0 \<and> socket_destroy sock' s' = Some ((SUCCESS, sock'), s')"
  by (auto simp: socket_destroy_def obind_Some_iff split: if_splits)

end
