(* ===== verification/Luasocket.thy ===== *)
theory Luasocket
  imports Usocket
begin

text \<open>
  The socket objects of \<^verbatim>\<open>luasocket.c\<close>. A handle is an index into the list of all socket
  userdata ever made; its metatable is one of three types, which say what methods it has. Each
  function is called with the socket as its first argument; an argument of the wrong type raises
  a Lua error. The operating system is that of \<^verbatim>\<open>usocket.c\<close>.
\<close>

section \<open>Socket objects and their types\<close>

datatype sock_type = Generic | Client | Server

datatype sock_group = Socket_Any | Socket_Conn

record t_tcp =
  tcp_sock :: int
  tcp_timeout :: int
  tcp_type :: sock_type

record lua_sockets =
  socks :: "t_tcp list"
  sys :: os

datatype lua_out =
    Out_True
  | Out_Error string
  | Out_Sock nat
  | Out_Bytes "u8 list"
  | Out_Info string int
  | Out_Nothing
  | Out_Raise nat

datatype sock_method = M_Destroy | M_Settimeout | M_Getsockinfo | M_Listen | M_Connect | M_Accept
  | M_Send | M_Receive

definition methods_generic :: "(string \<times> sock_method) list" where
  "methods_generic = [(''destroy'', M_Destroy), (''settimeout'', M_Settimeout),
     (''getsockinfo'', M_Getsockinfo), (''listen'', M_Listen), (''connect'', M_Connect)]"

definition methods_server :: "(string \<times> sock_method) list" where
  "methods_server = [(''destroy'', M_Destroy), (''getsockinfo'', M_Getsockinfo),
     (''accept'', M_Accept), (''send'', M_Send), (''receive'', M_Receive)]"

definition methods_client :: "(string \<times> sock_method) list" where
  "methods_client = [(''destroy'', M_Destroy), (''settimeout'', M_Settimeout),
     (''getsockinfo'', M_Getsockinfo), (''send'', M_Send), (''receive'', M_Receive)]"

record metatable =
  mt_groups :: "sock_group list"
  mt_index :: "string \<Rightarrow> sock_method option"

definition add_to_group ::
  "sock_type \<Rightarrow> sock_group \<Rightarrow> (sock_type \<Rightarrow> metatable) \<Rightarrow> sock_type \<Rightarrow> metatable" where
  "add_to_group ty g mts = mts(ty := (mts ty)\<lparr>mt_groups := g # mt_groups (mts ty)\<rparr>)"

definition sock_set_methods ::
  "sock_type \<Rightarrow> (string \<times> sock_method) list \<Rightarrow> (sock_type \<Rightarrow> metatable) \<Rightarrow> sock_type \<Rightarrow> metatable" where
  "sock_set_methods ty ms mts = mts(ty := (mts ty)\<lparr>mt_index := map_of (rev ms)\<rparr>)"

definition luaopen_libluasocket :: "sock_type \<Rightarrow> metatable" where
  "luaopen_libluasocket =
     sock_set_methods Server methods_server (sock_set_methods Client methods_client (
     sock_set_methods Generic methods_generic (
     add_to_group Server Socket_Conn (add_to_group Client Socket_Conn (
     add_to_group Server Socket_Any (add_to_group Client Socket_Any (add_to_group Generic Socket_Any
       (\<lambda>_. \<lparr>mt_groups = [], mt_index = (\<lambda>_. None)\<rparr>))))))))"

text \<open>\<^verbatim>\<open>checkgroup\<close> looks the group up in the metatable; \<^verbatim>\<open>checktype\<close> compares the type.\<close>

definition checkgroup :: "lua_sockets \<Rightarrow> nat \<Rightarrow> sock_group \<Rightarrow> t_tcp option" where
  "checkgroup w h g =
     (if h < length (socks w) \<and> g \<in> set (mt_groups (luaopen_libluasocket (tcp_type (socks w ! h))))
      then Some (socks w ! h) else None)"

definition checktype :: "lua_sockets \<Rightarrow> nat \<Rightarrow> sock_type \<Rightarrow> t_tcp option" where
  "checktype w h ty =
     (if h < length (socks w) \<and> tcp_type (socks w ! h) = ty then Some (socks w ! h) else None)"

definition set_sock :: "nat \<Rightarrow> t_tcp \<Rightarrow> lua_sockets \<Rightarrow> lua_sockets" where
  "set_sock h t w = w\<lparr>socks := (socks w)[h := t]\<rparr>"

definition new_sock :: "t_tcp \<Rightarrow> lua_sockets \<Rightarrow> lua_out \<times> lua_sockets" where
  "new_sock t w = (Out_Sock (length (socks w)), w\<lparr>socks := socks w @ [t]\<rparr>)"

definition check_return :: "string option \<Rightarrow> lua_out" where
  "check_return err = (case err of None \<Rightarrow> Out_True | Some msg \<Rightarrow> Out_Error msg)"

text \<open>A step on the operating system inside the state of the sockets.\<close>

definition lbind ::
  "('a \<times> os) option \<Rightarrow> lua_sockets \<Rightarrow> ('a \<Rightarrow> lua_sockets \<Rightarrow> (lua_out \<times> lua_sockets) option)
     \<Rightarrow> (lua_out \<times> lua_sockets) option" where
  "lbind m w f = (case m of None \<Rightarrow> None | Some (x, s) \<Rightarrow> f x (w\<lparr>sys := s\<rparr>))"

lemma lbind_Some_iff: "lbind m w f = Some y \<longleftrightarrow> (\<exists>x s. m = Some (x, s) \<and> f x (w\<lparr>sys := s\<rparr>) = Some y)"
  by (auto simp: lbind_def split: option.splits)

lemma lbind_cong [fundef_cong]:
  "m = m' \<Longrightarrow> w = w' \<Longrightarrow> (\<And>x s. m' = Some (x, s) \<Longrightarrow> f x (w'\<lparr>sys := s\<rparr>) = f' x (w'\<lparr>sys := s\<rparr>)) \<Longrightarrow>
   lbind m w f = lbind m' w' f'"
  by (auto simp: lbind_def split: option.splits)

text \<open>The two message functions of the C library.\<close>

record messages =
  strerror :: "int \<Rightarrow> string"
  hstrerror :: "int \<Rightarrow> string"

section \<open>General\<close>

definition l_socket_create ::
  "messages \<Rightarrow> string option \<Rightarrow> u16 \<Rightarrow> lua_sockets \<Rightarrow> (lua_out \<times> lua_sockets) option" where
  "l_socket_create msgs host port w =
     (let addr = (case host of None \<Rightarrow> ''localhost'' | Some a \<Rightarrow> a)
      in lbind (tcp_create (strerror msgs) (sys w)) w (\<lambda>(err, sock) w1.
           case err of
             Some msg \<Rightarrow> Some (check_return err, w1)
           | None \<Rightarrow>
               lbind (tcp_bind (strerror msgs) (hstrerror msgs) sock addr (unat port) (sys w1)) w1
                 (\<lambda>err2 w2.
                   case err2 of
                     Some msg \<Rightarrow> lbind (tcp_destroy (strerror msgs) sock (sys w2)) w2
                       (\<lambda>_ w3. Some (check_return err2, w3))
                   | None \<Rightarrow> lbind (socket_setnonblocking sock (sys w2)) w2 (\<lambda>_ w3.
                       Some (new_sock \<lparr>tcp_sock = sock, tcp_timeout = 0, tcp_type = Generic\<rparr> w3)))))"

definition l_socket_destroy :: "messages \<Rightarrow> nat \<Rightarrow> lua_sockets \<Rightarrow> (lua_out \<times> lua_sockets) option" where
  "l_socket_destroy msgs h w =
     (case checkgroup w h Socket_Any of
        None \<Rightarrow> Some (Out_Raise 1, w)
      | Some tcp \<Rightarrow> lbind (tcp_destroy (strerror msgs) (tcp_sock tcp) (sys w)) w (\<lambda>(err, sock) w1.
          Some (check_return err, set_sock h (tcp\<lparr>tcp_sock := sock\<rparr>) w1)))"

definition l_socket_send ::
  "messages \<Rightarrow> nat \<Rightarrow> nat \<Rightarrow> u8 list \<Rightarrow> lua_sockets \<Rightarrow> (lua_out \<times> lua_sockets) option" where
  "l_socket_send msgs self h data w =
     (case (checkgroup w self Socket_Conn, checkgroup w h Socket_Conn) of
        (None, _) \<Rightarrow> Some (Out_Raise 1, w)
      | (_, None) \<Rightarrow> Some (Out_Raise 2, w)
      | (Some _, Some tcp) \<Rightarrow>
          lbind (tcp_send (strerror msgs) (tcp_sock tcp) data (tcp_timeout tcp) (sys w)) w
            (\<lambda>err w1. Some (check_return err, w1)))"

definition LUA_READ_STEP :: nat where "LUA_READ_STEP = 8192"

lemma recv_loop_shorter:
  "recv_loop sock len s = Some (x, s') \<Longrightarrow> length (replies s') < length (replies s)"
proof (induction sock len s arbitrary: x s' rule: recv_loop.induct)
  case (1 sock len s)
  from 1(2) obtain r s1 where c: "sys_call (Sys_Recv sock len) s = Some (r, s1)"
    by (subst (asm) recv_loop.simps) (auto simp: obind_Some_iff)
  have step: "recv_loop sock len s =
      (if 0 < r_ret r then Some ((SUCCESS, r_bytes r), s1)
       else if r_ret r = 0 then Some ((CLOSED, []), s1)
       else if r_errno r = EINTR then recv_loop sock len s1
       else Some ((r_errno r, []), s1))"
    by (subst recv_loop.simps) (simp add: c obind_def)
  from 1(1) [OF c] 1(2) sys_call_shorter [OF c] show ?case
    unfolding step by (fastforce split: if_splits)
qed

lemma tcp_raw_receive_shorter:
  assumes "tcp_raw_receive se sock len timeout s = Some ((None, bytes), s')"
  shows "length (replies s') < length (replies s)"
  using assms
  by (auto simp: tcp_raw_receive_def socket_recv_def obind_Some_iff err_defs split: if_splits
      dest!: recv_loop_shorter socket_wait_trace)

text \<open>The loop of \<^verbatim>\<open>l_socket_receive\<close>: the error, or all the bytes got.\<close>

function receive_loop ::
  "(int \<Rightarrow> string) \<Rightarrow> int \<Rightarrow> int \<Rightarrow> nat \<Rightarrow> u8 list \<Rightarrow> os \<Rightarrow> ((string option \<times> u8 list) \<times> os) option"
where
  "receive_loop se sock timeout len b s =
     (let got = length b;
          step = (if LUA_READ_STEP < len - got then LUA_READ_STEP else len - got)
      in obind (tcp_raw_receive se sock step timeout s) (\<lambda>r s1.
           case r of
             (Some msg, bytes) \<Rightarrow> Some ((Some msg, b), s1)
           | (None, bytes) \<Rightarrow>
               if length (b @ bytes) < len then receive_loop se sock timeout len (b @ bytes) s1
               else Some ((None, b @ bytes), s1)))"
  by pat_completeness auto
termination
  by (relation "measure (\<lambda>(_, _, _, _, _, s). length (replies s))")
    (auto dest: tcp_raw_receive_shorter)

declare receive_loop.simps [simp del]

definition l_socket_receive ::
  "messages \<Rightarrow> nat \<Rightarrow> nat \<Rightarrow> nat \<Rightarrow> lua_sockets \<Rightarrow> (lua_out \<times> lua_sockets) option" where
  "l_socket_receive msgs self h len w =
     (case (checkgroup w self Socket_Conn, checkgroup w h Socket_Conn) of
        (None, _) \<Rightarrow> Some (Out_Raise 1, w)
      | (_, None) \<Rightarrow> Some (Out_Raise 2, w)
      | (Some me, Some tcp) \<Rightarrow>
          lbind (receive_loop (strerror msgs) (tcp_sock tcp) (tcp_timeout me) len [] (sys w)) w
            (\<lambda>(err, bytes) w1. Some (case err of Some msg \<Rightarrow> Out_Error msg | None \<Rightarrow> Out_Bytes bytes, w1)))"

definition l_socket_settimeout :: "nat \<Rightarrow> int \<Rightarrow> lua_sockets \<Rightarrow> (lua_out \<times> lua_sockets) option" where
  "l_socket_settimeout h timeout w =
     (case checkgroup w h Socket_Any of
        None \<Rightarrow> Some (Out_Raise 1, w)
      | Some tcp \<Rightarrow> Some (Out_True, set_sock h (tcp\<lparr>tcp_timeout := timeout\<rparr>) w))"

text \<open>The port goes through a signed 16-bit variable.\<close>

definition l_socket_getsockinfo :: "nat \<Rightarrow> lua_sockets \<Rightarrow> (lua_out \<times> lua_sockets) option" where
  "l_socket_getsockinfo h w =
     (case checkgroup w h Socket_Any of
        None \<Rightarrow> Some (Out_Raise 1, w)
      | Some tcp \<Rightarrow> lbind (socket_get_info (tcp_sock tcp) (sys w)) w (\<lambda>(err, host, port) w1.
          Some (if err = SUCCESS then Out_Info host (sint port) else Out_Nothing, w1)))"

section \<open>Server\<close>

definition l_socket_accept :: "messages \<Rightarrow> nat \<Rightarrow> lua_sockets \<Rightarrow> (lua_out \<times> lua_sockets) option" where
  "l_socket_accept msgs h w =
     (case checktype w h Server of
        None \<Rightarrow> Some (Out_Raise 1, w)
      | Some self \<Rightarrow>
          lbind (tcp_accept (strerror msgs) (tcp_sock self) 0 (tcp_timeout self) (sys w)) w
            (\<lambda>(err, sock) w1.
              case err of
                Some msg \<Rightarrow> Some (check_return err, w1)
              | None \<Rightarrow> lbind (socket_setnonblocking sock (sys w1)) w1 (\<lambda>_ w2.
                  Some (new_sock \<lparr>tcp_sock = sock, tcp_timeout = tcp_timeout self, tcp_type = Client\<rparr> w2))))"

definition l_socket_listen :: "messages \<Rightarrow> nat \<Rightarrow> lua_sockets \<Rightarrow> (lua_out \<times> lua_sockets) option" where
  "l_socket_listen msgs h w =
     (case checktype w h Generic of
        None \<Rightarrow> Some (Out_Raise 1, w)
      | Some tcp \<Rightarrow> lbind (tcp_listen (strerror msgs) (tcp_sock tcp) 10 (sys w)) w (\<lambda>err w1.
          Some (check_return err,
            if err = None then set_sock h (tcp\<lparr>tcp_type := Server\<rparr>) w1 else w1)))"

section \<open>Client\<close>

lemma tcp_create_shorter:
  "tcp_create se s = Some (x, s') \<Longrightarrow> length (replies s') < length (replies s)"
  by (auto simp: tcp_create_def socket_create_def obind_Some_iff dest!: sys_call_shorter)

lemma connect_loop_shorter:
  "connect_loop sock host port s = Some (x, s') \<Longrightarrow> length (replies s') < length (replies s)"
proof (induction sock host port s arbitrary: x s' rule: connect_loop.induct)
  case (1 sock host port s)
  from 1(2) obtain r s1 where c: "sys_call (Sys_Connect sock host port) s = Some (r, s1)"
    by (subst (asm) connect_loop.simps) (auto simp: obind_Some_iff)
  have step: "connect_loop sock host port s =
      (if r_ret r = 0 then Some ((True, SUCCESS), s1)
       else if r_errno r = EINTR then connect_loop sock host port s1
       else Some ((False, r_errno r), s1))"
    by (subst connect_loop.simps) (simp add: c obind_def)
  from 1(1) [OF c] 1(2) sys_call_shorter [OF c] show ?case
    unfolding step by (fastforce split: if_splits)
qed

lemma tcp_connect_shorter:
  assumes "tcp_connect se he sock host port timeout s = Some (x, s')"
  shows "length (replies s') \<le> length (replies s)"
proof -
  have conn: "length (replies s2) \<le> length (replies s1)"
    if "socket_connect sock addr port timeout s1 = Some (e, s2)" for addr s1 e s2
    using that by (auto simp: socket_connect_def obind_Some_iff split: if_splits
        dest!: connect_loop_shorter socket_wait_trace)
  have addr: "length (replies s1) \<le> length (replies s)"
    if "tcp_address he host s = Some (a, s1)" for a s1
    using that by (auto simp: tcp_address_def obind_Some_iff split: if_splits dest!: sys_call_shorter)
  from assms obtain a s1 where a: "tcp_address he host s = Some (a, s1)"
    and k: "(case a of Inl msg \<Rightarrow> Some (Some msg, s1)
      | Inr ad \<Rightarrow> obind (socket_connect sock ad port timeout s1) (\<lambda>err s2. Some (error_str se err, s2)))
      = Some (x, s')"
    by (auto simp: tcp_connect_def obind_Some_iff)
  show ?thesis
  proof (cases a)
    case (Inl msg)
    with k addr [OF a] show ?thesis by simp
  next
    case (Inr ad)
    with k addr [OF a] show ?thesis by (auto simp: obind_Some_iff dest!: conn)
  qed
qed

lemma tcp_destroy_shorter:
  "tcp_destroy se sock s = Some (x, s') \<Longrightarrow> length (replies s') \<le> length (replies s)"
  by (auto simp: tcp_destroy_def socket_destroy_def socket_setblocking_def obind_Some_iff
      split: if_splits dest!: sys_call_shorter)

text \<open>The loop of \<^verbatim>\<open>create_and_connect\<close>: the last error, or the connected descriptor.\<close>

function connect_until ::
  "messages \<Rightarrow> string \<Rightarrow> u16 \<Rightarrow> int \<Rightarrow> int \<Rightarrow> os \<Rightarrow> ((string option \<times> int) \<times> os) option" where
  "connect_until msgs host port timeout end_time s =
     obind (tcp_create (strerror msgs) s) (\<lambda>r s1. case r of (err, sock) \<Rightarrow>
       obind (case err of
                Some msg \<Rightarrow> Some ((err, sock), s1)
              | None \<Rightarrow>
                  obind (tcp_connect (strerror msgs) (hstrerror msgs) sock host (unat port) timeout s1)
                    (\<lambda>err2 s2.
                      case err2 of
                        None \<Rightarrow> Some ((None, sock), s2)
                      | Some msg \<Rightarrow>
                          obind (tcp_destroy (strerror msgs) sock s2) (\<lambda>_ s3.
                          obind (sys_call (Sys_Sleep 100000) s3) (\<lambda>_ s4. Some ((err2, sock), s4)))))
         (\<lambda>r1 s5. case r1 of (err1, sock1) \<Rightarrow>
           (case err1 of
             None \<Rightarrow> Some ((None, sock1), s5)
           | Some msg \<Rightarrow> obind (sys_call Sys_Time s5) (\<lambda>now s6.
               if r_ret now < end_time then connect_until msgs host port timeout end_time s6
               else Some ((err1, sock1), s6)))))"
  by pat_completeness auto
termination
  by (relation "measure (\<lambda>(_, _, _, _, _, s). length (replies s))")
    (auto simp: obind_Some_iff split: option.splits
      dest!: tcp_create_shorter tcp_connect_shorter tcp_destroy_shorter sys_call_shorter)

declare connect_until.simps [simp del]

definition l_socket_create_and_connect ::
  "messages \<Rightarrow> string \<Rightarrow> u16 \<Rightarrow> int \<Rightarrow> lua_sockets \<Rightarrow> (lua_out \<times> lua_sockets) option" where
  "l_socket_create_and_connect msgs host port timeout w =
     lbind (sys_call Sys_Time (sys w)) w (\<lambda>now w1.
     lbind (connect_until msgs host port timeout (r_ret now + c_div timeout 1000 * 1000000) (sys w1)) w1
       (\<lambda>(err, sock) w2.
         case err of
           Some msg \<Rightarrow> Some (check_return err, w2)
         | None \<Rightarrow> lbind (socket_setnonblocking sock (sys w2)) w2 (\<lambda>_ w3.
             Some (new_sock \<lparr>tcp_sock = sock, tcp_timeout = timeout, tcp_type = Client\<rparr> w3))))"

definition l_socket_connect ::
  "messages \<Rightarrow> nat \<Rightarrow> string \<Rightarrow> u16 \<Rightarrow> lua_sockets \<Rightarrow> (lua_out \<times> lua_sockets) option" where
  "l_socket_connect msgs h host port w =
     (case checktype w h Generic of
        None \<Rightarrow> Some (Out_Raise 1, w)
      | Some tcp \<Rightarrow>
          lbind (tcp_connect (strerror msgs) (hstrerror msgs) (tcp_sock tcp) host (unat port)
                   (tcp_timeout tcp) (sys w)) w (\<lambda>err w1.
            Some (check_return err,
              if err = None then set_sock h (tcp\<lparr>tcp_type := Client\<rparr>) w1 else w1)))"

section \<open>Calls from Lua\<close>

datatype lua_call =
    Call_Create "string option" u16
  | Call_Create_And_Connect string u16 int
  | Call_Destroy nat
  | Call_Settimeout nat int
  | Call_Getsockinfo nat
  | Call_Listen nat
  | Call_Connect nat string u16
  | Call_Accept nat
  | Call_Send nat nat "u8 list"
  | Call_Receive nat nat nat

primrec lua_exec :: "messages \<Rightarrow> lua_call \<Rightarrow> lua_sockets \<Rightarrow> (lua_out \<times> lua_sockets) option" where
  "lua_exec msgs (Call_Create host port) w = l_socket_create msgs host port w"
| "lua_exec msgs (Call_Create_And_Connect host port t) w = l_socket_create_and_connect msgs host port t w"
| "lua_exec msgs (Call_Destroy h) w = l_socket_destroy msgs h w"
| "lua_exec msgs (Call_Settimeout h t) w = l_socket_settimeout h t w"
| "lua_exec msgs (Call_Getsockinfo h) w = l_socket_getsockinfo h w"
| "lua_exec msgs (Call_Listen h) w = l_socket_listen msgs h w"
| "lua_exec msgs (Call_Connect h host port) w = l_socket_connect msgs h host port w"
| "lua_exec msgs (Call_Accept h) w = l_socket_accept msgs h w"
| "lua_exec msgs (Call_Send self h data) w = l_socket_send msgs self h data w"
| "lua_exec msgs (Call_Receive self h len) w = l_socket_receive msgs self h len w"

text \<open>The programs of calls, each of which returned.\<close>

inductive lua_runs :: "messages \<Rightarrow> lua_sockets \<Rightarrow> lua_sockets \<Rightarrow> bool" for msgs where
  lua_start: "lua_runs msgs w w"
| lua_call: "lua_runs msgs w w1 \<Longrightarrow> lua_exec msgs c w1 = Some (out, w2) \<Longrightarrow> lua_runs msgs w w2"

section \<open>Socket types\<close>

lemma checkgroup_iff:
  "checkgroup w h g = Some t \<longleftrightarrow> h < length (socks w) \<and> t = socks w ! h \<and>
     (g = Socket_Conn \<longrightarrow> tcp_type t \<noteq> Generic)"
  by (cases g; cases "tcp_type (socks w ! h)")
    (auto simp: checkgroup_def luaopen_libluasocket_def add_to_group_def sock_set_methods_def)

text \<open>How one socket, and the sockets as a whole, may change.\<close>

definition sock_evolves :: "t_tcp \<Rightarrow> t_tcp \<Rightarrow> bool" where
  "sock_evolves a b \<longleftrightarrow> (tcp_type a \<noteq> Generic \<longrightarrow> tcp_type b = tcp_type a) \<and>
     (tcp_sock b = tcp_sock a \<or> tcp_sock b = - 1)"

definition world_evolves :: "lua_sockets \<Rightarrow> lua_sockets \<Rightarrow> bool" where
  "world_evolves w w' \<longleftrightarrow> length (socks w) \<le> length (socks w') \<and>
     (\<forall>h<length (socks w). sock_evolves (socks w ! h) (socks w' ! h))"

lemma sock_evolves_trans: "sock_evolves a b \<Longrightarrow> sock_evolves b c \<Longrightarrow> sock_evolves a c"
  by (auto simp: sock_evolves_def)

lemma world_evolves_refl [simp]: "world_evolves w w" "world_evolves w (w\<lparr>sys := s\<rparr>)"
  by (simp_all add: world_evolves_def sock_evolves_def)

lemma world_evolves_trans: "world_evolves w w1 \<Longrightarrow> world_evolves w1 w2 \<Longrightarrow> world_evolves w w2"
  unfolding world_evolves_def using sock_evolves_trans by (meson order_less_le_trans order_trans)

lemma world_evolves_new [simp]: "world_evolves w (snd (new_sock t (w\<lparr>sys := s\<rparr>)))"
  by (simp add: world_evolves_def new_sock_def nth_append sock_evolves_def)

lemma nth_update: "j < length xs \<Longrightarrow> xs[i := x] ! j = (if i = j then x else xs ! j)"
  by (cases "i = j") simp_all

lemma world_evolves_set:
  "sock_evolves (socks w ! h) t \<Longrightarrow> world_evolves w (set_sock h t (w\<lparr>sys := s\<rparr>))"
  "sock_evolves (socks w ! h) t \<Longrightarrow> world_evolves w (set_sock h t w)"
  by (simp_all add: world_evolves_def set_sock_def nth_update sock_evolves_def)

lemma destroyed_sock:
  "tcp_destroy se sock s = Some ((err, sock'), s') \<Longrightarrow> sock' = sock \<or> sock' = - 1"
  by (auto simp: tcp_destroy_def socket_destroy_def obind_Some_iff split: if_splits)

lemmas l_socket_defs = l_socket_create_def l_socket_create_and_connect_def l_socket_destroy_def
  l_socket_settimeout_def l_socket_getsockinfo_def l_socket_listen_def l_socket_connect_def
  l_socket_accept_def l_socket_send_def l_socket_receive_def

lemma new_sock_eq: "new_sock t w = (out, w') \<Longrightarrow> w' = snd (new_sock t w)" by simp

lemma lua_exec_evolves:
  assumes "lua_exec msgs c w = Some (out, w')"
  shows "world_evolves w w'"
proof (cases c)
  case (Call_Create host port)
  with assms have "\<exists>t s. w' = w\<lparr>sys := s\<rparr> \<or> w' = snd (new_sock t (w\<lparr>sys := s\<rparr>))"
    by (auto simp: l_socket_defs Let_def lbind_Some_iff new_sock_def split: option.splits)
  then show ?thesis by auto
next
  case (Call_Create_And_Connect host port t)
  with assms have "\<exists>t s. w' = w\<lparr>sys := s\<rparr> \<or> w' = snd (new_sock t (w\<lparr>sys := s\<rparr>))"
    by (auto simp: l_socket_defs lbind_Some_iff new_sock_def split: option.splits)
  then show ?thesis by auto
next
  case (Call_Accept h)
  with assms have "\<exists>t s. w' = w\<lparr>sys := s\<rparr> \<or> w' = snd (new_sock t (w\<lparr>sys := s\<rparr>))"
    by (auto simp: l_socket_defs lbind_Some_iff new_sock_def split: option.splits)
       (metis lua_sockets.surjective lua_sockets.update_convs(2) old.unit.exhaust)+
  then show ?thesis by auto
next
  case (Call_Destroy h)
  with assms show ?thesis
    by (auto simp: l_socket_defs lbind_Some_iff checkgroup_iff sock_evolves_def split: option.splits
        dest!: destroyed_sock intro!: world_evolves_set)
next
  case (Call_Settimeout h t)
  with assms show ?thesis
    by (auto simp: l_socket_defs checkgroup_iff sock_evolves_def split: option.splits
        intro!: world_evolves_set)
next
  case (Call_Getsockinfo h)
  with assms show ?thesis
    by (auto simp: l_socket_defs lbind_Some_iff split: option.splits)
next
  case (Call_Listen h)
  with assms show ?thesis
    by (auto simp: l_socket_defs lbind_Some_iff checktype_def sock_evolves_def
        split: option.splits if_splits intro!: world_evolves_set)
next
  case (Call_Connect h host port)
  with assms show ?thesis
    by (auto simp: l_socket_defs lbind_Some_iff checktype_def sock_evolves_def
        split: option.splits if_splits intro!: world_evolves_set)
next
  case (Call_Send self h data)
  with assms show ?thesis
    by (auto simp: l_socket_defs lbind_Some_iff split: option.splits)
next
  case (Call_Receive self h len)
  with assms show ?thesis
    by (auto simp: l_socket_defs lbind_Some_iff split: option.splits)
qed


definition sample_msgs :: messages where
  "sample_msgs = \<lparr>strerror = (\<lambda>_. ''error''), hstrerror = (\<lambda>_. ''no host'')\<rparr>"

definition sample_sockets :: "reply list \<Rightarrow> lua_sockets" where
  "sample_sockets rs = \<lparr>socks = [\<lparr>tcp_sock = 5, tcp_timeout = 2000, tcp_type = Server\<rparr>],
     sys = \<lparr>trace = [], replies = rs\<rparr>\<rparr>"


section \<open>What was received\<close>

definition received :: "(syscall \<times> reply) list \<Rightarrow> u8 list" where
  "received tr = concat (map (\<lambda>(c, r).
     case c of Sys_Recv sock n \<Rightarrow> take (nat (r_ret r)) (r_bytes r) | _ \<Rightarrow> []) tr)"

text \<open>\<^verbatim>\<open>recv\<close> as documented: a positive result is the number of bytes stored, at most as many as asked.\<close>

definition recv_ok :: "(syscall \<times> reply) list \<Rightarrow> bool" where
  "recv_ok tr \<longleftrightarrow> (\<forall>(c, r)\<in>set tr. case c of
     Sys_Recv sock n \<Rightarrow> 0 < r_ret r \<longrightarrow> r_ret r = int (length (r_bytes r)) \<and> length (r_bytes r) \<le> n
   | _ \<Rightarrow> True)"

lemma received_simps [simp]:
  "received (a @ b) = received a @ received b" "recv_ok (a @ b) \<longleftrightarrow> recv_ok a \<and> recv_ok b"
  by (auto simp: received_def recv_ok_def)

lemma quiet_received: "quiet tr \<Longrightarrow> recv_ok tr \<Longrightarrow> received tr = []"
proof (induction tr)
  case (Cons e tr)
  obtain c r where e: "e = (c, r)" by (cases e)
  from Cons have "received tr = []" by (auto simp: recv_ok_def)
  moreover have "received [(c, r)] = []"
  proof (cases c)
    case (Sys_Recv fd n)
    have "n = 0" using Cons.prems(1) Sys_Recv e by simp
    then have "0 < r_ret r \<longrightarrow> r_bytes r = []" using Cons.prems(2) Sys_Recv e by (auto simp: recv_ok_def)
    then show ?thesis using Sys_Recv by (cases "0 < r_ret r") (auto simp: received_def)
  qed (auto simp: received_def)
  ultimately show ?case unfolding e using received_simps(1) [of "[(c, r)]" tr] by simp
qed (simp add: received_def)

lemma recv_loop_received:
  "recv_loop sock n s = Some ((err, bytes), s') \<Longrightarrow> recv_ok (trace s') \<Longrightarrow>
   received (trace s') = received (trace s) @ bytes \<and> length bytes \<le> n \<and>
   (err = EAGAIN \<longrightarrow> bytes = []) \<and> recv_ok (trace s)"
proof (induction sock n s arbitrary: err bytes s' rule: recv_loop.induct)
  case (1 sock n s)
  from 1(2) obtain r s1 where c: "sys_call (Sys_Recv sock n) s = Some (r, s1)"
    by (subst (asm) recv_loop.simps) (auto simp: obind_Some_iff)
  then have tr: "trace s1 = trace s @ [(Sys_Recv sock n, r)]" by (auto simp: sys_call_trace)
  have step: "recv_loop sock n s =
      (if 0 < r_ret r then Some ((SUCCESS, r_bytes r), s1)
       else if r_ret r = 0 then Some ((CLOSED, []), s1)
       else if r_errno r = EINTR then recv_loop sock n s1
       else Some ((r_errno r, []), s1))"
    by (subst recv_loop.simps) (simp add: c obind_def)
  consider "0 < r_ret r" | "\<not> 0 < r_ret r" "r_ret r \<noteq> 0" "r_errno r = EINTR"
    | "\<not> 0 < r_ret r" "r_ret r = 0 \<or> r_errno r \<noteq> EINTR" by blast
  then show ?case
  proof cases
    case 1
    with step "1.prems" tr show ?thesis
      by (auto simp: received_def recv_ok_def err_defs)
  next
    case 2
    then have "recv_loop sock n s1 = Some ((err, bytes), s')" using step "1.prems"(1) by simp
    from "1.IH" [OF c 2 this "1.prems"(2)] 2 show ?thesis
      by (auto simp: tr) (auto simp: received_def)
  next
    case 3
    with step "1.prems" tr have "s' = s1 \<and> bytes = []" by (auto split: if_splits)
    with 3 "1.prems"(2) tr show ?thesis by (auto simp: received_def)
  qed
qed

lemma tcp_raw_receive_received:
  assumes "tcp_raw_receive se sock n timeout s = Some ((msg, bytes), s')" "recv_ok (trace s')"
  shows "received (trace s') = received (trace s) @ bytes \<and> length bytes \<le> n \<and> recv_ok (trace s)"
proof (cases "sock < 0")
  case True
  with assms show ?thesis by (auto simp: tcp_raw_receive_def socket_recv_def obind_def)
next
  case False
  with assms(1) obtain err bs s1 where loop: "recv_loop sock n s = Some ((err, bs), s1)"
    and k: "(err = EAGAIN \<and> bytes = [] \<and> (\<exists>e. socket_wait sock Wait_R timeout s1 = Some (e, s'))) \<or>
      (err \<noteq> EAGAIN \<and> bytes = bs \<and> s' = s1)"
    by (auto simp: tcp_raw_receive_def socket_recv_def obind_Some_iff split: if_splits)
  show ?thesis
  proof (cases "err = EAGAIN")
    case True
    with k obtain e where "socket_wait sock Wait_R timeout s1 = Some (e, s')" and b: "bytes = []" by auto
    from socket_wait_trace [OF this(1)] obtain tr where tr: "trace s' = trace s1 @ tr" "quiet tr" by auto
    with assms(2) quiet_received [of tr] recv_loop_received [OF loop] True b show ?thesis by auto
  next
    case False
    with k recv_loop_received [OF loop] assms(2) show ?thesis by auto
  qed
qed

lemma receive_loop_received:
  "receive_loop se sock timeout len b s = Some ((None, bs), s') \<Longrightarrow> recv_ok (trace s') \<Longrightarrow>
   length b \<le> len \<Longrightarrow>
   (\<exists>new. bs = b @ new \<and> received (trace s') = received (trace s) @ new) \<and> length bs = len \<and>
   recv_ok (trace s)"
proof (induction se sock timeout len b s arbitrary: bs s' rule: receive_loop.induct)
  case (1 se sock timeout len b s)
  define step where "step = (if LUA_READ_STEP < len - length b then LUA_READ_STEP else len - length b)"
  have unfold: "receive_loop se sock timeout len b s =
      obind (tcp_raw_receive se sock step timeout s) (\<lambda>r s1.
        case r of
          (Some msg, bytes) \<Rightarrow> Some ((Some msg, b), s1)
        | (None, bytes) \<Rightarrow>
            if length (b @ bytes) < len then receive_loop se sock timeout len (b @ bytes) s1
            else Some ((None, b @ bytes), s1))"
    by (subst receive_loop.simps) (simp only: step_def [symmetric] Let_def)
  with "1.prems"(1) obtain bytes s1 where c: "tcp_raw_receive se sock step timeout s = Some ((None, bytes), s1)"
    and k: "(if length (b @ bytes) < len then receive_loop se sock timeout len (b @ bytes) s1
        else Some ((None, b @ bytes), s1)) = Some ((None, bs), s')"
    by (auto simp: obind_Some_iff split: prod.splits option.splits)
  have le: "length (b @ bytes) \<le> len" if "recv_ok (trace s1)"
    using tcp_raw_receive_received [OF c that] "1.prems"(3) by (auto simp: step_def split: if_splits)
  show ?case
  proof (cases "length (b @ bytes) < len")
    case True
    with k have "receive_loop se sock timeout len (b @ bytes) s1 = Some ((None, bs), s')" by simp
    from "1.IH" [OF refl step_def c refl refl True this "1.prems"(2)] True
    have IH: "(\<exists>new. bs = (b @ bytes) @ new \<and> received (trace s') = received (trace s1) @ new)"
      "length bs = len" "recv_ok (trace s1)" by simp_all
    with tcp_raw_receive_received [OF c IH(3)] show ?thesis by auto
  next
    case False
    with k have "s' = s1" "bs = b @ bytes" by simp_all
    with "1.prems"(2) le False tcp_raw_receive_received [OF c] show ?thesis by auto
  qed
qed

text \<open>
  A \<^verbatim>\<open>receive\<close> of \<open>len\<close> bytes that succeeds returns exactly \<open>len\<close> bytes, which are all the
  bytes the operating system delivered during the call, in order, across short reads, waits and
  interruptions.
\<close>

theorem receive_returns_len:
  assumes "l_socket_receive msgs self h len (w\<lparr>sys := \<lparr>trace = [], replies = rs\<rparr>\<rparr>) = Some (Out_Bytes bs, w')"
    "recv_ok (trace (sys w'))"
  shows "length bs = len \<and> bs = received (trace (sys w'))"
proof -
  let ?s = "\<lparr>trace = [], replies = rs\<rparr>"
  from assms(1) obtain sock timeout where
    "receive_loop (strerror msgs) sock timeout len [] ?s = Some ((None, bs), sys w')"
    by (auto simp: l_socket_receive_def lbind_Some_iff split: option.splits)
  from receive_loop_received [OF this assms(2)] show ?thesis by (auto simp: received_def)
qed

definition bytes_reply :: "u8 list \<Rightarrow> reply" where
  "bytes_reply bs = \<lparr>r_ret = int (length bs), r_errno = 0, r_bytes = bs, r_readable = False, r_host = [], r_port = 0\<rparr>"

theorem receive_returns_len_witness:
  "\<exists>w'. l_socket_receive sample_msgs 0 0 5 (sample_sockets [bytes_reply [1, 2], reply_of (- 1) 4, bytes_reply [3, 4, 5]])
      = Some (Out_Bytes [1, 2, 3, 4, 5], w') \<and> received (trace (sys w')) = [1, 2, 3, 4, 5]"
proof -
  let ?rs = "[bytes_reply [1, 2], reply_of (- 1) 4, bytes_reply [3, 4, 5]]"
  let ?w = "sample_sockets ?rs"
  let ?w' = "sample_sockets []\<lparr>sys := \<lparr>trace =
      [(Sys_Recv 5 5, bytes_reply [1, 2]), (Sys_Recv 5 3, reply_of (- 1) 4), (Sys_Recv 5 3, bytes_reply [3, 4, 5])],
      replies = []\<rparr>\<rparr>"
  have run: "l_socket_receive sample_msgs 0 0 5 (?w\<lparr>sys := \<lparr>trace = [], replies = ?rs\<rparr>\<rparr>) =
      Some (Out_Bytes [1, 2, 3, 4, 5], ?w')"
    by (simp add: l_socket_receive_def checkgroup_def luaopen_libluasocket_def add_to_group_def
        sock_set_methods_def sample_sockets_def lbind_def receive_loop.simps tcp_raw_receive_def
        socket_recv_def recv_loop.simps obind_def sys_call_def bytes_reply_def reply_of_def
        LUA_READ_STEP_def err_defs error_str_def)
  moreover have "recv_ok (trace (sys ?w'))" by (simp add: recv_ok_def bytes_reply_def reply_of_def)
  moreover have "?w\<lparr>sys := \<lparr>trace = [], replies = ?rs\<rparr>\<rparr> = ?w" by (simp add: sample_sockets_def)
  ultimately show ?thesis using receive_returns_len [OF run] by auto
qed

text \<open>
  An \<^verbatim>\<open>accept\<close> that had to wait and then finds the socket ready reports success without
  accepting: the new client socket has the descriptor \<open>- 1\<close>.
\<close>

lemma accept_after_wait_no_client:
  "map_option (\<lambda>(out, w'). (out, map tcp_sock (socks w')))
     (l_socket_accept sample_msgs 0 (sample_sockets
        [reply_of (- 1) 11, reply_of 1000000 0, reply_of 1000000 0,
         \<lparr>r_ret = 1, r_errno = 0, r_bytes = [], r_readable = True, r_host = [], r_port = 0\<rparr>,
         reply_of 0 0, reply_of 0 0, reply_of (- 1) 9])) = Some (Out_Sock 1, [5, - 1])"
  by (simp add: l_socket_accept_def checktype_def sample_sockets_def lbind_def tcp_accept_def
      socket_accept_def accept_loop.simps socket_wait_def wait_loop.simps obind_def sys_call_def
      reply_of_def err_defs error_str_def c_div_nonneg wait_reads_def socket_setnonblocking_def new_sock_def)

text \<open>Ports from 32768 on are reported as negative numbers.\<close>

lemma high_port_negative:
  "l_socket_getsockinfo 0 (sample_sockets
     [\<lparr>r_ret = 0, r_errno = 0, r_bytes = [], r_readable = False, r_host = ''h'', r_port = 40000\<rparr>]) =
   Some (Out_Info ''h'' (- 25536), sample_sockets []\<lparr>sys := \<lparr>trace =
     [(Sys_Getsockname 5, \<lparr>r_ret = 0, r_errno = 0, r_bytes = [], r_readable = False, r_host = ''h'', r_port = 40000\<rparr>)],
     replies = []\<rparr>\<rparr>)"
  by (simp add: l_socket_getsockinfo_def checkgroup_def luaopen_libluasocket_def add_to_group_def
      sock_set_methods_def sample_sockets_def lbind_def socket_get_info_def obind_def sys_call_def err_defs)

end
