(* ===== verification/Work_Split.thy ===== *)
theory Work_Split
  imports Coz_Prelude
begin

text \<open>
  The two ways in which the threaded benchmarks divide their work, as lists of ranges
  \<open>(start, length)\<close>, each an instance of the interface \<open>work_partition\<close> of the prelude.
\<close>

section \<open>The excess spread over the first threads\<close>

text \<open>
  The first \<open>n mod p\<close> threads take one more (\<^verbatim>\<open>excess\<close> in the sources). The histogram, k-means and
  the means of PCA divide their work this way.
\<close>

primrec excess_chunks_from :: "nat \<Rightarrow> nat \<Rightarrow> nat \<Rightarrow> nat \<Rightarrow> (nat \<times> nat) list" where
  "excess_chunks_from 0 q e start = []"
| "excess_chunks_from (Suc k) q e start =
     (let len = (if 0 < e then Suc q else q)
      in (start, len) # excess_chunks_from k q (e - 1) (start + len))"

definition excess_chunks :: "nat \<Rightarrow> nat \<Rightarrow> (nat \<times> nat) list" where
  "excess_chunks p n = excess_chunks_from p (n div p) (n mod p) 0"

lemma excess_chunks_from_cover:
  "e \<le> k \<Longrightarrow> concat (map range_of (excess_chunks_from k q e start)) = [start ..< start + k * q + e]"
proof (induction k arbitrary: e start)
  case (Suc k)
  define len where "len = (if 0 < e then Suc q else q)"
  have "e - 1 \<le> k" using Suc.prems by simp
  note IH = Suc.IH [OF this, of "start + len"]
  have "concat (map range_of (excess_chunks_from (Suc k) q e start)) =
      range_of (start, len) @ concat (map range_of (excess_chunks_from k q (e - 1) (start + len)))"
    by (simp add: len_def Let_def)
  also have "\<dots> = [start ..< start + len] @ [start + len ..< start + len + k * q + (e - 1)]"
    unfolding IH by (simp add: range_of_def)
  also have "\<dots> = [start ..< start + Suc k * q + e]"
  proof -
    have eq: "start + Suc k * q + e = start + len + (k * q + (e - 1))" by (auto simp: len_def)
    show ?thesis
      unfolding eq upt_add_eq_append [OF le_add1, of start len "k * q + (e - 1)"] by (simp only: add.assoc)
  qed
  finally show ?case .
qed simp

interpretation excess_split: work_partition excess_chunks
proof
  fix p n :: nat assume p: "0 < p"
  then have "n mod p \<le> p" by (simp add: less_imp_le)
  then show "concat (map range_of (excess_chunks p n)) = [0..<n]"
    using excess_chunks_from_cover [of "n mod p" p "n div p" 0] by (simp add: excess_chunks_def)
qed

lemma excess_chunks_from_bound:
  "e \<le> k \<Longrightarrow> (s, l) \<in> set (excess_chunks_from k q e start) \<Longrightarrow> s + l \<le> start + k * q + e"
proof (induction k arbitrary: e start)
  case (Suc k)
  define len where "len = (if 0 < e then Suc q else q)"
  have le: "e - 1 \<le> k" using Suc.prems by simp
  have eq: "start + len + k * q + (e - 1) = start + Suc k * q + e" by (auto simp: len_def)
  have "(s, l) = (start, len) \<or> (s, l) \<in> set (excess_chunks_from k q (e - 1) (start + len))"
    using Suc.prems(2) by (simp add: len_def Let_def)
  then show ?case using Suc.IH [OF le, of "start + len"] eq by auto
qed simp

section \<open>The rest to the last thread\<close>

text \<open>
  Every thread takes \<open>n div p\<close> units and the last one what is left: linear regression, matrix
  multiplication and the parallel sort.
\<close>

definition tail_chunks :: "nat \<Rightarrow> nat \<Rightarrow> (nat \<times> nat) list" where
  "tail_chunks p n = map (\<lambda>i. (i * (n div p), if Suc i = p then n - i * (n div p) else n div p)) [0..<p]"

lemma equal_chunks: "concat (map (\<lambda>i. [i * q ..< i * q + q]) [0..<k]) = [0..<k * q]"
proof (induction k)
  case (Suc k)
  have "[0..<k * q + q] = [0..<k * q] @ [k * q..<k * q + q]" by (rule upt_add_eq_append) simp
  with Suc show ?case by (simp add: add.commute)
qed simp

interpretation tail_split: work_partition tail_chunks
proof
  fix p n :: nat assume "0 < p"
  then obtain k where p: "p = Suc k" by (cases p) auto
  let ?q = "n div p"
  have "?q * k \<le> ?q * p" by (simp add: p)
  also have "\<dots> \<le> n" by simp
  finally have "k * ?q \<le> n" by (simp add: mult.commute)
  then have last: "[0..<n] = [0..<k * ?q] @ [k * ?q..<n]"
    using upt_add_eq_append [of 0 "k * ?q" "n - k * ?q"] by simp
  have "map range_of (tail_chunks p n) = map (\<lambda>i. [i * ?q ..< i * ?q + ?q]) [0..<k] @ [[k * ?q..<n]]"
    using \<open>k * ?q \<le> n\<close> by (simp add: tail_chunks_def range_of_def p)
  then show "concat (map range_of (tail_chunks p n)) = [0..<n]"
    using equal_chunks [of ?q k] last by simp
qed

lemma tail_chunk_bound:
  assumes "(s, l) \<in> set (tail_chunks p n)"
  shows "s + l \<le> n"
proof -
  obtain i where i: "i < p" "s = i * (n div p)" "l = (if Suc i = p then n - s else n div p)"
    using assms by (auto simp: tail_chunks_def)
  have "Suc i * (n div p) \<le> p * (n div p)" using i(1) by (intro mult_le_mono1) simp
  also have "\<dots> \<le> n" by simp
  finally show ?thesis using i by (auto split: if_splits)
qed

end
