(* ===== verification/Histogram.thy ===== *)
theory Histogram
  imports Work_Split
begin

text \<open>
  The histogram benchmark, \<^verbatim>\<open>benchmarks/histogram/histogram-pthread.c\<close>: reading the bitmap
  header on a machine of either byte order, dividing the pixels among the threads, counting in
  each thread's own arrays and adding the arrays up. The threads share nothing they write, so they
  are run in order. The file's bytes and the number of processors are arguments; an access
  outside the file is a fault, an \<^verbatim>\<open>exit\<close> is one with its code.
\<close>

section \<open>State\<close>

record hist =
  red :: "int list"
  green :: "int list"
  blue :: "int list"

record hist_arg =
  data_pos :: int
  data_len :: int

definition empty_hist :: hist where
  "empty_hist = \<lparr>red = replicate 256 0, green = replicate 256 0, blue = replicate 256 0\<rparr>"

definition IMG_DATA_OFFSET_POS :: nat where "IMG_DATA_OFFSET_POS = 10"
definition BITS_PER_PIXEL_POS :: nat where "BITS_PER_PIXEL_POS = 28"

section \<open>Byte order\<close>

text \<open>The first byte in memory of \<open>0x12345678\<close> tells the order; the result is \<open>swap\<close>.\<close>

definition test_endianess :: "u8 \<Rightarrow> c_fault + bool" where
  "test_endianess low =
     (if low = 0x78 then Inr False else if low = 0x12 then Inr True else Inl (Exited 1))"

definition swap_step :: "nat \<Rightarrow> nat \<Rightarrow> nat \<Rightarrow> u8 list \<Rightarrow> u8 list" where
  "swap_step start num_bytes i bytes =
     (let tmp = bytes ! (start + i);
          bytes1 = bytes[start + i := bytes ! (start + (num_bytes - i - 1))]
      in bytes1[start + (num_bytes - i - 1) := tmp])"

definition swap_bytes :: "nat \<Rightarrow> nat \<Rightarrow> u8 list \<Rightarrow> u8 list" where
  "swap_bytes start num_bytes bytes = fold (swap_step start num_bytes) [0..<num_bytes div 2] bytes"

text \<open>An unsigned short in memory, in the order of the machine.\<close>

definition read_short :: "u8 \<Rightarrow> nat \<Rightarrow> u8 list \<Rightarrow> c_fault + int" where
  "read_short low start bytes =
     ebind (at_index bytes (int start)) (\<lambda>b0.
     ebind (at_index bytes (int start + 1)) (\<lambda>b1.
       Inr (if low = 0x78 then uint b0 + 256 * uint b1 else 256 * uint b0 + uint b1)))"

section \<open>Counting\<close>

definition bump :: "u8 \<Rightarrow> int list \<Rightarrow> c_fault + int list" where
  "bump v xs = ebind (c_int (xs ! unat v + 1)) (\<lambda>n. Inr (xs[unat v := n]))"

definition calc_pixel :: "u8 list \<Rightarrow> int \<Rightarrow> hist \<Rightarrow> c_fault + hist" where
  "calc_pixel fdata i h =
     ebind (at_index fdata i) (\<lambda>v0.
     ebind (bump v0 (blue h)) (\<lambda>b.
     ebind (at_index fdata (i + 1)) (\<lambda>v1.
     ebind (bump v1 (green h)) (\<lambda>g.
     ebind (at_index fdata (i + 2)) (\<lambda>v2.
     ebind (bump v2 (red h)) (\<lambda>r.
       Inr \<lparr>red = r, green = g, blue = b\<rparr>))))))"

text \<open>The loop variable is an \<^verbatim>\<open>int\<close>: it may not pass the largest one.\<close>

function calc_loop :: "u8 list \<Rightarrow> int \<Rightarrow> int \<Rightarrow> hist \<Rightarrow> c_fault + hist" where
  "calc_loop fdata stop i h =
     (if i < stop then
        ebind (calc_pixel fdata i h) (\<lambda>h1. ebind (c_int (i + 3)) (\<lambda>i1. calc_loop fdata stop i1 h1))
      else Inr h)"
  by pat_completeness auto
termination
  by (relation "measure (\<lambda>(_, stop, i, _). nat (stop - i))") (auto simp: c_int_def split: if_splits)

declare calc_loop.simps [simp del]

definition calc_hist :: "u8 list \<Rightarrow> hist_arg \<Rightarrow> c_fault + hist" where
  "calc_hist fdata arg = calc_loop fdata (data_pos arg + data_len arg) (data_pos arg) empty_hist"

section \<open>Dividing and adding up\<close>

primrec assign_args :: "nat \<Rightarrow> int \<Rightarrow> int \<Rightarrow> int \<Rightarrow> hist_arg list" where
  "assign_args 0 num_per_thread excess curr_pos = []"
| "assign_args (Suc n) num_per_thread excess curr_pos =
     (let len0 = num_per_thread;
          len1 = (if 0 < excess then len0 + 1 else len0);
          excess1 = (if 0 < excess then excess - 1 else excess);
          len = len1 * 3
      in \<lparr>data_pos = curr_pos, data_len = len\<rparr> # assign_args n num_per_thread excess1 (curr_pos + len))"

definition add_counts :: "int list \<Rightarrow> int list \<Rightarrow> c_fault + int list" where
  "add_counts xs ys = emap (\<lambda>(x, y). c_int (x + y)) (zip xs ys)"

definition add_hist :: "hist \<Rightarrow> hist \<Rightarrow> c_fault + hist" where
  "add_hist a h =
     ebind (add_counts (red h) (red a)) (\<lambda>r.
     ebind (add_counts (green h) (green a)) (\<lambda>g.
     ebind (add_counts (blue h) (blue a)) (\<lambda>b. Inr \<lparr>red = r, green = g, blue = b\<rparr>)))"

section \<open>The program\<close>

text \<open>The header: the bytes after any swapping, and the position of the image data.\<close>

definition read_header :: "u8 \<Rightarrow> u8 list \<Rightarrow> c_fault + u8 list \<times> int" where
  "read_header low fdata =
     ebind (at_index fdata 0) (\<lambda>b0.
     ebind (if b0 \<noteq> 0x42 then Inr True
            else ebind (at_index fdata 1) (\<lambda>b1. Inr (b1 \<noteq> 0x4D))) (\<lambda>bad.
       if bad then Inl (Exited 1)
       else ebind (test_endianess low) (\<lambda>swap.
         let fdata1 = (if swap then swap_bytes BITS_PER_PIXEL_POS 2 fdata else fdata)
         in ebind (read_short low BITS_PER_PIXEL_POS fdata1) (\<lambda>bitsperpixel.
           if bitsperpixel \<noteq> 24 then Inl (Exited 1)
           else let fdata2 = (if swap then swap_bytes IMG_DATA_OFFSET_POS 2 fdata1 else fdata1)
             in ebind (read_short low IMG_DATA_OFFSET_POS fdata2) (\<lambda>pos. Inr (fdata2, pos))))))"

definition hist_main :: "nat \<Rightarrow> u8 \<Rightarrow> u8 list \<Rightarrow> c_fault + hist" where
  "hist_main num_procs low fdata =
     ebind (read_header low fdata) (\<lambda>(fdata1, pos).
       let size = sint (of_nat (length fdata) :: i32)
       in ebind (c_int (size - pos)) (\<lambda>imgdata_bytes.
         let num_pixels = c_div imgdata_bytes 3
         in if num_procs = 0 then Inl (Exited 1)
            else
              (let num_per_thread = c_div num_pixels (int num_procs);
                   excess = c_mod num_pixels (int num_procs)
               in ebind (emap (calc_hist fdata1) (assign_args num_procs num_per_thread excess pos)) (\<lambda>hs.
                    efold add_hist hs empty_hist))))"

section \<open>The division of the pixels\<close>

lemma assign_args_chunks:
  "assign_args k (int q) (int e) (base + 3 * int start) =
   map (\<lambda>(s, l). \<lparr>data_pos = base + 3 * int s, data_len = 3 * int l\<rparr>) (excess_chunks_from k q e start)"
proof (induction k arbitrary: e start)
  case (Suc k)
  show ?case
  proof (cases "0 < e")
    case True
    have "base + 3 * int start + (int q + 1) * 3 = base + 3 * int (start + Suc q)" by simp
    with Suc.IH [of "e - 1" "start + Suc q"] True show ?thesis by (simp add: Let_def of_nat_diff algebra_simps)
  next
    case False
    have "base + 3 * int start + int q * 3 = base + 3 * int (start + q)" by simp
    with Suc.IH [of 0 "start + q"] False show ?thesis by (simp add: Let_def algebra_simps)
  qed
qed simp

section \<open>Counting the pixels of a chunk\<close>

definition pixel_count :: "u8 list \<Rightarrow> nat \<Rightarrow> nat \<Rightarrow> nat list \<Rightarrow> nat \<Rightarrow> int" where
  "pixel_count fdata base off ks v =
     sum_list (map (\<lambda>k. of_bool (unat (fdata ! (base + 3 * k + off)) = v)) ks)"

definition hist_of :: "u8 list \<Rightarrow> nat \<Rightarrow> nat list \<Rightarrow> hist" where
  "hist_of fdata base ks =
     \<lparr>red = map (pixel_count fdata base 2 ks) [0..<256],
      green = map (pixel_count fdata base 1 ks) [0..<256],
      blue = map (pixel_count fdata base 0 ks) [0..<256]\<rparr>"

lemma pixel_count_bounds: "0 \<le> pixel_count fdata base off ks v" "pixel_count fdata base off ks v \<le> int (length ks)"
  by (induction ks) (auto simp: pixel_count_def of_bool_def)

lemma pixel_count_append:
  "pixel_count fdata base off (ks @ ks') v = pixel_count fdata base off ks v + pixel_count fdata base off ks' v"
  by (simp add: pixel_count_def)

lemma bump_pixel:
  assumes "int (length ks) + 1 < 2 ^ 31"
  shows "bump (fdata ! (base + 3 * k + off)) (map (pixel_count fdata base off ks) [0..<256]) =
    Inr (map (pixel_count fdata base off (ks @ [k])) [0..<256])"
proof -
  let ?v = "fdata ! (base + 3 * k + off)"
  have v: "unat ?v < 256" using unat_bound [of ?v] by simp
  have "c_int (pixel_count fdata base off ks (unat ?v) + 1) = Inr (pixel_count fdata base off ks (unat ?v) + 1)"
    using assms pixel_count_bounds [of fdata base off ks "unat ?v"] by (intro c_int_ok) simp_all
  moreover have "(map (pixel_count fdata base off ks) [0..<256])[unat ?v := pixel_count fdata base off ks (unat ?v) + 1]
      = map (pixel_count fdata base off (ks @ [k])) [0..<256]"
    using v by (intro nth_equalityI) (auto simp: nth_list_update pixel_count_append pixel_count_def)
  ultimately show ?thesis using v by (simp add: bump_def)
qed

lemma calc_pixel_hist:
  assumes "base + 3 * k + 2 < length fdata" "int (length ks) + 1 < 2 ^ 31"
  shows "calc_pixel fdata (int (base + 3 * k)) (hist_of fdata base ks) = Inr (hist_of fdata base (ks @ [k]))"
proof -
  have at: "at_index fdata (int (base + 3 * k)) = Inr (fdata ! (base + 3 * k + 0))"
    "at_index fdata (int (base + 3 * k) + 1) = Inr (fdata ! (base + 3 * k + 1))"
    "at_index fdata (int (base + 3 * k) + 2) = Inr (fdata ! (base + 3 * k + 2))"
    using assms(1) by (simp_all add: at_index_def nat_add_distrib nat_mult_distrib)
  show ?thesis
    by (simp only: calc_pixel_def at hist_of_def hist.simps ebind.simps bump_pixel [OF assms(2)])
qed

lemma calc_loop_hist:
  "base + 3 * (s + l) \<le> length fdata \<Longrightarrow> length fdata < 2 ^ 31 \<Longrightarrow> length ks + l < 2 ^ 31 \<Longrightarrow>
   calc_loop fdata (int (base + 3 * (s + l))) (int (base + 3 * s)) (hist_of fdata base ks) =
     Inr (hist_of fdata base (ks @ [s..<s + l]))"
proof (induction l arbitrary: s ks)
  case 0
  show ?case by (subst calc_loop.simps) simp
next
  case (Suc l)
  have "base + 3 * s + 2 < length fdata" "int (length ks) + 1 < 2 ^ 31" using Suc.prems by simp_all
  note px = calc_pixel_hist [OF this]
  have less: "int (base + 3 * s) < int (base + 3 * (s + Suc l))" by simp
  have ci: "c_int (int (base + 3 * s) + 3) = Inr (int (base + 3 * Suc s))"
    using Suc.prems by (simp add: algebra_simps)
  have "calc_loop fdata (int (base + 3 * (Suc s + l))) (int (base + 3 * Suc s)) (hist_of fdata base (ks @ [s])) =
      Inr (hist_of fdata base ((ks @ [s]) @ [Suc s..<Suc s + l]))"
    by (rule Suc.IH) (use Suc.prems in auto)
  moreover have "[s..<s + Suc l] = s # [Suc s..<Suc s + l]" by (simp add: upt_conv_Cons)
  ultimately show ?case using less
    by (subst calc_loop.simps) (simp only: if_True px ci ebind.simps add_Suc add_Suc_right append_assoc append_Cons append_Nil)
qed

lemma empty_hist_of: "empty_hist = hist_of fdata base []"
proof -
  have "pixel_count fdata base off [] = (\<lambda>v. 0)" for off by (auto simp: pixel_count_def)
  then show ?thesis by (simp add: empty_hist_def hist_of_def map_replicate_const)
qed

lemma calc_hist_chunk:
  assumes "base + 3 * (s + l) \<le> length fdata" "length fdata < 2 ^ 31"
  shows "calc_hist fdata \<lparr>data_pos = int base + 3 * int s, data_len = 3 * int l\<rparr> =
    Inr (hist_of fdata base [s..<s + l])"
proof -
  have "l < 2 ^ 31" using assms by simp
  with calc_loop_hist [OF assms, of "[]"] show ?thesis
    by (simp add: calc_hist_def empty_hist_of [of fdata base] algebra_simps)
qed

lemma add_counts_map:
  assumes "\<And>v. - (2 ^ 31) \<le> f v + g v \<and> f v + g v < 2 ^ 31"
  shows "add_counts (map f [0..<256]) (map g [0..<256]) = Inr (map (\<lambda>v. f v + g v) [0..<256])"
proof -
  have "emap (\<lambda>(x, y). c_int (x + y)) (zip (map f vs) (map g vs)) = Inr (map (\<lambda>v. f v + g v) vs)" for vs
    using assms by (induction vs) simp_all
  then show ?thesis by (simp add: add_counts_def)
qed

lemma add_hist_of:
  assumes "length ks + length ks' < 2 ^ 31"
  shows "add_hist (hist_of fdata base ks') (hist_of fdata base ks) = Inr (hist_of fdata base (ks @ ks'))"
proof -
  have "add_counts (map (pixel_count fdata base off ks) [0..<256]) (map (pixel_count fdata base off ks') [0..<256]) =
      Inr (map (pixel_count fdata base off (ks @ ks')) [0..<256])" for off
  proof -
    have "- (2 ^ 31) \<le> pixel_count fdata base off ks v + pixel_count fdata base off ks' v \<and>
        pixel_count fdata base off ks v + pixel_count fdata base off ks' v < 2 ^ 31" for v
      using pixel_count_bounds [of fdata base off ks v] pixel_count_bounds [of fdata base off ks' v] assms
      by auto
    from add_counts_map [OF this] show ?thesis by (simp add: pixel_count_append [abs_def])
  qed
  then show ?thesis by (simp add: add_hist_def hist_of_def del: One_nat_def)
qed

lemma add_hists:
  "length ks + length (concat kss) < 2 ^ 31 \<Longrightarrow>
   efold add_hist (map (hist_of fdata base) kss) (hist_of fdata base ks) = Inr (hist_of fdata base (ks @ concat kss))"
  by (induction kss arbitrary: ks) (simp_all add: add_hist_of)

section \<open>The whole program\<close>

text \<open>A 24-bit bitmap whose image data starts at \<open>pos\<close>, after the header; the machine's byte order.\<close>

definition bitmap_ok :: "u8 \<Rightarrow> u8 list \<Rightarrow> nat \<Rightarrow> bool" where
  "bitmap_ok low fdata pos \<longleftrightarrow> (low = 0x78 \<or> low = 0x12) \<and> 30 \<le> pos \<and> pos \<le> length fdata \<and>
     length fdata < 2 ^ 31 \<and> fdata ! 0 = 0x42 \<and> fdata ! 1 = 0x4D \<and>
     uint (fdata ! 28) + 256 * uint (fdata ! 29) = 24 \<and>
     uint (fdata ! 10) + 256 * uint (fdata ! 11) = int pos"

lemma swap_bytes_2:
  "swap_bytes start 2 bytes =
     bytes[start := bytes ! Suc start, Suc start := bytes ! start]"
  by (simp add: swap_bytes_def swap_step_def Let_def)

lemma read_header_ok:
  assumes "bitmap_ok low fdata pos"
  shows "\<exists>fdata1. read_header low fdata = Inr (fdata1, int pos) \<and> length fdata1 = length fdata \<and>
    (\<forall>i\<ge>30. fdata1 ! i = fdata ! i)"
proof (cases "low = 0x78")
  case True
  have "fdata \<noteq> []" using assms by (auto simp: bitmap_ok_def)
  with True assms show ?thesis
    by (simp add: bitmap_ok_def read_header_def test_endianess_def read_short_def at_index_def
        BITS_PER_PIXEL_POS_def IMG_DATA_OFFSET_POS_def)
next
  case False
  let ?d1 = "fdata[28 := fdata ! 29, 29 := fdata ! 28]"
  let ?d2 = "?d1[10 := ?d1 ! 11, 11 := ?d1 ! 10]"
  have "fdata \<noteq> []" using assms by (auto simp: bitmap_ok_def)
  then have "read_header low fdata = Inr (?d2, int pos)"
    using assms False
    by (simp add: bitmap_ok_def read_header_def test_endianess_def read_short_def at_index_def
        BITS_PER_PIXEL_POS_def IMG_DATA_OFFSET_POS_def swap_bytes_2 add.commute)
  then show ?thesis by (intro exI [of _ ?d2]) simp
qed

lemma hist_of_same:
  assumes "\<forall>i\<ge>base. fdata1 ! i = fdata ! i"
  shows "hist_of fdata1 base ks = hist_of fdata base ks"
proof -
  have "pixel_count fdata1 base off ks = pixel_count fdata base off ks" for off
    using assms by (intro ext) (simp add: pixel_count_def)
  then show ?thesis by (simp add: hist_of_def)
qed

text \<open>
  C32. For every number of processors and either byte order, the program reports for each colour
  and each value exactly the number of pixels that have it, over all the whole pixels of the
  image; no counter overflows and no access leaves the file.
\<close>

theorem histogram_counts_pixels:
  assumes "bitmap_ok low fdata pos" "0 < num_procs"
  shows "hist_main num_procs low fdata = Inr (hist_of fdata pos [0..<(length fdata - pos) div 3])"
proof -
  define n where "n = (length fdata - pos) div 3"
  let ?chunks = "excess_chunks num_procs n"
  have ok: "30 \<le> pos" "pos \<le> length fdata" "length fdata < 2 ^ 31"
    using assms(1) by (simp_all add: bitmap_ok_def)
  obtain fdata1 where h: "read_header low fdata = Inr (fdata1, int pos)"
    and len: "length fdata1 = length fdata" and same: "\<forall>i\<ge>30. fdata1 ! i = fdata ! i"
    using read_header_ok [OF assms(1)] by blast
  have size: "sint (of_nat (length fdata) :: i32) = int (length fdata)"
    using sint_word_of_int_fits [where 'a = 32, of "int (length fdata)"] ok(3)
    by (simp add: fits_signed_def)
  have px: "c_div (int (length fdata) - int pos) 3 = int n"
    using ok(2) by (simp add: c_div_nonneg n_def zdiv_int of_nat_diff)
  have q: "c_div (int n) (int num_procs) = int (n div num_procs)"
    "c_mod (int n) (int num_procs) = int (n mod num_procs)"
    using assms(2) by (simp_all add: c_div_nonneg zdiv_int c_mod_nonneg zmod_int)
  have args: "assign_args num_procs (int (n div num_procs)) (int (n mod num_procs)) (int pos) =
      map (\<lambda>(s, l). \<lparr>data_pos = int pos + 3 * int s, data_len = 3 * int l\<rparr>) ?chunks"
    using assign_args_chunks [of num_procs "n div num_procs" "n mod num_procs" "int pos" 0]
    by (simp add: excess_chunks_def)
  have "emap (calc_hist fdata1) (map (\<lambda>(s, l). \<lparr>data_pos = int pos + 3 * int s, data_len = 3 * int l\<rparr>) ?chunks)
      = Inr (map (hist_of fdata1 pos) (map range_of ?chunks))"
  proof -
    have "calc_hist fdata1 \<lparr>data_pos = int pos + 3 * int s, data_len = 3 * int l\<rparr> =
        Inr (hist_of fdata1 pos (range_of (s, l)))" if "(s, l) \<in> set ?chunks" for s l
    proof -
      have "s + l \<le> num_procs * (n div num_procs) + n mod num_procs"
        using excess_chunks_from_bound [of "n mod num_procs" num_procs s l "n div num_procs" 0] that assms(2)
        by (simp add: excess_chunks_def less_imp_le)
      then have "pos + 3 * (s + l) \<le> length fdata1" using ok(2) len by (simp add: n_def)
      from calc_hist_chunk [OF this] ok(3) len show ?thesis by (simp add: range_of_def)
    qed
    then have "emap (calc_hist fdata1) (map (\<lambda>(s, l). \<lparr>data_pos = int pos + 3 * int s, data_len = 3 * int l\<rparr>) cs)
        = Inr (map (hist_of fdata1 pos) (map range_of cs))" if "set cs \<subseteq> set ?chunks" for cs
      using that by (induction cs) auto
    then show ?thesis by blast
  qed
  moreover have "efold add_hist (map (hist_of fdata1 pos) (map range_of ?chunks)) empty_hist =
      Inr (hist_of fdata1 pos [0..<n])"
  proof -
    have "length (concat (map range_of ?chunks)) < 2 ^ 31"
      using ok(3) by (simp add: excess_split.cover [OF assms(2)] n_def)
    then show ?thesis
      using add_hists [of "[]" "map range_of ?chunks" fdata1 pos] excess_split.cover [OF assms(2), of n]
      by (simp add: empty_hist_of [of fdata1 pos])
  qed
  moreover have "hist_of fdata1 pos [0..<n] = hist_of fdata pos [0..<n]"
    using same ok(1) by (intro hist_of_same) simp
  ultimately show ?thesis using assms(2) ok
    by (simp add: hist_main_def h size px q args n_def [symmetric] Let_def del: map_map)
qed

definition sample_bitmap :: "u8 list" where
  "sample_bitmap = (replicate 32 0)[0 := 0x42, 1 := 0x4D, 10 := 32, 28 := 24] @ [5, 6, 7, 5, 6, 9, 1]"

theorem histogram_counts_pixels_witness:
  "hist_main 4 0x12 ((sample_bitmap)[10 := 32, 11 := 0]) = hist_main 1 0x78 sample_bitmap \<and>
   map_option (\<lambda>h. (blue h ! 5, green h ! 6, red h ! 7, red h ! 1))
     (case hist_main 4 0x78 sample_bitmap of Inr h \<Rightarrow> Some h | Inl e \<Rightarrow> None) = Some (2, 2, 1, 0)"
proof -
  have same: "sample_bitmap[10 := 32, 11 := 0] = sample_bitmap" by code_simp
  have ok: "bitmap_ok low sample_bitmap 32" if "low = 0x78 \<or> low = 0x12" for low
    using that by (simp add: bitmap_ok_def sample_bitmap_def nth_append)
  have "(length sample_bitmap - 32) div 3 = 2" by (simp add: sample_bitmap_def)
  with histogram_counts_pixels [where low = "0x12" and num_procs = 4, OF ok] histogram_counts_pixels [where low = "0x78" and num_procs = 1, OF ok]
    histogram_counts_pixels [where low = "0x78" and num_procs = 4, OF ok] same
  have run: "hist_main 4 0x12 sample_bitmap = Inr (hist_of sample_bitmap 32 [0..<2])"
    "hist_main 1 0x78 sample_bitmap = Inr (hist_of sample_bitmap 32 [0..<2])"
    "hist_main 4 0x78 sample_bitmap = Inr (hist_of sample_bitmap 32 [0..<2])" by simp_all
  have "pixel_count sample_bitmap 32 0 [0..<2] 5 = 2 \<and> pixel_count sample_bitmap 32 1 [0..<2] 6 = 2 \<and>
      pixel_count sample_bitmap 32 2 [0..<2] 7 = 1 \<and> pixel_count sample_bitmap 32 2 [0..<2] 1 = 0"
    by code_simp
  then show ?thesis
    unfolding same run by (simp add: hist_of_def)
qed

end
