(* ===== verification/Linear_Regression.thy ===== *)
theory Linear_Regression
  imports Work_Split Complex_Main
begin

text \<open>
  The linear regression benchmark, \<^verbatim>\<open>linear_regression-pthread.c\<close>: the points are pairs of
  signed bytes of the file, each thread sums its share, and the sums give the line. The threads
  write only their own sums, so they are run in order. The integer sums are exact 64-bit numbers
  with overflow as a fault; the floating-point formulas at the end are taken over any field.
\<close>

section \<open>The sums of a thread\<close>

type_synonym point = "i8 \<times> i8"

record lreg_sums =
  SX :: int
  SY :: int
  SXX :: int
  SYY :: int
  SXY :: int

definition zero_sums :: lreg_sums where
  "zero_sums = \<lparr>SX = 0, SY = 0, SXX = 0, SYY = 0, SXY = 0\<rparr>"

definition add_point :: "point \<Rightarrow> lreg_sums \<Rightarrow> c_fault + lreg_sums" where
  "add_point p s =
     (let x = sint (fst p); y = sint (snd p)
      in ebind (c_long (SX s + x)) (\<lambda>sx.
         ebind (c_long (SXX s + x * x)) (\<lambda>sxx.
         ebind (c_long (SY s + y)) (\<lambda>sy.
         ebind (c_long (SYY s + y * y)) (\<lambda>syy.
         ebind (c_long (SXY s + x * y)) (\<lambda>sxy.
           Inr \<lparr>SX = sx, SY = sy, SXX = sxx, SYY = syy, SXY = sxy\<rparr>))))))"

record lreg_args =
  first_point :: int
  num_elems :: int

definition linear_regression_pthread :: "point list \<Rightarrow> lreg_args \<Rightarrow> c_fault + lreg_sums" where
  "linear_regression_pthread points args =
     efold (\<lambda>i s. ebind (at_index points (first_point args + i)) (\<lambda>p. add_point p s))
       (map int [0..<nat (num_elems args)]) zero_sums"

section \<open>The program\<close>

definition lreg_arg :: "nat \<Rightarrow> int \<Rightarrow> int \<Rightarrow> nat \<Rightarrow> c_fault + lreg_args" where
  "lreg_arg num_threads n req_units i =
     ebind (c_int (int i * req_units)) (\<lambda>first.
       Inr \<lparr>first_point = first,
            num_elems = (if int i = int num_threads - 1 then to_int (n - first) else req_units)\<rparr>)"

definition add_sums :: "lreg_sums \<Rightarrow> lreg_sums \<Rightarrow> c_fault + lreg_sums" where
  "add_sums t s =
     ebind (c_long (SX s + SX t)) (\<lambda>sx.
     ebind (c_long (SY s + SY t)) (\<lambda>sy.
     ebind (c_long (SXX s + SXX t)) (\<lambda>sxx.
     ebind (c_long (SYY s + SYY t)) (\<lambda>syy.
     ebind (c_long (SXY s + SXY t)) (\<lambda>sxy.
       Inr \<lparr>SX = sx, SY = sy, SXX = sxx, SYY = syy, SXY = sxy\<rparr>)))))"

record 'a lreg_line =
  line_a :: 'a
  line_b :: 'a
  xbar :: 'a
  ybar :: 'a
  r2 :: 'a

definition lreg_line :: "int \<Rightarrow> lreg_sums \<Rightarrow> 'a::field lreg_line" where
  "lreg_line n s =
     (let N = of_int n; sx = of_int (SX s); sy = of_int (SY s); sxx = of_int (SXX s);
          syy = of_int (SYY s); sxy = of_int (SXY s);
          b = (N * sxy - sx * sy) / (N * sxx - sx * sx)
      in \<lparr>line_a = (sy - b * sx) / N, line_b = b, xbar = sx / N, ybar = sy / N,
          r2 = (N * sxy - sx * sy) * (N * sxy - sx * sy) / ((N * sxx - sx * sx) * (N * syy - sy * sy))\<rparr>)"

definition lreg_main :: "nat \<Rightarrow> point list \<Rightarrow> c_fault + lreg_sums" where
  "lreg_main num_procs points =
     (if num_procs = 0 then Inl (Exited 1)
      else
        (let n = int (length points);
             req_units = to_int (c_div n (int num_procs))
         in ebind (emap (lreg_arg num_procs n req_units) [0..<num_procs]) (\<lambda>args.
            ebind (emap (linear_regression_pthread points) args) (\<lambda>parts.
              efold add_sums parts zero_sums))))"

section \<open>The sums over all points\<close>

definition sums_of :: "point list \<Rightarrow> lreg_sums" where
  "sums_of ps =
     \<lparr>SX = sum_list (map (\<lambda>p. sint (fst p)) ps), SY = sum_list (map (\<lambda>p. sint (snd p)) ps),
      SXX = sum_list (map (\<lambda>p. sint (fst p) * sint (fst p)) ps),
      SYY = sum_list (map (\<lambda>p. sint (snd p) * sint (snd p)) ps),
      SXY = sum_list (map (\<lambda>p. sint (fst p) * sint (snd p)) ps)\<rparr>"

lemma byte_bounds: "\<bar>sint (x :: i8)\<bar> \<le> 128"
  using sint_fits [of x] by (auto simp: fits_signed_def)

lemma prod_bounds: "\<bar>sint (x :: i8) * sint (y :: i8)\<bar> \<le> 16384"
  using mult_mono [OF byte_bounds [of x] byte_bounds [of y]] by (simp add: abs_mult)

lemma sum_list_bound: "(\<And>p. \<bar>f p\<bar> \<le> B) \<Longrightarrow> \<bar>sum_list (map f ps)\<bar> \<le> int (length ps) * B" for f :: "'p \<Rightarrow> int"
proof (induction ps)
  case (Cons p ps)
  then have "\<bar>f p + sum_list (map f ps)\<bar> \<le> B + int (length ps) * B"
    by (intro order_trans [OF abs_triangle_ineq] add_mono) auto
  then show ?case by (simp add: algebra_simps)
qed simp

text \<open>Sums within a quarter of the range, which no addition of two such can leave.\<close>

definition quarter :: "int \<Rightarrow> bool" where
  "quarter z \<longleftrightarrow> \<bar>z\<bar> < 2 ^ 62"

lemma c_long_add: "quarter a \<Longrightarrow> quarter b \<Longrightarrow> c_long (a + b) = Inr (a + b)"
  unfolding quarter_def by (intro c_long_ok) auto

lemma sums_bounds:
  assumes "length ps < 2 ^ 40"
  shows "quarter (SX (sums_of ps))" "quarter (SY (sums_of ps))" "quarter (SXX (sums_of ps))"
    "quarter (SYY (sums_of ps))" "quarter (SXY (sums_of ps))"
proof -
  have *: "quarter (sum_list (map f ps))" if "\<And>p. \<bar>f p\<bar> \<le> 16384" for f :: "point \<Rightarrow> int"
    using sum_list_bound [of f 16384 ps, OF that] assms by (simp add: quarter_def)
  have b: "\<bar>sint (x :: i8)\<bar> \<le> 16384" for x using byte_bounds [of x] by simp
  show "quarter (SX (sums_of ps))" "quarter (SY (sums_of ps))" "quarter (SXX (sums_of ps))"
    "quarter (SYY (sums_of ps))" "quarter (SXY (sums_of ps))"
    unfolding sums_of_def lreg_sums.simps by (intro * b prod_bounds)+
qed

lemma sums_append:
  "sums_of (ps @ qs) = \<lparr>SX = SX (sums_of ps) + SX (sums_of qs), SY = SY (sums_of ps) + SY (sums_of qs),
     SXX = SXX (sums_of ps) + SXX (sums_of qs), SYY = SYY (sums_of ps) + SYY (sums_of qs),
     SXY = SXY (sums_of ps) + SXY (sums_of qs)\<rparr>"
  by (simp add: sums_of_def)

lemma add_sums_of:
  assumes "length ps + length qs < 2 ^ 40"
  shows "add_sums (sums_of qs) (sums_of ps) = Inr (sums_of (ps @ qs))"
proof -
  have l: "length ps < 2 ^ 40" "length qs < 2 ^ 40" using assms by simp_all
  show ?thesis
    by (simp add: add_sums_def c_long_add sums_bounds [OF l(1)] sums_bounds [OF l(2)] sums_append)
qed

lemma add_point_sums:
  assumes "length ps + 1 < 2 ^ 40"
  shows "add_point p (sums_of ps) = Inr (sums_of (ps @ [p]))"
proof -
  have one: "sums_of [p] = \<lparr>SX = sint (fst p), SY = sint (snd p), SXX = sint (fst p) * sint (fst p),
      SYY = sint (snd p) * sint (snd p), SXY = sint (fst p) * sint (snd p)\<rparr>"
    by (simp add: sums_of_def)
  have l: "length ps < 2 ^ 40" "length [p] < 2 ^ 40" using assms by simp_all
  note b = sums_bounds [OF l(2), unfolded one lreg_sums.simps]
  show ?thesis
    by (simp add: add_point_def Let_def c_long_add sums_bounds [OF l(1)] b sums_append one)
qed

lemma thread_sums:
  assumes "s + l \<le> length points" "length points < 2 ^ 31"
  shows "linear_regression_pthread points \<lparr>first_point = int s, num_elems = int l\<rparr> =
    Inr (sums_of (map (\<lambda>k. points ! k) [s..<s + l]))"
proof -
  have "efold (\<lambda>i t. ebind (at_index points (int s + i)) (\<lambda>p. add_point p t)) (map int [0..<k]) zero_sums =
      Inr (sums_of (map (\<lambda>k. points ! k) [s..<s + k]))" if "k \<le> l" for k
    using that
  proof (induction k)
    case 0
    show ?case by (simp add: zero_sums_def sums_of_def)
  next
    case (Suc k)
    have "at_index points (int s + int k) = Inr (points ! (s + k))"
      using Suc.prems assms(1) by (simp add: at_index_def nat_add_distrib)
    moreover have "add_point (points ! (s + k)) (sums_of (map ((!) points) [s..<s + k])) =
        Inr (sums_of (map ((!) points) [s..<s + k] @ [points ! (s + k)]))"
      using Suc.prems assms by (intro add_point_sums) simp
    ultimately show ?case using Suc by (simp add: efold_append)
  qed
  from this [of l] show ?thesis by (simp add: linear_regression_pthread_def)
qed

lemma add_all_sums:
  "length ps + length (concat pss) < 2 ^ 40 \<Longrightarrow>
   efold add_sums (map sums_of pss) (sums_of ps) = Inr (sums_of (ps @ concat pss))"
  by (induction pss arbitrary: ps) (simp_all add: add_sums_of)

text \<open>
  With any number of processors and any points (a file below 2 GB has at most \<open>2 ^ 31\<close>), the
  five sums the program ends with are the sums over all points, each point counted once; none of
  the \<^verbatim>\<open>int\<close> and \<^verbatim>\<open>long long\<close> computations overflows.
\<close>

theorem regression_sums_all_points:
  assumes "0 < num_procs" "length points < 2 ^ 31"
  shows "lreg_main num_procs points = Inr (sums_of points)"
proof -
  let ?n = "length points"
  let ?q = "?n div num_procs"
  let ?chunks = "tail_chunks num_procs ?n"
  let ?arg = "\<lambda>(s, l). \<lparr>first_point = int s, num_elems = int l\<rparr>"
  have "?q \<le> ?n" by (rule div_le_dividend)
  with assms(2) have "?q < 2 ^ 31" by linarith
  then have "to_int (int ?q) = int ?q" by (intro to_int_id) simp_all
  then have q: "to_int (c_div (int ?n) (int num_procs)) = int ?q"
    using c_div_nonneg [of "int ?n" "int num_procs"] assms(1) by (simp flip: zdiv_int)
  have "emap (lreg_arg num_procs (int ?n) (int ?q)) [0..<num_procs] = Inr (map ?arg ?chunks)"
  proof -
    have "lreg_arg num_procs (int ?n) (int ?q) i =
        Inr (?arg (i * ?q, if Suc i = num_procs then ?n - i * ?q else ?q))" if "i < num_procs" for i
    proof -
      have le: "i * ?q + (if Suc i = num_procs then ?n - i * ?q else ?q) \<le> ?n"
        by (rule tail_chunk_bound [of _ _ num_procs]) (use that in \<open>force simp: tail_chunks_def\<close>)
      then have "i * ?q \<le> ?n" by simp
      then have "c_int (int i * int ?q) = Inr (int (i * ?q))" "to_int (int (?n - i * ?q)) = int (?n - i * ?q)"
        using assms(2) by (simp_all flip: of_nat_mult)
      moreover have "int i = int num_procs - 1 \<longleftrightarrow> Suc i = num_procs" by auto
      ultimately show ?thesis using \<open>i * ?q \<le> ?n\<close> by (simp add: lreg_arg_def of_nat_diff)
    qed
    then show ?thesis unfolding tail_chunks_def map_map comp_def
      by (intro emap_Inr) simp
  qed
  moreover have "emap (linear_regression_pthread points) (map ?arg ?chunks) =
      Inr (map sums_of (map (\<lambda>c. map (\<lambda>k. points ! k) (range_of c)) ?chunks))"
  proof -
    have "linear_regression_pthread points (?arg c) = Inr (sums_of (map (\<lambda>k. points ! k) (range_of c)))"
      if "c \<in> set ?chunks" for c
      using thread_sums [of "fst c" "snd c" points] tail_chunk_bound [of "fst c" "snd c" num_procs ?n] that assms(2)
      by (simp add: range_of_def split_beta)
    then have "emap (linear_regression_pthread points) (map ?arg cs) =
        Inr (map sums_of (map (\<lambda>c. map (\<lambda>k. points ! k) (range_of c)) cs))" if "set cs \<subseteq> set ?chunks" for cs
      using that by (induction cs) auto
    then show ?thesis by blast
  qed
  moreover have "concat (map (\<lambda>c. map (\<lambda>k. points ! k) (range_of c)) ?chunks) = points"
  proof -
    have "concat (map (\<lambda>c. map (\<lambda>k. points ! k) (range_of c)) ?chunks) =
        map (\<lambda>k. points ! k) (concat (map range_of ?chunks))"
      by (simp add: map_concat comp_def)
    then show ?thesis by (simp add: tail_split.cover [OF assms(1)] map_nth)
  qed
  ultimately show ?thesis
    using assms add_all_sums [of "[]" "map (\<lambda>c. map (\<lambda>k. points ! k) (range_of c)) ?chunks"]
    by (simp add: lreg_main_def q Let_def zero_sums_def sums_of_def del: map_map)
qed

theorem regression_sums_all_points_witness:
  "lreg_main 3 [(1, 2), (-1, 5), (4, -3), (2, 2), (7, 0)] =
     Inr \<lparr>SX = 13, SY = 6, SXX = 71, SYY = 42, SXY = -11\<rparr>"
proof -
  have "lreg_main 3 [(1, 2), (-1, 5), (4, -3), (2, 2), (7, 0)] =
      Inr (sums_of [(1, 2), (-1, 5), (4, -3), (2, 2), (7, 0)])"
    by (rule regression_sums_all_points) simp_all
  then show ?thesis by (simp add: sums_of_def)
qed

section \<open>The fitted line\<close>

lemma line_residuals:
  fixes N sx sy sxx sxy :: "'a::field"
  assumes "N \<noteq> 0" "N * sxx - sx * sx \<noteq> 0"
  defines "b \<equiv> (N * sxy - sx * sy) / (N * sxx - sx * sx)"
  defines "a \<equiv> (sy - b * sx) / N"
  shows "N * a + b * sx = sy" "a * sx + b * sxx = sxy"
proof -
  show *: "N * a + b * sx = sy" using assms(1) by (simp add: a_def)
  have "b * (N * sxx - sx * sx) = N * sxy - sx * sy" using assms(2) by (simp add: b_def)
  moreover have "N * (a * sx + b * sxx) = (N * a + b * sx) * sx + b * (N * sxx - sx * sx)"
    by (simp add: algebra_simps)
  ultimately have "N * (a * sx + b * sxx) = N * sxy" using * by (simp add: algebra_simps)
  then show "a * sx + b * sxx = sxy" using assms(1) by simp
qed

lemma sum_residuals:
  fixes f g :: "'p \<Rightarrow> 'a::comm_ring_1"
  shows "sum_list (map (\<lambda>p. w p * (f p - a - b * g p)) ps) =
    sum_list (map (\<lambda>p. w p * f p) ps) - a * sum_list (map w ps) - b * sum_list (map (\<lambda>p. w p * g p) ps)"
  by (induction ps) (simp_all add: algebra_simps)

text \<open>
  The line the program prints is the least-squares line: unless all points have the same
  first coordinate (then it divides by zero), the residuals of the points sum to zero, and so do
  the residuals weighted by the first coordinate (the normal equations), here over any field.
\<close>

theorem line_satisfies_normal_equations:
  fixes x y :: "point \<Rightarrow> 'a::field_char_0"
  assumes "x = (\<lambda>p. of_int (sint (fst p)))" "y = (\<lambda>p. of_int (sint (snd p)))"
    and "fit = lreg_line (int (length ps)) (sums_of ps)"
    and "int (length ps) * SXX (sums_of ps) \<noteq> SX (sums_of ps) * SX (sums_of ps)"
  shows "sum_list (map (\<lambda>p. y p - line_a fit - line_b fit * x p) ps) = 0 \<and>
    sum_list (map (\<lambda>p. x p * (y p - line_a fit - line_b fit * x p)) ps) = 0"
proof -
  let ?N = "of_nat (length ps) :: 'a"
  have all: "of_int (SX (sums_of ps)) = sum_list (map x ps)" "of_int (SY (sums_of ps)) = sum_list (map y ps)"
    "of_int (SXX (sums_of ps)) = sum_list (map (\<lambda>p. x p * x p) ps)"
    "of_int (SXY (sums_of ps)) = sum_list (map (\<lambda>p. x p * y p) ps)"
    unfolding sums_of_def assms(1,2) by (induction ps) simp_all
  have "of_int (int (length ps) * SXX (sums_of ps)) \<noteq> (of_int (SX (sums_of ps) * SX (sums_of ps)) :: 'a)"
    using assms(4) by (simp only: of_int_eq_iff not_False_eq_True)
  then have nz: "?N * sum_list (map (\<lambda>p. x p * x p) ps) - sum_list (map x ps) * sum_list (map x ps) \<noteq> 0"
    by (simp add: all)
  have "?N \<noteq> 0" using assms(4) by (auto simp: sums_of_def)
  note res = line_residuals [OF this nz]
  have lb: "line_b fit = (?N * sum_list (map (\<lambda>p. x p * y p) ps) - sum_list (map x ps) * sum_list (map y ps)) /
        (?N * sum_list (map (\<lambda>p. x p * x p) ps) - sum_list (map x ps) * sum_list (map x ps))"
    by (simp add: assms(3) lreg_line_def Let_def all)
  have la: "line_a fit = (sum_list (map y ps) - line_b fit * sum_list (map x ps)) / ?N"
    by (simp add: assms(3) lreg_line_def Let_def all)
  have
    "?N * line_a fit + line_b fit * sum_list (map x ps) = sum_list (map y ps)"
    "line_a fit * sum_list (map x ps) + line_b fit * sum_list (map (\<lambda>p. x p * x p) ps) =
       sum_list (map (\<lambda>p. x p * y p) ps)"
    unfolding la lb by (rule res)+
  then show ?thesis
    using sum_residuals [of "\<lambda>_. 1" y "line_a fit" "line_b fit" x ps]
      sum_residuals [of x y "line_a fit" "line_b fit" x ps]
    by (simp add: algebra_simps sum_list_triv)
qed

theorem line_satisfies_normal_equations_witness:
  "sum_list (map (\<lambda>p. of_int (sint (snd p)) - 1 / 2 - 7 / 2 * of_int (sint (fst p)) :: rat)
     ([(0, 1), (1, 3), (2, 8)] :: point list)) = 0"
proof -
  let ?ps = "[(0, 1), (1, 3), (2, 8)] :: point list"
  let ?fit = "lreg_line (int (length ?ps)) (sums_of ?ps) :: rat lreg_line"
  have "line_a ?fit = 1 / 2" "line_b ?fit = 7 / 2" by (simp_all add: lreg_line_def sums_of_def Let_def)
  with line_satisfies_normal_equations [where ps = ?ps and fit = ?fit and 'a = rat, OF refl refl refl]
  show ?thesis by (simp add: sums_of_def)
qed

end
