(* ===== verification/Kmeans.thy ===== *)
theory Kmeans
  imports Work_Split
begin

text \<open>
  The k-means benchmark, \<^verbatim>\<open>kmeans-pthread.c\<close>: option parsing, the generation of points, the
  distance with its 32-bit arithmetic, the assignment of points to clusters and the new means, the
  division of both among the threads, and the loop of \<^verbatim>\<open>main\<close>. The threads of one phase write
  disjoint elements (and all store the same value in \<^verbatim>\<open>modified\<close>), so they are run in order.
  \<^verbatim>\<open>rand\<close> is a parameter: the sequence of its results.
\<close>

section \<open>Options and points\<close>

record km_config =
  num_points :: int
  num_means :: int
  dim :: int
  grid_size :: int

text \<open>What \<^verbatim>\<open>getopt\<close> returns, with the value of \<^verbatim>\<open>atoi(optarg)\<close>.\<close>

datatype km_option = Opt_d int | Opt_c int | Opt_p int | Opt_s int | Opt_unknown

fun km_option_step :: "km_option \<Rightarrow> km_config \<Rightarrow> c_fault + km_config" where
  "km_option_step (Opt_d v) cfg = Inr (cfg\<lparr>dim := v\<rparr>)"
| "km_option_step (Opt_c v) cfg = Inr (cfg\<lparr>num_means := v\<rparr>)"
| "km_option_step (Opt_p v) cfg = Inr (cfg\<lparr>num_points := v\<rparr>)"
| "km_option_step (Opt_s v) cfg = Inr (cfg\<lparr>grid_size := v\<rparr>)"
| "km_option_step Opt_unknown cfg = Inl (Exited 1)"

definition km_parse_args :: "km_option list \<Rightarrow> c_fault + km_config" where
  "km_parse_args opts =
     ebind (efold km_option_step opts \<lparr>num_points = 100000, num_means = 100, dim = 3, grid_size = 1000\<rparr>)
       (\<lambda>cfg. if dim cfg \<le> 0 \<or> num_means cfg \<le> 0 \<or> num_points cfg \<le> 0 \<or> grid_size cfg \<le> 0
              then Inl (Exited 1) else Inr cfg)"

fun generate_row :: "(nat \<Rightarrow> int) \<Rightarrow> int \<Rightarrow> nat \<Rightarrow> nat \<Rightarrow> int list \<times> nat" where
  "generate_row rnd grid 0 k = ([], k)"
| "generate_row rnd grid (Suc d) k =
     (let r = generate_row rnd grid d (Suc k) in (c_mod (rnd k) grid # fst r, snd r))"

fun generate_points :: "(nat \<Rightarrow> int) \<Rightarrow> int \<Rightarrow> nat \<Rightarrow> nat \<Rightarrow> nat \<Rightarrow> int list list \<times> nat" where
  "generate_points rnd grid d 0 k = ([], k)"
| "generate_points rnd grid d (Suc n) k =
     (let r = generate_row rnd grid d k; rs = generate_points rnd grid d n (snd r)
      in (fst r # fst rs, snd rs))"

section \<open>One thread\<close>

record km_arg =
  start_idx :: int
  num_pts :: int

record km_state =
  means :: "int list list"
  clusters :: "int list"
  modified :: bool

definition get_sq_dist :: "int \<Rightarrow> int list \<Rightarrow> int list \<Rightarrow> c_fault + u32" where
  "get_sq_dist d v1 v2 =
     efold (\<lambda>i acc.
         ebind (at_index v1 i) (\<lambda>a.
         ebind (at_index v2 i) (\<lambda>b.
         ebind (c_int (a - b)) (\<lambda>x.
         ebind (c_int (x * x)) (\<lambda>sq. Inr (acc + word_of_int sq))))))
       (map int [0..<nat d]) 0"

definition add_to_sum :: "int \<Rightarrow> int list \<Rightarrow> int list \<Rightarrow> c_fault + int list" where
  "add_to_sum d s0 point =
     efold (\<lambda>i s.
         ebind (at_index s i) (\<lambda>a.
         ebind (at_index point i) (\<lambda>b.
         ebind (c_int (a + b)) (\<lambda>r. Inr (s[nat i := r])))))
       (map int [0..<nat d]) s0"

definition nearest_mean :: "km_config \<Rightarrow> int list list \<Rightarrow> int list \<Rightarrow> c_fault + u32 \<times> int" where
  "nearest_mean cfg ms p =
     ebind (at_index ms 0) (\<lambda>m. ebind (get_sq_dist (dim cfg) p m) (\<lambda>d.
       efold (\<lambda>j r.
           ebind (at_index ms j) (\<lambda>m.
           ebind (get_sq_dist (dim cfg) p m) (\<lambda>cur_dist.
             Inr (if cur_dist < fst r then (cur_dist, j) else r))))
         (map int [1..<nat (num_means cfg)]) (d, 0)))"

definition find_cluster :: "km_config \<Rightarrow> int list list \<Rightarrow> int \<Rightarrow> km_state \<Rightarrow> c_fault + km_state" where
  "find_cluster cfg points i st =
     ebind (at_index points i) (\<lambda>p.
     ebind (nearest_mean cfg (means st) p) (\<lambda>r.
     ebind (at_index (clusters st) i) (\<lambda>c.
       Inr (if c \<noteq> snd r
            then st\<lparr>clusters := (clusters st)[nat i := snd r], modified := True\<rparr>
            else st))))"

definition find_clusters :: "km_config \<Rightarrow> int list list \<Rightarrow> km_arg \<Rightarrow> km_state \<Rightarrow> c_fault + km_state" where
  "find_clusters cfg points arg st =
     efold (find_cluster cfg points) (map int [nat (start_idx arg)..<nat (start_idx arg + num_pts arg)]) st"

definition group_sum :: "km_config \<Rightarrow> int list list \<Rightarrow> int list \<Rightarrow> int \<Rightarrow> c_fault + int list \<times> int" where
  "group_sum cfg points cs i =
     efold (\<lambda>j r.
         ebind (at_index cs j) (\<lambda>c.
           if c = i
           then ebind (at_index points j) (\<lambda>p.
                ebind (add_to_sum (dim cfg) (fst r) p) (\<lambda>s0. Inr (s0, snd r + 1)))
           else Inr r))
       (map int [0..<nat (num_points cfg)]) (replicate (nat (dim cfg)) 0, 0)"

definition set_mean :: "km_config \<Rightarrow> int \<Rightarrow> int list \<times> int \<Rightarrow> km_state \<Rightarrow> c_fault + km_state" where
  "set_mean cfg i r st =
     efold (\<lambda>j st.
         if snd r \<noteq> 0
         then ebind (at_index (fst r) j) (\<lambda>s.
              ebind (at_index (means st) i) (\<lambda>m.
              ebind (at_index m j) (\<lambda>_.
                Inr (st\<lparr>means := (means st)[nat i := m[nat j := c_div s (snd r)]]\<rparr>))))
         else Inr st)
       (map int [0..<nat (dim cfg)]) st"

definition calc_means :: "km_config \<Rightarrow> int list list \<Rightarrow> km_arg \<Rightarrow> km_state \<Rightarrow> c_fault + km_state" where
  "calc_means cfg points arg st =
     efold (\<lambda>i st. ebind (group_sum cfg points (clusters st) i) (\<lambda>r. set_mean cfg i r st))
       (map int [nat (start_idx arg)..<nat (start_idx arg + num_pts arg)]) st"

section \<open>The program\<close>

text \<open>
  The loop that creates the threads of a phase; the array of thread ids has one slot per processor,
  and the thread ids written past it are a fault.
\<close>

fun assign_threads :: "nat \<Rightarrow> int \<Rightarrow> int \<Rightarrow> int \<Rightarrow> int \<Rightarrow> c_fault + km_arg list" where
  "assign_threads slots cur n per_thread excess =
     (if cur < n
      then case slots of
             0 \<Rightarrow> Inl Out_Of_Bounds
           | Suc s \<Rightarrow>
               (let pts = (if 0 < excess then per_thread + 1 else per_thread)
                in ebind (assign_threads s (cur + pts) n per_thread (if 0 < excess then excess - 1 else excess))
                     (\<lambda>args. Inr (\<lparr>start_idx = cur, num_pts = pts\<rparr> # args)))
      else Inr [])"

declare assign_threads.simps [simp del]

definition km_phase ::
  "nat \<Rightarrow> int \<Rightarrow> (km_arg \<Rightarrow> km_state \<Rightarrow> c_fault + km_state) \<Rightarrow> km_state \<Rightarrow> c_fault + km_state" where
  "km_phase num_procs n thread st =
     ebind (assign_threads num_procs 0 n (c_div n (int num_procs)) (c_mod n (int num_procs))) (\<lambda>args.
       if length args = num_procs then efold thread args st else Inl Assert_Failed)"

definition km_iteration :: "km_config \<Rightarrow> nat \<Rightarrow> int list list \<Rightarrow> km_state \<Rightarrow> c_fault + km_state" where
  "km_iteration cfg num_procs points st =
     ebind (km_phase num_procs (num_points cfg) (find_clusters cfg points) (st\<lparr>modified := False\<rparr>))
       (km_phase num_procs (num_means cfg) (calc_means cfg points))"

text \<open>The loop of \<^verbatim>\<open>main\<close>: \<open>None\<close> when it runs forever.\<close>

partial_function (option) km_loop ::
  "km_config \<Rightarrow> nat \<Rightarrow> int list list \<Rightarrow> km_state \<Rightarrow> (c_fault + km_state) option" where
  "km_loop cfg num_procs points st =
     (if modified st
      then case km_iteration cfg num_procs points st of
             Inl e \<Rightarrow> Some (Inl e)
           | Inr st' \<Rightarrow> km_loop cfg num_procs points st'
      else Some (Inr st))"

definition km_start :: "(nat \<Rightarrow> int) \<Rightarrow> km_config \<Rightarrow> int list list \<times> km_state" where
  "km_start rnd cfg =
     (let pts = generate_points rnd (grid_size cfg) (nat (dim cfg)) (nat (num_points cfg)) 0;
          ms = generate_points rnd (grid_size cfg) (nat (dim cfg)) (nat (num_means cfg)) (snd pts)
      in (fst pts, \<lparr>means = fst ms, clusters = replicate (nat (num_points cfg)) (- 1), modified = True\<rparr>))"

definition km_main :: "(nat \<Rightarrow> int) \<Rightarrow> nat \<Rightarrow> km_option list \<Rightarrow> (c_fault + km_state) option" where
  "km_main rnd num_procs opts =
     (case km_parse_args opts of
        Inl e \<Rightarrow> Some (Inl e)
      | Inr cfg \<Rightarrow>
          (if num_procs = 0 then Some (Inl Assert_Failed)
           else case km_start rnd cfg of (points, st) \<Rightarrow> km_loop cfg num_procs points st))"

end
