(* ===== verification/Kmeans_Clusters.thy ===== *)
theory Kmeans_Clusters
  imports Kmeans
begin

text \<open>
  What one iteration of the k-means program computes, for any number of threads, and what the
  program returns. The numbers are bounded so that no C computation overflows; the defaults of the
  program (100000 points with 3 coordinates below 1000) are within the bounds.
\<close>

section \<open>Distances\<close>

definition sq_dist :: "nat \<Rightarrow> int list \<Rightarrow> int list \<Rightarrow> int" where
  "sq_dist d v m = (\<Sum>i<d. (v ! i - m ! i) * (v ! i - m ! i))"

definition vec_ok :: "int \<Rightarrow> nat \<Rightarrow> int list \<Rightarrow> bool" where
  "vec_ok grid d v \<longleftrightarrow> length v = d \<and> (\<forall>x\<in>set v. 0 \<le> x \<and> x < grid)"

definition sizes_ok :: "int \<Rightarrow> nat \<Rightarrow> bool" where
  "sizes_ok grid d \<longleftrightarrow> 0 < d \<and> 0 < grid \<and> grid \<le> 46341 \<and> int d * ((grid - 1) * (grid - 1)) < 2 ^ 32"

lemma vec_ok_nth: "vec_ok grid d v \<Longrightarrow> i < d \<Longrightarrow> 0 \<le> v ! i \<and> v ! i < grid"
  by (auto simp: vec_ok_def)

lemma sq_diff_bound:
  assumes "0 \<le> a" "a < grid" "0 \<le> b" "b < grid"
  shows "(a - b) * (a - b) \<le> (grid - 1) * (grid - (1 :: int))"
proof -
  have "\<bar>a - b\<bar> * \<bar>a - b\<bar> \<le> (grid - 1) * (grid - 1)"
    using assms by (intro mult_mono) auto
  then show ?thesis by (simp add: abs_mult_self_eq)
qed

lemma sq_dist_bounds:
  assumes "sizes_ok grid d" "vec_ok grid d v" "vec_ok grid d m"
  shows "0 \<le> sq_dist d v m" "sq_dist d v m < 2 ^ 32"
proof -
  show "0 \<le> sq_dist d v m" unfolding sq_dist_def by (intro sum_nonneg) simp
  have "sq_dist d v m \<le> (\<Sum>i<d. (grid - 1) * (grid - 1))"
    unfolding sq_dist_def
    using vec_ok_nth [OF assms(2)] vec_ok_nth [OF assms(3)] by (intro sum_mono sq_diff_bound) auto
  also have "\<dots> < 2 ^ 32" using assms(1) by (simp add: sizes_ok_def)
  finally show "sq_dist d v m < 2 ^ 32" .
qed

lemma get_sq_dist_ok:
  assumes "sizes_ok grid d" "vec_ok grid d v" "vec_ok grid d m"
  shows "get_sq_dist (int d) v m = Inr (word_of_int (sq_dist d v m))"
proof -
  let ?f = "\<lambda>i acc. ebind (at_index v i) (\<lambda>a. ebind (at_index m i) (\<lambda>b. ebind (c_int (a - b)) (\<lambda>x.
      ebind (c_int (x * x)) (\<lambda>sq. Inr (acc + word_of_int sq :: u32)))))"
  have "?f (int k) (word_of_int (sq_dist k v m)) = Inr (word_of_int (sq_dist (Suc k) v m))" if "k < d" for k
  proof -
    let ?x = "v ! k - m ! k"
    have b: "0 \<le> v ! k" "v ! k < grid" "0 \<le> m ! k" "m ! k < grid" "grid \<le> 46341" "0 < grid"
      using vec_ok_nth [OF assms(2) that] vec_ok_nth [OF assms(3) that] assms(1) by (auto simp: sizes_ok_def)
    have "(grid - 1) * (grid - 1) \<le> 46340 * 46340" using b by (intro mult_mono) auto
    then have "?x * ?x < 2 ^ 31" using sq_diff_bound [OF b(1-4)] by simp
    moreover have "- (2 ^ 31) \<le> ?x * ?x" by (rule order_trans [OF _ zero_le_square]) simp
    ultimately have "c_int (?x * ?x) = Inr (?x * ?x)" by (rule c_int_ok [rotated])
    moreover have "c_int ?x = Inr ?x" using b by (intro c_int_ok) auto
    ultimately show ?thesis
      using that assms(2,3) by (simp add: vec_ok_def sq_dist_def)
  qed
  then have "efold ?f (map int [0..<d]) (word_of_int (sq_dist 0 v m)) = Inr (word_of_int (sq_dist d v m))"
    by (intro efold_steps) auto
  then show ?thesis by (simp add: get_sq_dist_def sq_dist_def)
qed

lemma dist_less_iff:
  assumes "sizes_ok grid d" "vec_ok grid d v" "vec_ok grid d m" "vec_ok grid d m'"
  shows "(word_of_int (sq_dist d v m) :: u32) < word_of_int (sq_dist d v m') \<longleftrightarrow> sq_dist d v m < sq_dist d v m'"
  using sq_dist_bounds [OF assms(1-3)] sq_dist_bounds [OF assms(1,2,4)]
  by (simp add: word_less_def uint_word_of_int)

section \<open>The nearest mean\<close>

primrec nearest_upto :: "nat \<Rightarrow> int list list \<Rightarrow> int list \<Rightarrow> nat \<Rightarrow> nat" where
  "nearest_upto d ms p 0 = 0"
| "nearest_upto d ms p (Suc j) =
     (if sq_dist d p (ms ! Suc j) < sq_dist d p (ms ! nearest_upto d ms p j) then Suc j else nearest_upto d ms p j)"

definition is_nearest :: "nat \<Rightarrow> int list list \<Rightarrow> int list \<Rightarrow> nat \<Rightarrow> bool" where
  "is_nearest d ms p c \<longleftrightarrow> c < length ms \<and>
     (\<forall>j<length ms. sq_dist d p (ms ! c) \<le> sq_dist d p (ms ! j) \<and> (j < c \<longrightarrow> sq_dist d p (ms ! c) < sq_dist d p (ms ! j)))"

lemma nearest_upto_le: "nearest_upto d ms p k \<le> k"
  by (induction k) auto

lemma nearest_upto_least:
  "j \<le> k \<Longrightarrow> sq_dist d p (ms ! nearest_upto d ms p k) \<le> sq_dist d p (ms ! j) \<and>
     (j < nearest_upto d ms p k \<longrightarrow> sq_dist d p (ms ! nearest_upto d ms p k) < sq_dist d p (ms ! j))"
proof (induction k arbitrary: j)
  case (Suc k)
  show ?case
  proof (cases "j = Suc k")
    case True
    then show ?thesis using nearest_upto_le [of d ms p k] by auto
  next
    case False
    then have "j \<le> k" using Suc.prems by simp
    from Suc.IH [OF this] show ?thesis by auto
  qed
qed simp

lemma nearest_is_nearest: "ms \<noteq> [] \<Longrightarrow> is_nearest d ms p (nearest_upto d ms p (length ms - 1))"
proof -
  assume "ms \<noteq> []"
  then have "0 < length ms" by simp
  then have "nearest_upto d ms p (length ms - 1) < length ms"
    using nearest_upto_le [of d ms p "length ms - 1"] by linarith
  moreover have "j \<le> length ms - 1" if "j < length ms" for j using that by simp
  ultimately show ?thesis
    using nearest_upto_least [of _ "length ms - 1" d p ms] by (simp add: is_nearest_def)
qed

lemma nearest_mean_ok:
  assumes "sizes_ok grid d" "vec_ok grid d p" "\<forall>m\<in>set ms. vec_ok grid d m" "ms \<noteq> []"
    and "dim cfg = int d" "num_means cfg = int (length ms)"
  shows "nearest_mean cfg ms p =
    Inr (word_of_int (sq_dist d p (ms ! nearest_upto d ms p (length ms - 1))), int (nearest_upto d ms p (length ms - 1)))"
proof -
  let ?G = "\<lambda>n. (word_of_int (sq_dist d p (ms ! nearest_upto d ms p (n - 1))) :: u32, int (nearest_upto d ms p (n - 1)))"
  let ?f = "\<lambda>j r. ebind (at_index ms j) (\<lambda>m. ebind (get_sq_dist (dim cfg) p m) (\<lambda>cur_dist.
      Inr (if cur_dist < fst r then (cur_dist, j) else r)))"
  have len: "1 \<le> length ms" using assms(4) by (cases ms) auto
  have ok: "vec_ok grid d (ms ! j)" if "j < length ms" for j using assms(3) that by auto
  have "?f (int k) (?G k) = Inr (?G (Suc k))" if "1 \<le> k" "k < length ms" for k
  proof -
    define j where "j = k - 1"
    have k: "k = Suc j" using that(1) by (simp add: j_def)
    have "nearest_upto d ms p j < length ms" using nearest_upto_le [of d ms p j] that k by simp
    then have "(word_of_int (sq_dist d p (ms ! Suc j)) :: u32) < word_of_int (sq_dist d p (ms ! nearest_upto d ms p j)) \<longleftrightarrow>
        sq_dist d p (ms ! Suc j) < sq_dist d p (ms ! nearest_upto d ms p j)"
      using that(2) k by (intro dist_less_iff [OF assms(1,2) ok ok]) auto
    moreover have "at_index ms (int k) = Inr (ms ! k)" using that(2) by simp
    ultimately show ?thesis
      using that(2) by (simp add: get_sq_dist_ok [OF assms(1,2) ok] assms(5) k del: of_nat_Suc)
  qed
  then have "efold ?f (map int [1..<length ms]) (?G 1) = Inr (?G (length ms))"
    using len by (intro efold_steps) auto
  moreover have "at_index ms 0 = Inr (ms ! 0)" "vec_ok grid d (ms ! 0)" 
    using len ok [of 0] assms(4) by (simp_all add: at_index_def)
  ultimately show ?thesis
    by (simp add: nearest_mean_def assms(5,6) get_sq_dist_ok [OF assms(1,2)])
qed

section \<open>The division among the threads\<close>

abbreviation (input) arg_of :: "nat \<times> nat \<Rightarrow> km_arg" where
  "arg_of c \<equiv> \<lparr>start_idx = int (fst c), num_pts = int (snd c)\<rparr>"

lemma assign_threads_excess:
  "0 < q \<Longrightarrow> e \<le> k \<Longrightarrow> n = start + k * q + e \<Longrightarrow>
   assign_threads k (int start) (int n) (int q) (int e) = Inr (map arg_of (excess_chunks_from k q e start))"
proof (induction k arbitrary: start e)
  case 0
  then show ?case by (subst assign_threads.simps) simp
next
  case (Suc k)
  have less: "int start < int n" using Suc.prems by (simp only: of_nat_less_iff) simp
  show ?case
  proof (cases "0 < e")
    case True
    then obtain e' where e: "e = Suc e'" by (cases e) auto
    have "assign_threads k (int (start + Suc q)) (int n) (int q) (int e') = Inr (map arg_of (excess_chunks_from k q e' (start + Suc q)))"
      by (rule Suc.IH) (use Suc.prems e in auto)
    then show ?thesis using less e by (subst assign_threads.simps) (simp add: Let_def algebra_simps)
  next
    case False
    have "assign_threads k (int (start + q)) (int n) (int q) (int 0) = Inr (map arg_of (excess_chunks_from k q 0 (start + q)))"
      by (rule Suc.IH) (use Suc.prems False in auto)
    then show ?thesis using less False by (subst assign_threads.simps) (simp add: Let_def)
  qed
qed

lemma assign_threads_few:
  "e \<le> k \<Longrightarrow> n = start + e \<Longrightarrow> \<exists>args. assign_threads k (int start) (int n) 0 (int e) = Inr args \<and> length args = e"
proof (induction e arbitrary: k start)
  case 0
  then show ?case by (subst assign_threads.simps) simp
next
  case (Suc e)
  then obtain k' where k: "k = Suc k'" by (cases k) auto
  have "\<exists>args. assign_threads k' (int (Suc start)) (int n) 0 (int e) = Inr args \<and> length args = e"
    by (rule Suc.IH) (use Suc.prems k in auto)
  then show ?case using Suc.prems k by (subst assign_threads.simps) (auto simp: Let_def algebra_simps)
qed

lemma km_phase_all:
  assumes "0 < p" "p \<le> n"
    and "\<And>arg. start_idx arg \<ge> 0 \<Longrightarrow> num_pts arg \<ge> 0 \<Longrightarrow>
      thread arg = efold f (map int [nat (start_idx arg)..<nat (start_idx arg + num_pts arg)])"
  shows "km_phase p (int n) thread st = efold f (map int [0..<n]) st"
proof -
  have "0 < n div p" using assms by (simp add: div_greater_zero_iff)
  moreover have "n mod p \<le> p" using assms(1) by (simp add: less_imp_le)
  ultimately have "assign_threads p 0 (int n) (int (n div p)) (int (n mod p)) = Inr (map arg_of (excess_chunks p n))"
    using assign_threads_excess [of "n div p" "n mod p" p n 0] by (simp add: excess_chunks_def)
  moreover have "length (excess_chunks_from k q e s) = k" for k q e s
    by (induction k arbitrary: e s) (simp_all add: Let_def)
  moreover have "efold thread (map arg_of cs) s = efold (\<lambda>c. efold f (map int (range_of c))) cs s" for cs s
  proof (induction cs arbitrary: s)
    case (Cons c cs)
    have "thread (arg_of c) s = efold f (map int (range_of c)) s" by (simp add: assms(3) range_of_def nat_add_distrib)
    then show ?case using Cons.IH by (cases "efold f (map int (range_of c)) s") auto
  qed simp
  ultimately show ?thesis
    using assms(1) excess_split.efold_chunks [OF assms(1), of f int n st]
    by (simp add: km_phase_def c_div_nonneg c_mod_nonneg excess_chunks_def flip: zdiv_int zmod_int)
qed

lemma km_phase_few: "0 < n \<Longrightarrow> n < p \<Longrightarrow> km_phase p (int n) thread st = Inl Assert_Failed"
  using assign_threads_few [of n p n 0]
  by (auto simp: km_phase_def c_div_nonneg c_mod_nonneg)

section \<open>The assignment of the points\<close>

definition nearest :: "int list list \<Rightarrow> int list \<Rightarrow> nat" where
  "nearest ms p = nearest_upto (length p) ms p (length ms - 1)"

text \<open>
  The sizes and values for which no computation leaves its type: coordinates below \<open>grid\<close> (the means
  stay below it too), and sums of all points that fit an \<^verbatim>\<open>int\<close>.
\<close>

definition km_ok :: "int \<Rightarrow> km_config \<Rightarrow> int list list \<Rightarrow> km_state \<Rightarrow> bool" where
  "km_ok grid cfg points st \<longleftrightarrow>
     sizes_ok grid (nat (dim cfg)) \<and>
     points \<noteq> [] \<and> num_points cfg = int (length points) \<and> int (length points) * grid < 2 ^ 31 \<and>
     means st \<noteq> [] \<and> num_means cfg = int (length (means st)) \<and> length (clusters st) = length points \<and>
     list_all (vec_ok grid (nat (dim cfg))) points \<and> list_all (vec_ok grid (nat (dim cfg))) (means st)"

lemma km_ok_dim: "km_ok grid cfg points st \<Longrightarrow> dim cfg = int (nat (dim cfg))"
  by (simp add: km_ok_def sizes_ok_def)

lemma km_ok_point: "km_ok grid cfg points st \<Longrightarrow> i < length points \<Longrightarrow> vec_ok grid (nat (dim cfg)) (points ! i)"
  by (simp add: km_ok_def list_all_length)

lemma nearest_mean_point:
  assumes "km_ok grid cfg points st" "i < length points"
  shows "\<exists>w. nearest_mean cfg (means st) (points ! i) = Inr (w, int (nearest (means st) (points ! i)))"
proof -
  note p = km_ok_point [OF assms]
  have "length (points ! i) = nat (dim cfg)" using p by (simp add: vec_ok_def)
  then show ?thesis
    using nearest_mean_ok [of grid "nat (dim cfg)" "points ! i" "means st" cfg] p assms(1) km_ok_dim [OF assms(1)]
    by (simp add: km_ok_def list_all_iff nearest_def)
qed

lemma take_Suc_differ:
  "k < length xs \<Longrightarrow> k < length ys \<Longrightarrow>
   take (Suc k) xs = take (Suc k) ys \<longleftrightarrow> take k xs = take k ys \<and> xs ! k = ys ! k"
  by (auto simp: take_Suc_conv_app_nth)

lemma find_clusters_all:
  assumes ok: "km_ok grid cfg points st"
  defines "cs' \<equiv> map (\<lambda>p. int (nearest (means st) p)) points"
  shows "efold (find_cluster cfg points) (map int [0..<length points]) st =
    Inr (st\<lparr>clusters := cs', modified := modified st \<or> clusters st \<noteq> cs'\<rparr>)"
proof -
  let ?cs = "clusters st"
  let ?G = "\<lambda>k. st\<lparr>clusters := take k cs' @ drop k ?cs, modified := modified st \<or> take k ?cs \<noteq> take k cs'\<rparr>"
  have len: "length ?cs = length points" "length cs' = length points" using ok by (simp_all add: km_ok_def cs'_def)
  have "find_cluster cfg points (int k) (?G k) = Inr (?G (Suc k))" if k: "k < length points" for k
  proof -
    obtain w where w: "nearest_mean cfg (means st) (points ! k) = Inr (w, cs' ! k)"
      using nearest_mean_point [OF ok k] k by (auto simp: cs'_def)
    have at: "at_index (take k cs' @ drop k ?cs) (int k) = Inr (?cs ! k)"
      using k len by (simp add: nth_append)
    have upd: "(take k cs' @ drop k ?cs)[k := cs' ! k] = take (Suc k) cs' @ drop (Suc k) ?cs"
      using k len by (simp add: list_update_append take_Suc_conv_app_nth flip: Cons_nth_drop_Suc)
    have same: "take k cs' @ drop k ?cs = take (Suc k) cs' @ drop (Suc k) ?cs" if "?cs ! k = cs' ! k"
      using k len that by (simp add: take_Suc_conv_app_nth flip: Cons_nth_drop_Suc)
    have diff: "take (Suc k) ?cs = take (Suc k) cs' \<longleftrightarrow> take k ?cs = take k cs' \<and> ?cs ! k = cs' ! k"
      using k len by (intro take_Suc_differ) simp_all
    show ?thesis
    proof (cases "?cs ! k = cs' ! k")
      case True
      with same have eq: "take (Suc k) cs' @ drop (Suc k) ?cs = take k cs' @ drop k ?cs" by simp
      show ?thesis using k by (simp add: find_cluster_def w at True diff eq)
    next
      case False
      then show ?thesis using k by (simp add: find_cluster_def w at upd diff)
    qed
  qed
  then have "efold (find_cluster cfg points) (map int [0..<length points]) (?G 0) = Inr (?G (length points))"
    by (intro efold_steps) auto
  then show ?thesis using len by simp
qed

section \<open>The new means\<close>

text \<open>The points of cluster \<open>i\<close>, and the mean of a group of points rounded down in every coordinate.\<close>

definition members :: "int list list \<Rightarrow> int list \<Rightarrow> nat \<Rightarrow> int list list" where
  "members points cs i = map snd (filter (\<lambda>x. fst x = int i) (zip cs points))"

definition coord_sum :: "int list list \<Rightarrow> nat \<Rightarrow> int" where
  "coord_sum ps c = sum_list (map (\<lambda>p. p ! c) ps)"

definition new_mean :: "int list list \<Rightarrow> int list \<Rightarrow> int list" where
  "new_mean ps old =
     (if ps = [] then old else map (\<lambda>c. coord_sum ps c div int (length ps)) [0..<length old])"

lemma coord_sum_snoc [simp]: "coord_sum (ps @ [p]) c = coord_sum ps c + p ! c"
  by (simp add: coord_sum_def)

lemma coord_sum_bounds:
  "list_all (vec_ok grid d) ps \<Longrightarrow> c < d \<Longrightarrow> 0 \<le> coord_sum ps c \<and> coord_sum ps c \<le> int (length ps) * (grid - 1)"
proof (induction ps)
  case Nil
  show ?case by (simp add: coord_sum_def)
next
  case (Cons p ps)
  then have "0 \<le> p ! c" "p ! c < grid" using vec_ok_nth [of grid d p c] by simp_all
  with Cons show ?case by (simp add: coord_sum_def algebra_simps)
qed

lemma add_to_sum_ok:
  assumes "length s = d" "length p = d" "\<forall>c<d. - (2 ^ 31) \<le> s ! c + p ! c \<and> s ! c + p ! c < 2 ^ 31"
  shows "add_to_sum (int d) s p = Inr (map (\<lambda>c. s ! c + p ! c) [0..<d])"
proof -
  let ?new = "map (\<lambda>c. s ! c + p ! c) [0..<d]"
  let ?f = "\<lambda>i t. ebind (at_index t i) (\<lambda>a. ebind (at_index p i) (\<lambda>b.
      ebind (c_int (a + b)) (\<lambda>r. Inr (t[nat i := r]))))"
  have "?f (int k) (take k ?new @ drop k s) = Inr (take (Suc k) ?new @ drop (Suc k) s)" if "k < d" for k
  proof -
    have "(take k ?new @ drop k s)[k := s ! k + p ! k] = take (Suc k) ?new @ drop (Suc k) s"
      using that assms by (simp add: list_update_append take_map flip: Cons_nth_drop_Suc)
    then show ?thesis using that assms by (simp add: nth_append del: take_append)
  qed
  then have "efold ?f (map int [0..<d]) (take 0 ?new @ drop 0 s) = Inr (take d ?new @ drop d s)"
    by (intro efold_steps) auto
  then show ?thesis using assms(1) by (simp add: add_to_sum_def)
qed

lemma group_sum_ok:
  assumes ok: "km_ok grid cfg points st" and len: "length cs = length points"
  defines "g \<equiv> \<lambda>i. members points cs i"
  shows "group_sum cfg points cs (int i) =
    Inr (map (coord_sum (g i)) [0..<nat (dim cfg)], int (length (g i)))"
proof -
  define d where "d = nat (dim cfg)"
  define h where "h k = members (take k points) (take k cs) i" for k
  let ?G = "\<lambda>k. (map (coord_sum (h k)) [0..<d], int (length (h k)))"
  let ?f = "\<lambda>j r. ebind (at_index cs j) (\<lambda>c. if c = int i
       then ebind (at_index points j) (\<lambda>p. ebind (add_to_sum (dim cfg) (fst r) p) (\<lambda>s0. Inr (s0, snd r + 1)))
       else Inr r)"
  have dim: "dim cfg = int d" using km_ok_dim [OF ok] by (simp add: d_def)
  have "?f (int k) (?G k) = Inr (?G (Suc k))" if k: "k < length points" for k
  proof (cases "cs ! k = int i")
    case False
    then have "h (Suc k) = h k" using k len by (simp add: h_def members_def take_Suc_conv_app_nth)
    then show ?thesis using False k len by simp
  next
    case True
    then have h: "h (Suc k) = h k @ [points ! k]" using k len by (simp add: h_def members_def take_Suc_conv_app_nth)
    have sub: "list_all (vec_ok grid d) (h (Suc k))"
      using ok by (auto simp: km_ok_def list_all_iff h_def members_def d_def dest!: set_zip_rightD in_set_takeD)
    have "length (h (Suc k)) \<le> length points"
      using length_filter_le [of _ "zip (take (Suc k) cs) (take (Suc k) points)"]
      by (auto simp: h_def members_def intro: order_trans)
    moreover have "0 \<le> grid - 1" using ok by (simp add: km_ok_def sizes_ok_def)
    ultimately have "int (length (h (Suc k))) * (grid - 1) \<le> int (length points) * (grid - 1)"
      by (intro mult_right_mono) simp_all
    also have "\<dots> \<le> int (length points) * grid" by (intro mult_left_mono) simp_all
    also have "\<dots> < 2 ^ 31" using ok by (simp add: km_ok_def)
    finally have less: "int (length (h (Suc k))) * (grid - 1) < 2 ^ 31" .
    have "\<forall>c<d. - (2 ^ 31) \<le> coord_sum (h k) c + points ! k ! c \<and> coord_sum (h k) c + points ! k ! c < 2 ^ 31"
      using coord_sum_bounds [OF sub] less by (fastforce simp: h)
    then have "add_to_sum (int d) (map (coord_sum (h k)) [0..<d]) (points ! k) = Inr (map (coord_sum (h (Suc k))) [0..<d])"
      using km_ok_point [OF ok k] add_to_sum_ok [of "map (coord_sum (h k)) [0..<d]" d "points ! k"]
      by (simp add: h vec_ok_def d_def)
    then show ?thesis using True k len by (simp add: dim h)
  qed
  then have "efold ?f (map int [0..<length points]) (?G 0) = Inr (?G (length points))"
    by (intro efold_steps) auto
  moreover have "map (coord_sum (h 0)) [0..<d] = replicate d 0"
    by (intro nth_equalityI) (simp_all add: h_def members_def coord_sum_def)
  ultimately show ?thesis
    using ok len by (simp add: group_sum_def km_ok_def g_def h_def d_def members_def)
qed

lemma set_mean_ok:
  assumes "sizes_ok grid d" "i < length (means st)" "length (means st ! i) = d" "dim cfg = int d"
    and "list_all (vec_ok grid d) ps"
  shows "set_mean cfg (int i) (map (coord_sum ps) [0..<d], int (length ps)) st =
    Inr (st\<lparr>means := (means st)[i := new_mean ps (means st ! i)]\<rparr>)"
proof (cases "ps = []")
  case True
  have "efold (\<lambda>j. Inr) xs s = Inr s" for xs :: "int list" and s :: km_state by (induction xs) auto
  with True show ?thesis by (simp add: set_mean_def new_mean_def)
next
  case False
  let ?old = "means st ! i" and ?new = "new_mean ps (means st ! i)"
  let ?G = "\<lambda>j. st\<lparr>means := (means st)[i := take j ?new @ drop j ?old]\<rparr>"
  have len: "length ?new = d" using assms(3) by (simp add: new_mean_def)
  let ?r = "(map (coord_sum ps) [0..<d], int (length ps))"
  let ?f = "\<lambda>j st. if snd ?r \<noteq> 0 then ebind (at_index (fst ?r) j) (\<lambda>s. ebind (at_index (means st) (int i)) (\<lambda>m.
      ebind (at_index m j) (\<lambda>_. Inr (st\<lparr>means := (means st)[nat (int i) := m[nat j := c_div s (snd ?r)]]\<rparr>)))) else Inr st"
  have "?f (int j) (?G j) = Inr (?G (Suc j))" if "j < d" for j
  proof -
    have "c_div (coord_sum ps j) (int (length ps)) = ?new ! j"
      using coord_sum_bounds [OF assms(5) that] False that assms(3) by (simp add: c_div_nonneg new_mean_def)
    moreover have "(take j ?new @ drop j ?old)[j := ?new ! j] = take (Suc j) ?new @ drop (Suc j) ?old"
      using that len assms(3) by (simp add: list_update_append take_Suc_conv_app_nth flip: Cons_nth_drop_Suc)
    ultimately show ?thesis using False that assms len by simp
  qed
  then have "efold ?f (map int [0..<d]) (?G 0) = Inr (?G d)"
    by (intro efold_steps) auto
  then show ?thesis using assms len by (simp add: set_mean_def)
qed

lemma new_mean_ok:
  assumes "list_all (vec_ok grid d) ps" "vec_ok grid d old"
  shows "vec_ok grid d (new_mean ps old)"
proof (cases "ps = []")
  case False
  have "0 \<le> coord_sum ps c div int (length ps) \<and> coord_sum ps c div int (length ps) < grid" if "c < d" for c
  proof -
    note b = coord_sum_bounds [OF assms(1) that]
    have pos: "0 < int (length ps)" using False by simp
    then have "coord_sum ps c div int (length ps) \<le> (int (length ps) * (grid - 1)) div int (length ps)"
      using b by (intro zdiv_mono1) simp_all
    also have "\<dots> = grid - 1" using False by simp
    finally show ?thesis using b pos by (simp add: pos_imp_zdiv_nonneg_iff)
  qed
  then show ?thesis using False assms(2) by (auto simp: vec_ok_def new_mean_def)
qed (use assms in \<open>simp add: new_mean_def\<close>)

text \<open>The reference: what one iteration of the program's loop is meant to do.\<close>

definition km_step :: "int list list \<Rightarrow> km_state \<Rightarrow> km_state" where
  "km_step points st =
     (let cs = map (\<lambda>p. int (nearest (means st) p)) points
      in \<lparr>means = map (\<lambda>i. new_mean (members points cs i) (means st ! i)) [0..<length (means st)],
          clusters = cs, modified = (clusters st \<noteq> cs)\<rparr>)"

lemma calc_means_all:
  assumes ok: "km_ok grid cfg points st"
  shows "efold (\<lambda>i st. ebind (group_sum cfg points (clusters st) i) (\<lambda>r. set_mean cfg i r st))
      (map int [0..<length (means st)]) st =
    Inr (st\<lparr>means := map (\<lambda>i. new_mean (members points (clusters st) i) (means st ! i)) [0..<length (means st)]\<rparr>)"
proof -
  define d where "d = nat (dim cfg)"
  let ?ms = "means st"
  let ?g = "members points (clusters st)"
  let ?new = "map (\<lambda>i. new_mean (?g i) (?ms ! i)) [0..<length ?ms]"
  let ?G = "\<lambda>i. st\<lparr>means := take i ?new @ drop i ?ms\<rparr>"
  let ?f = "\<lambda>i st. ebind (group_sum cfg points (clusters st) i) (\<lambda>r. set_mean cfg i r st)"
  have "?f (int i) (?G i) = Inr (?G (Suc i))" if i: "i < length ?ms" for i
  proof -
    have len: "length (clusters st) = length points" using ok by (simp add: km_ok_def)
    have old: "vec_ok grid d (?ms ! i)" using ok i by (simp add: km_ok_def list_all_length d_def)
    have "list_all (vec_ok grid d) (?g i)"
      using ok by (auto simp: km_ok_def list_all_iff members_def d_def dest!: set_zip_rightD)
    moreover have "means (?G i) ! i = ?ms ! i" using i by (simp add: nth_append)
    moreover have "(take i ?new @ drop i ?ms)[i := ?new ! i] = take (Suc i) ?new @ drop (Suc i) ?ms"
      using i by (simp add: list_update_append take_map flip: Cons_nth_drop_Suc)
    moreover have "group_sum cfg points (clusters st) (int i) = Inr (map (coord_sum (?g i)) [0..<d], int (length (?g i)))"
      using group_sum_ok [OF ok len] by (simp add: d_def)
    ultimately show ?thesis
      using set_mean_ok [of grid d i "?G i" cfg "?g i"] i old ok km_ok_dim [OF ok]
      by (simp add: km_ok_def vec_ok_def flip: d_def del: upt_Suc)
  qed
  then have "efold ?f (map int [0..<length ?ms]) (?G 0) = Inr (?G (length ?ms))"
    by (intro efold_steps) auto
  then show ?thesis by simp
qed

lemma km_ok_clusters:
  "km_ok grid cfg points st \<Longrightarrow> length cs = length points \<Longrightarrow>
   km_ok grid cfg points (st\<lparr>clusters := cs, modified := b\<rparr>)"
  by (simp add: km_ok_def)

lemma km_ok_step:
  assumes "km_ok grid cfg points st"
  shows "km_ok grid cfg points (km_step points st)"
proof -
  have "vec_ok grid (nat (dim cfg)) (new_mean (members points cs i) (means st ! i))" if "i < length (means st)" for cs i
    using assms that
    by (intro new_mean_ok) (auto simp: km_ok_def list_all_iff members_def dest!: set_zip_rightD)
  then show ?thesis using assms by (auto simp: km_ok_def km_step_def Let_def list_all_iff)
qed

lemma km_iteration_step:
  assumes "km_ok grid cfg points st" "0 < p" "p \<le> length points" "p \<le> length (means st)"
  shows "km_iteration cfg p points st = Inr (km_step points st)"
proof -
  let ?cs = "map (\<lambda>p. int (nearest (means st) p)) points"
  let ?st1 = "st\<lparr>clusters := ?cs, modified := (clusters st \<noteq> ?cs)\<rparr>"
  have n: "num_points cfg = int (length points)" "num_means cfg = int (length (means st))"
    using assms(1) by (simp_all add: km_ok_def)
  have ok: "km_ok grid cfg points (st\<lparr>modified := False\<rparr>)" using assms(1) by (simp add: km_ok_def)
  have ok1: "km_ok grid cfg points ?st1" using assms(1) by (intro km_ok_clusters) simp_all
  have "km_phase p (num_points cfg) (find_clusters cfg points) (st\<lparr>modified := False\<rparr>) = Inr ?st1"
    using find_clusters_all [OF ok] assms(2,3)
    by (simp add: n km_phase_all [where f = "find_cluster cfg points"] find_clusters_def fun_eq_iff)
  moreover have "km_phase p (num_means cfg) (calc_means cfg points) ?st1 = Inr (km_step points st)"
    using calc_means_all [OF ok1] assms(2,4)
    by (simp add: n km_phase_all [where f = "\<lambda>i st. ebind (group_sum cfg points (clusters st) i) (\<lambda>r. set_mean cfg i r st)"]
        calc_means_def fun_eq_iff km_step_def Let_def)
  ultimately show ?thesis by (simp add: km_iteration_def)
qed

text \<open>
  For any number of processors that does not exceed the number of points or of means, one iteration
  of the program's loop overflows nowhere and does exactly this: every point is assigned to its
  nearest mean, the first of several; every mean with points becomes the average of its points,
  rounded down, and a mean without points stays; \<open>modified\<close> tells whether any point has changed.
\<close>

theorem kmeans_iteration_exact:
  assumes "km_ok grid cfg points st" "0 < p" "p \<le> length points" "p \<le> length (means st)"
  shows "\<exists>st'. km_iteration cfg p points st = Inr st' \<and>
    length (clusters st') = length points \<and> length (means st') = length (means st) \<and>
    (\<forall>i<length points. 0 \<le> clusters st' ! i \<and>
       is_nearest (nat (dim cfg)) (means st) (points ! i) (nat (clusters st' ! i))) \<and>
    (\<forall>c<length (means st). means st' ! c = new_mean (members points (clusters st') c) (means st ! c)) \<and>
    (modified st' \<longleftrightarrow> clusters st' \<noteq> clusters st)"
proof (intro exI conjI)
  show "km_iteration cfg p points st = Inr (km_step points st)"
    by (rule km_iteration_step) fact+
  show "\<forall>i<length points. 0 \<le> clusters (km_step points st) ! i \<and>
       is_nearest (nat (dim cfg)) (means st) (points ! i) (nat (clusters (km_step points st) ! i))"
    using assms(1) nearest_is_nearest [of "means st" "nat (dim cfg)"] km_ok_point [OF assms(1)]
    by (auto simp: km_step_def Let_def nearest_def vec_ok_def km_ok_def)
qed (auto simp: km_step_def Let_def)

theorem kmeans_iteration_exact_witness:
  "\<exists>st'. km_iteration \<lparr>num_points = 3, num_means = 2, dim = 1, grid_size = 10\<rparr> 2 [[1], [4], [9]]
       \<lparr>means = [[2], [8]], clusters = [-1, -1, -1], modified = True\<rparr> = Inr st' \<and>
     clusters st' = [0, 0, 1] \<and> means st' = [[2], [9]]"
proof -
  let ?cfg = "\<lparr>num_points = 3, num_means = 2, dim = 1, grid_size = 10\<rparr>"
  let ?st = "\<lparr>means = [[2], [8]], clusters = [-1, -1, -1], modified = True\<rparr>"
  obtain st' where it: "km_iteration ?cfg 2 [[1], [4], [9]] ?st = Inr st'"
    using kmeans_iteration_exact [of 10 ?cfg "[[1], [4], [9]]" ?st 2]
    by (auto simp: km_ok_def sizes_ok_def vec_ok_def)
  moreover have "km_iteration ?cfg 2 [[1], [4], [9]] ?st = Inr (km_step [[1], [4], [9]] ?st)"
    by (rule km_iteration_step [of 10]) (simp_all add: km_ok_def sizes_ok_def vec_ok_def)
  ultimately show ?thesis
    by (auto simp: km_step_def nearest_def sq_dist_def members_def new_mean_def coord_sum_def upt_rec)
qed

section \<open>The loop\<close>

definition km_runs :: "int list list \<Rightarrow> km_state \<Rightarrow> nat \<Rightarrow> km_state" where
  "km_runs points st n = (km_step points ^^ n) st"

lemma km_runs_simps [simp]:
  "km_runs points st 0 = st"
  "km_runs points st (Suc n) = km_runs points (km_step points st) n"
  "km_runs points st (Suc n) = km_step points (km_runs points st n)"
  by (simp_all add: km_runs_def funpow_swap1)

definition km_fits :: "int \<Rightarrow> km_config \<Rightarrow> nat \<Rightarrow> int list list \<Rightarrow> km_state \<Rightarrow> bool" where
  "km_fits grid cfg p points st \<longleftrightarrow>
     km_ok grid cfg points st \<and> 0 < p \<and> p \<le> length points \<and> p \<le> length (means st)"

lemma km_fits_step: "km_fits grid cfg p points st \<Longrightarrow> km_fits grid cfg p points (km_step points st)"
  by (auto simp: km_fits_def km_ok_step) (simp add: km_step_def Let_def)

lemma km_loop_unfold:
  "km_fits grid cfg p points st \<Longrightarrow>
   km_loop cfg p points st = (if modified st then km_loop cfg p points (km_step points st) else Some (Inr st))"
  by (subst km_loop.simps) (simp add: km_fits_def km_iteration_step [of grid])

lemma km_loop_ends:
  "km_fits grid cfg p points st \<Longrightarrow> \<not> modified (km_runs points st n) \<Longrightarrow>
   \<exists>m\<le>n. \<not> modified (km_runs points st m) \<and> km_loop cfg p points st = Some (Inr (km_runs points st m))"
proof (induction n arbitrary: st)
  case 0
  then show ?case by (simp add: km_loop_unfold)
next
  case (Suc n)
  show ?case
  proof (cases "modified st")
    case False
    then show ?thesis using Suc.prems(1) by (intro exI [of _ 0]) (simp add: km_loop_unfold)
  next
    case True
    obtain m where "m \<le> n" "\<not> modified (km_runs points (km_step points st) m)"
      "km_loop cfg p points (km_step points st) = Some (Inr (km_runs points (km_step points st) m))"
      using Suc.IH [OF km_fits_step [OF Suc.prems(1)]] Suc.prems(2) by (auto simp: km_runs_simps(2) simp del: km_runs_simps(3))
    then show ?thesis
      using True Suc.prems(1)
      by (intro exI [of _ "Suc m"]) (simp add: km_loop_unfold km_runs_simps(2) del: km_runs_simps(3))
  qed
qed

lemma km_loop_result:
  assumes "km_loop cfg p points st = Some r" "km_fits grid cfg p points st"
  shows "\<exists>n. \<not> modified (km_runs points st n) \<and> r = Inr (km_runs points st n)"
proof -
  let ?P = "\<lambda>cfg p points st r. km_fits grid cfg p points st \<longrightarrow>
    (\<exists>n. \<not> modified (km_runs points st n) \<and> r = Inr (km_runs points st n))"
  have "?P cfg p points st r"
  proof (rule km_loop.raw_induct [where P = ?P, OF _ assms(1)], rule impI)
    fix loop cfg p points st r
    assume IH: "\<And>cfg p points st r. loop cfg p points st = Some r \<Longrightarrow> ?P cfg p points st r"
      and body: "(if modified st then case km_iteration cfg p points st of Inl e \<Rightarrow> Some (Inl e)
           | Inr st' \<Rightarrow> loop cfg p points st' else Some (Inr st)) = Some r"
      and fits: "km_fits grid cfg p points st"
    show "\<exists>n. \<not> modified (km_runs points st n) \<and> r = Inr (km_runs points st n)"
    proof (cases "modified st")
      case False
      then show ?thesis using body by (intro exI [of _ 0]) simp
    next
      case True
      have "km_iteration cfg p points st = Inr (km_step points st)"
        using fits by (simp add: km_fits_def km_iteration_step [of grid])
      then have "loop cfg p points (km_step points st) = Some r" using body True by simp
      from IH [OF this] km_fits_step [OF fits] obtain n
        where "\<not> modified (km_runs points (km_step points st) n)" "r = Inr (km_runs points (km_step points st) n)"
        by blast
      then show ?thesis by (intro exI [of _ "Suc n"]) (simp add: km_runs_simps(2) del: km_runs_simps(3))
    qed
  qed
  then show ?thesis using assms(2) by blast
qed

text \<open>A run whose first iteration moves a point ends, if it ends, in a fixed point.\<close>

lemma km_step_still:
  assumes "\<not> modified (km_step points (km_step points st))"
  shows "means (km_step points (km_step points st)) = means (km_step points st)"
    "clusters (km_step points (km_step points st)) = map (\<lambda>p. int (nearest (means (km_step points st)) p)) points"
proof -
  let ?st1 = "km_step points st"
  have same: "clusters ?st1 = map (\<lambda>p. int (nearest (means ?st1) p)) points"
    using assms by (simp add: km_step_def [of points ?st1] Let_def)
  show "clusters (km_step points ?st1) = map (\<lambda>p. int (nearest (means ?st1) p)) points"
    by (simp add: km_step_def [of points ?st1] Let_def)
  have new: "new_mean ps (new_mean ps old) = new_mean ps old" for ps old by (simp add: new_mean_def)
  have "means ?st1 ! i = new_mean (members points (clusters ?st1) i) (means st ! i)" if "i < length (means st)" for i
    using that by (simp add: km_step_def Let_def)
  moreover have "means (km_step points ?st1) = map (\<lambda>i. new_mean (members points (clusters ?st1) i) (means ?st1 ! i)) [0..<length (means ?st1)]"
    unfolding same by (simp add: km_step_def [of points ?st1] Let_def)
  moreover have "length (means ?st1) = length (means st)" by (simp add: km_step_def Let_def)
  ultimately show "means (km_step points ?st1) = means ?st1"
    by (intro nth_equalityI) (simp_all add: new)
qed

lemma km_runs_still:
  assumes "modified st" "points \<noteq> []" "-1 \<in> set (clusters st)" "\<not> modified (km_runs points st n)"
  shows "\<exists>st'. km_runs points st n = km_step points (km_step points st')"
proof -
  have "- 1 \<notin> set (clusters (km_step points st))" by (auto simp: km_step_def Let_def)
  then have "modified (km_step points st)" using assms(3) by (auto simp: km_step_def Let_def)
  then obtain k where "n = Suc (Suc k)" using assms(1,4) by (cases n; cases "n - 1") auto
  then show ?thesis by (auto simp del: km_runs_simps(2))
qed

section \<open>The program\<close>

lemma generate_row_ok:
  "\<forall>k. 0 \<le> rnd k \<Longrightarrow> 0 < grid \<Longrightarrow> vec_ok grid d (fst (generate_row rnd grid d k))"
  by (induction d arbitrary: k) (auto simp: vec_ok_def Let_def c_mod_nonneg)

lemma generate_points_ok:
  "\<forall>k. 0 \<le> rnd k \<Longrightarrow> 0 < grid \<Longrightarrow> length (fst (generate_points rnd grid d n k)) = n \<and>
     list_all (vec_ok grid d) (fst (generate_points rnd grid d n k))"
  by (induction n arbitrary: k) (simp_all add: Let_def generate_row_ok)

lemma km_start_ok:
  assumes "km_parse_args opts = Inr cfg" "sizes_ok (grid_size cfg) (nat (dim cfg))"
    "num_points cfg * grid_size cfg < 2 ^ 31" "\<forall>k. 0 \<le> rnd k"
  shows "km_ok (grid_size cfg) cfg (fst (km_start rnd cfg)) (snd (km_start rnd cfg))"
    "length (fst (km_start rnd cfg)) = nat (num_points cfg)"
    "length (means (snd (km_start rnd cfg))) = nat (num_means cfg)"
    "0 < num_points cfg"
proof -
  have pos: "0 < num_points cfg" "0 < num_means cfg" "0 < grid_size cfg"
    using assms(1) by (auto simp: km_parse_args_def ebind_Inr_iff split: if_splits)
  note gen = generate_points_ok [OF assms(4) pos(3)]
  show len: "length (fst (km_start rnd cfg)) = nat (num_points cfg)"
    "length (means (snd (km_start rnd cfg))) = nat (num_means cfg)"
    using gen by (simp_all add: km_start_def Let_def)
  have "fst (km_start rnd cfg) \<noteq> []" "means (snd (km_start rnd cfg)) \<noteq> []" using len pos by fastforce+
  then show "km_ok (grid_size cfg) cfg (fst (km_start rnd cfg)) (snd (km_start rnd cfg))"
    using pos gen assms(2,3) by (simp add: km_ok_def len) (simp add: km_start_def Let_def)
  show "0 < num_points cfg" by fact
qed

definition is_clustering :: "nat \<Rightarrow> int list list \<Rightarrow> km_state \<Rightarrow> bool" where
  "is_clustering d points st \<longleftrightarrow>
     length (clusters st) = length points \<and>
     (\<forall>i<length points. 0 \<le> clusters st ! i \<and> is_nearest d (means st) (points ! i) (nat (clusters st ! i))) \<and>
     (\<forall>c<length (means st). let ps = members points (clusters st) c
        in ps \<noteq> [] \<longrightarrow> means st ! c = map (\<lambda>k. coord_sum ps k div int (length ps)) [0..<d])"

lemma km_final_clustering:
  assumes "km_ok grid cfg points (km_step points (km_step points st))"
    and "\<not> modified (km_step points (km_step points st))"
  shows "is_clustering (nat (dim cfg)) points (km_step points (km_step points st))"
proof -
  let ?fin = "km_step points (km_step points st)"
  note still = km_step_still [OF assms(2)]
  have cl: "clusters ?fin = map (\<lambda>p. int (nearest (means ?fin) p)) points" using still by simp
  have ms: "means ?fin \<noteq> []" using assms(1) by (simp add: km_ok_def)
  have "is_nearest (nat (dim cfg)) (means ?fin) (points ! i) (nat (clusters ?fin ! i))" if "i < length points" for i
    using nearest_is_nearest [OF ms, of "nat (dim cfg)"] km_ok_point [OF assms(1) that] that
    by (subst cl) (simp add: nearest_def vec_ok_def)
  moreover have "means ?fin ! c = map (\<lambda>k. coord_sum ps k div int (length ps)) [0..<nat (dim cfg)]"
    if "c < length (means ?fin)" "ps = members points (clusters ?fin) c" "ps \<noteq> []" for c ps
  proof -
    have "means ?fin ! c = new_mean ps (means (km_step points st) ! c)"
      using that by (simp add: km_step_def [of points "km_step points st"] Let_def)
    moreover have "length (means ?fin ! c) = nat (dim cfg)"
      using assms(1) that by (simp add: km_ok_def list_all_length vec_ok_def)
    ultimately show ?thesis using that(3) by (simp add: still(1) new_mean_def)
  qed
  moreover have "length (clusters ?fin) = length points" "\<forall>i<length points. 0 \<le> clusters ?fin ! i"
    by (simp_all add: cl)
  ultimately show ?thesis unfolding is_clustering_def Let_def by blast
qed

lemma km_fits_runs: "km_fits grid cfg p points st \<Longrightarrow> km_fits grid cfg p points (km_runs points st n)"
  by (induction n) (simp_all add: km_fits_step del: km_runs_simps(2))

text \<open>
  C33. The whole program, for any options it accepts within the bounds and any number of processors up
  to the number of points and of means: either it runs forever because every iteration moves a
  point, or it returns a clustering in which every point is with its nearest mean and every mean
  with points is the average of its points, rounded down.
\<close>

theorem kmeans_returns_clustering:
  assumes "km_parse_args opts = Inr cfg" "sizes_ok (grid_size cfg) (nat (dim cfg))"
    and "num_points cfg * grid_size cfg < 2 ^ 31" "\<forall>k. 0 \<le> rnd k"
    and "0 < p" "int p \<le> num_points cfg" "int p \<le> num_means cfg"
    and "(points, st) = km_start rnd cfg"
  shows "(km_main rnd p opts = None \<and> (\<forall>n. modified (km_runs points st n))) \<or>
    (\<exists>n st'. km_main rnd p opts = Some (Inr st') \<and> st' = km_runs points st n \<and>
       is_clustering (nat (dim cfg)) points st')"
proof -
  have st: "points = fst (km_start rnd cfg)" "st = snd (km_start rnd cfg)" using assms(8) by (auto dest: sym)
  note start = km_start_ok [OF assms(1-4), folded st]
  have fits: "km_fits (grid_size cfg) cfg p points st" using start assms(5-7) by (simp add: km_fits_def nat_le_iff le_nat_iff)
  have main: "km_main rnd p opts = km_loop cfg p points st"
    using assms(1,5,8) by (simp add: km_main_def flip: assms(8))
  have first: "modified st" "points \<noteq> []" "-1 \<in> set (clusters st)"
    using start(2,4) by (auto simp: st(2) km_start_def Let_def)
  have clustering: "is_clustering (nat (dim cfg)) points (km_runs points st n)" if still: "\<not> modified (km_runs points st n)" for n
  proof -
    obtain st' where "km_runs points st n = km_step points (km_step points st')"
      using km_runs_still [OF first still] by blast
    then show ?thesis using km_final_clustering [of "grid_size cfg" cfg] km_fits_runs [OF fits, of n] still by (simp add: km_fits_def)
  qed
  show ?thesis
  proof (cases "km_loop cfg p points st")
    case None
    then show ?thesis using km_loop_ends [OF fits] main by fastforce
  next
    case (Some r)
    then show ?thesis using km_loop_result [OF Some fits] main clustering by auto
  qed
qed

theorem kmeans_returns_clustering_witness:
  "\<exists>st'. km_main (\<lambda>k. if k = 1 then 4 else if k = 2 then 9 else if k = 3 then 2 else if k = 4 then 8 else 1) 2 [Opt_p 3, Opt_c 2, Opt_d 1, Opt_s 10] = Some (Inr st') \<and>
     is_clustering 1 [[1], [4], [9]] st'"
proof -
  let ?cfg = "\<lparr>num_points = 3, num_means = 2, dim = 1, grid_size = 10\<rparr>"
  let ?st = "\<lparr>means = [[2], [8]], clusters = [-1, -1, -1], modified = True\<rparr>"
  let ?rnd = "\<lambda>k :: nat. if k = 1 then 4 else if k = 2 then 9 else if k = 3 then 2 else if k = 4 then 8 else 1 :: int"
  have parse: "km_parse_args [Opt_p 3, Opt_c 2, Opt_d 1, Opt_s 10] = Inr ?cfg" by (simp add: km_parse_args_def)
  have start: "([[1], [4], [9]], ?st) = km_start ?rnd ?cfg"
    by code_simp
  have "km_step [[1], [4], [9]] ?st = \<lparr>means = [[2], [9]], clusters = [0, 0, 1], modified = True\<rparr>"
    by (simp add: km_step_def Let_def nearest_def sq_dist_def members_def new_mean_def coord_sum_def upt_rec)
  moreover have "km_step [[1], [4], [9]] \<lparr>means = [[2], [9]], clusters = [0, 0, 1], modified = True\<rparr> =
      \<lparr>means = [[2], [9]], clusters = [0, 0, 1], modified = False\<rparr>"
    by (simp add: km_step_def Let_def nearest_def sq_dist_def members_def new_mean_def coord_sum_def upt_rec)
  ultimately have "\<not> modified (km_runs [[1], [4], [9]] ?st 2)"
    by (simp add: km_runs_def numeral_2_eq_2)
  moreover have "\<forall>k. 0 \<le> ?rnd k" by simp
  ultimately show ?thesis
    using kmeans_returns_clustering [OF parse, of ?rnd 2 "[[1], [4], [9]]" ?st, OF _ _ _ _ _ _ start]
    by (auto simp: sizes_ok_def)
qed

end
