(* ===== verification/Matrix_Multiply.thy ===== *)
theory Matrix_Multiply
  imports Work_Split
begin

text \<open>
  The matrix multiplication benchmark, \<^verbatim>\<open>matrix_multiply-pthread.c\<close>: the creation of the files, the
  assignment of rows to threads and the product of each row. A thread writes only its own rows, so
  the threads are run in order. The files are the lists of the integers in them; the content of the
  memory \<^verbatim>\<open>malloc\<close> returns, the results of \<^verbatim>\<open>rand\<close> and the number of processors are arguments.
\<close>

section \<open>State\<close>

record mm_data =
  row_num :: int
  matrix_A :: "int list"
  matrix_B :: "int list"
  matrix_len :: int

record mm_arg =
  first_row :: int
  row_count :: int

section \<open>The rows of a thread\<close>

text \<open>
  The inner product: \<^verbatim>\<open>a_ptr\<close> runs along row \<open>r\<close> of A, \<^verbatim>\<open>b_ptr\<close> down column \<open>i\<close> of B.
\<close>

definition mm_value :: "mm_data \<Rightarrow> int \<Rightarrow> int \<Rightarrow> c_fault + int" where
  "mm_value data a_ptr i =
     efold (\<lambda>j value.
         ebind (at_index (matrix_A data) (a_ptr + j)) (\<lambda>a.
         ebind (at_index (matrix_B data) (i + j * matrix_len data)) (\<lambda>b.
         ebind (c_int (a * b)) (\<lambda>ab. c_int (value + ab)))))
       (map int [0..<nat (matrix_len data)]) 0"

definition mm_cell :: "mm_data \<Rightarrow> int \<Rightarrow> int \<Rightarrow> int list \<Rightarrow> c_fault + int list" where
  "mm_cell data a_ptr i out =
     ebind (mm_value data a_ptr i) (\<lambda>value.
     ebind (at_index out (a_ptr + i)) (\<lambda>_. Inr (out[nat (a_ptr + i) := value])))"

definition mm_row :: "mm_data \<Rightarrow> int \<Rightarrow> int list \<Rightarrow> c_fault + int list" where
  "mm_row data x_loc out =
     ebind (c_int (x_loc * matrix_len data)) (\<lambda>a_ptr.
       efold (mm_cell data a_ptr) (map int [0..<nat (matrix_len data)]) out)"

definition matrixmult_map :: "mm_data \<Rightarrow> mm_arg \<Rightarrow> int list \<Rightarrow> c_fault + int list" where
  "matrixmult_map data arg out =
     efold (\<lambda>row_count. mm_row data (first_row arg + row_count)) (map int [0..<nat (row_count arg)]) out"

section \<open>The assignment of the rows\<close>

text \<open>The loop over the threads; the state is the number of rows given away.\<close>

fun assign_rows :: "int \<Rightarrow> int \<Rightarrow> int \<Rightarrow> nat list \<Rightarrow> int \<Rightarrow> mm_arg list" where
  "assign_rows len num_procs req_rows [] row = []"
| "assign_rows len num_procs req_rows (i # is) row =
     (let available_rows = len - row;
          count = (if int i = num_procs - 1 then len - int i * req_rows
                   else if req_rows < available_rows then req_rows else available_rows)
      in \<lparr>first_row = row, row_count = count\<rparr> # assign_rows len num_procs req_rows is (row + count))"

definition matrixmult_splitter :: "nat \<Rightarrow> mm_data \<Rightarrow> int list \<Rightarrow> c_fault + int list" where
  "matrixmult_splitter num_procs data out =
     (if matrix_len data < 0 \<or> num_procs = 0 then Inl Assert_Failed
      else efold (matrixmult_map data)
             (assign_rows (matrix_len data) (int num_procs) (c_div (matrix_len data) (int num_procs))
                [0..<num_procs] (row_num data)) out)"

section \<open>The program\<close>

text \<open>
  The files are opened without truncation: what is written replaces the first integers. The numbers
  of one file are drawn after those of the other.
\<close>

definition overwrite :: "int list \<Rightarrow> int list \<Rightarrow> int list" where
  "overwrite old new = new @ drop (length new) old"

definition create_file :: "(nat \<Rightarrow> int) \<Rightarrow> nat \<Rightarrow> nat \<Rightarrow> int list" where
  "create_file rnd k n = map (\<lambda>i. c_mod (rnd (k + i)) 11) [0..<n * n]"

definition mm_file :: "(nat \<Rightarrow> int) \<Rightarrow> bool \<Rightarrow> nat \<Rightarrow> nat \<Rightarrow> int list \<Rightarrow> int list" where
  "mm_file rnd create_files k n file = (if create_files then overwrite file (create_file rnd k n) else file)"

definition mm_main ::
  "(nat \<Rightarrow> int) \<Rightarrow> (nat \<Rightarrow> int) \<Rightarrow> nat \<Rightarrow> int \<Rightarrow> bool \<Rightarrow> int list \<Rightarrow> int list \<Rightarrow> c_fault + int list" where
  "mm_main rnd heap num_procs len create_files file_A file_B =
     (if len < 0 then Inl Assert_Failed
      else ebind (c_int (len * len)) (\<lambda>size2.
        (let n = nat len;
             fdata_A = mm_file rnd create_files 0 n file_A;
             fdata_B = mm_file rnd create_files (n * n) n file_B
         in matrixmult_splitter num_procs
              \<lparr>row_num = 0, matrix_A = fdata_A, matrix_B = fdata_B, matrix_len = len\<rparr>
              (map heap [0..<nat size2]))))"

section \<open>The product\<close>

definition product_at :: "nat \<Rightarrow> int list \<Rightarrow> int list \<Rightarrow> nat \<Rightarrow> nat \<Rightarrow> int" where
  "product_at n A B r c = (\<Sum>j<n. A ! (r * n + j) * B ! (j * n + c))"

definition small_entries :: "nat \<Rightarrow> int list \<Rightarrow> bool" where
  "small_entries n M \<longleftrightarrow> n * n \<le> length M \<and> (\<forall>i<n * n. 0 \<le> M ! i \<and> M ! i \<le> 10)"

lemma cell_index: "r < n \<Longrightarrow> c < n \<Longrightarrow> r * n + c < n * (n :: nat)"
proof -
  assume "r < n" "c < n"
  then have "r * n + c < Suc r * n" by simp
  also have "\<dots> \<le> n * n" using \<open>r < n\<close> by (intro mult_le_mono1) simp
  finally show ?thesis .
qed

lemma entry_bounds:
  assumes "small_entries n A" "small_entries n B" "r < n" "c < n" "j < n"
  shows "r * n + j < length A" "j * n + c < length B"
    "0 \<le> A ! (r * n + j) * B ! (j * n + c)" "A ! (r * n + j) * B ! (j * n + c) \<le> 100"
proof -
  have idx: "r * n + j < n * n" "j * n + c < n * n"
    using assms cell_index [of r n j] cell_index [of j n c] by simp_all
  then show "r * n + j < length A" "j * n + c < length B"
    using assms(1,2) by (simp_all add: small_entries_def)
  from idx have *: "0 \<le> A ! (r * n + j) \<and> A ! (r * n + j) \<le> 10" "0 \<le> B ! (j * n + c) \<and> B ! (j * n + c) \<le> 10"
    using assms by (auto simp: small_entries_def)
  then show "0 \<le> A ! (r * n + j) * B ! (j * n + c)" by simp
  from * have "A ! (r * n + j) * B ! (j * n + c) \<le> 10 * 10" by (intro mult_mono) auto
  then show "A ! (r * n + j) * B ! (j * n + c) \<le> 100" by simp
qed

lemma mm_value_ok:
  assumes "small_entries n A" "small_entries n B" "r < n" "c < n" "n * n < 2 ^ 31"
    and "data = \<lparr>row_num = x, matrix_A = A, matrix_B = B, matrix_len = int n\<rparr>"
  shows "mm_value data (int (r * n)) (int c) = Inr (product_at n A B r c)"
proof -
  let ?G = "\<lambda>k. \<Sum>j<k. A ! (r * n + j) * B ! (j * n + c)"
  let ?f = "\<lambda>j value. ebind (at_index A (int (r * n) + j)) (\<lambda>a. ebind (at_index B (int c + j * int n)) (\<lambda>b.
      ebind (c_int (a * b)) (\<lambda>ab. c_int (value + ab))))"
  have small: "n < 46341"
  proof (rule ccontr)
    assume "\<not> n < 46341"
    then have "46341 * 46341 \<le> n * n" by (intro mult_le_mono) simp_all
    with assms(5) show False by simp
  qed
  have "?f (int k) (?G k) = Inr (?G (Suc k))" if "k < n" for k
  proof -
    note b = entry_bounds [OF assms(1-4)]
    have G: "0 \<le> ?G k" "?G k \<le> int k * 100"
      using b that sum_nonneg [of "{..<k}" "\<lambda>j. A ! (r * n + j) * B ! (j * n + c)"]
        sum_bounded_above [of "{..<k}" "\<lambda>j. A ! (r * n + j) * B ! (j * n + c)" 100] by auto
    have "at_index A (int (r * n) + int k) = Inr (A ! (r * n + k))"
      "at_index B (int c + int k * int n) = Inr (B ! (k * n + c))"
      using b(1,2) [OF that] by (intro at_index_nat; simp)+
    moreover have "c_int (?G k + A ! (r * n + k) * B ! (k * n + c)) = Inr (?G (Suc k))"
      using b(3,4) [OF that] G small that by simp
    ultimately show ?thesis using b(3,4) [OF that] by simp
  qed
  then have "efold ?f (map int [0..<n]) (?G 0) = Inr (?G n)" by (intro efold_steps) auto
  then show ?thesis by (simp add: mm_value_def product_at_def assms(6))
qed

definition product_of :: "nat \<Rightarrow> int list \<Rightarrow> int list \<Rightarrow> int list" where
  "product_of n A B = map (\<lambda>k. product_at n A B (k div n) (k mod n)) [0..<n * n]"

lemma mm_row_ok:
  assumes "small_entries n A" "small_entries n B" "r < n" "n * n < 2 ^ 31" "length out0 = n * n"
    and "data = \<lparr>row_num = x, matrix_A = A, matrix_B = B, matrix_len = int n\<rparr>"
  defines "G \<equiv> \<lambda>k. take k (product_of n A B) @ drop k out0"
  shows "mm_row data (int r) (G (r * n)) = Inr (G (Suc r * n))"
proof -
  have len: "length (product_of n A B) = n * n" by (simp add: product_of_def)
  have "mm_cell data (int (r * n)) (int c) (G (r * n + c)) = Inr (G (r * n + Suc c))" if c: "c < n" for c
  proof -
    let ?k = "r * n + c"
    have k: "?k < n * n" using assms(3) c by (rule cell_index)
    have "?k div n = r" "?k mod n = c" using c by simp_all
    then have at: "product_of n A B ! ?k = product_at n A B r c" using k by (simp add: product_of_def)
    have "(G ?k)[?k := product_of n A B ! ?k] = G (Suc ?k)"
      using k len assms(5) by (simp add: G_def list_update_append take_Suc_conv_app_nth flip: Cons_nth_drop_Suc)
    moreover have "nat (int (r * n) + int c) = ?k" "length (G ?k) = n * n"
      using k len assms(5) by (simp_all add: G_def flip: of_nat_add of_nat_mult)
    moreover have "int (r * n) + int c < int (n * n)" using k by (simp flip: of_nat_add of_nat_mult)
    ultimately show ?thesis
      using mm_value_ok [OF assms(1,2,3) c assms(4,6)] by (simp add: mm_cell_def at del: of_nat_mult)
  qed
  then have "efold (mm_cell data (int (r * n))) (map int [0..<n]) (G (r * n + 0)) = Inr (G (r * n + n))"
    by (intro efold_steps [where G = "\<lambda>c. G (r * n + c)"]) auto
  moreover have "r * n \<le> n * n" using assms(3) by simp
  then have "r * n < 2 ^ 31" using assms(4) by (rule le_less_trans)
  then have "c_int (int (r * n)) = Inr (int (r * n))" by (rule c_int_nat)
  then have "c_int (int r * int n) = Inr (int (r * n))" by simp
  ultimately show ?thesis by (simp add: mm_row_def assms(6) add.commute)
qed


lemma row_list: "map (\<lambda>x. int s + int x) [0..<l] = map int [s..<s + l]"
  using arg_cong [OF map_add_upt [of s l], of "map int"] by (simp add: comp_def add.commute)

lemma matrixmult_map_rows:
  "matrixmult_map data \<lparr>first_row = int s, row_count = int l\<rparr> = efold (mm_row data) (map int (range_of (s, l)))"
  using efold_map [of "mm_row data" "\<lambda>x. int s + x" "map int [0..<l]"]
  by (intro ext) (simp add: matrixmult_map_def range_of_def comp_def flip: row_list)

lemma assign_rows_chunks:
  assumes "k \<le> p" "q = n div p"
  shows "assign_rows (int n) (int p) (int q) [k..<p] (int (k * q)) =
    map (\<lambda>(s, l). \<lparr>first_row = int s, row_count = int l\<rparr>)
      (map (\<lambda>i. (i * q, if Suc i = p then n - i * q else q)) [k..<p])"
  using assms(1)
proof (induction rule: inc_induct)
  case (step k)
  have "Suc k * q \<le> p * q" using step(2) by (intro mult_le_mono1) simp
  also have "\<dots> \<le> n" by (simp add: assms(2))
  finally have le: "Suc k * q \<le> n" .
  let ?count = "if int k = int p - 1 then int n - int k * int q
      else if int q < int n - int (k * q) then int q else int n - int (k * q)"
  have room: "int (k * q) + int q \<le> int n" using le by (simp flip: of_nat_add of_nat_mult)
  have rest: "int n - int (k * q) = int (n - k * q)" using le by (simp add: of_nat_diff)
  have count: "?count = int (if Suc k = p then n - k * q else q)"
  proof (cases "Suc k = p")
    case True
    then show ?thesis using rest by auto
  next
    case False
    then have "int k \<noteq> int p - 1" by auto
    then show ?thesis using room False by (auto simp del: of_nat_mult)
  qed
  have "assign_rows (int n) (int p) (int q) [Suc k..<p] (int (k * q) + ?count) =
      map (\<lambda>(s, l). \<lparr>first_row = int s, row_count = int l\<rparr>)
        (map (\<lambda>i. (i * q, if Suc i = p then n - i * q else q)) [Suc k..<p])"
  proof (cases "Suc k = p")
    case False
    then have "int (k * q) + ?count = int (Suc k * q)" unfolding count by simp
    then show ?thesis by (simp only: step.IH)
  qed simp
  then show ?case using step(2) unfolding count
    by (simp only: upt_conv_Cons assign_rows.simps Let_def count list.map prod.case)
qed simp

lemma matrix_product:
  assumes "0 < p" "n * n < 2 ^ 31" "small_entries n A" "small_entries n B" "length out0 = n * n"
    and "data = \<lparr>row_num = 0, matrix_A = A, matrix_B = B, matrix_len = int n\<rparr>"
  shows "matrixmult_splitter p data out0 = Inr (product_of n A B)"
proof -
  let ?arg = "\<lambda>(s, l). \<lparr>first_row = int s, row_count = int l\<rparr>"
  let ?G = "\<lambda>r. take (r * n) (product_of n A B) @ drop (r * n) out0"
  have args: "assign_rows (int n) (int p) (c_div (int n) (int p)) [0..<p] 0 = map ?arg (tail_chunks p n)"
    using assign_rows_chunks [of 0 p "n div p" n] assms(1)
    by (simp add: tail_chunks_def c_div_nonneg zdiv_int)
  have "efold (matrixmult_map data) (map ?arg cs) out =
      efold (\<lambda>c. efold (mm_row data) (map int (range_of c))) cs out" for cs out
    by (simp add: efold_map split_beta matrixmult_map_rows)
  then have "efold (matrixmult_map data) (map ?arg (tail_chunks p n)) out0 = efold (mm_row data) (map int [0..<n]) out0"
    by (simp add: tail_split.efold_chunks [OF assms(1)])
  moreover have "efold (mm_row data) (map int [0..<n]) (?G 0) = Inr (?G n)"
    using mm_row_ok [OF assms(3,4) _ assms(2,5,6)] by (intro efold_steps) auto
  ultimately show ?thesis
    using assms(1,5) args by (simp add: matrixmult_splitter_def assms(6) product_of_def)
qed

text \<open>
  With any number of processors and any contents of fresh memory, the program computes the matrix
  product of the two files, read row by row, be they given (with entries up to 10) or created with
  random entries; no computation on \<^verbatim>\<open>int\<close> overflows.
\<close>

theorem matrix_product_computed:
  assumes "0 < p" "0 \<le> len" "len * len < 2 ^ 31" "\<forall>k. 0 \<le> rnd k" "n = nat len"
    and "A = mm_file rnd create 0 n file_A" "B = mm_file rnd create (n * n) n file_B"
    and "create \<or> small_entries n file_A \<and> small_entries n file_B"
  shows "\<exists>out. mm_main rnd heap p len create file_A file_B = Inr out \<and> length out = n * n \<and>
    (\<forall>r<n. \<forall>c<n. out ! (r * n + c) = (\<Sum>j<n. A ! (r * n + j) * B ! (j * n + c)))"
proof (intro exI conjI allI impI)
  have "z mod 11 \<le> 10" for z :: int using pos_mod_bound [of 11 z] by simp
  then have created: "small_entries n (overwrite f (create_file rnd k n))" for f k
    using assms(4) by (simp add: small_entries_def overwrite_def create_file_def nth_append c_mod_nonneg)
  then have small: "small_entries n A" "small_entries n B"
    using assms(6-8) by (auto simp: mm_file_def)
  have len: "len = int n" using assms(2,5) by simp
  have "int (n * n) < int (2 ^ 31)" using assms(3) by (simp add: len)
  then have size2: "n * n < 2 ^ 31" by (simp only: of_nat_less_iff)
  have "c_int (int n * int n) = Inr (int (n * n))" using c_int_nat [OF size2] by simp
  with matrix_product [OF assms(1) size2 small _ refl, of "map heap [0..<n * n]"]
  show "mm_main rnd heap p len create file_A file_B = Inr (product_of n A B)"
    using assms(2,3) by (simp add: mm_main_def Let_def assms(6,7) len nat_mult_distrib)
next
  fix r c assume "r < n" "c < n"
  then show "product_of n A B ! (r * n + c) = (\<Sum>j<n. A ! (r * n + j) * B ! (j * n + c))"
    using cell_index [of r n c] by (simp add: product_of_def product_at_def)
qed (simp add: product_of_def)

theorem matrix_product_computed_witness:
  "\<exists>out. mm_main (\<lambda>_. 0) (\<lambda>_. 7) 3 2 False [1, 2, 3, 4] [5, 6, 7, 8] = Inr out \<and> out ! 2 = 43"
proof -
  have "i < 4 \<longleftrightarrow> i = 0 \<or> i = 1 \<or> i = 2 \<or> i = (3 :: nat)" for i by auto
  then have small: "small_entries 2 [1, 2, 3, 4]" "small_entries 2 [5, 6, 7, 8]"
    by (auto simp: small_entries_def)
  from matrix_product_computed [of 3 2 "\<lambda>_. 0" 2 "[1, 2, 3, 4]" False "[1, 2, 3, 4]" "[5, 6, 7, 8]" "[5, 6, 7, 8]" "\<lambda>_. 7"]
  obtain out where "mm_main (\<lambda>_. 0) (\<lambda>_. 7) 3 2 False [1, 2, 3, 4] [5, 6, 7, 8] = Inr out"
    "\<forall>r<2. \<forall>c<2. out ! (r * 2 + c) = (\<Sum>j<2. [1, 2, 3, 4] ! (r * 2 + j) * [5, 6, 7, 8] ! (j * 2 + c))"
    using small by (auto simp: mm_file_def)
  moreover from this(2) [rule_format, of 1 0] have "out ! 2 = 43"
    by (simp add: lessThan_nat_numeral numeral_2_eq_2)
  ultimately show ?thesis by blast
qed

end
