(* ===== verification/String_Match.thy ===== *)
theory String_Match
  imports Machine_Bytes
begin

text \<open>
  The string match benchmark, \<^verbatim>\<open>string_match-pthread.c\<close>: the file of keys is cut at line ends into
  one part per processor, and each thread reads its lines, shifts every byte by 5 and compares the
  result with four shifted keys. Threads only print, so they are run in order, and the words printed
  are the result. The file is mapped in whole pages: the rest of the last page reads as zero and an
  access behind it is a fault.
\<close>

section \<open>Lines\<close>

definition MAX_REC_LEN :: int where "MAX_REC_LEN = 1024"
definition OFFSET :: u8 where "OFFSET = 5"

function getnextline_from :: "int \<Rightarrow> u8 list \<Rightarrow> int \<Rightarrow> int \<Rightarrow> u8 list \<Rightarrow> c_fault + int \<times> u8 list" where
  "getnextline_from max_len bytes pos i buf =
     (if i < max_len - 1 then
        ebind (at_index bytes (pos + i)) (\<lambda>c.
          if c = 0 then Inr (if i = 0 then - 1 else i, buf)
          else if c = 13 then Inr (i + 2, buf)
          else if c = 10 then Inr (i + 1, buf)
          else ebind (at_index buf i) (\<lambda>_. getnextline_from max_len bytes pos (i + 1) (buf[nat i := c])))
      else Inr (i, buf))"
  by pat_completeness auto
termination by (relation "measure (\<lambda>(max_len, _, _, i, _). nat (max_len - 1 - i))") auto

declare getnextline_from.simps [simp del]

definition getnextline :: "u8 list \<Rightarrow> int \<Rightarrow> u8 list \<Rightarrow> int \<Rightarrow> c_fault + int \<times> u8 list" where
  "getnextline buf max_len bytes pos = getnextline_from max_len bytes pos 0 buf"

text \<open>\<^verbatim>\<open>strlen\<close> and the string in a buffer, up to the terminating zero.\<close>

definition c_string :: "u8 list \<Rightarrow> u8 list" where
  "c_string = takeWhile (\<lambda>c. c \<noteq> 0)"

definition c_strlen :: "u8 list \<Rightarrow> c_fault + int" where
  "c_strlen buf = (if 0 \<in> set buf then Inr (int (length (c_string buf))) else Inl Out_Of_Bounds)"

definition compute_hashes :: "u8 list \<Rightarrow> u8 list \<Rightarrow> c_fault + u8 list" where
  "compute_hashes word final_word =
     ebind (c_strlen word) (\<lambda>n.
     ebind (efold (\<lambda>i fw. ebind (at_index word i) (\<lambda>c.
                   ebind (at_index fw i) (\<lambda>_. Inr (fw[nat i := c + OFFSET]))))
              (map int [0..<nat n]) final_word) (\<lambda>fw.
     ebind (at_index fw n) (\<lambda>_. Inr (fw[nat n := 0]))))"

section \<open>A thread\<close>

record sm_arg =
  keys_file :: int
  length_arg :: int

text \<open>\<^verbatim>\<open>bzero\<close> clears both buffers before every line.\<close>

definition blank :: "u8 list" where
  "blank = replicate (nat MAX_REC_LEN) 0"

definition found_words :: "u8 list list \<Rightarrow> u8 list \<Rightarrow> u8 list \<Rightarrow> u8 list list" where
  "found_words keys_final cur_word cur_word_final =
     concat (map (\<lambda>key. if c_string key = c_string cur_word_final then [c_string cur_word] else []) keys_final)"

lemma getnextline_from_pos:
  "getnextline_from max_len bytes pos i buf = Inr (n, w) \<Longrightarrow> 0 \<le> i \<Longrightarrow> i < max_len \<Longrightarrow> 1 < max_len \<Longrightarrow> n = - 1 \<or> 1 \<le> n"
proof (induction max_len bytes pos i buf rule: getnextline_from.induct)
  case (1 max_len bytes pos i buf)
  show ?case
  proof (cases "i < max_len - 1")
    case True
    then obtain c where c: "at_index bytes (pos + i) = Inr c"
      using 1(2) by (subst (asm) getnextline_from.simps) (auto simp: ebind_Inr_iff)
    show ?thesis
    proof (cases "c \<in> {0, 13, 10}")
      case False
      then obtain u where u: "at_index buf i = Inr u"
        and rest: "getnextline_from max_len bytes pos (i + 1) (buf[nat i := c]) = Inr (n, w)"
        using 1(2) True c by (subst (asm) getnextline_from.simps) (auto simp: ebind_Inr_iff)
      show ?thesis by (rule 1(1) [OF True c _ _ _ u rest]) (use False 1(3-5) True in auto)
    qed (use 1(2,3) True c in \<open>subst (asm) getnextline_from.simps, auto split: if_splits\<close>)
  qed (use 1(2-5) in \<open>subst (asm) getnextline_from.simps, auto\<close>)
qed

function match_lines :: "u8 list list \<Rightarrow> u8 list \<Rightarrow> int \<Rightarrow> int \<Rightarrow> int \<Rightarrow> c_fault + u8 list list" where
  "match_lines keys_final bytes len key_file total_len =
     (if total_len < len then
        ebind (getnextline blank MAX_REC_LEN bytes key_file) (\<lambda>r.
          if fst r \<ge> 0 then
            ebind (compute_hashes (snd r) blank) (\<lambda>cur_word_final.
            ebind (match_lines keys_final bytes len (key_file + fst r) (total_len + fst r)) (\<lambda>rest.
              Inr (found_words keys_final (snd r) cur_word_final @ rest)))
          else Inr [])
      else Inr [])"
  by pat_completeness auto
termination
  by (relation "measure (\<lambda>(_, _, len, _, total_len). nat (len - total_len))")
     (auto simp: getnextline_def MAX_REC_LEN_def dest!: getnextline_from_pos)

declare match_lines.simps [simp del]

definition string_match_map :: "u8 list list \<Rightarrow> u8 list \<Rightarrow> sm_arg \<Rightarrow> c_fault + u8 list list" where
  "string_match_map keys_final bytes arg = match_lines keys_final bytes (length_arg arg) (keys_file arg) 0"

section \<open>The division of the file\<close>

text \<open>The search for the end of a word from \<^verbatim>\<open>final_ptr\<close>, which stands at the offset \<^verbatim>\<open>counter\<close>.\<close>

function word_end :: "u8 list \<Rightarrow> int \<Rightarrow> int \<Rightarrow> c_fault + int" where
  "word_end bytes keys_file_len counter =
     (if counter \<le> keys_file_len then
        ebind (at_index bytes counter) (\<lambda>c.
          if c \<noteq> 10 \<and> c \<noteq> 13 \<and> c \<noteq> 0 then
            ebind (c_int (counter + 1)) (\<lambda>_. word_end bytes keys_file_len (counter + 1))
          else Inr counter)
      else Inr counter)"
  by pat_completeness auto
termination by (relation "measure (\<lambda>(_, len, counter). nat (len + 1 - counter))") auto

declare word_end.simps [simp del]

definition assign_part :: "u8 list \<Rightarrow> int \<Rightarrow> int \<Rightarrow> int \<Rightarrow> c_fault + int" where
  "assign_part bytes keys_file_len req_bytes bytes_comp =
     (let avail0 = to_int (keys_file_len - bytes_comp);
          available_bytes = (if avail0 < 0 then 0 else avail0);
          len0 = (if req_bytes < available_bytes then req_bytes else available_bytes)
      in ebind (word_end bytes keys_file_len (to_int (bytes_comp + len0))) (\<lambda>counter.
         ebind (at_index bytes counter) (\<lambda>c.
           c_int (if c = 13 then counter + 2 else if c = 10 then counter + 1 else counter))))"

primrec assign_parts :: "nat \<Rightarrow> u8 list \<Rightarrow> int \<Rightarrow> int \<Rightarrow> int \<Rightarrow> c_fault + sm_arg list" where
  "assign_parts 0 bytes keys_file_len req_bytes bytes_comp = Inr []"
| "assign_parts (Suc k) bytes keys_file_len req_bytes bytes_comp =
     ebind (assign_part bytes keys_file_len req_bytes bytes_comp) (\<lambda>counter.
     ebind (assign_parts k bytes keys_file_len req_bytes counter) (\<lambda>rest.
       Inr (\<lparr>keys_file = bytes_comp, length_arg = counter - bytes_comp\<rparr> # rest)))"

section \<open>The program\<close>

text \<open>The keys \<^verbatim>\<open>Helloworld\<close>, \<^verbatim>\<open>howareyou\<close>, \<^verbatim>\<open>ferrari\<close> and \<^verbatim>\<open>whotheman\<close>.\<close>

definition match_keys :: "u8 list list" where
  "match_keys =
     [[72, 101, 108, 108, 111, 119, 111, 114, 108, 100],
      [104, 111, 119, 97, 114, 101, 121, 111, 117],
      [102, 101, 114, 114, 97, 114, 105],
      [119, 104, 111, 116, 104, 101, 109, 97, 110]]"

text \<open>The memory of a shifted key is written whole, so what \<^verbatim>\<open>malloc\<close> left in it does not matter.\<close>

definition final_key :: "u8 list \<Rightarrow> c_fault + u8 list" where
  "final_key key = compute_hashes (key @ [0]) (replicate (length key + 1) 0)"

definition string_match_splitter :: "nat \<Rightarrow> u8 list \<Rightarrow> int \<Rightarrow> c_fault + u8 list list" where
  "string_match_splitter num_procs bytes keys_file_len =
     ebind (emap final_key match_keys) (\<lambda>keys_final.
       if num_procs = 0 then Inl Assert_Failed
       else ebind (assign_parts num_procs bytes keys_file_len (c_div keys_file_len (int num_procs)) 0) (\<lambda>args.
            ebind (emap (string_match_map keys_final bytes) args) (\<lambda>found. Inr (concat found))))"

definition string_match_main :: "nat \<Rightarrow> nat \<Rightarrow> u8 list \<Rightarrow> c_fault + u8 list list" where
  "string_match_main page num_procs contents =
     string_match_splitter num_procs (map_file page contents) (to_int (int (length contents)))"

end
