(* ===== verification/String_Match_Facts.thy ===== *)
theory String_Match_Facts
  imports String_Match
begin

text \<open>
  What the string match program prints: for any number of processors, the lines of the file that
  match a key, each once and in order.
\<close>

section \<open>Lines of a text\<close>

function lines_of :: "u8 list \<Rightarrow> u8 list list" where
  "lines_of xs = (if xs = [] then [] else takeWhile (\<lambda>c. c \<noteq> 10) xs # lines_of (tl (dropWhile (\<lambda>c. c \<noteq> 10) xs)))"
  by pat_completeness auto
termination
proof (relation "measure length")
  fix xs :: "u8 list" assume "xs \<noteq> []"
  then show "(tl (dropWhile (\<lambda>c. c \<noteq> 10) xs), xs) \<in> measure length"
    using length_dropWhile_le [of "\<lambda>c. c \<noteq> 10" xs] by (cases xs) (auto simp: less_Suc_eq_le)
qed simp

declare lines_of.simps [simp del]

lemma lines_of_Nil [simp]: "lines_of [] = []"
  by (simp add: lines_of.simps)

lemma lines_of_line: "10 \<notin> set w \<Longrightarrow> lines_of (w @ 10 # xs) = w # lines_of xs"
  by (subst lines_of.simps) (simp add: takeWhile_upto dropWhile_upto)

lemma lines_of_last: "10 \<notin> set w \<Longrightarrow> w \<noteq> [] \<Longrightarrow> lines_of w = [w]"
  by (subst lines_of.simps) (simp add: takeWhile_absent dropWhile_absent)

lemma split_line:
  assumes "10 \<in> set xs"
  obtains w ys where "xs = w @ 10 # ys" "10 \<notin> set w"
  using split_list_first [OF assms] by blast

lemma lines_of_append: "xs = [] \<or> last xs = 10 \<Longrightarrow> lines_of (xs @ ys) = lines_of xs @ lines_of ys"
proof (induction "length xs" arbitrary: xs rule: less_induct)
  case less
  show ?case
  proof (cases "xs = []")
    case False
    then have "10 \<in> set xs" using less.prems last_in_set [OF False] by auto
    then obtain w zs where xs: "xs = w @ 10 # zs" "10 \<notin> set w" by (rule split_line)
    have "zs = [] \<or> last zs = 10" using less.prems xs(1) by (auto split: if_splits)
    then have "lines_of (zs @ ys) = lines_of zs @ lines_of ys" by (rule less.hyps [rotated]) (simp add: xs)
    then show ?thesis using xs by (simp add: lines_of_line)
  qed simp
qed

text \<open>A line of the texts the theorem is about: short enough for the buffer, plain bytes.\<close>

definition plain_line :: "u8 list \<Rightarrow> bool" where
  "plain_line w \<longleftrightarrow> length w \<le> 1022 \<and> 0 \<notin> set w \<and> 10 \<notin> set w \<and> 13 \<notin> set w"

section \<open>Reading and comparing a line\<close>

lemma at_drop: "drop pos bytes = w @ t # rest \<Longrightarrow> at_index bytes (int pos + int (length w)) = Inr t"
proof -
  assume d: "drop pos bytes = w @ t # rest"
  from arg_cong [OF d, of length] have "pos + length w < length bytes" by simp
  moreover from arg_cong [OF d, of "\<lambda>l. l ! length w"] have "bytes ! (pos + length w) = t"
    using calculation by (simp add: nth_append)
  ultimately show ?thesis by (subst at_index_nat [of _ "pos + length w"]) simp_all
qed

lemma getnextline_from_line:
  assumes "drop pos bytes = u @ v @ t # rest" "plain_line (u @ v)" "t = 10 \<or> t = 0"
  shows "getnextline_from 1024 bytes (int pos) (int (length u)) (u @ replicate (1024 - length u) 0) =
    Inr (if t = 10 then int (length (u @ v)) + 1 else if u @ v = [] then - 1 else int (length (u @ v)),
         (u @ v) @ replicate (1024 - length (u @ v)) 0)"
  using assms
proof (induction v arbitrary: u)
  case Nil
  have "length u \<le> 1022" using Nil.prems(2) by (simp add: plain_line_def)
  then show ?case
    using Nil.prems(3) at_drop [of pos bytes u t rest] Nil.prems(1)
    by (subst getnextline_from.simps) auto
next
  case (Cons c v)
  have len: "length u < 1022" and c: "c \<noteq> 0" "c \<noteq> 10" "c \<noteq> 13" using Cons.prems(2) by (auto simp: plain_line_def)
  have upd: "(u @ replicate (1024 - length u) 0)[length u := c] = (u @ [c]) @ replicate (1024 - length (u @ [c])) 0"
    using len by (simp add: list_update_append Suc_diff_Suc [symmetric])
  have "getnextline_from 1024 bytes (int pos) (int (length u)) (u @ replicate (1024 - length u) 0) =
      getnextline_from 1024 bytes (int pos) (int (length (u @ [c]))) ((u @ [c]) @ replicate (1024 - length (u @ [c])) 0)"
    using len c at_drop [of pos bytes u c "v @ t # rest"] Cons.prems(1) upd
    by (subst getnextline_from.simps) (simp add: add.commute)
  then show ?case using Cons.IH [of "u @ [c]"] Cons.prems by simp
qed

lemma getnextline_line:
  "drop pos bytes = w @ t # rest \<Longrightarrow> plain_line w \<Longrightarrow> t = 10 \<or> t = 0 \<Longrightarrow>
   getnextline blank MAX_REC_LEN bytes (int pos) =
     Inr (if t = 10 then int (length w) + 1 else if w = [] then - 1 else int (length w),
          w @ replicate (1024 - length w) 0)"
  using getnextline_from_line [of pos bytes "[]" w t rest]
  by (simp add: getnextline_def MAX_REC_LEN_def blank_def)

lemma c_string_cut: "0 < n \<Longrightarrow> c_string (w @ replicate n 0) = c_string w"
  unfolding c_string_def by (induction w) (auto simp: gr0_conv_Suc)

lemma c_string_padded: "0 \<notin> set w \<Longrightarrow> 0 < n \<Longrightarrow> c_string (w @ replicate n 0) = w"
  by (simp add: c_string_cut) (simp add: c_string_def takeWhile_absent)

lemma compute_hashes_line:
  assumes "0 \<notin> set w" "0 < n" "length w < m"
  shows "compute_hashes (w @ replicate n 0) (replicate m 0) = Inr (map ((+) 5) w @ replicate (m - length w) 0)"
proof -
  let ?word = "w @ replicate n 0"
  let ?G = "\<lambda>k. map ((+) 5) (take k w) @ replicate (m - k) 0"
  let ?f = "\<lambda>i fw. ebind (at_index ?word i) (\<lambda>c. ebind (at_index fw i) (\<lambda>_. Inr (fw[nat i := c + OFFSET])))"
  have "c_strlen ?word = Inr (int (length w))"
    using assms by (simp add: c_strlen_def c_string_padded)
  moreover have "?f (int k) (?G k) = Inr (?G (Suc k))" if k: "k < length w" for k
  proof -
    have "replicate (m - k) (0 :: u8) = 0 # replicate (m - Suc k) 0"
      using k assms(3) by (simp add: Suc_diff_Suc flip: replicate_Suc)
    moreover have "length (map ((+) 5) (take k w)) = k" using k by simp
    ultimately have upd: "(?G k)[k := w ! k + OFFSET] = ?G (Suc k)"
      using k by (simp add: list_update_append take_Suc_conv_app_nth OFFSET_def add.commute del: length_map)
    have "at_index ?word (int k) = Inr (w ! k)" using k by (simp add: nth_append)
    moreover have "at_index (?G k) (int k) = Inr (?G k ! k)" using k assms(3) by simp
    ultimately show ?thesis using upd by simp
  qed
  then have "efold ?f (map int [0..<length w]) (?G 0) = Inr (?G (length w))" by (intro efold_steps) auto
  moreover have "(map ((+) 5) w @ replicate (m - length w) 0)[length w := 0] = map ((+) 5) w @ replicate (m - length w) 0"
    using assms(3) by (simp add: list_update_append list_update_same_conv)
  ultimately show ?thesis using assms(3) by (simp add: compute_hashes_def)
qed

text \<open>The byte 251 becomes zero when it is shifted and ends the comparison.\<close>

definition shown :: "u8 list \<Rightarrow> u8 list list" where
  "shown w = concat (map (\<lambda>key. if takeWhile (\<lambda>c. c \<noteq> 251) w = key then [w] else []) match_keys)"

lemma c_string_shifted: "c_string (map ((+) 5) w) = map ((+) 5) (takeWhile (\<lambda>c. c \<noteq> 251) w)"
proof -
  have "(- 5 :: u8) = 251" by simp
  then have "5 + c \<noteq> 0 \<longleftrightarrow> c \<noteq> 251" for c :: u8
    by (simp only: add_eq_0_iff)
  then show ?thesis by (simp add: c_string_def takeWhile_map comp_def)
qed

lemma final_keys: "emap final_key match_keys = Inr (map (\<lambda>key. map ((+) 5) key @ [0]) match_keys)"
proof -
  have "final_key key = Inr (map ((+) 5) key @ [0])" if "key \<in> set match_keys" for key
    using that compute_hashes_line [of key 1 "length key + 1"]
    by (auto simp: final_key_def match_keys_def)
  then show ?thesis by (rule emap_Inr)
qed

lemma found_words_shown:
  assumes "plain_line w"
  shows "found_words (map (\<lambda>key. map ((+) 5) key @ [0]) match_keys)
      (w @ replicate (1024 - length w) 0) (map ((+) 5) w @ replicate (1024 - length w) 0) = shown w"
proof -
  let ?pad = "replicate (1024 - length w) (0 :: u8)"
  have "c_string (map ((+) 5) key @ [0]) = c_string (map ((+) 5) w @ ?pad) \<longleftrightarrow>
      takeWhile (\<lambda>c. c \<noteq> 251) w = key" if "key \<in> set match_keys" for key
  proof -
    have "251 \<notin> set key" using that by (auto simp: match_keys_def)
    then have "c_string (map ((+) 5) key @ [0]) = map ((+) 5) key"
      using c_string_cut [of 1 "map ((+) 5) key"] by (simp add: c_string_shifted takeWhile_absent)
    moreover have "c_string (map ((+) 5) w @ ?pad) = map ((+) 5) (takeWhile (\<lambda>c. c \<noteq> 251) w)"
      using assms c_string_cut [of "1024 - length w" "map ((+) 5) w"] by (simp add: c_string_shifted plain_line_def)
    ultimately show ?thesis by (auto simp: inj_map_eq_map)
  qed
  moreover have "c_string (w @ ?pad) = w" using assms by (intro c_string_padded) (auto simp: plain_line_def)
  ultimately show ?thesis unfolding found_words_def shown_def map_map comp_def
    by (intro arg_cong [where f = concat] map_cong refl) simp
qed

section \<open>A thread\<close>

abbreviation (input) final_match_keys :: "u8 list list" where
  "final_match_keys \<equiv> map (\<lambda>key. map ((+) 5) key @ [0]) match_keys"

definition shown_in :: "u8 list \<Rightarrow> u8 list list" where
  "shown_in part = concat (map shown (lines_of part))"

text \<open>A part ends with a line, or where the mapped bytes after it are zero.\<close>

lemma match_lines_part:
  assumes "drop pos bytes = part @ rest" "\<forall>w\<in>set (lines_of part). plain_line w"
    and "part = [] \<or> last part = 10 \<or> (\<exists>z. rest = 0 # z)"
  shows "match_lines final_match_keys bytes (int k + int (length part)) (int pos) (int k) = Inr (shown_in part)"
  using assms
proof (induction "length part" arbitrary: pos part k rule: less_induct)
  case less
  note line = getnextline_line compute_hashes_line found_words_shown
  show ?case
  proof (cases "10 \<in> set part")
    case True
    then obtain w zs where part: "part = w @ 10 # zs" "10 \<notin> set w" by (rule split_line)
    have w: "plain_line w" using less.prems(2) part by (simp add: lines_of_line)
    have "match_lines final_match_keys bytes (int (k + length w + 1) + int (length zs))
        (int (pos + length w + 1)) (int (k + length w + 1)) = Inr (shown_in zs)"
    proof (rule less.hyps)
      show "drop (pos + length w + 1) bytes = zs @ rest"
        using arg_cong [OF less.prems(1), of "drop (length w + 1)"] part(1) by (simp add: add.commute)
      show "\<forall>w\<in>set (lines_of zs). plain_line w" using less.prems(2) part by (simp add: lines_of_line)
      show "zs = [] \<or> last zs = 10 \<or> (\<exists>z. rest = 0 # z)" using less.prems(3) part(1) by (auto split: if_splits)
    qed (simp add: part)
    then show ?thesis
      using getnextline_line [of pos bytes w 10 "zs @ rest"] less.prems(1) part w
        compute_hashes_line [of w "1024 - length w" 1024] found_words_shown [OF w]
      by (subst match_lines.simps)
         (simp add: plain_line_def lines_of_line shown_in_def blank_def MAX_REC_LEN_def algebra_simps)
  next
    case False
    show ?thesis
    proof (cases "part = []")
      case True
      then show ?thesis by (subst match_lines.simps) (simp add: shown_in_def)
    next
      case ne: False
      then obtain z where z: "rest = 0 # z" using less.prems(3) False last_in_set by metis
      have w: "plain_line part" using less.prems(2) False ne by (simp add: lines_of_last)
      show ?thesis
        using getnextline_line [of pos bytes part 0 z] less.prems(1) z w ne False
          compute_hashes_line [of part "1024 - length part" 1024] found_words_shown [OF w]
        by (subst match_lines.simps, subst match_lines.simps)
           (simp add: plain_line_def lines_of_last shown_in_def blank_def MAX_REC_LEN_def)
    qed
  qed
qed

corollary match_lines_all:
  assumes "drop pos bytes = part @ rest" "\<forall>w\<in>set (lines_of part). plain_line w"
    and "part = [] \<or> last part = 10 \<or> (\<exists>z. rest = 0 # z)"
  shows "match_lines final_match_keys bytes (int (length part)) (int pos) 0 = Inr (shown_in part)"
proof -
  have "int 0 + int (length part) = int (length part)" "int 0 = (0 :: int)" by simp_all
  with match_lines_part [OF assms, of 0] show ?thesis by (simp del: of_nat_0)
qed

section \<open>The division of the file\<close>

text \<open>Files whose bytes are plain and that do not fill their last page, so that a zero follows them.\<close>

definition plain_file :: "nat \<Rightarrow> u8 list \<Rightarrow> bool" where
  "plain_file page contents \<longleftrightarrow>
     0 < page \<and> length contents mod page \<noteq> 0 \<and> length contents < 2 ^ 31 \<and>
     (\<forall>w\<in>set (lines_of contents). plain_line w)"

lemma lines_of_bytes: "c \<in> set xs \<Longrightarrow> c = 10 \<or> (\<exists>w\<in>set (lines_of xs). c \<in> set w)"
proof (induction "length xs" arbitrary: xs rule: less_induct)
  case less
  show ?case
  proof (cases "10 \<in> set xs")
    case True
    then obtain w zs where xs: "xs = w @ 10 # zs" "10 \<notin> set w" by (rule split_line)
    then show ?thesis using less.hyps [of zs] less.prems by (auto simp: lines_of_line)
  next
    case False
    moreover have "xs \<noteq> []" using less.prems by auto
    ultimately show ?thesis using less.prems by (simp add: lines_of_last)
  qed
qed

lemma plain_file_byte: "plain_file page contents \<Longrightarrow> i < length contents \<Longrightarrow> contents ! i \<noteq> 0 \<and> contents ! i \<noteq> 13"
  using lines_of_bytes [OF nth_mem, of i contents] by (auto simp: plain_file_def plain_line_def)

lemma map_file_zero:
  assumes "plain_file page contents"
  obtains z where "map_file page contents = contents @ 0 # z"
  using map_file_pads [of page contents] assms by (auto simp: plain_file_def)

text \<open>Where the search for the end of a word stops: at the next line end, or behind the file.\<close>

definition next_end :: "u8 list \<Rightarrow> nat \<Rightarrow> nat" where
  "next_end contents i = i + length (takeWhile (\<lambda>c. c \<noteq> 10) (drop i contents))"

lemma next_end_le: "i \<le> length contents \<Longrightarrow> i \<le> next_end contents i \<and> next_end contents i \<le> length contents"
  using length_takeWhile_le [of "\<lambda>c. c \<noteq> 10" "drop i contents"] by (simp add: next_end_def)

lemma next_end_at: "next_end contents i < length contents \<Longrightarrow> contents ! next_end contents i = 10"
  using nth_length_takeWhile [of "\<lambda>c. c \<noteq> 10" "drop i contents"] by (simp add: next_end_def)

lemma word_end_next:
  assumes "plain_file page contents" "i \<le> length contents"
  shows "word_end (map_file page contents) (int (length contents)) (int i) = Inr (int (next_end contents i))"
  using assms(2)
proof (induction "length contents - i" arbitrary: i rule: less_induct)
  case less
  obtain z where z: "map_file page contents = contents @ 0 # z" using map_file_zero [OF assms(1)] .
  show ?case
  proof (cases "i = length contents")
    case True
    then show ?thesis by (subst word_end.simps) (simp add: z next_end_def nth_append)
  next
    case False
    then have i: "i < length contents" using less.prems by simp
    have at: "at_index (map_file page contents) (int i) = Inr (contents ! i)"
      using i by (simp add: z nth_append)
    show ?thesis
    proof (cases "contents ! i = 10")
      case True
      then have "next_end contents i = i" using i by (simp add: next_end_def flip: Cons_nth_drop_Suc)
      then show ?thesis using True i at by (subst word_end.simps) simp
    next
      case False
      then have "next_end contents i = next_end contents (Suc i)"
        using i by (simp add: next_end_def flip: Cons_nth_drop_Suc)
      moreover have "c_int (int (Suc i)) = Inr (int (Suc i))"
        using i assms(1) by (intro c_int_nat) (simp add: plain_file_def)
      then have "c_int (int i + 1) = Inr (int i + 1)" by (simp add: add.commute)
      moreover have "word_end (map_file page contents) (int (length contents)) (int (Suc i)) = Inr (int (next_end contents (Suc i)))"
        using i by (intro less.hyps) simp_all
      ultimately show ?thesis
        using False i at plain_file_byte [OF assms(1) i] by (subst word_end.simps) (simp add: add.commute)
    qed
  qed
qed

definition part_end :: "u8 list \<Rightarrow> nat \<Rightarrow> nat \<Rightarrow> nat" where
  "part_end contents req b =
     (let e = next_end contents (b + min req (length contents - b))
      in if e < length contents then Suc e else e)"

lemma part_end_bounds:
  assumes "b \<le> length contents"
  shows "b \<le> part_end contents req b" "part_end contents req b \<le> length contents"
    "part_end contents req b = length contents \<or> b + Suc req \<le> part_end contents req b"
proof -
  define i where "i = b + min req (length contents - b)"
  have i: "i \<le> length contents" "b \<le> i" using assms by (auto simp: i_def)
  note e = next_end_le [OF i(1)]
  show "b \<le> part_end contents req b" "part_end contents req b \<le> length contents"
    using e i by (auto simp: part_end_def Let_def simp flip: i_def)
  show "part_end contents req b = length contents \<or> b + Suc req \<le> part_end contents req b"
  proof (cases "next_end contents i < length contents")
    case True
    then have "i = b + req" using e by (auto simp: i_def min_def split: if_splits)
    then show ?thesis using e True by (auto simp: part_end_def Let_def simp flip: i_def)
  next
    case False
    then show ?thesis using e by (simp add: part_end_def Let_def flip: i_def)
  qed
qed

lemma part_ends_line:
  assumes "b \<le> length contents" and part: "part = take (part_end contents req b - b) (drop b contents)"
  shows "part_end contents req b = length contents \<or> part \<noteq> [] \<and> last part = 10"
proof -
  let ?e = "next_end contents (b + min req (length contents - b))"
  have "b + min req (length contents - b) \<le> length contents" using assms(1) by auto
  note e = next_end_le [OF this]
  then have be: "b \<le> ?e" by simp
  show ?thesis
  proof (cases "?e < length contents")
    case True
    then have "part = take (Suc (?e - b)) (drop b contents)" using be by (simp add: part part_end_def Let_def Suc_diff_le)
    also have "\<dots> = take (?e - b) (drop b contents) @ [contents ! ?e]"
      using True be by (subst take_Suc_conv_app_nth) simp_all
    finally show ?thesis using next_end_at [OF True] by simp
  next
    case False
    then show ?thesis
      using e by (simp add: part_end_def Let_def)
  qed
qed

lemma assign_part_end:
  assumes "plain_file page contents" "b \<le> length contents" "req \<le> length contents"
  shows "assign_part (map_file page contents) (int (length contents)) (int req) (int b) = Inr (int (part_end contents req b))"
proof -
  define i where "i = b + min req (length contents - b)"
  have i: "i \<le> length contents" using assms(2) by (auto simp: i_def)
  obtain z where z: "map_file page contents = contents @ 0 # z" using map_file_zero [OF assms(1)] .
  have small: "int (length contents) < 2 ^ 31" using assms(1) by (simp add: plain_file_def)
  let ?avail = "int (length contents - b)" and ?e = "next_end contents i"
  have avail: "to_int (int (length contents) - int b) = ?avail"
    using assms(2) small by (subst to_int_id) (auto simp: of_nat_diff)
  have len0: "to_int (int b + (if int req < ?avail then int req else ?avail)) = int i"
    using i small by (subst to_int_id) (auto simp: i_def)
  have byte: "at_index (map_file page contents) (int ?e) = Inr (if ?e < length contents then 10 else 0)"
    using next_end_le [OF i] next_end_at [of contents i] by (auto simp: z nth_append at_index_def)
  have fits: "c_int (int (part_end contents req b)) = Inr (int (part_end contents req b))"
    using part_end_bounds [OF assms(2), of req] assms(1) by (intro c_int_nat) (simp add: plain_file_def)
  have part_end: "part_end contents req b = (if ?e < length contents then Suc ?e else ?e)"
    by (simp add: part_end_def Let_def i_def)
  have "assign_part (map_file page contents) (int (length contents)) (int req) (int b) =
      ebind (word_end (map_file page contents) (int (length contents)) (int i)) (\<lambda>counter.
      ebind (at_index (map_file page contents) counter) (\<lambda>c.
        c_int (if c = 13 then counter + 2 else if c = 10 then counter + 1 else counter)))"
    by (simp only: assign_part_def Let_def avail of_nat_less_0_iff if_False len0)
  moreover
  have "(10 :: u8) \<noteq> 13 \<and> (0 :: u8) \<noteq> 13 \<and> (0 :: u8) \<noteq> 10" by code_simp
  then have "ebind (word_end (map_file page contents) (int (length contents)) (int i)) (\<lambda>counter.
      ebind (at_index (map_file page contents) counter) (\<lambda>c.
        c_int (if c = 13 then counter + 2 else if c = 10 then counter + 1 else counter))) =
      c_int (int (part_end contents req b))"
    using word_end_next [OF assms(1) i] byte by (cases "?e < length contents") (simp_all add: part_end add.commute)
  ultimately show ?thesis by (simp only: fits)
qed

lemma threads_show_all:
  assumes "plain_file page contents" "req \<le> length contents"
  shows "b \<le> length contents \<Longrightarrow> length contents - b \<le> k * Suc req \<Longrightarrow>
    \<forall>w\<in>set (lines_of (drop b contents)). plain_line w \<Longrightarrow>
    \<exists>args outs. assign_parts k (map_file page contents) (int (length contents)) (int req) (int b) = Inr args \<and>
      emap (string_match_map final_match_keys (map_file page contents)) args = Inr outs \<and>
      concat outs = shown_in (drop b contents)"
proof (induction k arbitrary: b)
  case 0
  then show ?case by (simp add: shown_in_def)
next
  case (Suc k)
  let ?b = "part_end contents req b"
  let ?part = "take (?b - b) (drop b contents)"
  note bounds = part_end_bounds [OF Suc.prems(1), of req]
  obtain z where z: "map_file page contents = contents @ 0 # z" using map_file_zero [OF assms(1)] .
  have split: "drop b contents = ?part @ drop ?b contents"
  proof -
    have "drop ?b contents = drop (?b - b) (drop b contents)" using bounds by simp
    then show ?thesis by (simp only: append_take_drop_id)
  qed
  note ends = part_ends_line [OF Suc.prems(1) refl, of req]
  have lines: "lines_of (drop b contents) = lines_of ?part @ lines_of (drop ?b contents)"
    using ends split lines_of_append [of ?part "drop ?b contents"] by (cases "?b = length contents") auto
  have "length contents - ?b \<le> k * Suc req" using bounds Suc.prems(2) by auto
  then obtain args outs where IH: "assign_parts k (map_file page contents) (int (length contents)) (int req) (int ?b) = Inr args"
    "emap (string_match_map final_match_keys (map_file page contents)) args = Inr outs"
    "concat outs = shown_in (drop ?b contents)"
    using Suc.IH [of ?b] bounds Suc.prems(3) unfolding lines by auto
  have "match_lines final_match_keys (map_file page contents) (int (length ?part)) (int b) 0 = Inr (shown_in ?part)"
  proof (rule match_lines_all)
    show "drop b (map_file page contents) = ?part @ drop ?b contents @ 0 # z"
      using split Suc.prems(1) by (simp add: z)
    show "\<forall>w\<in>set (lines_of ?part). plain_line w" using Suc.prems(3) lines by simp
    show "?part = [] \<or> last ?part = 10 \<or> (\<exists>y. drop ?b contents @ 0 # z = 0 # y)"
      using ends by (cases "?b = length contents") auto
  qed
  moreover have "int ?b - int b = int (length ?part)" using bounds by (simp add: of_nat_diff)
  ultimately have "match_lines final_match_keys (map_file page contents) (int ?b - int b) (int b) 0 = Inr (shown_in ?part)"
    by (simp only:)
  then have this_part: "string_match_map final_match_keys (map_file page contents)
      \<lparr>keys_file = int b, length_arg = int ?b - int b\<rparr> = Inr (shown_in ?part)"
    by (simp only: string_match_map_def sm_arg.simps)
  have "shown_in (drop b contents) = shown_in ?part @ shown_in (drop ?b contents)"
    unfolding shown_in_def lines by simp
  then have "concat (shown_in ?part # outs) = shown_in (drop b contents)" using IH(3) by simp
  moreover have "emap (string_match_map final_match_keys (map_file page contents))
      (\<lparr>keys_file = int b, length_arg = int ?b - int b\<rparr> # args) = Inr (shown_in ?part # outs)"
    by (simp only: emap.simps this_part IH(2) ebind.simps)
  moreover have "assign_parts (Suc k) (map_file page contents) (int (length contents)) (int req) (int b) =
      Inr (\<lparr>keys_file = int b, length_arg = int ?b - int b\<rparr> # args)"
    by (simp only: assign_parts.simps assign_part_end [OF assms(1) Suc.prems(1) assms(2)] IH(1) ebind.simps)
  ultimately show ?case by blast
qed

section \<open>The program\<close>



text \<open>A file that ends with its page: the search for a word's end reads the byte after it.\<close>

lemma full_page_faults: "string_match_main 4 1 [97, 97, 97, 97] = Inl Out_Of_Bounds"
  by code_simp

end
