(* ===== verification/Debug_Info.thy ===== *)
theory Debug_Info
  imports Memory_Map C_Text Machine_Bytes "HOL-Library.AList"
begin

text \<open>
  How \<^verbatim>\<open>libcoz/inspect.cpp\<close> builds the memory map: the files the process has loaded, from the text of
  \<^verbatim>\<open>/proc/self/maps\<close>, the file with their debug information, the lines of the line tables and of the
  inlined calls in the source scope, and the line with a given name. The parsed ELF file and its DWARF
  entries are input data; the file system and the environment are arguments.
\<close>

section \<open>The build id\<close>

definition NT_GNU_BUILD_ID :: u32 where "NT_GNU_BUILD_ID = 3"

definition hex_byte :: "u8 \<Rightarrow> string" where
  "hex_byte b = (if unat b < 16 then CHR ''0'' # print_hex (unat b) else print_hex (unat b))"

text \<open>A read of a section outside it is a fault.\<close>

definition section_read :: "u8 list \<Rightarrow> nat \<Rightarrow> nat \<Rightarrow> c_fault + u8 list" where
  "section_read bs off n = (if off + n \<le> length bs then Inr (take n (drop off bs)) else Inl Out_Of_Bounds)"

text \<open>The header of a note is the sizes of name and descriptor, and the type.\<close>

function find_note :: "u8 list \<Rightarrow> nat \<Rightarrow> c_fault + string option" where
  "find_note bs offset =
     (if offset < length bs then
        ebind (section_read bs offset 12) (\<lambda>hdr.
        (let n_namesz = unat (of_le_bytes (take 4 hdr) :: u32);
             n_descsz = unat (of_le_bytes (take 4 (drop 4 hdr)) :: u32);
             n_type = (of_le_bytes (drop 8 hdr) :: u32)
         in if n_type = NT_GNU_BUILD_ID
            then ebind (section_read bs (offset + 12 + n_namesz) n_descsz) (\<lambda>build_id.
                   Inr (Some (concat (map hex_byte build_id))))
            else find_note bs (offset + (12 + n_namesz + n_descsz))))
      else Inr None)"
  by pat_completeness auto
termination by (relation "measure (\<lambda>(bs, offset). length bs - offset)") auto

declare find_note.simps [simp del]

text \<open>The note sections of the file, in order.\<close>

fun find_build_id :: "u8 list list \<Rightarrow> c_fault + string" where
  "find_build_id [] = Inr []"
| "find_build_id (bs # sections) =
     ebind (find_note bs 0) (\<lambda>found. case found of Some build_id \<Rightarrow> Inr build_id | None \<Rightarrow> find_build_id sections)"

section \<open>The debug entries of a file\<close>

text \<open>
  An attribute that holds an address can be of three classes. A reference that cannot be resolved
  is absent, as is a format error, which the code ignores.
\<close>

datatype pc_value =
    Address u64
  | Uconstant u64
  | Sconstant i64

record die_attrs =
  decl_file :: "u64 option"
  call_file :: "u64 option"
  call_line :: "u64 option"
  pc_ranges :: "(u64 \<times> u64) list option"
  low_pc :: "pc_value option"
  high_pc :: "pc_value option"

datatype die =
  Die (inlined_subroutine: bool) (attrs: die_attrs) (abstract_origin: "die option")
    (specified_by: "die option") (children: "die list")

text \<open>The line table of a unit has the names of its files, by index.\<close>

record comp_unit =
  line_rows :: "line_row list"
  table_file :: "u64 \<Rightarrow> string"
  unit_root :: die

record elf_file =
  is_exec :: bool
  has_debug_info :: bool
  note_sections :: "u8 list list"
  debuglink :: "string option"
  comp_units :: "comp_unit list"

section \<open>Finding the file with the debug information\<close>

record file_system =
  cwd :: string
  path_env :: "string option"
  exists_file :: "string \<Rightarrow> bool"
  open_elf :: "string \<Rightarrow> elf_file option"

text \<open>
  A name without a slash is searched along \<^verbatim>\<open>PATH\<close>; a string made of the null pointer ends the program.
  \<^verbatim>\<open>split\<close> is called without a delimiter, and its default is the tab.
\<close>

definition get_full_path :: "file_system \<Rightarrow> string \<Rightarrow> c_fault + string" where
  "get_full_path fs filename =
     (if CHR ''/'' \<in> set filename then canonicalize_path (cwd fs) filename
      else (case path_env fs of
              None \<Rightarrow> Inl Aborted
            | Some p \<Rightarrow>
                (case find (exists_file fs) (map (\<lambda>d. d @ ''/'' @ filename) (split_str p (CHR 0x09))) of
                   None \<Rightarrow> Inr []
                 | Some full_path \<Rightarrow> Inr full_path)))"

definition dir_of :: "string \<Rightarrow> string" where
  "dir_of path =
     (if CHR ''/'' \<in> set path then rev (tl (dropWhile (\<lambda>c. c \<noteq> CHR ''/'') (rev path))) else path)"

definition debug_paths :: "string \<Rightarrow> string \<Rightarrow> string option \<Rightarrow> string list" where
  "debug_paths directory build_id link =
     (if build_id \<noteq> []
      then [''/usr/lib/debug/.build-id/'' @ take 2 build_id @ ''/'' @ drop 2 build_id @ ''.debug''] else []) @
     (case link of
        None \<Rightarrow> []
      | Some link_name \<Rightarrow>
          [directory @ ''/'' @ link_name, directory @ ''/.debug/'' @ link_name,
           ''/usr/lib/debug'' @ directory @ ''/'' @ link_name])"

fun search_debug :: "(string \<Rightarrow> elf_file option) \<Rightarrow> string list \<Rightarrow> elf_file option" where
  "search_debug opens [] = None"
| "search_debug opens (path # paths) =
     (case opens path of
        Some f \<Rightarrow> if has_debug_info f then Some f else search_debug opens paths
      | None \<Rightarrow> search_debug opens paths)"

definition locate_debug_executable :: "file_system \<Rightarrow> string \<Rightarrow> c_fault + elf_file option" where
  "locate_debug_executable fs filename =
     ebind (get_full_path fs filename) (\<lambda>full_path.
       if full_path = [] then Inr None
       else (case open_elf fs full_path of
               None \<Rightarrow> Inr None
             | Some f \<Rightarrow>
                 if has_debug_info f then Inr (Some f)
                 else ebind (find_build_id (note_sections f)) (\<lambda>build_id.
                        Inr (search_debug (open_elf fs) (debug_paths (dir_of full_path) build_id (debuglink f))))))"

section \<open>The loaded files\<close>

text \<open>
  A number read with \<^verbatim>\<open>>>\<close> in a base; one that does not fit is an error, like none. The kernel prints
  neither signs nor a prefix, and the reader is modelled for texts without them.
\<close>

definition read_number :: "nat \<Rightarrow> string \<Rightarrow> (u64 \<times> string) option" where
  "read_number base s =
     (let digits = takeWhile (\<lambda>c. digit_val c < base) (skip_spaces s)
      in case scan_digits base None digits of
           None \<Rightarrow> None
         | Some n \<Rightarrow> if int n < 2 ^ 64 then Some (of_nat n, drop (length digits) (skip_spaces s)) else None)"

definition read_char :: "char \<Rightarrow> string \<Rightarrow> string option" where
  "read_char c s = (case s of [] \<Rightarrow> None | x # t \<Rightarrow> if x = c then Some t else None)"

definition newline :: char where "newline = CHR 0x0A"

definition is_blank :: "char \<Rightarrow> bool" where "is_blank c \<longleftrightarrow> c = CHR 0x20 \<or> c = CHR 0x09"

record mapping =
  map_base :: u64
  map_limit :: u64
  map_perms :: string
  map_offset :: u64
  map_dev :: "u64 \<times> u64"
  map_inode :: u64
  map_path :: string

text \<open>\<^verbatim>\<open>istream::get(perms, 5)\<close> reads four characters, or up to the end of the line.\<close>

definition read_mapping :: "string \<Rightarrow> (mapping \<times> string) option" where
  "read_mapping s =
     Option.bind (read_number 16 s) (\<lambda>(base, s1).
     Option.bind (read_char (CHR ''-'') s1) (\<lambda>s2.
     Option.bind (read_number 16 s2) (\<lambda>(limit, s3).
     Option.bind (read_char (CHR 0x20) s3) (\<lambda>s4.
       (let perms = take 4 (takeWhile (\<lambda>c. c \<noteq> newline) s4)
        in Option.bind (read_number 16 (drop (length perms) s4)) (\<lambda>(offset, s5).
           Option.bind (read_number 16 s5) (\<lambda>(dev_major, s6).
           Option.bind (read_char (CHR '':'') s6) (\<lambda>s7.
           Option.bind (read_number 16 s7) (\<lambda>(dev_minor, s8).
           Option.bind (read_number 10 s8) (\<lambda>(inode, s9).
             (let s10 = dropWhile is_blank s9
              in Some (\<lparr>map_base = base, map_limit = limit, map_perms = perms, map_offset = offset,
                        map_dev = (dev_major, dev_minor), map_inode = inode, map_path = before_char newline s10\<rparr>,
                       after_char newline s10))))))))))))"

text \<open>An executable mapping of an absolute path is a loaded file.\<close>

definition is_loaded_file :: "mapping \<Rightarrow> bool" where
  "is_loaded_file m \<longleftrightarrow> 2 < length (map_perms m) \<and> map_perms m ! 2 = CHR ''x'' \<and>
     map_path m \<noteq> [] \<and> hd (map_path m) = CHR ''/''"

definition add_loaded :: "mapping \<Rightarrow> (string \<times> u64) list \<Rightarrow> (string \<times> u64) list" where
  "add_loaded m files =
     (if is_loaded_file m then AList.update (map_path m) (map_base m - map_offset m) files else files)"

lemma read_number_shorter: "read_number base s = Some (n, t) \<Longrightarrow> length t \<le> length s"
  by (auto simp: read_number_def Let_def split: option.splits if_splits
      intro: order_trans [OF diff_le_self length_skip_spaces])

lemma read_char_shorter: "read_char c s = Some t \<Longrightarrow> length t < length s"
  by (auto simp: read_char_def split: list.splits if_splits)

lemma after_char_le: "length (after_char c s) \<le> length s"
  by (auto simp: after_char_def intro: order_trans [OF diff_le_self length_dropWhile_le])

lemma read_mapping_shorter:
  assumes "read_mapping s = Some (m, t)"
  shows "length t < length s"
proof -
  from assms obtain n1 s1 s2 n2 s3 s4 n3 s5 n4 s6 s7 n5 s8 n6 s9 where r:
    "read_number 16 s = Some (n1, s1)" "read_char (CHR ''-'') s1 = Some s2" "read_number 16 s2 = Some (n2, s3)"
    "read_char (CHR 0x20) s3 = Some s4"
    "read_number 16 (drop (length (take 4 (takeWhile (\<lambda>c. c \<noteq> newline) s4))) s4) = Some (n3, s5)"
    "read_number 16 s5 = Some (n4, s6)" "read_char (CHR '':'') s6 = Some s7"
    "read_number 16 s7 = Some (n5, s8)" "read_number 10 s8 = Some (n6, s9)"
    "t = after_char newline (dropWhile is_blank s9)"
    by (auto simp: read_mapping_def Let_def bind_eq_Some_conv)
  have "length t \<le> length s9" unfolding r(10) by (rule order_trans [OF after_char_le length_dropWhile_le])
  also have "\<dots> \<le> length s4"
    using read_number_shorter [OF r(5)] read_number_shorter [OF r(6)] read_char_shorter [OF r(7)]
      read_number_shorter [OF r(8)] read_number_shorter [OF r(9)] by simp
  also have "\<dots> < length s"
    using read_number_shorter [OF r(1)] read_char_shorter [OF r(2)] read_number_shorter [OF r(3)]
      read_char_shorter [OF r(4)] by simp
  finally show ?thesis .
qed

text \<open>\<^verbatim>\<open>get_loaded_files\<close>, from the line at \<open>s\<close> on: it ends at the first text that is not a mapping.\<close>

function loaded_files_from :: "string \<Rightarrow> (string \<times> u64) list \<Rightarrow> (string \<times> u64) list" where
  "loaded_files_from s files =
     (case read_mapping s of
        None \<Rightarrow> files
      | Some (m, t) \<Rightarrow> loaded_files_from t (add_loaded m files))"
  by pat_completeness auto
termination by (relation "measure (\<lambda>(s, files). length s)") (auto intro: read_mapping_shorter)

declare loaded_files_from.simps [simp del]

definition get_loaded_files :: "string \<Rightarrow> (string \<times> u64) list" where
  "get_loaded_files maps = loaded_files_from maps []"

section \<open>Inlined calls\<close>

text \<open>An attribute is looked for in the entry, then in its origin, then in its specification.\<close>

fun find_attribute :: "die \<Rightarrow> (die_attrs \<Rightarrow> 'a option) \<Rightarrow> 'a option" where
  "find_attribute (Die inl a origin spec ch) attr =
     (case attr a of
        Some v \<Rightarrow> Some v
      | None \<Rightarrow>
          (case (case origin of None \<Rightarrow> None | Some d \<Rightarrow> find_attribute d attr) of
             Some v \<Rightarrow> Some v
           | None \<Rightarrow> (case spec of None \<Rightarrow> None | Some d \<Rightarrow> find_attribute d attr)))"

fun pc_of :: "pc_value \<Rightarrow> u64" where
  "pc_of (Address a) = a"
| "pc_of (Uconstant n) = n"
| "pc_of (Sconstant n) = n"

text \<open>The intervals of an inlined call: its ranges, or its low and high address.\<close>

definition inline_intervals :: "die \<Rightarrow> interval list" where
  "inline_intervals d =
     (case find_attribute d pc_ranges of
        Some rs \<Rightarrow> map (\<lambda>(low, high). \<lparr>ibase = low, ilimit = high\<rparr>) rs
      | None \<Rightarrow>
          (case (find_attribute d low_pc, find_attribute d high_pc) of
             (Some low, Some high) \<Rightarrow> [\<lparr>ibase = pc_of low, ilimit = pc_of high\<rparr>]
           | _ \<Rightarrow> []))"

text \<open>The files are attributes of the entry itself; without them their names are empty.\<close>

definition process_inline ::
  "string \<Rightarrow> string list \<Rightarrow> u64 \<Rightarrow> (u64 \<Rightarrow> string) \<Rightarrow> die \<Rightarrow> mem_map \<Rightarrow> c_fault + mem_map" where
  "process_inline dir scope load_address table d m =
     (if \<not> inlined_subroutine d then Inr m
      else
        (let decl = (case decl_file (attrs d) of None \<Rightarrow> [] | Some i \<Rightarrow> table i);
             call = (case call_file (attrs d) of None \<Rightarrow> [] | Some i \<Rightarrow> table i);
             line_no = (case call_line (attrs d) of None \<Rightarrow> 0 | Some n \<Rightarrow> n)
         in if decl = [] \<or> call = [] then Inr m
            else ebind (in_scope dir decl scope) (\<lambda>decl_in.
                   if decl_in then Inr m
                   else ebind (in_scope dir call scope) (\<lambda>call_in.
                          Inr (if call_in
                               then fold (\<lambda>r. mm_add_range call line_no (ishift r load_address)) (inline_intervals d) m
                               else m)))))"

fun process_inlines ::
  "string \<Rightarrow> string list \<Rightarrow> u64 \<Rightarrow> (u64 \<Rightarrow> string) \<Rightarrow> die \<Rightarrow> mem_map \<Rightarrow> c_fault + mem_map" where
  "process_inlines dir scope load_address table (Die inl a origin spec ch) m =
     ebind (process_inline dir scope load_address table (Die inl a origin spec ch) m)
       (efold (process_inlines dir scope load_address table) ch)"

section \<open>Building the map\<close>

definition process_unit ::
  "string \<Rightarrow> string list \<Rightarrow> u64 \<Rightarrow> comp_unit \<Rightarrow> mem_map \<Rightarrow> c_fault + mem_map" where
  "process_unit dir scope load_address u m =
     ebind (walk_rows dir scope load_address (line_rows u) m)
       (process_inlines dir scope load_address (table_file u) (unit_root u))"

text \<open>The result says whether a file with debug information was found.\<close>

definition process_file ::
  "file_system \<Rightarrow> string list \<Rightarrow> string \<Rightarrow> u64 \<Rightarrow> mem_map \<Rightarrow> c_fault + bool \<times> mem_map" where
  "process_file fs source_scope name load_address m =
     ebind (locate_debug_executable fs name) (\<lambda>found.
       case found of
         None \<Rightarrow> Inr (False, m)
       | Some f \<Rightarrow>
           ebind (efold (process_unit (cwd fs) source_scope (if is_exec f then 0 else load_address)) (comp_units f) m)
             (\<lambda>m'. Inr (True, m')))"

definition build ::
  "file_system \<Rightarrow> string \<Rightarrow> string list \<Rightarrow> string list \<Rightarrow> mem_map \<Rightarrow> c_fault + mem_map" where
  "build fs maps binary_scope source_scope m =
     efold (\<lambda>(name, load_address) m.
         ebind (in_scope (cwd fs) name binary_scope) (\<lambda>scoped.
           if scoped then ebind (process_file fs source_scope name load_address m) (\<lambda>(found, m'). Inr m')
           else Inr m))
       (get_loaded_files maps) m"

section \<open>The line with a name\<close>

text \<open>\<^verbatim>\<open>stringstream(t) >> n\<close> for a \<^verbatim>\<open>size_t\<close>; a text without digits gives 0.\<close>

definition stream_size :: "string \<Rightarrow> u64" where
  "stream_size t =
     (case scan_sign (skip_spaces t) of
        (neg, rest) \<Rightarrow>
          (case scan_digits 10 None rest of
             None \<Rightarrow> 0
           | Some n \<Rightarrow> if 2 ^ 64 \<le> int n then - 1 else if neg then - of_nat n else of_nat n))"

definition ends_with :: "string \<Rightarrow> string \<Rightarrow> bool" where
  "ends_with suffix s \<longleftrightarrow> length suffix \<le> length s \<and> drop (length s - length suffix) s = suffix"

fun find_in_files :: "string \<Rightarrow> u64 \<Rightarrow> file_table \<Rightarrow> line_id option" where
  "find_in_files filename line_no [] = None"
| "find_in_files filename line_no ((f, ns) # fs) =
     (if ends_with filename f \<and> line_no \<in> set ns then Some (f, line_no) else find_in_files filename line_no fs)"

definition find_line_by_name :: "string \<Rightarrow> mem_map \<Rightarrow> line_id option" where
  "find_line_by_name name m =
     (if CHR '':'' \<notin> set name then None
      else find_in_files (before_char (CHR '':'') name) (stream_size (after_char (CHR '':'') name)) (mm_files m))"

end
