(* ===== verification/Debug_Info_Facts.thy ===== *)
theory Debug_Info_Facts
  imports Debug_Info
begin

text \<open>
  What the construction of the memory map guarantees: the kernel's list of mappings and the notes of an
  ELF file are read as they were written, every address the map resolves is in the source scope, and the
  line it resolves to can be asked for by name.
\<close>

section \<open>The list of mappings\<close>

lemma hex_char_code: "d < 16 \<Longrightarrow> (of_char (hex_char d) :: nat) = (if d < 10 then 48 + d else 87 + d)"
  by (simp add: hex_char_def)

lemma digit_val_hex [simp]: "d < 16 \<Longrightarrow> digit_val (hex_char d) = d"
  by (auto simp: digit_val_def hex_char_code Let_def)

lemma print_hex_digits: "c \<in> set (print_hex n) \<Longrightarrow> digit_val c < 16"
proof (induction n rule: print_hex.induct)
  case (1 n)
  then show ?case by (subst (asm) (2) print_hex.simps) (auto split: if_splits)
qed

lemma print_hex_ne [simp]: "print_hex n \<noteq> []"
  by (subst print_hex.simps) simp

lemma scan_digits_append:
  "\<forall>c\<in>set s. digit_val c < b \<Longrightarrow> scan_digits b acc (s @ t) = scan_digits b (scan_digits b acc s) t"
  by (induction s arbitrary: acc) auto

lemma scan_print_hex: "scan_digits 16 None (print_hex n) = Some n"
proof (induction n rule: print_hex.induct)
  case (1 n)
  show ?case
  proof (cases "n < 16")
    case True
    then show ?thesis by (subst print_hex.simps) simp
  next
    case False
    then have "scan_digits 16 None (print_hex (n div 16) @ [hex_char (n mod 16)]) = Some n"
      using 1 by (subst scan_digits_append) (auto dest: print_hex_digits)
    then show ?thesis using False by (subst print_hex.simps) simp
  qed
qed

text \<open>A number is printed with leading zeros to a width.\<close>

definition padded :: "nat \<Rightarrow> string \<Rightarrow> string" where
  "padded w s = replicate (w - length s) (CHR ''0'') @ s"

lemma scan_zeros: "0 < b \<Longrightarrow> scan_digits b (Some 0) (replicate k (CHR ''0'') @ s) = scan_digits b (Some 0) s"
  by (induction k) (simp_all add: digit_val_def)

lemma scan_padded:
  assumes "0 < b" "scan_digits b None s = Some n" "s \<noteq> []" "\<forall>c\<in>set s. digit_val c < b"
  shows "scan_digits b None (padded w s) = Some n"
proof (cases "w - length s")
  case 0
  then show ?thesis using assms(2) by (simp add: padded_def)
next
  case (Suc k)
  obtain c t where "s = c # t" using assms(3) by (cases s) auto
  then have "scan_digits b (Some 0) s = scan_digits b None s" using assms(4) by simp
  then show ?thesis using assms(1,2) scan_zeros [OF assms(1), of k s] by (simp add: padded_def Suc digit_val_def)
qed

lemma read_number_padded:
  assumes "0 < b" "b \<le> 16" "scan_digits b None s = Some n" "s \<noteq> []" "\<forall>c\<in>set s. digit_val c < b" "n < 2 ^ 64"
    and "rest = [] \<or> b \<le> digit_val (hd rest)" "\<forall>c\<in>set sp. is_space c"
  shows "read_number b (sp @ padded w s @ rest) = Some (of_nat n, rest)"
proof -
  have digits: "\<forall>c\<in>set (padded w s). digit_val c < b" using assms(1,5) by (auto simp: padded_def digit_val_def)
  have ne: "padded w s \<noteq> []" using assms(4) by (simp add: padded_def)
  have "digit_val (hd (padded w s)) < 16" using bspec [OF digits hd_in_set [OF ne]] assms(2) by linarith
  then have "\<not> is_space (hd (padded w s))"
    by (auto simp: digit_val_def is_space_def Let_def split: if_splits)
  then have skip: "skip_spaces (sp @ padded w s @ rest) = padded w s @ rest"
    using assms(8) ne by (cases "padded w s") (simp_all add: skip_spaces_dropWhile dropWhile_append2)
  have "takeWhile (\<lambda>c. digit_val c < b) rest = []" using assms(7) by (cases rest) auto
  then have "takeWhile (\<lambda>c. digit_val c < b) (padded w s @ rest) = padded w s"
    using digits by (simp add: takeWhile_append2)
  then show ?thesis
    using scan_padded [OF assms(1,3-5), of w] assms(6) by (simp add: read_number_def skip Let_def)
qed

lemma read_hex:
  "rest = [] \<or> 16 \<le> digit_val (hd rest) \<Longrightarrow> \<forall>c\<in>set sp. is_space c \<Longrightarrow>
   read_number 16 (sp @ padded w (print_hex (unat n)) @ rest) = Some (n, rest)"
  using read_number_padded [of 16 "print_hex (unat n)" "unat n" rest sp w] unsigned_less [of n]
  by (auto simp: scan_print_hex print_hex_digits)

lemma read_dec:
  "rest = [] \<or> 10 \<le> digit_val (hd rest) \<Longrightarrow> \<forall>c\<in>set sp. is_space c \<Longrightarrow>
   read_number 10 (sp @ padded w (print_nat (unat n)) @ rest) = Some (n, rest)"
  using read_number_padded [of 10 "print_nat (unat n)" "unat n" rest sp w] unsigned_less [of n] print_nat_digits
  by (auto simp: scan_print_nat)

text \<open>A line of \<^verbatim>\<open>/proc/self/maps\<close> as the kernel prints it; \<open>pad\<close> is the number of blanks before the path.\<close>

definition maps_line :: "nat \<Rightarrow> mapping \<Rightarrow> string" where
  "maps_line pad m =
     padded 8 (print_hex (unat (map_base m))) @ ''-'' @ padded 8 (print_hex (unat (map_limit m))) @
     [CHR 0x20] @ map_perms m @ [CHR 0x20] @ padded 8 (print_hex (unat (map_offset m))) @
     [CHR 0x20] @ padded 2 (print_hex (unat (fst (map_dev m)))) @ '':'' @
     padded 2 (print_hex (unat (snd (map_dev m)))) @ [CHR 0x20] @ padded 0 (print_nat (unat (map_inode m))) @
     replicate (Suc pad) (CHR 0x20) @ map_path m @ [newline]"

definition plain_mapping :: "mapping \<Rightarrow> bool" where
  "plain_mapping m \<longleftrightarrow> length (map_perms m) = 4 \<and> newline \<notin> set (map_perms m) \<and> newline \<notin> set (map_path m) \<and>
     (map_path m \<noteq> [] \<longrightarrow> \<not> is_blank (hd (map_path m)))"

lemma separators:
  "16 \<le> digit_val (CHR ''-'')" "16 \<le> digit_val (CHR 0x20)" "16 \<le> digit_val (CHR '':'')" "is_space (CHR 0x20)"
  by (simp_all add: digit_val_def is_space_def)

lemma read_maps_line:
  assumes "plain_mapping m"
  shows "read_mapping (maps_line pad m @ rest) = Some (m, rest)"
proof -
  let ?path = "map_path m @ newline # rest"
  have perms: "take 4 (takeWhile (\<lambda>c. c \<noteq> newline) (map_perms m @ CHR 0x20 # u)) = map_perms m"
    "drop (length (map_perms m)) (map_perms m @ u) = u" for u
  proof -
    have "takeWhile (\<lambda>c. c \<noteq> newline) (map_perms m @ CHR 0x20 # u) = map_perms m @ CHR 0x20 # takeWhile (\<lambda>c. c \<noteq> newline) u"
      using assms by (subst takeWhile_append2) (auto simp: plain_mapping_def newline_def)
    then show "take 4 (takeWhile (\<lambda>c. c \<noteq> newline) (map_perms m @ CHR 0x20 # u)) = map_perms m"
      using assms by (simp add: plain_mapping_def)
  qed simp
  have "dropWhile is_blank ?path = ?path"
    using assms by (cases "map_path m") (simp_all add: plain_mapping_def is_blank_def newline_def)
  then have path: "is_blank (CHR 0x20)" "dropWhile is_blank (replicate pad (CHR 0x20) @ ?path) = ?path"
    by (simp add: is_blank_def, subst dropWhile_append2) (auto simp: is_blank_def)
  have cut: "before_char newline ?path = map_path m" "after_char newline ?path = rest"
    using split_at_char [of newline "map_path m" rest] assms by (simp_all add: plain_mapping_def)
  have "10 \<le> digit_val (CHR 0x20)" using separators(2) by simp
  note reads = read_hex [of _ "[]", simplified] read_hex [of _ "[CHR 0x20]", simplified]
    read_dec [of _ "[CHR 0x20]", simplified]
  show ?thesis
    unfolding read_mapping_def maps_line_def append.assoc
    using separators \<open>10 \<le> digit_val (CHR 0x20)\<close>
    by (simp add: reads read_char_def Let_def perms path cut del: length_take)
qed

lemma read_mapping_end: "read_mapping [] = None"
  by (simp add: read_mapping_def read_number_def)

lemma loaded_files_lines:
  "\<forall>(pad, m)\<in>set ls. plain_mapping m \<Longrightarrow>
   loaded_files_from (concat (map (\<lambda>(pad, m). maps_line pad m) ls)) files = fold add_loaded (map snd ls) files"
proof (induction ls arbitrary: files)
  case Nil
  then show ?case by (subst loaded_files_from.simps) (simp add: read_mapping_end)
next
  case (Cons l ls)
  obtain pad m where l: "l = (pad, m)" by fastforce
  then show ?case using Cons read_maps_line [of m pad]
    by (subst loaded_files_from.simps) auto
qed

lemma map_of_loaded:
  "map_of (fold add_loaded ms files) path =
    (case filter (\<lambda>m. is_loaded_file m \<and> map_path m = path) ms of
       [] \<Rightarrow> map_of files path
     | m # ms' \<Rightarrow> Some (map_base (last (m # ms')) - map_offset (last (m # ms'))))"
proof (induction ms arbitrary: files)
  case (Cons m ms)
  then show ?case
    by (cases "filter (\<lambda>m. is_loaded_file m \<and> map_path m = path) ms")
      (auto simp: add_loaded_def update_conv')
qed simp

text \<open>
  C29. The list of mappings is read as the kernel prints it: from the lines of any mappings, however they
  are padded, the profiler learns of each executable file mapped under an absolute path its load address,
  the base less the offset of its last executable mapping, and of no other file.
\<close>

theorem loaded_files_read:
  assumes "\<forall>(pad, m)\<in>set ls. plain_mapping m"
  shows "map_of (get_loaded_files (concat (map (\<lambda>(pad, m). maps_line pad m) ls))) path =
    (case filter (\<lambda>m. is_loaded_file m \<and> map_path m = path) (map snd ls) of
       [] \<Rightarrow> None
     | m # ms \<Rightarrow> Some (map_base (last (m # ms)) - map_offset (last (m # ms))))"
  using loaded_files_lines [OF assms, of "[]"] by (simp add: get_loaded_files_def map_of_loaded split: list.split)

definition sample_maps :: "(nat \<times> mapping) list" where
  "sample_maps =
     [(5, \<lparr>map_base = 0x400000, map_limit = 0x401000, map_perms = ''r--p'', map_offset = 0, map_dev = (8, 1),
           map_inode = 77, map_path = ''/bin/app''\<rparr>),
      (5, \<lparr>map_base = 0x401000, map_limit = 0x409000, map_perms = ''r-xp'', map_offset = 0x1000, map_dev = (8, 1),
           map_inode = 77, map_path = ''/bin/app''\<rparr>),
      (0, \<lparr>map_base = 0x7ffc00000000, map_limit = 0x7ffc00021000, map_perms = ''rw-p'', map_offset = 0, map_dev = (0, 0),
           map_inode = 0, map_path = []\<rparr>)]"

theorem loaded_files_read_witness:
  "map_of (get_loaded_files (concat (map (\<lambda>(pad, m). maps_line pad m) sample_maps))) ''/bin/app'' = Some 0x400000"
proof -
  have "\<forall>(pad, m)\<in>set sample_maps. plain_mapping m"
    by (simp add: sample_maps_def plain_mapping_def newline_def is_blank_def)
  from loaded_files_read [OF this, of "''/bin/app''"] show ?thesis
    by (simp add: sample_maps_def is_loaded_file_def)
qed

section \<open>The build id\<close>

text \<open>A note as an ELF file has it when name and descriptor fill whole words.\<close>

definition note_bytes :: "u8 list \<Rightarrow> u8 list \<Rightarrow> u32 \<Rightarrow> u8 list" where
  "note_bytes name desc t =
     le_bytes 4 (of_nat (length name) :: u32) @ le_bytes 4 (of_nat (length desc) :: u32) @ le_bytes 4 t @ name @ desc"

lemma length_note: "length (note_bytes name desc t) = 12 + (length name + length desc)"
  by (simp add: note_bytes_def)

lemma find_note_at:
  assumes "length name < 2 ^ 32" "length desc < 2 ^ 32"
  shows "find_note (before @ note_bytes name desc t @ rest) (length before) =
    (if t = NT_GNU_BUILD_ID then Inr (Some (concat (map hex_byte desc)))
     else find_note (before @ note_bytes name desc t @ rest) (length (before @ note_bytes name desc t)))"
proof -
  let ?bs = "before @ note_bytes name desc t @ rest" and ?o = "length before"
  have read: "section_read ?bs ?o 12 =
      Inr (le_bytes 4 (of_nat (length name) :: u32) @ le_bytes 4 (of_nat (length desc) :: u32) @ le_bytes 4 t)"
    by (simp add: section_read_def note_bytes_def)
  have desc: "section_read (before @ note_bytes name desc t' @ rest) (?o + (12 + length name)) (length desc) = Inr desc" for t'
    by (simp add: section_read_def note_bytes_def)
  have sizes: "unat (of_nat (length name) :: u32) = length name" "unat (of_nat (length desc) :: u32) = length desc"
    using assms by (simp_all add: unat_of_nat_small)
  have fields: "of_le_bytes (le_bytes 4 w) = w" for w :: u32 by (rule of_le_bytes_le_bytes) simp
  show ?thesis
    by (subst find_note.simps)
      (simp add: read desc sizes fields Let_def length_note add.assoc)
qed

lemma find_note_skips:
  assumes "\<forall>(name, desc, t)\<in>set ns. length name < 2 ^ 32 \<and> length desc < 2 ^ 32 \<and> t \<noteq> NT_GNU_BUILD_ID"
  shows "find_note (before @ concat (map (\<lambda>(name, desc, t). note_bytes name desc t) ns) @ rest) (length before) =
    find_note (before @ concat (map (\<lambda>(name, desc, t). note_bytes name desc t) ns) @ rest)
      (length (before @ concat (map (\<lambda>(name, desc, t). note_bytes name desc t) ns)))"
  using assms
proof (induction ns arbitrary: before)
  case (Cons n ns)
  obtain name desc t where n: "n = (name, desc, t)" by (cases n)
  have "find_note (before @ note_bytes name desc t @ concat (map (\<lambda>(name, desc, t). note_bytes name desc t) ns) @ rest)
      (length before) =
    find_note ((before @ note_bytes name desc t) @ concat (map (\<lambda>(name, desc, t). note_bytes name desc t) ns) @ rest)
      (length (before @ note_bytes name desc t))"
    using Cons.prems n find_note_at [of name desc before t] by simp
  also have "\<dots> = find_note ((before @ note_bytes name desc t) @ concat (map (\<lambda>(name, desc, t). note_bytes name desc t) ns) @ rest)
      (length ((before @ note_bytes name desc t) @ concat (map (\<lambda>(name, desc, t). note_bytes name desc t) ns)))"
    using Cons.IH [of "before @ note_bytes name desc t"] Cons.prems by simp
  finally show ?case using n by simp
qed simp

lemma build_id_found:
  assumes "\<forall>(name, desc, t)\<in>set ns. length name < 2 ^ 32 \<and> length desc < 2 ^ 32 \<and> t \<noteq> NT_GNU_BUILD_ID"
    and "length name < 2 ^ 32" "length build_id < 2 ^ 32"
  shows "find_build_id [concat (map (\<lambda>(name, desc, t). note_bytes name desc t) ns) @
      note_bytes name build_id NT_GNU_BUILD_ID @ rest] = Inr (concat (map hex_byte build_id))"
proof -
  let ?ns = "concat (map (\<lambda>(name, desc, t). note_bytes name desc t) ns)"
  let ?id = "note_bytes name build_id NT_GNU_BUILD_ID @ rest"
  have "find_note (?ns @ ?id) 0 = find_note (?ns @ ?id) (length ?ns)"
    using find_note_skips [OF assms(1), of "[]" ?id] by (simp only: append_Nil list.size)
  also have "\<dots> = Inr (Some (concat (map hex_byte build_id)))"
    using find_note_at [OF assms(2,3), of ?ns NT_GNU_BUILD_ID rest] by (simp only: if_True refl)
  finally show ?thesis by simp
qed

text \<open>A descriptor that is padded to a whole word puts the walk out of step.\<close>

lemma padded_note_misread:
  "find_build_id [[4, 0, 0, 0, 1, 0, 0, 0, 5, 0, 0, 0, 71, 78, 85, 0, 9, 0, 0, 0,
      4, 0, 0, 0, 2, 0, 0, 0, 3, 0, 0, 0, 71, 78, 85, 0, 1, 2]] = Inr []"
  by (simp add: find_note.simps [of _ 0] find_note.simps [of _ 17] find_note.simps section_read_def of_le_bytes_def
      NT_GNU_BUILD_ID_def Let_def)

section \<open>The search along PATH\<close>

lemma split_acc_absent: "d \<notin> set s \<Longrightarrow> split_acc d item s = (if item @ s = [] then [] else [item @ s])"
  by (induction s arbitrary: item) auto

text \<open>The directories of \<^verbatim>\<open>PATH\<close> are not told apart: without a tab the whole text is taken for one.\<close>

lemma path_is_one_directory:
  assumes "CHR ''/'' \<notin> set filename" "path_env fs = Some p" "CHR 0x09 \<notin> set p" "p \<noteq> []"
  shows "get_full_path fs filename =
    Inr (if exists_file fs (p @ ''/'' @ filename) then p @ ''/'' @ filename else [])"
  using assms by (simp add: get_full_path_def split_str_def split_acc_absent)

lemma path_unset_aborts:
  "CHR ''/'' \<notin> set filename \<Longrightarrow> path_env fs = None \<Longrightarrow> get_full_path fs filename = Inl Aborted"
  by (simp add: get_full_path_def)

section \<open>Debug files\<close>

lemma search_debug_finds:
  "search_debug opens paths = Some f \<Longrightarrow> has_debug_info f \<and> (\<exists>path\<in>set paths. opens path = Some f)"
  by (induction paths) (auto split: option.splits if_splits)

lemma search_debug_none:
  "search_debug opens paths = None \<Longrightarrow> path \<in> set paths \<Longrightarrow> opens path = Some f \<Longrightarrow> \<not> has_debug_info f"
  by (induction paths) (auto split: option.splits if_splits)

lemma located_has_debug_info:
  "locate_debug_executable fs filename = Inr (Some f) \<Longrightarrow> has_debug_info f"
  by (auto simp: locate_debug_executable_def ebind_Inr_iff dest: search_debug_finds split: option.splits if_splits)

section \<open>The map that is built\<close>

text \<open>Every range is in scope, and its line is filed under its file; the files are in order.\<close>

definition filed :: "file_table \<Rightarrow> line_id \<Rightarrow> bool" where
  "filed fs l \<longleftrightarrow> (\<exists>ns. (fst l, ns) \<in> set fs \<and> snd l \<in> set ns)"

definition map_ok :: "string \<Rightarrow> string list \<Rightarrow> mem_map \<Rightarrow> bool" where
  "map_ok dir scope m \<longleftrightarrow> scoped_map dir scope m \<and> (\<forall>e\<in>set (mm_ranges m). filed (mm_files m) (snd e)) \<and>
     sorted_wrt (\<lambda>a b. fst a < fst b) (mm_files m)"

lemma file_get_line_files: "fst ` set (file_get_line f n fs) = insert f (fst ` set fs)"
  by (induction f n fs rule: file_get_line.induct) auto

lemma file_get_line_sorted:
  "sorted_wrt (\<lambda>a b. fst a < fst b) fs \<Longrightarrow> sorted_wrt (\<lambda>a b. fst a < fst b) (file_get_line f n fs)"
proof (induction f n fs rule: file_get_line.induct)
  case (2 f n g ns fs)
  have "\<forall>x\<in>set (file_get_line f n fs). g < fst x" if "g < f"
  proof
    fix x assume "x \<in> set (file_get_line f n fs)"
    then have "fst x = f \<or> fst x \<in> fst ` set fs" using file_get_line_files [of f n fs] by blast
    then show "g < fst x" using 2(2) that by auto
  qed
  then show ?case using 2 by (auto intro: less_trans)
qed simp

lemma file_get_line_filed: "filed (file_get_line f n fs) l \<longleftrightarrow> l = (f, n) \<or> filed fs l"
  if "sorted_wrt (\<lambda>a b. fst a < fst b) fs"
  using that
proof (induction f n fs rule: file_get_line.induct)
  case (2 f n g ns fs)
  then show ?case by (cases l) (auto simp: filed_def)
qed (cases l, auto simp: filed_def)

lemma mm_add_range_ok:
  assumes "map_ok dir scope m" "in_scope dir f scope = Inr True"
  shows "map_ok dir scope (mm_add_range f n r m)"
  using assms mm_add_range_scoped [OF _ assms(2), of m n r] add_range_set [of f n r "mm_ranges m"]
  by (auto simp: map_ok_def mm_add_range_def file_get_line_sorted file_get_line_filed)

lemma walk_row_ok:
  assumes "walk_row dir scope la row st = Inr st'" "map_ok dir scope (walk_map st)"
  shows "map_ok dir scope (walk_map st')"
proof -
  obtain b where "in_scope dir (prev_filename st) scope = Inr b"
    using assms(1) by (auto simp: walk_row_def ebind_Inr_iff)
  then show ?thesis using assms mm_add_range_ok
    by (auto simp: walk_row_def ebind_Inr_iff Let_def split: if_splits)
qed

lemma walk_rows_ok:
  assumes "walk_rows dir scope la rows m = Inr m'" "map_ok dir scope m"
  shows "map_ok dir scope m'"
proof -
  have "walk_rows_from dir scope la rows st = Inr st' \<Longrightarrow> map_ok dir scope (walk_map st) \<Longrightarrow> map_ok dir scope (walk_map st')"
    for st st'
    by (induction rows arbitrary: st) (auto simp: ebind_Inr_iff dest: walk_row_ok)
  then show ?thesis using assms by (auto simp: walk_rows_def ebind_Inr_iff)
qed

lemma add_ranges_ok:
  "in_scope dir f scope = Inr True \<Longrightarrow> map_ok dir scope m \<Longrightarrow>
   map_ok dir scope (fold (\<lambda>r. mm_add_range f n (ishift r la)) rs m)"
  by (induction rs arbitrary: m) (simp_all add: mm_add_range_ok)

lemma process_inline_ok:
  "process_inline dir scope la table d m = Inr m' \<Longrightarrow> map_ok dir scope m \<Longrightarrow> map_ok dir scope m'"
  by (auto simp: process_inline_def Let_def ebind_Inr_iff add_ranges_ok split: if_splits)

lemma efold_keeps:
  "efold f xs s = Inr t \<Longrightarrow> P s \<Longrightarrow> (\<And>x u v. x \<in> set xs \<Longrightarrow> f x u = Inr v \<Longrightarrow> P u \<Longrightarrow> P v) \<Longrightarrow> P t"
proof (induction xs arbitrary: s)
  case (Cons x xs)
  then obtain u where "f x s = Inr u" "efold f xs u = Inr t" by (auto simp: ebind_Inr_iff)
  with Cons show ?case by (meson list.set_intros)
qed simp

lemma process_inlines_ok:
  "process_inlines dir scope la table d m = Inr m' \<Longrightarrow> map_ok dir scope m \<Longrightarrow> map_ok dir scope m'"
proof (induction dir scope la table d m arbitrary: m' rule: process_inlines.induct)
  case (1 dir scope la table inl a origin spec ch m)
  obtain m1 where m1: "process_inline dir scope la table (Die inl a origin spec ch) m = Inr m1"
    "efold (process_inlines dir scope la table) ch m1 = Inr m'"
    using 1(2) by (auto simp: ebind_Inr_iff)
  show ?case
    using m1(2) process_inline_ok [OF m1(1) 1(3)] by (rule efold_keeps) (use 1(1) m1(1) in blast)
qed

lemma process_unit_ok:
  "process_unit dir scope la u m = Inr m' \<Longrightarrow> map_ok dir scope m \<Longrightarrow> map_ok dir scope m'"
  by (auto simp: process_unit_def ebind_Inr_iff dest: walk_rows_ok process_inlines_ok)

lemma process_file_ok:
  assumes "process_file fs scope name la m = Inr (found, m')" "map_ok (cwd fs) scope m"
  shows "map_ok (cwd fs) scope m'"
  using assms efold_keeps [where P = "map_ok (cwd fs) scope"] process_unit_ok
  by (fastforce simp: process_file_def ebind_Inr_iff split: option.splits)

lemma build_ok:
  assumes "build fs maps bs ss m = Inr m'" "map_ok (cwd fs) ss m"
  shows "map_ok (cwd fs) ss m'"
  using assms(1)[unfolded build_def] assms(2)
proof (rule efold_keeps)
  fix x u v
  assume "(case x of (name, load_address) \<Rightarrow> \<lambda>m. ebind (in_scope (cwd fs) name bs) (\<lambda>scoped.
      if scoped then ebind (process_file fs ss name load_address m) (\<lambda>(found, m'). Inr m') else Inr m)) u = Inr v"
    and "map_ok (cwd fs) ss u"
  then show "map_ok (cwd fs) ss v"
    by (auto simp: ebind_Inr_iff split: prod.splits if_splits dest: process_file_ok)
qed

section \<open>Lines by name\<close>

lemma ends_with_refl [simp]: "ends_with s s"
  by (simp add: ends_with_def)

lemma find_in_files_first:
  assumes "filed fs (f, n)"
  shows "\<exists>g. find_in_files f n fs = Some (g, n) \<and> ends_with f g \<and> filed fs (g, n)"
  using assms
proof (induction fs)
  case (Cons e fs)
  obtain h ns where e: "e = (h, ns)" by fastforce
  have later: "filed (e # fs) l" if "filed fs l" for l using that by (auto simp: filed_def)
  show ?case
  proof (cases "ends_with f h \<and> n \<in> set ns")
    case True
    then show ?thesis by (auto simp: e filed_def)
  next
    case False
    then have "filed fs (f, n)" using Cons.prems by (auto simp: e filed_def)
    then show ?thesis using Cons.IH later False by (auto simp: e)
  qed
qed (simp add: filed_def)

lemma stream_size_print: "stream_size (print_nat (unat n)) = n"
proof -
  have "uint n < 2 ^ LENGTH(64)" by (rule unsigned_less)
  then show ?thesis by (simp add: stream_size_def scan_sign_print_nat scan_print_nat)
qed

lemma find_line_by_name_filed:
  assumes "filed (mm_files m) (f, n)" "CHR '':'' \<notin> set f"
  shows "\<exists>g. find_line_by_name (f @ '':'' @ print_nat (unat n)) m = Some (g, n) \<and> ends_with f g \<and>
    filed (mm_files m) (g, n)"
proof -
  have "before_char (CHR '':'') (f @ CHR '':'' # print_nat (unat n)) = f"
    "after_char (CHR '':'') (f @ CHR '':'' # print_nat (unat n)) = print_nat (unat n)"
    using split_at_char [OF assms(2)] by blast+
  then show ?thesis
    using find_in_files_first [OF assms(1)] by (simp add: find_line_by_name_def stream_size_print)
qed


text \<open>
  A program with one unit: three rows of \<^verbatim>\<open>a.c\<close> and \<^verbatim>\<open>lib.h\<close>, and a call in \<^verbatim>\<open>a.c\<close> of a function that
  was inlined from \<^verbatim>\<open>lib.h\<close>, outside the scope.
\<close>

definition no_attrs :: die_attrs where
  "no_attrs = \<lparr>decl_file = None, call_file = None, call_line = None, pc_ranges = None, low_pc = None, high_pc = None\<rparr>"

definition sample_unit :: comp_unit where
  "sample_unit =
     \<lparr>line_rows =
        [\<lparr>row_file = ''/p/a.c'', row_line = 3, row_address = 16, row_end_sequence = False\<rparr>,
         \<lparr>row_file = ''/q/lib.h'', row_line = 9, row_address = 20, row_end_sequence = False\<rparr>,
         \<lparr>row_file = ''/p/a.c'', row_line = 4, row_address = 28, row_end_sequence = True\<rparr>],
      table_file = (\<lambda>i. if i = 1 then ''/p/a.c'' else ''/q/lib.h''),
      unit_root = Die False no_attrs None None
        [Die True (no_attrs\<lparr>decl_file := Some 2, call_file := Some 1, call_line := Some 7, low_pc := Some (Address 20),
           high_pc := Some (Address 28)\<rparr>) None None []]\<rparr>"

definition sample_fs :: file_system where
  "sample_fs =
     \<lparr>cwd = ''/r'', path_env = None, exists_file = (\<lambda>p. False),
      open_elf = (\<lambda>p. if p = ''/bin/app''
        then Some \<lparr>is_exec = False, has_debug_info = True, note_sections = [], debuglink = None, comp_units = [sample_unit]\<rparr>
        else None)\<rparr>"

definition sample_text :: string where
  "sample_text = ''00000020-00000060 r-xp 00000000 08:01 77 /bin/app'' @ [newline]"

lemma sample_built:
  "build sample_fs sample_text [''/bin/%''] [''/p/%''] \<lparr>mm_files = [], mm_ranges = []\<rparr> =
   Inr \<lparr>mm_files = [(''/p/a.c'', [3, 7])],
        mm_ranges = [(\<lparr>ibase = 48, ilimit = 52\<rparr>, ''/p/a.c'', 3), (\<lparr>ibase = 52, ilimit = 60\<rparr>, ''/p/a.c'', 7)]\<rparr>"
  by code_simp


text \<open>Only the end of a file's name is compared, so a line of another file can be meant.\<close>

lemma named_line_of_another_file:
  "find_line_by_name ''/x/a.c:3'' \<lparr>mm_files = [(''/b/x/a.c'', [3]), (''/x/a.c'', [3])], mm_ranges = []\<rparr> =
     Some (''/b/x/a.c'', 3)"
  by code_simp

text \<open>
  A high address of the constant class is an offset from the low one since version 4 of DWARF; it is
  taken for an address, and the interval then contains nothing.
\<close>

lemma offset_high_pc_covers_nothing:
  assumes "find_attribute d pc_ranges = None" "find_attribute d low_pc = Some (Address a)"
    and "find_attribute d high_pc = Some (Uconstant n)" "n \<le> a"
  shows "\<forall>r\<in>set (inline_intervals d). \<not> icontains r x"
  using assms by (auto simp: inline_intervals_def icontains_def)

end
