(* ===== verification/Interposition.thy ===== *)
theory Interposition
  imports Profiler Debug_Info
begin

text \<open>
  What \<^verbatim>\<open>libcoz/libcoz.cpp\<close> puts between the program and the C library: every call that may block or
  may wake another thread reports to the profiler before and after the real call, the calls on signals
  keep the profiler's signals to itself, and the program's \<^verbatim>\<open>main\<close> and its exits start and stop the
  profiler. The real call is an argument: it takes the state, in which other threads may have run when
  it returns. The signal mask of a thread and the table of actions are state; the calls on them follow
  POSIX.
\<close>

section \<open>State\<close>

datatype sig_handler =
    SIG_DFL
  | SIG_IGN
  | Program_Handler int
  | Samples_Ready
  | On_Error

record sig_action =
  sa_handler :: sig_handler
  sa_mask :: "int set"

record coz =
  prof :: profiler
  initialized :: bool
  init_in_progress :: bool
  end_to_end :: bool
  output_filename :: string
  environ :: "string \<Rightarrow> string option"
  masks :: "nat \<Rightarrow> int set"
  actions :: "int \<Rightarrow> sig_action"

definition in_prof :: "(profiler \<Rightarrow> profiler) \<Rightarrow> coz \<Rightarrow> coz" where
  "in_prof f s = s\<lparr>prof := f (prof s)\<rparr>"

section \<open>Signals\<close>

definition SIGABRT :: int where "SIGABRT = 6"
definition SIGKILL :: int where "SIGKILL = 9"
definition SIGSEGV :: int where "SIGSEGV = 11"
definition SIGSTOP :: int where "SIGSTOP = 19"
definition SampleSignal :: int where "SampleSignal = 27"

definition SIG_BLOCK :: int where "SIG_BLOCK = 0"
definition SIG_UNBLOCK :: int where "SIG_UNBLOCK = 1"
definition SIG_SETMASK :: int where "SIG_SETMASK = 2"

definition remove_coz_signals :: "int set \<Rightarrow> int set" where
  "remove_coz_signals st0 =
     (let st1 = (if SampleSignal \<in> st0 then st0 - {SampleSignal} else st0);
          st2 = (if SIGSEGV \<in> st1 then st1 - {SIGSEGV} else st1)
      in if SIGABRT \<in> st2 then st2 - {SIGABRT} else st2)"

definition is_coz_signal :: "int \<Rightarrow> bool" where
  "is_coz_signal signum \<longleftrightarrow> signum = SampleSignal \<or> signum = SIGSEGV \<or> signum = SIGABRT"

text \<open>
  The real calls. A mask never contains \<^verbatim>\<open>SIGKILL\<close> or \<^verbatim>\<open>SIGSTOP\<close>; the result has the previous mask.
\<close>

definition real_sigprocmask :: "nat \<Rightarrow> int \<Rightarrow> int set option \<Rightarrow> coz \<Rightarrow> (int \<times> int set) \<times> coz" where
  "real_sigprocmask tid how st s =
     (let old = masks s tid;
          set_mask = (\<lambda>m. s\<lparr>masks := (masks s)(tid := m - {SIGKILL, SIGSTOP})\<rparr>)
      in case st of
           None \<Rightarrow> ((0, old), s)
         | Some m \<Rightarrow>
             (if how = SIG_BLOCK then ((0, old), set_mask (old \<union> m))
              else if how = SIG_UNBLOCK then ((0, old), set_mask (old - m))
              else if how = SIG_SETMASK then ((0, old), set_mask m)
              else ((- 1, old), s)))"

definition real_sigaction :: "int \<Rightarrow> sig_action option \<Rightarrow> coz \<Rightarrow> (int \<times> sig_action option) \<times> coz" where
  "real_sigaction signum act s =
     (if signum < 1 \<or> 64 < signum \<or> (act \<noteq> None \<and> signum \<in> {SIGKILL, SIGSTOP}) then ((- 1, None), s)
      else ((0, Some (actions s signum)),
            case act of
              None \<Rightarrow> s
            | Some a \<Rightarrow> s\<lparr>actions := (actions s)(signum := a\<lparr>sa_mask := sa_mask a - {SIGKILL, SIGSTOP}\<rparr>)\<rparr>))"

text \<open>The previous handler; \<open>None\<close> is \<^verbatim>\<open>SIG_ERR\<close>. The null pointer is \<^verbatim>\<open>SIG_DFL\<close>.\<close>

definition real_signal :: "int \<Rightarrow> sig_handler \<Rightarrow> coz \<Rightarrow> sig_handler option \<times> coz" where
  "real_signal signum h s =
     (case real_sigaction signum (Some \<lparr>sa_handler = h, sa_mask = {}\<rparr>) s of
        ((rc, old), s1) \<Rightarrow> (map_option sa_handler old, s1))"

section \<open>Signals under coz\<close>

definition signal_call :: "int \<Rightarrow> sig_handler \<Rightarrow> coz \<Rightarrow> sig_handler option \<times> coz" where
  "signal_call signum h s = (if is_coz_signal signum then (Some SIG_DFL, s) else real_signal signum h s)"

definition sigaction_call :: "int \<Rightarrow> sig_action option \<Rightarrow> coz \<Rightarrow> (int \<times> sig_action option) \<times> coz" where
  "sigaction_call signum act s =
     (if is_coz_signal signum then ((0, None), s)
      else (case act of
              Some a \<Rightarrow> real_sigaction signum (Some (a\<lparr>sa_mask := remove_coz_signals (sa_mask a)\<rparr>)) s
            | None \<Rightarrow> real_sigaction signum act s))"

definition sigprocmask :: "nat \<Rightarrow> int \<Rightarrow> int set option \<Rightarrow> coz \<Rightarrow> (int \<times> int set) \<times> coz" where
  "sigprocmask tid how st s =
     (if (how = SIG_BLOCK \<or> how = SIG_SETMASK) \<and> st \<noteq> None
      then real_sigprocmask tid how (map_option remove_coz_signals st) s
      else real_sigprocmask tid how st s)"

definition pthread_sigmask :: "nat \<Rightarrow> int \<Rightarrow> int set option \<Rightarrow> coz \<Rightarrow> (int \<times> int set) \<times> coz" where
  "pthread_sigmask tid how st s =
     (if (how = SIG_BLOCK \<or> how = SIG_SETMASK) \<and> st \<noteq> None
      then real_sigprocmask tid how (map_option remove_coz_signals st) s
      else real_sigprocmask tid how st s)"

section \<open>Calls that may block\<close>

type_synonym 'r real_call = "coz \<Rightarrow> 'r \<times> coz"

text \<open>\<^verbatim>\<open>if(initialized) profiler::get_instance().f()\<close>, for the calling thread \<open>tid\<close>.\<close>

definition if_initialized :: "(profiler \<Rightarrow> profiler) \<Rightarrow> coz \<Rightarrow> coz" where
  "if_initialized f s = (if initialized s then in_prof f s else s)"

text \<open>\<^verbatim>\<open>initialized\<close> is read again after the call. \<open>woken\<close> says when the delays are skipped.\<close>

definition blocking :: "('r \<Rightarrow> bool) \<Rightarrow> nat \<Rightarrow> 'r real_call \<Rightarrow> 'r real_call" where
  "blocking woken tid real s =
     (let s1 = if_initialized (pre_block tid) s
      in case real s1 of (result, s2) \<Rightarrow> (result, if_initialized (post_block tid (woken result)) s2))"

definition pthread_join :: "nat \<Rightarrow> int real_call \<Rightarrow> int real_call" where
  "pthread_join tid = blocking (\<lambda>result. True) tid"

definition pthread_tryjoin_np :: "nat \<Rightarrow> int real_call \<Rightarrow> int real_call" where
  "pthread_tryjoin_np tid = blocking (\<lambda>result. result = 0) tid"

definition pthread_timedjoin_np :: "nat \<Rightarrow> int real_call \<Rightarrow> int real_call" where
  "pthread_timedjoin_np tid = blocking (\<lambda>result. result = 0) tid"

definition pthread_mutex_lock :: "nat \<Rightarrow> int real_call \<Rightarrow> int real_call" where
  "pthread_mutex_lock tid = blocking (\<lambda>result. True) tid"

definition pthread_cond_wait :: "nat \<Rightarrow> int real_call \<Rightarrow> int real_call" where
  "pthread_cond_wait tid = blocking (\<lambda>result. True) tid"

definition pthread_cond_timedwait :: "nat \<Rightarrow> int real_call \<Rightarrow> int real_call" where
  "pthread_cond_timedwait tid = blocking (\<lambda>result. result = 0) tid"

definition pthread_rwlock_rdlock :: "nat \<Rightarrow> int real_call \<Rightarrow> int real_call" where
  "pthread_rwlock_rdlock tid = blocking (\<lambda>result. True) tid"

definition pthread_rwlock_timedrdlock :: "nat \<Rightarrow> int real_call \<Rightarrow> int real_call" where
  "pthread_rwlock_timedrdlock tid = blocking (\<lambda>result. result = 0) tid"

definition pthread_rwlock_wrlock :: "nat \<Rightarrow> int real_call \<Rightarrow> int real_call" where
  "pthread_rwlock_wrlock tid = blocking (\<lambda>result. True) tid"

definition pthread_rwlock_timedwrlock :: "nat \<Rightarrow> int real_call \<Rightarrow> int real_call" where
  "pthread_rwlock_timedwrlock tid = blocking (\<lambda>result. result = 0) tid"

section \<open>Calls that may wake another thread\<close>

definition waking :: "(u64 \<Rightarrow> u64) \<Rightarrow> nat \<Rightarrow> 'r real_call \<Rightarrow> 'r real_call" where
  "waking slept tid real s = real (if_initialized (catch_up slept tid) s)"

definition pthread_mutex_unlock :: "(u64 \<Rightarrow> u64) \<Rightarrow> nat \<Rightarrow> int real_call \<Rightarrow> int real_call" where
  "pthread_mutex_unlock slept tid = waking slept tid"

definition pthread_cond_signal :: "(u64 \<Rightarrow> u64) \<Rightarrow> nat \<Rightarrow> int real_call \<Rightarrow> int real_call" where
  "pthread_cond_signal slept tid = waking slept tid"

definition pthread_cond_broadcast :: "(u64 \<Rightarrow> u64) \<Rightarrow> nat \<Rightarrow> int real_call \<Rightarrow> int real_call" where
  "pthread_cond_broadcast slept tid = waking slept tid"

definition pthread_rwlock_unlock :: "(u64 \<Rightarrow> u64) \<Rightarrow> nat \<Rightarrow> int real_call \<Rightarrow> int real_call" where
  "pthread_rwlock_unlock slept tid = waking slept tid"

definition pthread_kill :: "(u64 \<Rightarrow> u64) \<Rightarrow> nat \<Rightarrow> int real_call \<Rightarrow> int real_call" where
  "pthread_kill slept tid = waking slept tid"

definition pthread_sigqueue :: "(u64 \<Rightarrow> u64) \<Rightarrow> nat \<Rightarrow> int real_call \<Rightarrow> int real_call" where
  "pthread_sigqueue slept tid = waking slept tid"

text \<open>\<^verbatim>\<open>kill\<close> looks at the process it is for, and not at \<open>initialized\<close>.\<close>

definition kill :: "(u64 \<Rightarrow> u64) \<Rightarrow> nat \<Rightarrow> int \<Rightarrow> int \<Rightarrow> int real_call \<Rightarrow> int real_call" where
  "kill slept tid own pid real s = real (if pid = own then in_prof (catch_up slept tid) s else s)"

definition pthread_barrier_wait :: "(u64 \<Rightarrow> u64) \<Rightarrow> nat \<Rightarrow> int real_call \<Rightarrow> int real_call" where
  "pthread_barrier_wait slept tid real s =
     blocking (\<lambda>result. True) tid real (if_initialized (catch_up slept tid) s)"

section \<open>Waiting for signals\<close>

text \<open>What the real call returns: an error, or the signal and the process that sent it.\<close>

datatype sig_answer =
    Sig_Error int
  | Sig_Info int int

fun sent_by :: "int \<Rightarrow> sig_answer \<Rightarrow> bool" where
  "sent_by own (Sig_Error err) = False"
| "sent_by own (Sig_Info signo pid) = (pid = own)"

text \<open>The result and the signal stored through the pointer.\<close>

definition sigwait :: "nat \<Rightarrow> int \<Rightarrow> int set \<Rightarrow> (int set \<Rightarrow> sig_answer real_call) \<Rightarrow> (int \<times> int option) real_call" where
  "sigwait tid own st real s =
     (case blocking (sent_by own) tid (real (remove_coz_signals st)) s of
        (Sig_Error err, s1) \<Rightarrow> ((err, None), s1)
      | (Sig_Info signo pid, s1) \<Rightarrow> ((0, Some signo), s1))"

definition sigwaitinfo ::
  "nat \<Rightarrow> int \<Rightarrow> int set \<Rightarrow> (int set \<Rightarrow> sig_answer real_call) \<Rightarrow> (int \<times> int option) real_call" where
  "sigwaitinfo tid own st real s =
     (case blocking (sent_by own) tid (real (remove_coz_signals st)) s of
        (Sig_Error err, s1) \<Rightarrow> ((- 1, None), s1)
      | (Sig_Info signo pid, s1) \<Rightarrow> ((signo, Some pid), s1))"

definition sigtimedwait ::
  "nat \<Rightarrow> int \<Rightarrow> int set \<Rightarrow> (int set \<Rightarrow> sig_answer real_call) \<Rightarrow> (int \<times> int option) real_call" where
  "sigtimedwait tid own st real s =
     (case blocking (sent_by own) tid (real (remove_coz_signals st)) s of
        (Sig_Error err, s1) \<Rightarrow> ((- 1, None), s1)
      | (Sig_Info signo pid, s1) \<Rightarrow> ((signo, Some pid), s1))"

definition sigsuspend ::
  "nat \<Rightarrow> int \<Rightarrow> int set \<Rightarrow> (int set \<Rightarrow> sig_answer real_call) \<Rightarrow> int real_call" where
  "sigsuspend tid own st real s =
     (case real_sigprocmask tid SIG_SETMASK (Some st) s of
        ((rc, oldset), s1) \<Rightarrow>
          (case sigwait tid own st real s1 of
             ((rc', signo), s2) \<Rightarrow> (rc', snd (real_sigprocmask tid SIG_SETMASK (Some oldset) s2))))"

section \<open>Starting the profiler\<close>

text \<open>
  \<^verbatim>\<open>readlink_str\<close>: the buffer grows until the link fits; \<open>None\<close> is a link that cannot be read.
\<close>

function readlink_str :: "string option \<Rightarrow> nat \<Rightarrow> c_fault + string" where
  "readlink_str link exe_size =
     (case link of
        None \<Rightarrow> Inl Aborted
      | Some path \<Rightarrow>
          (let exe_used = min (length path) (exe_size - 1)
           in if exe_used = 0 then Inl Aborted
              else if exe_used < exe_size - 1 then Inr (take exe_used path)
              else readlink_str link (exe_size + 1024)))"
  by pat_completeness auto
termination
  by (relation "measure (\<lambda>(link, n). case link of None \<Rightarrow> 0 | Some path \<Rightarrow> length path + 2 - n)") auto

declare readlink_str.simps [simp del]

text \<open>\<^verbatim>\<open>stringstream(s) >> n\<close> for an \<^verbatim>\<open>int\<close>: a text without digits gives 0, a large one the nearest number.\<close>

definition stream_int :: "string \<Rightarrow> int" where
  "stream_int t =
     (case scan_sign (skip_spaces t) of
        (neg, rest) \<Rightarrow>
          (case scan_digits 10 None rest of
             None \<Rightarrow> 0
           | Some n \<Rightarrow> (let z = (if neg then - int n else int n)
                        in if z < - (2 ^ 31) then - (2 ^ 31) else if 2 ^ 31 - 1 < z then 2 ^ 31 - 1 else z)))"

definition getenv_safe :: "coz \<Rightarrow> string \<Rightarrow> string \<Rightarrow> string" where
  "getenv_safe s var fallback = (case environ s var of None \<Rightarrow> fallback | Some t \<Rightarrow> t)"

text \<open>
  What the start asks of the system: the link to the executable, the files and the list of mappings, the
  outcome of starting the profiler's thread and of the attempts to file the main thread.
\<close>

record start_env =
  exe_link :: "string option"
  start_files :: file_system
  proc_maps :: string
  thread_created :: bool
  weak_fails :: "nat \<Rightarrow> bool"

definition profiler_startup ::
  "start_env \<Rightarrow> nat \<Rightarrow> string \<Rightarrow> line_id option \<Rightarrow> int \<Rightarrow> bool \<Rightarrow> coz \<Rightarrow> c_fault + coz" where
  "profiler_startup env tid outfile fixed speedup e2e s =
     (let s1 = snd (real_sigaction SampleSignal (Some \<lparr>sa_handler = Samples_Ready, sa_mask = {}\<rparr>) s);
          s2 = snd (real_sigaction SIGSEGV (Some \<lparr>sa_handler = On_Error, sa_mask = {}\<rparr>) s1);
          s3 = snd (real_sigaction SIGABRT (Some \<lparr>sa_handler = On_Error, sa_mask = {}\<rparr>) s2);
          s4 = in_prof (startup_options fixed speedup e2e) (s3\<lparr>output_filename := outfile\<rparr>)
      in if \<not> thread_created env then Inl Aborted
         else (case add_thread (weak_fails env) tid (prof s4) of
                 (pr, False) \<Rightarrow> Inl Aborted
               | (pr, True) \<Rightarrow>
                   (case get_thread_state tid pr of
                      None \<Rightarrow> Inl Aborted
                    | Some st \<Rightarrow> Inr (s4\<lparr>prof := put_thread_state tid (begin_sampling st) pr\<rparr>))))"

definition scope_set :: "string \<Rightarrow> string list" where
  "scope_set t = remdups (split_str t (CHR 0x09))"

definition replace_main :: "start_env \<Rightarrow> string list \<Rightarrow> c_fault + string list" where
  "replace_main env scope =
     (if ''MAIN'' \<in> set scope
      then ebind (readlink_str (exe_link env) 1024) (\<lambda>main_name.
             Inr (remdups (filter (\<lambda>p. p \<noteq> ''MAIN'') scope @ [main_name])))
      else Inr scope)"

definition lines_of_map :: "mem_map \<Rightarrow> line_id list" where
  "lines_of_map m = concat (map (\<lambda>(f, ns). map (Pair f) ns) (mm_files m))"

definition build_memory_map :: "start_env \<Rightarrow> string list \<Rightarrow> string list \<Rightarrow> coz \<Rightarrow> c_fault + mem_map \<times> coz" where
  "build_memory_map env binary_scope source_scope s =
     ebind (build (start_files env) (proc_maps env) binary_scope source_scope \<lparr>mm_files = [], mm_ranges = []\<rparr>) (\<lambda>m.
       Inr (m, in_prof (\<lambda>pr. pr\<lparr>line_ranges := mm_ranges m, known_lines := lines_of_map m\<rparr>) s))"

definition register_end_to_end :: "coz \<Rightarrow> coz" where
  "register_end_to_end s =
     (if end_to_end s
      then in_prof (\<lambda>pr. pr\<lparr>points := fst (get_throughput_point ''end-to-end'' (points pr))\<rparr>) s
      else s)"

text \<open>A \<^verbatim>\<open>REQUIRE\<close> that fails and \<^verbatim>\<open>FATAL\<close> abort.\<close>

definition init_coz :: "start_env \<Rightarrow> nat \<Rightarrow> coz \<Rightarrow> c_fault + coz" where
  "init_coz env tid s =
     (if init_in_progress s then Inr s
      else
        (let s1 = s\<lparr>init_in_progress := True, initialized := False,
                     environ := (environ s)(''LD_PRELOAD'' := None)\<rparr>;
             output_file = getenv_safe s1 ''COZ_OUTPUT'' ''profile.coz'';
             source_scope = scope_set (getenv_safe s1 ''COZ_SOURCE_SCOPE'' []);
             progress_points = scope_set (getenv_safe s1 ''COZ_PROGRESS_POINTS'' []);
             s2 = s1\<lparr>end_to_end := environ s1 ''COZ_END_TO_END'' \<noteq> None\<rparr>;
             fixed_line_name = getenv_safe s1 ''COZ_FIXED_LINE'' [];
             speedup = stream_int (getenv_safe s1 ''COZ_FIXED_SPEEDUP'' ''-1'')
         in ebind (replace_main env (scope_set (getenv_safe s1 ''COZ_BINARY_SCOPE'' []))) (\<lambda>binary_scope.
            ebind (build_memory_map env binary_scope source_scope s2) (\<lambda>(m, s3).
              (let fixed = (if fixed_line_name \<noteq> [] then find_line_by_name fixed_line_name m else None);
                   s4 = register_end_to_end s3
               in if progress_points \<noteq> [] then Inl Aborted
                  else if fixed_line_name \<noteq> [] \<and> fixed = None then Inl Aborted
                  else ebind (profiler_startup env tid output_file fixed speedup (end_to_end s4) s4) (\<lambda>s5.
                         Inr (s5\<lparr>initialized := True, init_in_progress := False\<rparr>)))))))"

section \<open>The program's main function and its exits\<close>

definition visit_end_to_end :: "profiler \<Rightarrow> profiler" where
  "visit_end_to_end pr =
     pr\<lparr>points := add_through (Throughput, ''end-to-end'') 1 (fst (get_throughput_point ''end-to-end'' (points pr)))\<rparr>"

definition wrapped_main ::
  "start_env \<Rightarrow> (u64 \<Rightarrow> u64) \<Rightarrow> nat \<Rightarrow> perf_record list \<Rightarrow> int real_call \<Rightarrow> coz \<Rightarrow> c_fault + int \<times> coz" where
  "wrapped_main env slept tid recs real_main s =
     ebind (if \<not> initialized s then init_coz env tid s else Inr s) (\<lambda>s1.
       (case real_main s1 of (result, s2) \<Rightarrow>
          (let s3 = (if end_to_end s2 then in_prof visit_end_to_end s2 else s2)
           in Inr (result, in_prof (shutdown slept tid recs) s3))))"

text \<open>\<^verbatim>\<open>exit\<close>, \<^verbatim>\<open>_exit\<close> and \<^verbatim>\<open>_Exit\<close>: the status and the state the process ends in.\<close>

definition exit_process :: "(u64 \<Rightarrow> u64) \<Rightarrow> nat \<Rightarrow> perf_record list \<Rightarrow> int \<Rightarrow> coz \<Rightarrow> int \<times> coz" where
  "exit_process slept tid recs status s = (status, in_prof (shutdown slept tid recs) s)"

text \<open>The result of the real call and the delay handed to the new thread.\<close>

definition pthread_create :: "start_env \<Rightarrow> nat \<Rightarrow> int real_call \<Rightarrow> coz \<Rightarrow> c_fault + (int \<times> u64) \<times> coz" where
  "pthread_create env tid real s =
     ebind (if get_thread_state tid (prof s) = None then init_coz env tid s else Inr s) (\<lambda>s1.
     ebind (handle_pthread_create id tid (prof s1)) (\<lambda>(pr, delay).
       (case real (s1\<lparr>prof := pr\<rparr>) of (rc, s2) \<Rightarrow> Inr ((rc, delay), s2))))"

definition pthread_exit :: "(u64 \<Rightarrow> u64) \<Rightarrow> nat \<Rightarrow> perf_record list \<Rightarrow> coz \<Rightarrow> coz" where
  "pthread_exit slept tid recs s = in_prof (handle_pthread_exit slept tid recs) s"

end
