(* ===== verification/Interposition_Facts.thy ===== *)
theory Interposition_Facts
  imports Interposition Profiler_Accounting Debug_Info_Facts
begin

text \<open>
  What the interposed calls guarantee: the program cannot take the profiler's signals away, every call
  of a synchronization function is a run of the profiler's own events around the real call, a thread has
  paid its delays when it may wake another and is excused from the delays of the time it was blocked,
  and the profiler is started and stopped once.
\<close>

section \<open>Signals\<close>

definition coz_signals :: "int set" where
  "coz_signals = {SampleSignal, SIGSEGV, SIGABRT}"

lemma remove_coz_signals_eq: "remove_coz_signals st = st - coz_signals"
  by (auto simp: remove_coz_signals_def coz_signals_def Let_def)

lemma is_coz_signal_iff: "is_coz_signal signum \<longleftrightarrow> signum \<in> coz_signals"
  by (auto simp: is_coz_signal_def coz_signals_def)

definition unmasked :: "coz \<Rightarrow> bool" where
  "unmasked s \<longleftrightarrow> (\<forall>tid. masks s tid \<inter> coz_signals = {}) \<and>
     (\<forall>signum. sa_mask (actions s signum) \<inter> coz_signals = {})"

definition handled :: "coz \<Rightarrow> bool" where
  "handled s \<longleftrightarrow> sa_handler (actions s SampleSignal) = Samples_Ready \<and>
     sa_handler (actions s SIGSEGV) = On_Error \<and> sa_handler (actions s SIGABRT) = On_Error"

text \<open>A call on signals by the program.\<close>

datatype signal_op =
    Set_Signal int sig_handler
  | Set_Action int "sig_action option"
  | Set_Mask nat int "int set option"
  | Set_Thread_Mask nat int "int set option"

fun signal_exec :: "signal_op \<Rightarrow> coz \<Rightarrow> coz" where
  "signal_exec (Set_Signal signum h) s = snd (signal_call signum h s)"
| "signal_exec (Set_Action signum act) s = snd (sigaction_call signum act s)"
| "signal_exec (Set_Mask tid how st) s = snd (sigprocmask tid how st s)"
| "signal_exec (Set_Thread_Mask tid how st) s = snd (pthread_sigmask tid how st s)"

lemma mask_update:
  "unmasked s \<Longrightarrow> m \<inter> coz_signals = {} \<Longrightarrow> unmasked (s\<lparr>masks := (masks s)(tid := m - k)\<rparr>)"
  by (auto simp: unmasked_def)

lemma real_sigprocmask_unmasked:
  assumes "unmasked s" "\<And>m. st = Some m \<Longrightarrow> how = SIG_BLOCK \<or> how = SIG_SETMASK \<Longrightarrow> m \<inter> coz_signals = {}"
  shows "unmasked (snd (real_sigprocmask tid how st s))"
proof (cases st)
  case None
  then show ?thesis using assms(1) by (simp add: real_sigprocmask_def Let_def)
next
  case (Some m)
  have old: "masks s tid \<inter> coz_signals = {}" using assms(1) by (simp add: unmasked_def)
  consider "how = SIG_BLOCK" | "how = SIG_UNBLOCK" | "how = SIG_SETMASK"
    | "how \<noteq> SIG_BLOCK" "how \<noteq> SIG_UNBLOCK" "how \<noteq> SIG_SETMASK" by blast
  then show ?thesis
  proof cases
    case 1
    then have "(masks s tid \<union> m) \<inter> coz_signals = {}" using assms(2) [OF Some] old by blast
    from mask_update [OF assms(1) this] show ?thesis using Some 1 by (simp add: real_sigprocmask_def Let_def)
  next
    case 2
    then have "(masks s tid - m) \<inter> coz_signals = {}" "how \<noteq> SIG_BLOCK"
      using old by (auto simp: SIG_BLOCK_def SIG_UNBLOCK_def)
    from mask_update [OF assms(1) this(1)] this(2) show ?thesis
      using Some 2 by (simp add: real_sigprocmask_def Let_def)
  next
    case 3
    then have "m \<inter> coz_signals = {}" "how \<noteq> SIG_BLOCK" "how \<noteq> SIG_UNBLOCK"
      using assms(2) [OF Some] by (auto simp: SIG_BLOCK_def SIG_UNBLOCK_def SIG_SETMASK_def)
    from mask_update [OF assms(1) this(1)] this(2,3) show ?thesis
      using Some 3 by (simp add: real_sigprocmask_def Let_def)
  next
    case 4
    then show ?thesis using assms(1) Some by (simp add: real_sigprocmask_def Let_def)
  qed
qed

lemma real_sigaction_unmasked:
  "unmasked s \<Longrightarrow> \<forall>a. act = Some a \<longrightarrow> sa_mask a \<inter> coz_signals = {} \<Longrightarrow>
   unmasked (snd (real_sigaction signum act s))"
  by (cases act) (auto simp: unmasked_def real_sigaction_def)

lemma real_handled [simp]:
  "handled (snd (real_sigprocmask tid how st s)) = handled s"
  "signum \<notin> coz_signals \<Longrightarrow> handled (snd (real_sigaction signum act s)) = handled s"
  by (cases st; auto simp: handled_def real_sigprocmask_def Let_def)
    (cases act; auto simp: handled_def real_sigaction_def coz_signals_def)

lemma signal_exec_keeps:
  assumes "unmasked s" "handled s"
  shows "unmasked (signal_exec op s) \<and> handled (signal_exec op s)"
proof (cases op)
  case (Set_Signal signum h)
  then show ?thesis using assms real_sigaction_unmasked [OF assms(1)]
    by (auto simp: signal_call_def real_signal_def is_coz_signal_iff split: prod.split dest: sndI)
next
  case (Set_Action signum act)
  have "unmasked (snd (real_sigaction signum (Some (a\<lparr>sa_mask := sa_mask a - coz_signals\<rparr>)) s))" for a
    by (rule real_sigaction_unmasked [OF assms(1)]) auto
  then show ?thesis using assms real_sigaction_unmasked [OF assms(1), of None] Set_Action
    by (auto simp: sigaction_call_def is_coz_signal_iff remove_coz_signals_eq split: option.split)
next
  case (Set_Mask tid how st)
  then show ?thesis using assms
    by (auto simp: sigprocmask_def remove_coz_signals_eq intro!: real_sigprocmask_unmasked)
next
  case (Set_Thread_Mask tid how st)
  then show ?thesis using assms
    by (auto simp: pthread_sigmask_def remove_coz_signals_eq intro!: real_sigprocmask_unmasked)
qed

section \<open>The start\<close>

text \<open>The state before the start: no signal of coz is masked, no thread is known.\<close>

definition before_start :: "nat \<Rightarrow> coz \<Rightarrow> bool" where
  "before_start tid s \<longleftrightarrow> tid \<noteq> 0 \<and> unmasked s \<and> prof_inv (prof s) \<and> get_thread_state tid (prof s) = None"

definition after_start :: "nat \<Rightarrow> coz \<Rightarrow> bool" where
  "after_start tid s \<longleftrightarrow> unmasked s \<and> handled s \<and> prof_inv (prof s) \<and>
     (\<exists>st. get_thread_state tid (prof s) = Some st \<and> sampler_running st)"

lemma startup_options_inv [simp]:
  "prof_inv (startup_options fixed speedup e2e pr) = prof_inv pr"
  "get_thread_state tid (startup_options fixed speedup e2e pr) = get_thread_state tid pr"
  by (subst prof_inv_cong [of _ pr]; simp add: startup_options_def Let_def)
    (rule get_thread_state_cong, simp add: startup_options_def Let_def)

lemma real_sigaction_handler:
  assumes "signum \<in> coz_signals"
  shows "snd (real_sigaction signum (Some \<lparr>sa_handler = h, sa_mask = {}\<rparr>) s) =
    s\<lparr>actions := (actions s)(signum := \<lparr>sa_handler = h, sa_mask = {}\<rparr>)\<rparr>"
  using assms by (auto simp: real_sigaction_def coz_signals_def SampleSignal_def SIGSEGV_def SIGABRT_def
      SIGKILL_def SIGSTOP_def)

lemma profiler_startup_ok:
  assumes "before_start tid s" "profiler_startup env tid outfile fixed speedup e2e s = Inr s'"
  shows "after_start tid s'"
proof -
  define a where "a = (actions s)(SampleSignal := \<lparr>sa_handler = Samples_Ready, sa_mask = {}\<rparr>,
      SIGSEGV := \<lparr>sa_handler = On_Error, sa_mask = {}\<rparr>, SIGABRT := \<lparr>sa_handler = On_Error, sa_mask = {}\<rparr>)"
  have s: "unmasked s" "tid \<noteq> 0" "prof_inv (prof s)" "get_thread_state tid (prof s) = None"
    using assms(1) by (simp_all add: before_start_def)
  have um: "unmasked (t\<lparr>actions := (actions t)(signum := \<lparr>sa_handler = h, sa_mask = {}\<rparr>)\<rparr>)" if "unmasked t" for t signum h
    using that by (auto simp: unmasked_def)
  have s3: "snd (real_sigaction SIGABRT (Some \<lparr>sa_handler = On_Error, sa_mask = {}\<rparr>)
      (snd (real_sigaction SIGSEGV (Some \<lparr>sa_handler = On_Error, sa_mask = {}\<rparr>)
        (snd (real_sigaction SampleSignal (Some \<lparr>sa_handler = Samples_Ready, sa_mask = {}\<rparr>) s))))) = s\<lparr>actions := a\<rparr>"
    using um s(1) by (simp add: real_sigaction_handler coz_signals_def a_def)
  define pr where "pr = startup_options fixed speedup e2e (prof s)"
  obtain pr1 st where pr1: "add_thread (weak_fails env) tid pr = (pr1, True)" "get_thread_state tid pr1 = Some st"
    and s': "s' = s\<lparr>actions := a, output_filename := outfile, prof := put_thread_state tid (begin_sampling st) pr1\<rparr>"
    using assms(2) unfolding profiler_startup_def Let_def s3
    by (auto simp: in_prof_def pr_def split: prod.splits bool.splits option.splits if_splits)
  have inv: "prof_inv pr1"
    using add_thread_inv(1) [OF _ s(2) _ pr1(1)] s(3,4) by (simp add: pr_def)
  then have "get_thread_state tid (put_thread_state tid (begin_sampling st) pr1) = Some (begin_sampling st)"
    using get_put [of pr1 tid tid] s(2) pr1(2) by (simp add: prof_inv_def)
  moreover have "unmasked s'" using s(1) by (auto simp: s' unmasked_def a_def)
  moreover have "handled s'" by (simp add: s' handled_def a_def SampleSignal_def SIGSEGV_def SIGABRT_def)
  ultimately show ?thesis using inv by (simp add: after_start_def s' begin_sampling_def)
qed

lemma prof_inv_lines [simp]:
  "prof_inv (pr\<lparr>line_ranges := rs, known_lines := ls\<rparr>) = prof_inv pr" "prof_inv (pr\<lparr>points := ps\<rparr>) = prof_inv pr"
  by (subst prof_inv_cong; simp)+

lemma get_lines [simp]:
  "get_thread_state tid (pr\<lparr>line_ranges := rs, known_lines := ls\<rparr>) = get_thread_state tid pr"
  "get_thread_state tid (pr\<lparr>points := ps\<rparr>) = get_thread_state tid pr"
  by (rule get_thread_state_cong, simp)+

lemma build_memory_map_frame:
  "build_memory_map env bs ss s = Inr (m, s') \<Longrightarrow> masks s' = masks s \<and> actions s' = actions s \<and>
     prof_inv (prof s') = prof_inv (prof s) \<and> get_thread_state tid (prof s') = get_thread_state tid (prof s)"
  by (auto simp: build_memory_map_def ebind_Inr_iff in_prof_def)

lemma register_frame [simp]:
  "masks (register_end_to_end s) = masks s" "actions (register_end_to_end s) = actions s"
  "prof_inv (prof (register_end_to_end s)) = prof_inv (prof s)"
  "get_thread_state tid (prof (register_end_to_end s)) = get_thread_state tid (prof s)"
  by (simp_all add: register_end_to_end_def in_prof_def)

lemma init_coz_ok:
  assumes "before_start tid s" "\<not> init_in_progress s" "init_coz env tid s = Inr s'"
  shows "after_start tid s'" "initialized s'" "\<not> init_in_progress s'"
proof -
  obtain s4 s5 outfile fixed speedup e2e where s4: "profiler_startup env tid outfile fixed speedup e2e s4 = Inr s5"
    "masks s4 = masks s" "actions s4 = actions s" "before_start tid s \<longrightarrow> prof_inv (prof s4)"
    "get_thread_state tid (prof s4) = get_thread_state tid (prof s)"
    and s': "s' = s5\<lparr>initialized := True, init_in_progress := False\<rparr>"
    using assms(2,3)
    by (auto simp: init_coz_def Let_def ebind_Inr_iff before_start_def dest!: build_memory_map_frame [where tid = tid]
        split: if_splits)
  have "before_start tid s4" using s4 assms(1) by (simp add: before_start_def unmasked_def)
  from profiler_startup_ok [OF this s4(1)] show "after_start tid s'"
    by (simp add: s' after_start_def unmasked_def handled_def)
  show "initialized s'" "\<not> init_in_progress s'" by (simp_all add: s')
qed

section \<open>Synchronization calls as events of the profiler\<close>

datatype sync_call =
    Join | Tryjoin | Timedjoin | Mutex_Lock | Cond_Wait | Cond_Timedwait
  | Rdlock | Timedrdlock | Wrlock | Timedwrlock
  | Mutex_Unlock | Cond_Signal | Cond_Broadcast | Rw_Unlock | Thread_Kill | Sigqueue
  | Kill int | Barrier_Wait

fun sync_exec :: "(u64 \<Rightarrow> u64) \<Rightarrow> nat \<Rightarrow> int \<Rightarrow> sync_call \<Rightarrow> int real_call \<Rightarrow> int real_call" where
  "sync_exec slept tid own Join = pthread_join tid"
| "sync_exec slept tid own Tryjoin = pthread_tryjoin_np tid"
| "sync_exec slept tid own Timedjoin = pthread_timedjoin_np tid"
| "sync_exec slept tid own Mutex_Lock = pthread_mutex_lock tid"
| "sync_exec slept tid own Cond_Wait = pthread_cond_wait tid"
| "sync_exec slept tid own Cond_Timedwait = pthread_cond_timedwait tid"
| "sync_exec slept tid own Rdlock = pthread_rwlock_rdlock tid"
| "sync_exec slept tid own Timedrdlock = pthread_rwlock_timedrdlock tid"
| "sync_exec slept tid own Wrlock = pthread_rwlock_wrlock tid"
| "sync_exec slept tid own Timedwrlock = pthread_rwlock_timedwrlock tid"
| "sync_exec slept tid own Mutex_Unlock = pthread_mutex_unlock slept tid"
| "sync_exec slept tid own Cond_Signal = pthread_cond_signal slept tid"
| "sync_exec slept tid own Cond_Broadcast = pthread_cond_broadcast slept tid"
| "sync_exec slept tid own Rw_Unlock = pthread_rwlock_unlock slept tid"
| "sync_exec slept tid own Thread_Kill = pthread_kill slept tid"
| "sync_exec slept tid own Sigqueue = pthread_sigqueue slept tid"
| "sync_exec slept tid own (Kill pid) = kill slept tid own pid"
| "sync_exec slept tid own Barrier_Wait = pthread_barrier_wait slept tid"

text \<open>The contract: what a call does to the profiler before and after the real call.\<close>

datatype sync_kind = Blocks | Wakes | Wakes_And_Blocks | Local

fun kind_of :: "int \<Rightarrow> sync_call \<Rightarrow> sync_kind" where
  "kind_of own (Kill pid) = (if pid = own then Wakes else Local)"
| "kind_of own Barrier_Wait = Wakes_And_Blocks"
| "kind_of own c =
     (if c \<in> {Mutex_Unlock, Cond_Signal, Cond_Broadcast, Rw_Unlock, Thread_Kill, Sigqueue} then Wakes else Blocks)"

text \<open>Only the calls with a time limit, and the one that tries, can return without having been woken.\<close>

definition woken_by :: "sync_call \<Rightarrow> int \<Rightarrow> bool" where
  "woken_by c result \<longleftrightarrow>
     (c \<in> {Tryjoin, Timedjoin, Cond_Timedwait, Timedrdlock, Timedwrlock} \<longrightarrow> result = 0)"

definition events_before :: "u64 \<Rightarrow> nat \<Rightarrow> sync_kind \<Rightarrow> prof_event list" where
  "events_before over tid k =
     (case k of Blocks \<Rightarrow> [Pre_Block tid] | Wakes \<Rightarrow> [Catch_Up tid over]
      | Wakes_And_Blocks \<Rightarrow> [Catch_Up tid over, Pre_Block tid] | Local \<Rightarrow> [])"

definition events_after :: "nat \<Rightarrow> sync_kind \<Rightarrow> bool \<Rightarrow> prof_event list" where
  "events_after tid k woken = (if k = Blocks \<or> k = Wakes_And_Blocks then [Post_Block tid woken] else [])"

definition entry :: "(u64 \<Rightarrow> u64) \<Rightarrow> nat \<Rightarrow> sync_kind \<Rightarrow> profiler \<Rightarrow> profiler" where
  "entry slept tid k pr =
     (let pr1 = (if k = Wakes \<or> k = Wakes_And_Blocks then catch_up slept tid pr else pr)
      in if k = Blocks \<or> k = Wakes_And_Blocks then pre_block tid pr1 else pr1)"

definition leave :: "nat \<Rightarrow> sync_kind \<Rightarrow> bool \<Rightarrow> profiler \<Rightarrow> profiler" where
  "leave tid k woken pr = (if k = Blocks \<or> k = Wakes_And_Blocks then post_block tid woken pr else pr)"

lemma entry_run: "prof_run (events_before over tid k) pr = Some (entry (\<lambda>ns. ns + over) tid k pr)"
  by (cases k) (simp_all add: events_before_def entry_def)

lemma leave_run: "prof_run (events_after tid k woken) pr = Some (leave tid k woken pr)"
  by (cases k) (simp_all add: events_after_def leave_def)

lemma in_prof_simps [simp]:
  "prof (in_prof f s) = f (prof s)" "initialized (in_prof f s) = initialized s"
  "in_prof f (in_prof g s) = in_prof (\<lambda>pr. f (g pr)) s" "in_prof (\<lambda>pr. pr) s = s"
  by (simp_all add: in_prof_def)

lemma entry_kinds:
  "entry slept tid Blocks = pre_block tid" "entry slept tid Wakes = catch_up slept tid"
  "entry slept tid Wakes_And_Blocks = (\<lambda>pr. pre_block tid (catch_up slept tid pr))"
  "entry slept tid Local = (\<lambda>pr. pr)"
  by (simp_all add: entry_def fun_eq_iff)

lemma leave_kinds:
  "leave tid Blocks woken = post_block tid woken" "leave tid Wakes woken = (\<lambda>pr. pr)"
  "leave tid Wakes_And_Blocks woken = post_block tid woken" "leave tid Local woken = (\<lambda>pr. pr)"
  by (simp_all add: leave_def fun_eq_iff)

lemmas sync_defs = blocking_def waking_def if_initialized_def woken_by_def entry_kinds leave_kinds Let_def
  pthread_join_def pthread_tryjoin_np_def pthread_timedjoin_np_def pthread_mutex_lock_def
  pthread_cond_wait_def pthread_cond_timedwait_def pthread_rwlock_rdlock_def
  pthread_rwlock_timedrdlock_def pthread_rwlock_wrlock_def pthread_rwlock_timedwrlock_def
  pthread_mutex_unlock_def pthread_cond_signal_def pthread_cond_broadcast_def
  pthread_rwlock_unlock_def pthread_kill_def pthread_sigqueue_def kill_def pthread_barrier_wait_def

lemma sync_exec_kind:
  assumes "initialized s" "real (in_prof (entry slept tid (kind_of own c)) s) = (r, s2)" "initialized s2"
  shows "sync_exec slept tid own c real s = (r, in_prof (leave tid (kind_of own c) (woken_by c r)) s2)"
  using assms by (cases c) (auto simp: sync_defs split: if_splits)

lemma sync_exec_uninitialized:
  assumes "\<not> initialized s" "real s = (r, s2)" "\<not> initialized s2" "\<forall>pid. c \<noteq> Kill pid"
  shows "sync_exec slept tid own c real s = (r, s2)"
  using assms by (cases c) (simp_all add: sync_defs)


section \<open>Delays at the calls\<close>

lemma catch_up_pays:
  assumes "prof_inv pr" "tid \<noteq> 0" "get_thread_state tid pr = Some st" "experiment_active pr"
    and "unat (global_delay pr) + unat over < 2 ^ 64"
  shows "\<exists>st'. get_thread_state tid (catch_up (\<lambda>ns. ns + over) tid pr) = Some st' \<and>
    global_delay (catch_up (\<lambda>ns. ns + over) tid pr) \<le> local_delay st'"
proof -
  obtain pr1 st1 where ad: "add_delays (\<lambda>ns. ns + over) pr (st\<lparr>in_use := True\<rparr>) = (pr1, st1)"
    by (cases "add_delays (\<lambda>ns. ns + over) pr (st\<lparr>in_use := True\<rparr>)")
  have "global_delay pr \<le> global_delay pr + over"
    using assms(5) by (simp add: word_le_nat_alt unat_word_ariths)
  then have paid: "global_delay pr1 \<le> local_delay st1"
    using ad assms(4) by (auto simp: add_delays_def add_delays_at_def wait_ns_def algebra_simps split: if_splits)
  have threads: "thread_states pr1 = thread_states pr" using add_delays_threads(1) [OF ad] by simp
  then have get: "get_thread_state tid pr1 = Some st" using assms(3) get_thread_state_cong by metis
  have ok: "table_ok pr1" using assms(1) threads by (simp add: prof_inv_def table_ok_def)
  have "catch_up (\<lambda>ns. ns + over) tid pr = put_thread_state tid (st1\<lparr>in_use := False\<rparr>) pr1"
    using assms(3,4) ad by (simp add: catch_up_def)
  moreover have "global_delay (put_thread_state tid x pr1) = global_delay pr1" for x
    by (simp add: put_thread_state_def split: option.split)
  ultimately show ?thesis using get_put [OF ok assms(2,2)] get paid by simp
qed

lemma pre_block_keeps:
  assumes "table_ok pr" "tid \<noteq> 0" "get_thread_state tid pr = Some st"
  shows "get_thread_state tid (pre_block tid pr) = Some (st\<lparr>pre_block_time := global_delay pr\<rparr>)"
    "global_delay (pre_block tid pr) = global_delay pr"
  using assms get_put [OF assms(1,2,2)]
  by (simp_all add: pre_block_def put_thread_state_def split: option.split)


text \<open>
  A call that blocks excuses the caller from exactly the delays that were inserted while it was
  blocked, if it was woken; a call with a time limit that ran out excuses it from none. What the other
  threads do meanwhile is any run of their events.
\<close>

theorem blocked_call_skips_delays:
  assumes "initialized s" "prof_inv (prof s)" "tid \<noteq> 0" "get_thread_state tid (prof s) = Some st"
    and "kind_of own c = Blocks" "real (in_prof (pre_block tid) s) = (r, s2)" "initialized s2"
    and "prof_run es (pre_block tid (prof s)) = Some (prof s2)"
    and "\<forall>e\<in>set es. event_tid e \<noteq> Some tid \<and> event_tid e \<noteq> Some 0"
  shows "\<exists>s'. sync_exec slept tid own c real s = (r, s') \<and>
    map_option local_delay (get_thread_state tid (prof s')) =
      Some (local_delay st + (if woken_by c r then global_delay (prof s') - global_delay (prof s) else 0))"
proof -
  let ?s' = "in_prof (post_block tid (woken_by c r)) s2"
  have "sync_exec slept tid own c real s = (r, ?s')"
    using sync_exec_kind [of s real slept tid own c r s2] assms(1,5,6,7) by (simp add: entry_kinds leave_kinds)
  moreover have "prof_run (Pre_Block tid # es @ [Post_Block tid (woken_by c r)]) (prof s) = Some (prof ?s')"
    using assms(8) by (simp add: prof_run_append)
  ultimately show ?thesis using blocked_thread_skips [OF assms(2-4) _ assms(9)] by blast
qed

section \<open>Samples\<close>

text \<open>A process with one profiled thread, and the state in which a process starts.\<close>

definition sample_coz :: coz where
  "sample_coz = \<lparr>prof = sample_profiler, initialized = True, init_in_progress = False, end_to_end = False,
     output_filename = [], environ = (\<lambda>v. None), masks = (\<lambda>t. {}), actions = (\<lambda>g. \<lparr>sa_handler = SIG_DFL, sa_mask = {}\<rparr>)\<rparr>"

lemma sample_coz_prof [simp]: "prof sample_coz = sample_profiler" "initialized sample_coz"
  by (simp_all add: sample_coz_def)

lemma sample_thread: "get_thread_state 9 sample_profiler = Some (new_thread_state\<lparr>local_delay := 100\<rparr>)"
  by code_simp

definition timed_out :: "int real_call" where
  "timed_out s = (110, in_prof (\<lambda>pr. pr\<lparr>next_line := None, experiment_active := False\<rparr>) s)"



definition other_samples :: "prof_event list" where
  "other_samples = [Create 9 5 [], Samples 5 0 (sample_records @ sample_records)]"

definition signalled :: "int real_call" where
  "signalled s = (0, in_prof (\<lambda>pr. the (prof_run other_samples pr)) s)"

theorem blocked_call_skips_delays_witness:
  "\<exists>s'. sync_exec (\<lambda>ns. ns) 9 1 Cond_Wait signalled sample_coz = (0, s') \<and>
    map_option local_delay (get_thread_state 9 (prof s')) = Some (100 + (global_delay (prof s') - 300))"
proof -
  have "prof_run other_samples (pre_block 9 sample_profiler) \<noteq> None" by code_simp
  then have "prof_run other_samples (pre_block 9 (prof sample_coz)) =
      Some (prof (in_prof (\<lambda>pr. the (prof_run other_samples pr)) (in_prof (pre_block 9) sample_coz)))" by simp
  from blocked_call_skips_delays [OF _ _ _ _ _ _ _ this, of _ 1 Cond_Wait signalled 0 "\<lambda>ns. ns"]
  show ?thesis using sample_profiler_inv sample_thread
    by (simp add: signalled_def other_samples_def woken_by_def) (simp add: sample_profiler_def new_thread_state_def)
qed

section \<open>Start and end of the program\<close>

lemma readlink_str_whole:
  "path \<noteq> [] \<Longrightarrow> 1 < n \<Longrightarrow> readlink_str (Some path) n = Inr path"
proof (induction "Some path" n rule: readlink_str.induct)
  case (1 n)
  then show ?case by (subst readlink_str.simps) (auto simp: Let_def min_def)
qed


text \<open>
  \<^verbatim>\<open>sigsuspend\<close> bypasses the filter: the wait runs with coz's signals masked if they are in the set.
  And it waits for the signals of the set, which are those it should keep blocked, and returns 0 for one.
\<close>

lemma sigsuspend_masks_samples:
  "SampleSignal \<in> st \<Longrightarrow>
   fst (sigsuspend tid own st (\<lambda>st' s. (Sig_Error (if SampleSignal \<in> masks s tid then 1 else 0), s)) s) = 1"
  by (auto simp: sigsuspend_def sigwait_def blocking_def if_initialized_def in_prof_def real_sigprocmask_def Let_def
      SIG_SETMASK_def SIG_BLOCK_def SIG_UNBLOCK_def SampleSignal_def SIGKILL_def SIGSTOP_def)

lemma sigsuspend_waits_for_the_mask:
  "signo \<in> st - coz_signals \<Longrightarrow>
   fst (sigsuspend tid own st (\<lambda>st' s. (if signo \<in> st' then Sig_Info signo own else Sig_Error 4, s)) s) = 0"
  by (auto simp: sigsuspend_def sigwait_def blocking_def remove_coz_signals_eq split: prod.split)

lemma process_records_frame_points:
  "points (fst (fold process_record recs s)) = points (fst s) \<and>
   shutdown_run (fst (fold process_record recs s)) = shutdown_run (fst s)"
  by (induction recs arbitrary: s)
    (auto simp: process_record_def add_sample_def Let_def split: prod.split option.split)

lemma end_sampling_frame:
  "points (end_sampling slept tid recs pr) = points pr \<and> shutdown_run (end_sampling slept tid recs pr) = shutdown_run pr"
proof -
  have put: "points (put_thread_state t st p) = points p" "shutdown_run (put_thread_state t st p) = shutdown_run p" for t st p
    by (simp_all add: put_thread_state_def split: option.split)
  have "points (fst (process_samples slept recs p st)) = points p \<and>
      shutdown_run (fst (process_samples slept recs p st)) = shutdown_run p" for p st
    using process_records_frame_points [of recs "(p, st)"]
    by (auto simp: process_samples_def add_delays_def add_delays_at_def split: prod.split)
  then show ?thesis
    by (auto simp: end_sampling_def remove_thread_def put split: option.split prod.split) (metis fst_conv)+
qed

lemma shutdown_frame [simp]: "points (shutdown slept tid recs pr) = points pr" "shutdown_run (shutdown slept tid recs pr)"
  using end_sampling_frame [of slept tid recs] by (simp_all add: shutdown_def)

text \<open>
  C25. A program under coz runs between one start and one shutdown: its \<^verbatim>\<open>main\<close> is entered with the
  profiler started, its own thread sampled and the signals in place; when it returns, the end-to-end point, if
  asked for, has one visit more than the program made, the profiler is shut down, and every later exit
  finds nothing left to do.
\<close>

theorem main_runs_profiled:
  assumes "before_start tid s" "\<not> init_in_progress s" "\<not> initialized s"
    and "wrapped_main env slept tid recs real_main s = Inr (result, s')"
  shows "\<exists>s1 s2. after_start tid s1 \<and> initialized s1 \<and> \<not> init_in_progress s1 \<and> real_main s1 = (result, s2) \<and>
    counter_or_0 (points (prof s')) (Throughput, ''end-to-end'') =
      counter_or_0 (points (prof s2)) (Throughput, ''end-to-end'') + (if end_to_end s2 then 1 else 0) \<and>
    shutdown_run (prof s') \<and> (\<forall>slept' tid' recs' status. exit_process slept' tid' recs' status s' = (status, s'))"
proof -
  obtain s1 where s1: "init_coz env tid s = Inr s1"
    using assms(3,4) by (cases "init_coz env tid s") (simp_all add: wrapped_main_def)
  obtain s2 where s2: "real_main s1 = (result, s2)"
    and s': "s' = in_prof (shutdown slept tid recs) (if end_to_end s2 then in_prof visit_end_to_end s2 else s2)"
    using assms(3,4) s1 by (cases "real_main s1") (simp add: wrapped_main_def Let_def del: in_prof_simps)
  have visit: "counter_or_0 (points (visit_end_to_end pr)) (Throughput, ''end-to-end'') =
      counter_or_0 (points pr) (Throughput, ''end-to-end'') + 1" for pr
    by (auto simp: visit_end_to_end_def get_throughput_point_def counter_defs map_of_update_entry map_add_def
        split: option.split)
  have "exit_process slept' tid' recs' status s' = (status, s')" for slept' tid' recs' status
    by (simp add: exit_process_def s' in_prof_def shutdown_def [of slept' tid' recs'])
  then show ?thesis using init_coz_ok [OF assms(1,2) s1] s2 visit by (auto simp: s')
qed

text \<open>A process that starts in end-to-end mode, with an empty table of threads.\<close>

definition sample_env :: start_env where
  "sample_env = \<lparr>exe_link = Some ''/bin/app'', start_files = sample_fs, proc_maps = sample_text,
     thread_created = True, weak_fails = (\<lambda>i. False)\<rparr>"

definition fresh_coz :: coz where
  "fresh_coz = sample_coz\<lparr>initialized := False,
     environ := (\<lambda>v. if v = ''COZ_END_TO_END'' then Some ''1'' else if v = ''COZ_BINARY_SCOPE'' then Some ''MAIN'' else None)\<rparr>"

lemma fresh_before_start: "before_start 7 fresh_coz" "\<not> init_in_progress fresh_coz" "\<not> initialized fresh_coz"
proof -
  have "get_thread_state 7 sample_profiler = None" by code_simp
  then show "before_start 7 fresh_coz" "\<not> init_in_progress fresh_coz" "\<not> initialized fresh_coz"
    using sample_profiler_inv by (simp_all add: before_start_def fresh_coz_def sample_coz_def unmasked_def)
qed

definition main_returns :: "int real_call" where
  "main_returns s = (3, s)"


theorem main_runs_profiled_witness:
  "\<exists>s'. wrapped_main sample_env (\<lambda>ns. ns) 7 [] main_returns fresh_coz = Inr (3, s') \<and> shutdown_run (prof s') \<and>
    (\<forall>slept' tid' recs' status. exit_process slept' tid' recs' status s' = (status, s'))"
proof -
  have "(case wrapped_main sample_env (\<lambda>ns. ns) 7 [] main_returns fresh_coz of Inl e \<Rightarrow> False | Inr (r, s1) \<Rightarrow> r = 3)"
    by code_simp
  then obtain s1 where s1: "wrapped_main sample_env (\<lambda>ns. ns) 7 [] main_returns fresh_coz = Inr (3, s1)"
    by (cases "wrapped_main sample_env (\<lambda>ns. ns) 7 [] main_returns fresh_coz") auto
  with main_runs_profiled [OF fresh_before_start s1] show ?thesis by blast
qed

end
