(* ===== verification/Perf_Events.thy ===== *)
theory Perf_Events
  imports Profiler Machine_Bytes
begin

text \<open>
  The sampler of a thread, \<^verbatim>\<open>libcoz/perf.cpp\<close> and \<^verbatim>\<open>libcoz/perf.h\<close>: the perf event file with its
  mapping, the iterator over the records of the ring buffer and the fields of a sample. The kernel is
  outside: the results of its calls and the contents of the ring buffer are arguments. Memory is a list
  of bytes, integers in it are little-endian; an access outside the mapped pages or the iterator's
  buffer is a fault, as is \<^verbatim>\<open>FATAL\<close>.
\<close>

section \<open>The perf event\<close>

record perf_event =
  pe_fd :: int
  pe_mapping :: "nat option"
  pe_sample_type :: u64
  pe_read_format :: u64

text \<open>The calls by which an operation releases or switches something.\<close>

datatype pe_call =
    Close_Fd int | Unmap nat | Enable int | Disable int
  | Set_Flags int u32 | Set_Signal int int | Set_Owner int int

definition perf_event_new :: perf_event where
  "perf_event_new = \<lparr>pe_fd = -1, pe_mapping = None, pe_sample_type = 0, pe_read_format = 0\<rparr>"

definition perf_event_construct :: "u64 \<Rightarrow> u64 \<Rightarrow> u64 \<Rightarrow> int \<Rightarrow> nat option \<Rightarrow> c_fault + perf_event" where
  "perf_event_construct sample_type sample_period read_format open_result mmap_result =
     (if open_result = -1 then Inl Aborted
      else if sample_type \<noteq> 0 \<and> sample_period \<noteq> 0 \<and> mmap_result = None then Inl Aborted
      else Inr \<lparr>pe_fd = open_result,
                pe_mapping = (if sample_type \<noteq> 0 \<and> sample_period \<noteq> 0 then mmap_result else None),
                pe_sample_type = sample_type, pe_read_format = read_format\<rparr>)"

text \<open>Moving: what \<open>this\<close> held is released unless it is the other's, and the other is left empty.\<close>

definition perf_event_assign :: "perf_event \<Rightarrow> perf_event \<Rightarrow> perf_event \<times> perf_event \<times> pe_call list" where
  "perf_event_assign this other =
     (other,
      other\<lparr>pe_fd := -1, pe_mapping := None\<rparr>,
      (if pe_fd this \<noteq> -1 \<and> pe_fd this \<noteq> pe_fd other then [Close_Fd (pe_fd this)] else []) @
      (case pe_mapping this of
         None \<Rightarrow> []
       | Some m \<Rightarrow> if pe_mapping other \<noteq> Some m then [Unmap m] else []))"

definition perf_event_move :: "perf_event \<Rightarrow> perf_event \<times> perf_event \<times> pe_call list" where
  "perf_event_move other = perf_event_assign perf_event_new other"

definition perf_event_close :: "perf_event \<Rightarrow> perf_event \<times> pe_call list" where
  "perf_event_close this =
     (this\<lparr>pe_fd := -1, pe_mapping := None\<rparr>,
      (if pe_fd this \<noteq> -1 then [Close_Fd (pe_fd this)] else []) @
      (case pe_mapping this of None \<Rightarrow> [] | Some m \<Rightarrow> [Unmap m]))"

definition perf_event_start :: "bool \<Rightarrow> perf_event \<Rightarrow> c_fault + pe_call list" where
  "perf_event_start ioctl_ok this =
     (if pe_fd this \<noteq> -1 then (if ioctl_ok then Inr [Enable (pe_fd this)] else Inl Aborted) else Inr [])"

definition perf_event_stop :: "bool \<Rightarrow> perf_event \<Rightarrow> c_fault + pe_call list" where
  "perf_event_stop ioctl_ok this =
     (if pe_fd this \<noteq> -1 then (if ioctl_ok then Inr [Disable (pe_fd this)] else Inl Aborted) else Inr [])"

text \<open>The count is the eight bytes \<^verbatim>\<open>read\<close> delivers, or the read is too short.\<close>

definition perf_event_get_count :: "u8 list \<Rightarrow> c_fault + u64" where
  "perf_event_get_count bytes = (if length bytes = 8 then Inr (of_le_bytes bytes) else Inl Aborted)"

text \<open>\<^verbatim>\<open>O_ASYNC\<close> is added to the flags; the booleans are the outcomes of the three \<^verbatim>\<open>fcntl\<close> calls.\<close>

definition perf_event_set_ready_signal ::
  "u32 \<Rightarrow> bool \<Rightarrow> bool \<Rightarrow> bool \<Rightarrow> int \<Rightarrow> int \<Rightarrow> perf_event \<Rightarrow> c_fault + pe_call list" where
  "perf_event_set_ready_signal flags ok1 ok2 ok3 sig tid this =
     (if ok1 \<and> ok2 \<and> ok3
      then Inr [Set_Flags (pe_fd this) (flags OR 0x2000), Set_Signal (pe_fd this) sig, Set_Owner (pe_fd this) tid]
      else Inl Aborted)"

text \<open>\<^verbatim>\<open>state->sampler = perf_event(pe)\<close>: assignment from a temporary, which is then destroyed.\<close>

definition sampler_assign :: "perf_event \<Rightarrow> perf_event \<Rightarrow> perf_event \<times> pe_call list" where
  "sampler_assign this tmp =
     (case perf_event_assign this tmp of (this', tmp', calls) \<Rightarrow>
        (this', calls @ snd (perf_event_close tmp')))"

section \<open>The ring buffer\<close>

definition DataPages :: int where "DataPages = 2"
definition PageSize :: int where "PageSize = 0x1000"
definition DataSize :: int where "DataSize = DataPages * PageSize"

record ring =
  ring_data :: "u8 list"
  data_head :: u64
  data_tail :: u64

text \<open>\<^verbatim>\<open>memcpy\<close> from an offset into the data pages.\<close>

definition memory_at :: "u8 list \<Rightarrow> int \<Rightarrow> int \<Rightarrow> c_fault + u8 list" where
  "memory_at mem start n =
     (if 0 \<le> start \<and> 0 \<le> n \<and> start + n \<le> int (length mem)
      then Inr (take (nat n) (drop (nat start) mem)) else Inl Out_Of_Bounds)"

definition copy_from_ring_buffer :: "u8 list \<Rightarrow> u64 \<Rightarrow> u64 \<Rightarrow> c_fault + u8 list" where
  "copy_from_ring_buffer data index bytes =
     (let start_index = word_of_int (c_mod (sint index) DataSize) :: u64;
          end_index = start_index + bytes
      in if uint end_index \<le> DataSize then memory_at data (sint start_index) (uint bytes)
         else (let chunk2_size = end_index - word_of_int DataSize;
                   chunk1_size = bytes - chunk2_size
               in ebind (memory_at data (sint start_index) (uint chunk1_size)) (\<lambda>c1.
                  ebind (memory_at data 0 (uint chunk2_size)) (\<lambda>c2. Inr (c1 @ c2)))))"

text \<open>The header of a record: type, misc and size; eight bytes.\<close>

definition header_type :: "u8 list \<Rightarrow> u32" where
  "header_type bs = of_le_bytes (take 4 bs)"

definition header_size :: "u8 list \<Rightarrow> u16" where
  "header_size bs = of_le_bytes (take 2 (drop 6 bs))"

record ring_iter =
  it_index :: u64
  it_head :: u64
  it_buf :: "u8 list"

definition iterator_begin :: "u8 list \<Rightarrow> ring \<Rightarrow> ring_iter" where
  "iterator_begin stack r = \<lparr>it_index = data_tail r, it_head = data_head r, it_buf = stack\<rparr>"

definition has_data :: "ring \<Rightarrow> ring_iter \<Rightarrow> c_fault + bool" where
  "has_data r it =
     (if it_index it + 8 \<ge> it_head it then Inr False
      else ebind (copy_from_ring_buffer (ring_data r) (it_index it) 8) (\<lambda>hdr.
             Inr (\<not> it_index it + ucast (header_size hdr) > it_head it)))"

definition next_record :: "ring \<Rightarrow> ring_iter \<Rightarrow> c_fault + ring_iter" where
  "next_record r it =
     ebind (copy_from_ring_buffer (ring_data r) (it_index it) 8) (\<lambda>hdr.
       Inr (it\<lparr>it_index := it_index it + ucast (header_size hdr)\<rparr>))"

text \<open>The record is copied into the iterator's buffer of 4096 bytes.\<close>

definition write_buf :: "u8 list \<Rightarrow> u8 list \<Rightarrow> c_fault + u8 list" where
  "write_buf buf bs = (if length bs \<le> length buf then Inr (bs @ drop (length bs) buf) else Inl Out_Of_Bounds)"

definition get_record :: "ring \<Rightarrow> ring_iter \<Rightarrow> c_fault + ring_iter" where
  "get_record r it =
     ebind (copy_from_ring_buffer (ring_data r) (it_index it) 8) (\<lambda>hdr.
     ebind (write_buf (it_buf it) hdr) (\<lambda>buf1.
     ebind (copy_from_ring_buffer (ring_data r) (it_index it) (ucast (header_size buf1))) (\<lambda>bs.
     ebind (write_buf buf1 bs) (\<lambda>buf2. Inr (it\<lparr>it_buf := buf2\<rparr>)))))"

text \<open>
  The loop \<^verbatim>\<open>for (record r : sampler)\<close> with a body that may fault; the iterator's destructor writes
  the tail. The comparison with the end is \<^verbatim>\<open>has_data() != false\<close>. A record of size 0 keeps the loop
  from ending.
\<close>

definition read_step ::
  "(u8 list \<Rightarrow> 's \<Rightarrow> c_fault + 's) \<Rightarrow> ring \<Rightarrow> ring_iter \<times> 's \<Rightarrow> c_fault + ring_iter \<times> 's" where
  "read_step body r x =
     ebind (get_record r (fst x)) (\<lambda>it1.
     ebind (body (it_buf it1) (snd x)) (\<lambda>s1.
     ebind (next_record r it1) (\<lambda>it2. Inr (it2, s1))))"

partial_function (option) read_loop ::
  "(u8 list \<Rightarrow> 's \<Rightarrow> c_fault + 's) \<Rightarrow> ring \<Rightarrow> ring_iter \<times> 's \<Rightarrow> (c_fault + ring_iter \<times> 's) option" where
  "read_loop body r x =
     (case has_data r (fst x) of
        Inl e \<Rightarrow> Some (Inl e)
      | Inr ready \<Rightarrow>
          (if ready then
             (case read_step body r x of
                Inl e \<Rightarrow> Some (Inl e)
              | Inr x' \<Rightarrow> read_loop body r x')
           else Some (Inr x)))"

definition read_all ::
  "(u8 list \<Rightarrow> 's \<Rightarrow> c_fault + 's) \<Rightarrow> u8 list \<Rightarrow> ring \<Rightarrow> 's \<Rightarrow> (c_fault + ring \<times> 's) option" where
  "read_all body stack r s =
     (case read_loop body r (iterator_begin stack r, s) of
        None \<Rightarrow> None
      | Some (Inl e) \<Rightarrow> Some (Inl e)
      | Some (Inr (it, s')) \<Rightarrow> Some (Inr (r\<lparr>data_tail := it_index it\<rparr>, s')))"

section \<open>The fields of a sample\<close>

datatype sample =
    Ip | Pid_tid | Time | Addr | Sample_id | Stream_id | Cpu | Period | Read | Callchain | Raw
  | Branch_stack | Regs | Stack | End

text \<open>
  The values of \<^verbatim>\<open>enum class sample\<close>; the last is \<^verbatim>\<open>PERF_SAMPLE_MAX\<close> of the kernel header, which no getter seeks. \<^verbatim>\<open>PREF_SAMPLE_READ\<close> is not defined, and the other three names
  that \<^verbatim>\<open>#if defined\<close> tests are enumerators of the kernel header, not macros: the four values are 0.
\<close>

fun sample_bits :: "sample \<Rightarrow> u64" where
  "sample_bits Ip = 0x1"
| "sample_bits Pid_tid = 0x2"
| "sample_bits Time = 0x4"
| "sample_bits Addr = 0x8"
| "sample_bits Sample_id = 0x40"
| "sample_bits Stream_id = 0x200"
| "sample_bits Cpu = 0x80"
| "sample_bits Period = 0x100"
| "sample_bits Read = 0"
| "sample_bits Callchain = 0x20"
| "sample_bits Raw = 0x400"
| "sample_bits Branch_stack = 0"
| "sample_bits Regs = 0"
| "sample_bits Stack = 0"
| "sample_bits End = 0x2000000"

definition is_sampling :: "u64 \<Rightarrow> sample \<Rightarrow> bool" where
  "is_sampling sample_type s \<longleftrightarrow> sample_type AND sample_bits s \<noteq> 0"

definition read_u64 :: "u8 list \<Rightarrow> u64 \<Rightarrow> c_fault + u64" where
  "read_u64 buf p = ebind (memory_at buf (uint p) 8) (\<lambda>bs. Inr (of_le_bytes bs))"

definition read_u32 :: "u8 list \<Rightarrow> u64 \<Rightarrow> c_fault + u32" where
  "read_u32 buf p = ebind (memory_at buf (uint p) 4) (\<lambda>bs. Inr (of_le_bytes bs))"

text \<open>What is skipped for a field that is sampled and not the one sought.\<close>

definition skip_read :: "u64 \<Rightarrow> u8 list \<Rightarrow> u64 \<Rightarrow> c_fault + u64" where
  "skip_read read_format buf p =
     ebind (if read_format AND 8 \<noteq> 0
            then ebind (read_u64 buf p) (\<lambda>nr.
                   Inr (p + (8 + nr * (if read_format AND 4 \<noteq> 0 then 16 else 8))))
            else Inr (if read_format AND 4 \<noteq> 0 then p + 8 + 8 else p + 8)) (\<lambda>p1.
       let p2 = (if read_format AND 1 \<noteq> 0 then p1 + 8 else p1)
       in Inr (if read_format AND 2 \<noteq> 0 then p2 + 8 else p2))"

fun skip_field :: "u64 \<Rightarrow> u8 list \<Rightarrow> sample \<Rightarrow> u64 \<Rightarrow> c_fault + u64" where
  "skip_field read_format buf Pid_tid p = Inr (p + (4 + 4))"
| "skip_field read_format buf Cpu p = Inr (p + (4 + 4))"
| "skip_field read_format buf Read p = skip_read read_format buf p"
| "skip_field read_format buf Callchain p = ebind (read_u64 buf p) (\<lambda>nr. Inr (p + (8 + nr * 8)))"
| "skip_field read_format buf Raw p = ebind (read_u32 buf p) (\<lambda>raw_size. Inr (p + (4 + ucast raw_size)))"
| "skip_field read_format buf Branch_stack p = Inl Aborted"
| "skip_field read_format buf Regs p = Inl Aborted"
| "skip_field read_format buf Stack p = Inl Aborted"
| "skip_field read_format buf _ p = Inr (p + 8)"

fun locate_from :: "u64 \<Rightarrow> u64 \<Rightarrow> u8 list \<Rightarrow> sample \<Rightarrow> sample list \<Rightarrow> u64 \<Rightarrow> c_fault + u64" where
  "locate_from sample_type read_format buf s [] p = Inl Aborted"
| "locate_from sample_type read_format buf s (f # fs) p =
     (if sample_bits s = sample_bits f then Inr p
      else ebind (if is_sampling sample_type f then skip_field read_format buf f p else Inr p)
             (locate_from sample_type read_format buf s fs))"

definition field_order :: "sample list" where
  "field_order = [Ip, Pid_tid, Time, Addr, Sample_id, Stream_id, Cpu, Period, Read, Callchain, Raw,
     Branch_stack, Regs, Stack, End]"

definition locate_field :: "perf_event \<Rightarrow> u8 list \<Rightarrow> sample \<Rightarrow> c_fault + u64" where
  "locate_field pe buf s = locate_from (pe_sample_type pe) (pe_read_format pe) buf s field_order 8"

definition record_is_sample :: "u8 list \<Rightarrow> bool" where
  "record_is_sample buf \<longleftrightarrow> header_type buf = 9"

text \<open>\<^verbatim>\<open>ASSERT\<close>, as compiled without \<^verbatim>\<open>NDEBUG\<close>, and the place of the field.\<close>

definition sample_field :: "perf_event \<Rightarrow> u8 list \<Rightarrow> sample \<Rightarrow> c_fault + u64" where
  "sample_field pe buf s =
     (if record_is_sample buf \<and> is_sampling (pe_sample_type pe) s then locate_field pe buf s else Inl Aborted)"

definition get_ip :: "perf_event \<Rightarrow> u8 list \<Rightarrow> c_fault + u64" where
  "get_ip pe buf = ebind (sample_field pe buf Ip) (read_u64 buf)"

definition get_pid :: "perf_event \<Rightarrow> u8 list \<Rightarrow> c_fault + u64" where
  "get_pid pe buf = ebind (sample_field pe buf Pid_tid) (\<lambda>p. ebind (read_u32 buf p) (\<lambda>v. Inr (ucast v)))"

definition get_tid :: "perf_event \<Rightarrow> u8 list \<Rightarrow> c_fault + u64" where
  "get_tid pe buf = ebind (sample_field pe buf Pid_tid) (\<lambda>p. ebind (read_u32 buf (p + 4)) (\<lambda>v. Inr (ucast v)))"

definition get_time :: "perf_event \<Rightarrow> u8 list \<Rightarrow> c_fault + u64" where
  "get_time pe buf = ebind (sample_field pe buf Time) (read_u64 buf)"

definition get_cpu :: "perf_event \<Rightarrow> u8 list \<Rightarrow> c_fault + u32" where
  "get_cpu pe buf = ebind (sample_field pe buf Cpu) (read_u32 buf)"

text \<open>The call chain, with the elements a walk over the whole \<^verbatim>\<open>wrapped_array\<close> reads.\<close>

definition get_callchain :: "perf_event \<Rightarrow> u8 list \<Rightarrow> c_fault + u64 list" where
  "get_callchain pe buf =
     ebind (sample_field pe buf Callchain) (\<lambda>p.
     ebind (read_u64 buf p) (\<lambda>size.
       emap (\<lambda>i. read_u64 buf (p + 8 + 8 * of_nat i)) [0..<unat size]))"

section \<open>The records of the profiler\<close>

definition to_record :: "perf_event \<Rightarrow> u8 list \<Rightarrow> c_fault + perf_record" where
  "to_record pe buf =
     (if record_is_sample buf
      then ebind (get_ip pe buf) (\<lambda>ip. ebind (get_callchain pe buf) (\<lambda>chain.
             Inr \<lparr>is_sample = True, sample_ip = ip, callchain = chain\<rparr>))
      else Inr \<lparr>is_sample = False, sample_ip = 0, callchain = []\<rparr>)"

definition sampler_records :: "perf_event \<Rightarrow> u8 list \<Rightarrow> ring \<Rightarrow> (c_fault + ring \<times> perf_record list) option" where
  "sampler_records pe stack r =
     read_all (\<lambda>buf recs. ebind (to_record pe buf) (\<lambda>x. Inr (recs @ [x]))) stack r []"

text \<open>\<^verbatim>\<open>process_samples\<close> over the ring buffer of the thread's sampler.\<close>

definition process_sampler ::
  "(u64 \<Rightarrow> u64) \<Rightarrow> perf_event \<Rightarrow> u8 list \<Rightarrow> ring \<Rightarrow> profiler \<Rightarrow> thread_state \<Rightarrow>
   (c_fault + ring \<times> profiler \<times> thread_state) option" where
  "process_sampler slept pe stack r pr st =
     (case sampler_records pe stack r of
        None \<Rightarrow> None
      | Some (Inl e) \<Rightarrow> Some (Inl e)
      | Some (Inr (r', recs)) \<Rightarrow> Some (Inr (r', process_samples slept recs pr st)))"

end
