(* ===== verification/Perf_Events_Facts.thy ===== *)
theory Perf_Events_Facts
  imports Perf_Events Profiler_Accounting
begin

text \<open>
  The sampler reads what the kernel wrote: the iterator delivers the records of the ring buffer in
  order, wherever they wrap around, the getters find their fields for every sample type, and the
  profiler processes exactly these samples. What the kernel writes is its documented format.
\<close>

section \<open>Resources\<close>

lemma sampler_assign_releases:
  assumes "pe_fd tmp \<noteq> pe_fd this" "pe_mapping tmp \<noteq> pe_mapping this \<or> pe_mapping this = None"
  shows "sampler_assign this tmp = (tmp, snd (perf_event_close this))"
  using assms
  by (auto simp: sampler_assign_def perf_event_assign_def perf_event_close_def split: option.splits)

section \<open>The ring buffer as a stream of bytes\<close>

definition ring_bytes :: "u8 list \<Rightarrow> nat \<Rightarrow> nat \<Rightarrow> u8 list" where
  "ring_bytes data i n = map (\<lambda>k. data ! ((i + k) mod 8192)) [0..<n]"

lemma length_ring_bytes [simp]: "length (ring_bytes data i n) = n"
  by (simp add: ring_bytes_def)

lemma ring_bytes_add: "ring_bytes data i (a + b) = ring_bytes data i a @ ring_bytes data (i + a) b"
  by (intro nth_equalityI) (auto simp: ring_bytes_def nth_append)

lemma take_ring_bytes: "m \<le> n \<Longrightarrow> take m (ring_bytes data i n) = ring_bytes data i m"
  by (simp add: ring_bytes_def take_map)

lemma ring_bytes_mod: "ring_bytes data (i mod 8192) n = ring_bytes data i n"
  by (simp add: ring_bytes_def mod_add_left_eq)

lemma ring_bytes_straight: "i + n \<le> 8192 \<Longrightarrow> length data = 8192 \<Longrightarrow> ring_bytes data i n = take n (drop i data)"
  by (intro nth_equalityI) (auto simp: ring_bytes_def)

lemma DataSize_value: "DataSize = 8192"
  by (simp add: DataSize_def DataPages_def PageSize_def)

lemma sint_small: "unat (w :: u64) < 2 ^ 63 \<Longrightarrow> sint w = int (unat w)"
proof -
  assume "unat w < 2 ^ 63"
  then have "int (unat w) < int (2 ^ 63)" by (simp only: of_nat_less_iff)
  then have "sint (word_of_int (int (unat w)) :: u64) = int (unat w)"
    using order_trans [of "- (2 ^ 63)" 0 "int (unat w)"]
    by (intro sint_word_of_int_fits) (simp add: fits_signed_def)
  then show ?thesis by simp
qed

lemma uint_of_unat: "unat w = k \<Longrightarrow> uint w = int k"
  by auto

lemma copy_ring_bytes:
  assumes "length data = 8192" "unat index < 2 ^ 63" "unat bytes \<le> 8192"
  shows "copy_from_ring_buffer data index bytes = Inr (ring_bytes data (unat index) (unat bytes))"
proof -
  define i where "i = unat index mod 8192"
  define n where "n = unat bytes"
  define start where "start = (word_of_int (c_mod (sint index) DataSize) :: u64)"
  have i: "i < 8192" by (simp add: i_def)
  have n: "n \<le> 8192" using assms(3) by (simp add: n_def)
  have "c_mod (sint index) DataSize = int i"
    using sint_small [OF assms(2)] by (simp add: DataSize_value c_mod_nonneg zmod_int i_def)
  then have "start = of_nat i" by (simp add: start_def)
  then have start: "unat start = i" using i by (simp add: unsigned_of_nat take_bit_nat_eq_self)
  then have sstart: "sint start = int i" using i sint_small [of start] by simp
  have "unat (start + bytes) = (i + n) mod 2 ^ 64"
    unfolding unat_word_ariths start n_def [symmetric] by simp
  then have stop: "unat (start + bytes) = i + n" using i n by simp
  then have ustop: "uint (start + bytes) = int (i + n)" by (rule uint_of_unat)
  have ubytes: "uint bytes = int n" by (rule uint_of_unat) (simp add: n_def)
  define c2 where "c2 = start + bytes - word_of_int DataSize"
  have copy: "copy_from_ring_buffer data index bytes =
      (if uint (start + bytes) \<le> DataSize then memory_at data (sint start) (uint bytes)
       else ebind (memory_at data (sint start) (uint (bytes - c2))) (\<lambda>b1.
            ebind (memory_at data 0 (uint c2)) (\<lambda>b2. Inr (b1 @ b2))))"
    by (simp only: copy_from_ring_buffer_def Let_def start_def c2_def)
  show ?thesis
  proof (cases "i + n \<le> 8192")
    case True
    then have "copy_from_ring_buffer data index bytes = memory_at data (int i) (int n)"
      by (simp add: copy DataSize_value ustop sstart ubytes)
    also have "\<dots> = Inr (ring_bytes data i n)"
      using True ring_bytes_straight [OF True assms(1)] assms(1) by (simp add: memory_at_def)
    finally show ?thesis by (simp add: i_def n_def ring_bytes_mod)
  next
    case False
    have "unat c2 = i + n - 8192"
      using False stop i n
      by (simp add: c2_def DataSize_value) (simp add: unat_sub word_le_nat_alt stop)
    then have u2: "uint c2 = int (i + n - 8192)" by (rule uint_of_unat)
    have "unat (bytes - c2) = n - (i + n - 8192)"
      using \<open>unat c2 = i + n - 8192\<close> i False by (simp add: unat_sub word_le_nat_alt n_def [symmetric])
    then have u1: "uint (bytes - c2) = int (8192 - i)" using i n False by (intro uint_of_unat) simp
    have "copy_from_ring_buffer data index bytes =
        ebind (memory_at data (int i) (int (8192 - i))) (\<lambda>b1.
        ebind (memory_at data 0 (int (i + n - 8192))) (\<lambda>b2. Inr (b1 @ b2)))"
      using False unfolding copy u1 u2 ustop sstart DataSize_value by simp
    also have "\<dots> = Inr (ring_bytes data i (8192 - i) @ ring_bytes data 0 (i + n - 8192))"
      using ring_bytes_straight [of i "8192 - i" data] ring_bytes_straight [of 0 "i + n - 8192" data] i n assms(1)
      by (simp add: memory_at_def)
    also have "ring_bytes data 0 (i + n - 8192) = ring_bytes data (i + (8192 - i)) (i + n - 8192)"
      using ring_bytes_mod [of data 8192] i by simp
    also have "ring_bytes data i (8192 - i) @ \<dots> = ring_bytes data i n"
      using ring_bytes_add [of data i "8192 - i" "i + n - 8192"] i False by simp
    finally show ?thesis by (simp add: i_def n_def ring_bytes_mod)
  qed
qed

section \<open>Records\<close>

text \<open>A record as the kernel writes it: type, misc, size of the whole, and the rest.\<close>

type_synonym raw_record = "u32 \<times> u16 \<times> u8 list"

fun encode_record :: "raw_record \<Rightarrow> u8 list" where
  "encode_record (ty, misc, payload) =
     le_bytes 4 ty @ le_bytes 2 misc @ le_bytes 2 (of_nat (8 + length payload) :: u16) @ payload"

fun record_ok :: "raw_record \<Rightarrow> bool" where
  "record_ok (ty, misc, payload) \<longleftrightarrow> payload \<noteq> [] \<and> length payload \<le> 4088"

lemma record_length: "record_ok rc \<Longrightarrow> 9 \<le> length (encode_record rc) \<and> length (encode_record rc) \<le> 4096"
  by (cases rc) (auto simp: Suc_le_eq)

lemma header_size_record:
  assumes "record_ok rc" "take 8 bs = take 8 (encode_record rc)"
  shows "unat (header_size bs) = length (encode_record rc)"
proof -
  obtain ty misc payload where rc: "rc = (ty, misc, payload)" by (cases rc) auto
  have "take 2 (drop 6 bs) = take 2 (drop 6 (take 8 bs))" by (simp add: drop_take)
  also have "\<dots> = le_bytes 2 (of_nat (8 + length payload) :: u16)"
    unfolding assms(2) by (simp add: rc drop_take)
  finally have "header_size bs = (of_nat (8 + length payload) :: u16)"
    by (simp only: header_size_def) (rule of_le_bytes_le_bytes, simp)
  then show ?thesis
    using assms(1) unat_of_nat_small [of "8 + length payload", where 'a = 16] by (simp add: rc)
qed

lemma header_type_record: "take 4 bs = take 4 (encode_record (ty, misc, payload)) \<Longrightarrow> header_type bs = ty"
  by (simp add: header_type_def of_le_bytes_le_bytes)

text \<open>The records that are in the ring buffer from an index on.\<close>

definition holds :: "ring \<Rightarrow> u64 \<Rightarrow> raw_record list \<Rightarrow> bool" where
  "holds r i recs \<longleftrightarrow>
     length (ring_data r) = 8192 \<and> unat (data_head r) < 2 ^ 62 \<and> unat i \<le> unat (data_head r) \<and>
     ring_bytes (ring_data r) (unat i) (unat (data_head r) - unat i) = concat (map encode_record recs) \<and>
     list_all record_ok recs"

lemma holds_Nil: "holds r i [] \<Longrightarrow> i = data_head r"
  using arg_cong [of "ring_bytes (ring_data r) (unat i) (unat (data_head r) - unat i)" "[]" length]
  by (simp add: holds_def word_unat_eq_iff ring_bytes_def)

lemma holds_Cons:
  assumes "holds r i (rc # recs)"
  defines "l \<equiv> length (encode_record rc)"
  shows "unat i + l \<le> unat (data_head r)" "unat (i + of_nat l) = unat i + l"
    "holds r (i + of_nat l) recs" "ring_bytes (ring_data r) (unat i) l = encode_record rc"
proof -
  have ok: "record_ok rc" and head: "unat (data_head r) < 2 ^ 62" using assms(1) by (simp_all add: holds_def)
  have bytes: "ring_bytes (ring_data r) (unat i) (unat (data_head r) - unat i) = encode_record rc @ concat (map encode_record recs)"
    using assms(1) by (simp add: holds_def)
  from arg_cong [OF bytes, of length] have len: "unat (data_head r) - unat i = l + length (concat (map encode_record recs))"
    by (simp add: l_def)
  have l: "0 < l" "l \<le> 4096" using record_length [OF ok] unfolding l_def by linarith+
  show room: "unat i + l \<le> unat (data_head r)" using len l by linarith
  have "unat (i + of_nat l) = (unat i + unat (of_nat l :: u64)) mod 2 ^ 64"
    using unat_word_ariths(1) [of i "of_nat l"] by simp
  also have "unat (of_nat l :: u64) = l" using l by (simp add: unsigned_of_nat take_bit_nat_eq_self)
  also have "(unat i + l) mod 2 ^ 64 = unat i + l" using room head by (intro mod_less) simp
  finally show sum: "unat (i + of_nat l) = unat i + l" .
  have split: "ring_bytes (ring_data r) (unat i) l @
      ring_bytes (ring_data r) (unat i + l) (length (concat (map encode_record recs))) =
      encode_record rc @ concat (map encode_record recs)"
    using bytes unfolding len ring_bytes_add .
  then show "ring_bytes (ring_data r) (unat i) l = encode_record rc" by (simp add: l_def)
  have "ring_bytes (ring_data r) (unat i + l) (length (concat (map encode_record recs))) = concat (map encode_record recs)"
    using split by (simp add: l_def)
  moreover have "unat (data_head r) - (unat i + l) = length (concat (map encode_record recs))" using len by simp
  ultimately show "holds r (i + of_nat l) recs" using assms(1) room by (simp add: holds_def sum)
qed

lemma holds_header:
  assumes "holds r i (rc # recs)"
  shows "copy_from_ring_buffer (ring_data r) i 8 = Inr (take 8 (encode_record rc))"
proof -
  note c = holds_Cons [OF assms]
  have "8 \<le> length (encode_record rc)" using assms record_length [of rc] by (simp add: holds_def)
  then have "ring_bytes (ring_data r) (unat i) 8 = take 8 (encode_record rc)"
    using c(4) take_ring_bytes [of 8 "length (encode_record rc)" "ring_data r" "unat i"] by simp
  moreover have "unat i < 2 ^ 63" "length (ring_data r) = 8192" using c(1) assms by (simp_all add: holds_def)
  ultimately show ?thesis using copy_ring_bytes [of "ring_data r" i 8] by simp
qed

lemma header_size_cast:
  assumes "record_ok rc" "take 8 bs = take 8 (encode_record rc)"
  shows "(ucast (header_size bs) :: u64) = of_nat (length (encode_record rc))"
  unfolding header_size_record [OF assms, symmetric] by simp

lemma has_data_record:
  assumes "holds r (it_index it) (rc # recs)" "it_head it = data_head r"
  shows "has_data r it = Inr True"
proof -
  note c = holds_Cons [OF assms(1)]
  have ok: "record_ok rc" and head: "unat (data_head r) < 2 ^ 62" using assms by (simp_all add: holds_def)
  have long: "9 \<le> length (encode_record rc)" using record_length [OF ok] by simp
  have "unat (it_index it + 8) = (unat (it_index it) + 8) mod 2 ^ 64"
    using unat_word_ariths(1) [of "it_index it" 8] by simp
  also have "\<dots> = unat (it_index it) + 8" using c(1) head long by (intro mod_less) simp
  finally have "\<not> data_head r \<le> it_index it + 8" using c(1) long by (simp add: word_le_nat_alt)
  moreover have "it_index it + of_nat (length (encode_record rc)) \<le> data_head r"
    unfolding word_le_nat_alt c(2) by (rule c(1))
  moreover have "(ucast (header_size (take 8 (encode_record rc))) :: u64) = of_nat (length (encode_record rc))"
    by (rule header_size_cast [OF ok]) simp
  ultimately show ?thesis
    by (simp add: has_data_def holds_header [OF assms(1)] assms(2))
qed

lemma get_record_record:
  assumes "holds r (it_index it) (rc # recs)" "length (it_buf it) = 4096"
  shows "get_record r it = Inr (it\<lparr>it_buf := encode_record rc @ drop (length (encode_record rc)) (it_buf it)\<rparr>)"
proof -
  let ?e = "encode_record rc"
  note c = holds_Cons [OF assms(1)]
  have ok: "record_ok rc" using assms(1) by (simp add: holds_def)
  have len: "9 \<le> length ?e" "length ?e \<le> 4096" using record_length [OF ok] by simp_all
  have size: "(ucast (header_size (take 8 ?e @ drop 8 (it_buf it))) :: u64) = of_nat (length ?e)"
    using len by (intro header_size_cast [OF ok]) simp
  have "unat (of_nat (length ?e) :: u64) = length ?e"
    by (rule unat_of_nat_small) (rule le_less_trans [OF len(2)], simp)
  then have "copy_from_ring_buffer (ring_data r) (it_index it) (of_nat (length ?e)) = Inr ?e"
    using copy_ring_bytes [of "ring_data r" "it_index it" "of_nat (length ?e)"] c(1,4) assms(1) len(2)
    by (simp add: holds_def)
  then show ?thesis
    using len assms(2)
    by (simp add: get_record_def holds_header [OF assms(1)] write_buf_def size)
qed

lemma next_record_record:
  assumes "holds r (it_index it) (rc # recs)"
  shows "next_record r it = Inr (it\<lparr>it_index := it_index it + of_nat (length (encode_record rc))\<rparr>)"
proof -
  have "record_ok rc" using assms by (simp add: holds_def)
  then have "(ucast (header_size (take 8 (encode_record rc))) :: u64) = of_nat (length (encode_record rc))"
    by (rule header_size_cast) simp
  then show ?thesis by (simp add: next_record_def holds_header [OF assms])
qed

text \<open>The loop over the ring buffer is the fold of its body over the records.\<close>

lemma read_loop_records:
  assumes "holds r (it_index it) recs" "length (it_buf it) = 4096" "it_head it = data_head r"
    and "\<And>rc rest s. rc \<in> set recs \<Longrightarrow> length (encode_record rc @ rest) = 4096 \<Longrightarrow>
      body (encode_record rc @ rest) s = Inr (g rc s)"
  shows "\<exists>it'. read_loop body r (it, s) = Some (Inr (it', fold g recs s)) \<and> it_index it' = data_head r"
  using assms
proof (induction recs arbitrary: it s)
  case Nil
  have "it_index it = data_head r" using holds_Nil [OF Nil.prems(1)] .
  moreover have "data_head r \<le> data_head r + 8"
  proof -
    have "unat (data_head r) < 2 ^ 62" using Nil.prems(1) by (simp add: holds_def)
    then have "(unat (data_head r) + 8) mod 2 ^ 64 = unat (data_head r) + 8" by (intro mod_less) simp
    then show ?thesis using unat_word_ariths(1) [of "data_head r" 8] by (simp add: word_le_nat_alt)
  qed
  ultimately show ?case using Nil.prems(3) by (subst read_loop.simps) (simp add: has_data_def)
next
  case (Cons rc recs)
  note has = has_data_record [OF Cons.prems(1,3)]
  let ?it1 = "it\<lparr>it_buf := encode_record rc @ drop (length (encode_record rc)) (it_buf it)\<rparr>"
  let ?it2 = "?it1\<lparr>it_index := it_index it + of_nat (length (encode_record rc))\<rparr>"
  have get: "get_record r it = Inr ?it1" by (rule get_record_record) fact+
  have after: "next_record r ?it1 = Inr ?it2" using next_record_record [of r ?it1 rc recs] Cons.prems(1) by simp
  have len: "length (encode_record rc) \<le> 4096"
    using Cons.prems(1) record_length [of rc] by (simp add: holds_def)
  then have "length (encode_record rc @ drop (length (encode_record rc)) (it_buf it)) = 4096"
    using Cons.prems(2) by simp
  from Cons.prems(4) [OF _ this] have step: "read_step body r (it, s) = Inr (?it2, g rc s)"
    by (simp add: read_step_def get after)
  have "\<exists>it'. read_loop body r (?it2, g rc s) = Some (Inr (it', fold g recs (g rc s))) \<and> it_index it' = data_head r"
    using holds_Cons(3) [OF Cons.prems(1)] Cons.prems(2-4) len by (intro Cons.IH) simp_all
  then show ?case using has step by (subst read_loop.simps) simp
qed

section \<open>The fields of a sample\<close>

text \<open>
  The sample the kernel writes for a sample type: the selected 8-byte fields in its order, what
  \<^verbatim>\<open>PERF_SAMPLE_READ\<close> (bit 4) adds, and the call chain.
\<close>

definition fixed_fields :: "sample list" where
  "fixed_fields = [Ip, Pid_tid, Time, Addr, Sample_id, Stream_id, Cpu, Period]"

definition encode_field :: "u64 \<Rightarrow> (sample \<Rightarrow> u64) \<Rightarrow> sample \<Rightarrow> u8 list" where
  "encode_field st fv f = (if is_sampling st f then le_bytes 8 (fv f) else [])"

definition encode_chain :: "u64 list \<Rightarrow> u8 list" where
  "encode_chain chain = le_bytes 8 (of_nat (length chain) :: u64) @ concat (map (le_bytes 8) chain)"

definition encode_sample :: "u64 \<Rightarrow> (sample \<Rightarrow> u64) \<Rightarrow> u8 list \<Rightarrow> u64 list \<Rightarrow> u8 list" where
  "encode_sample st fv read_part chain =
     concat (map (encode_field st fv) fixed_fields) @ (if st AND 0x10 \<noteq> 0 then read_part else []) @
     (if is_sampling st Callchain then encode_chain chain else [])"

lemma read_u64_at:
  assumes "buf = a @ le_bytes 8 v @ b" "p = of_nat (length a)" "length buf \<le> 4096"
  shows "read_u64 buf p = Inr v"
proof -
  have "length a \<le> 4096" using assms(1,3) by simp
  then have "unat p = length a" unfolding assms(2) by (intro unat_of_nat_small) (rule le_less_trans, assumption, simp)
  then have "uint p = int (length a)" by (rule uint_of_unat)
  then show ?thesis by (simp add: read_u64_def memory_at_def assms(1) of_le_bytes_le_bytes)
qed

lemma locate_prefix:
  assumes "\<And>x. x \<in> set pre \<Longrightarrow> sample_bits s \<noteq> sample_bits x"
    and "\<And>x q. x \<in> set pre \<Longrightarrow> is_sampling st x \<Longrightarrow> skip_field rf buf x q = Inr (q + 8)"
  shows "locate_from st rf buf s (pre @ s # post) p = Inr (p + of_nat (8 * length (filter (is_sampling st) pre)))"
  using assms by (induction pre arbitrary: p) (simp_all add: algebra_simps)

lemma length_encoded_fields:
  "length (concat (map (encode_field st fv) fs)) = 8 * length (filter (is_sampling st) fs)"
  by (induction fs) (simp_all add: encode_field_def)

text \<open>A field of a sample that precedes the variable part.\<close>

lemma fixed_field_read:
  assumes "fixed_fields = pre @ f # post" "is_sampling (pe_sample_type pe) f" "header_type buf = 9"
    and "buf = hdr @ concat (map (encode_field (pe_sample_type pe) fv) fixed_fields) @ rest"
    and "length hdr = 8" "length buf \<le> 4096"
  shows "\<exists>a b. sample_field pe buf f = Inr (of_nat (length a)) \<and> buf = a @ le_bytes 8 (fv f) @ b"
proof (intro exI conjI)
  let ?st = "pe_sample_type pe"
  let ?a = "hdr @ concat (map (encode_field ?st fv) pre)"
  let ?b = "concat (map (encode_field ?st fv) post) @ rest"
  have dist: "distinct (map sample_bits fixed_fields)" by (simp add: fixed_fields_def)
  have pre: "set pre \<subseteq> set fixed_fields" unfolding assms(1) by auto
  have "locate_from ?st (pe_read_format pe) buf f (pre @ f # post @ drop 8 field_order) 8 =
      Inr (8 + of_nat (8 * length (filter (is_sampling ?st) pre)))"
  proof (rule locate_prefix)
    show "sample_bits f \<noteq> sample_bits x" if "x \<in> set pre" for x
      using dist that by (auto simp: assms(1))
    show "skip_field (pe_read_format pe) buf x q = Inr (q + 8)" if "x \<in> set pre" for x q
      using that pre by (auto simp: fixed_fields_def)
  qed
  moreover have "field_order = (pre @ f # post) @ drop 8 field_order"
    unfolding assms(1) [symmetric] by (simp add: field_order_def fixed_fields_def)
  then have "field_order = pre @ f # post @ drop 8 field_order" by (rule trans) simp
  ultimately have "locate_field pe buf f = Inr (8 + of_nat (8 * length (filter (is_sampling ?st) pre)))"
    by (simp only: locate_field_def)
  then show "sample_field pe buf f = Inr (of_nat (length ?a))"
    using assms(2,3,5) by (simp add: sample_field_def record_is_sample_def length_encoded_fields)
  show "buf = ?a @ le_bytes 8 (fv f) @ ?b" using assms(2,4) by (simp add: assms(1) encode_field_def)
qed

lemma read_chain:
  assumes "buf = a @ encode_chain chain @ b" "p = of_nat (length a)" "length buf \<le> 4096"
  shows "ebind (read_u64 buf p) (\<lambda>size. emap (\<lambda>i. read_u64 buf (p + 8 + 8 * of_nat i)) [0..<unat size]) = Inr chain"
proof -
  have size: "read_u64 buf p = Inr (of_nat (length chain))"
    using read_u64_at [of buf a "of_nat (length chain)" "concat (map (le_bytes 8) chain) @ b" p] assms
    by (simp add: encode_chain_def)
  have lens: "length (concat (map (le_bytes 8) (ws :: u64 list))) = 8 * length ws" for ws by (induction ws) simp_all
  have "length chain \<le> 4096" using assms(1,3) by (simp add: encode_chain_def lens)
  then have nat: "unat (of_nat (length chain) :: u64) = length chain"
    by (intro unat_of_nat_small) (rule le_less_trans, assumption, simp)
  have "read_u64 buf (p + 8 + 8 * of_nat i) = Inr (chain ! i)" if i: "i < length chain" for i
  proof (rule read_u64_at)
    let ?a = "a @ le_bytes 8 (of_nat (length chain) :: u64) @ concat (map (le_bytes 8) (take i chain))"
    have "chain = take i chain @ chain ! i # drop (Suc i) chain" using i by (simp add: id_take_nth_drop)
    then have "concat (map (le_bytes 8) chain) =
        concat (map (le_bytes 8) (take i chain)) @ le_bytes 8 (chain ! i) @ concat (map (le_bytes 8) (drop (Suc i) chain))"
      by (metis concat.simps(2) concat_append list.simps(9) map_append)
    then show "buf = ?a @ le_bytes 8 (chain ! i) @ concat (map (le_bytes 8) (drop (Suc i) chain)) @ b"
      by (simp add: assms(1) encode_chain_def)
    show "p + 8 + 8 * of_nat i = of_nat (length ?a)" using i by (simp add: assms(2) lens)
  qed fact
  then have "emap (\<lambda>i. read_u64 buf (p + 8 + 8 * of_nat i)) [0..<length chain] = Inr (map ((!) chain) [0..<length chain])"
    by (intro emap_Inr) simp
  then show ?thesis by (simp add: size nat map_nth)
qed

lemma callchain_read:
  assumes "is_sampling (pe_sample_type pe) Callchain" "header_type buf = 9" "pe_sample_type pe AND 0x10 = 0"
    and "buf = hdr @ encode_sample (pe_sample_type pe) fv read_part chain @ rest"
    and "length hdr = 8" "length buf \<le> 4096"
  shows "get_callchain pe buf = Inr chain"
proof -
  let ?st = "pe_sample_type pe"
  let ?a = "hdr @ concat (map (encode_field ?st fv) fixed_fields)"
  have "locate_from ?st (pe_read_format pe) buf Callchain ((fixed_fields @ [Read]) @ Callchain # drop 10 field_order) 8 =
      Inr (8 + of_nat (8 * length (filter (is_sampling ?st) (fixed_fields @ [Read]))))"
    by (rule locate_prefix) (auto simp: fixed_fields_def is_sampling_def)
  moreover have "field_order = (fixed_fields @ [Read]) @ Callchain # drop 10 field_order"
    by (simp add: field_order_def fixed_fields_def)
  ultimately have "locate_field pe buf Callchain = Inr (8 + of_nat (8 * length (filter (is_sampling ?st) (fixed_fields @ [Read]))))"
    by (simp only: locate_field_def)
  then have "sample_field pe buf Callchain = Inr (of_nat (length ?a))"
    using assms(1,2,5) by (simp add: sample_field_def record_is_sample_def length_encoded_fields is_sampling_def [of _ Read])
  then show ?thesis
    using read_chain [of buf ?a chain rest "of_nat (length ?a)"] assms
    by (simp add: get_callchain_def encode_sample_def)
qed

lemma le_bytes_halves:
  "le_bytes 8 (v :: u64) = le_bytes 4 (ucast v :: u32) @ le_bytes 4 (ucast (drop_bit 32 v) :: u32)"
proof (rule nth_equalityI)
  fix i assume "i < length (le_bytes 8 v)"
  then have i: "i < 8" by simp
  show "le_bytes 8 v ! i = (le_bytes 4 (ucast v :: u32) @ le_bytes 4 (ucast (drop_bit 32 v) :: u32)) ! i"
  proof (rule bit_word_eqI)
    fix j assume "j < LENGTH(8)"
    moreover have "8 * i + j = 32 + (8 * (i - 4) + j)" if "4 \<le> i" using that by simp
    ultimately show "bit (le_bytes 8 v ! i) j =
        bit ((le_bytes 4 (ucast v :: u32) @ le_bytes 4 (ucast (drop_bit 32 v) :: u32)) ! i) j"
      using i by (cases "i < 4") (auto simp: nth_append bit_le_bytes bit_simps add.assoc)
  qed
qed simp

lemma read_u32_at:
  assumes "buf = a @ le_bytes 4 v @ b" "p = of_nat (length a)" "length buf \<le> 4096"
  shows "read_u32 buf p = Inr v"
proof -
  have "length a \<le> 4096" using assms(1,3) by simp
  then have "unat p = length a" unfolding assms(2) by (intro unat_of_nat_small) (rule le_less_trans, assumption, simp)
  then have "uint p = int (length a)" by (rule uint_of_unat)
  then show ?thesis by (simp add: read_u32_def memory_at_def assms(1) of_le_bytes_le_bytes)
qed

lemma sample_fields_read:
  assumes "buf = encode_record (9, misc, encode_sample (pe_sample_type pe) fv read_part chain @ extra) @ rest"
    and "length buf \<le> 4096" "pe_sample_type pe AND 0x10 = 0"
  shows "(is_sampling (pe_sample_type pe) Ip \<longrightarrow> get_ip pe buf = Inr (fv Ip)) \<and>
    (is_sampling (pe_sample_type pe) Time \<longrightarrow> get_time pe buf = Inr (fv Time)) \<and>
    (is_sampling (pe_sample_type pe) Pid_tid \<longrightarrow>
       get_pid pe buf = Inr (ucast (ucast (fv Pid_tid) :: u32)) \<and>
       get_tid pe buf = Inr (ucast (ucast (drop_bit 32 (fv Pid_tid)) :: u32))) \<and>
    (is_sampling (pe_sample_type pe) Cpu \<longrightarrow> get_cpu pe buf = Inr (ucast (fv Cpu))) \<and>
    (is_sampling (pe_sample_type pe) Callchain \<longrightarrow> get_callchain pe buf = Inr chain)"
proof -
  let ?st = "pe_sample_type pe"
  define hdr where "hdr = take 8 buf"
  have type9: "header_type buf = 9" by (rule header_type_record) (simp add: assms(1))
  have hdr: "length hdr = 8" by (simp add: hdr_def assms(1))
  have buf: "buf = hdr @ encode_sample ?st fv read_part chain @ extra @ rest"
    by (simp add: hdr_def assms(1))
  have "\<exists>a b. sample_field pe buf f = Inr (of_nat (length a)) \<and> buf = a @ le_bytes 8 (fv f) @ b"
    if f: "f \<in> set fixed_fields" "is_sampling ?st f" for f
  proof -
    from split_list [OF f(1)] obtain pre post where "fixed_fields = pre @ f # post" by blast
    then show ?thesis
      using fixed_field_read [of pre f post pe buf hdr fv, OF _ f(2) type9 _ hdr assms(2)] buf
      by (simp add: encode_sample_def)
  qed note field = this
  have u64: "ebind (sample_field pe buf f) (read_u64 buf) = Inr (fv f)"
    if "f \<in> set fixed_fields" "is_sampling ?st f" for f
    using field [OF that] read_u64_at [OF _ refl assms(2)] by auto
  have u32: "\<exists>p. sample_field pe buf f = Inr p \<and> read_u32 buf p = Inr (ucast (fv f)) \<and>
      read_u32 buf (p + 4) = Inr (ucast (drop_bit 32 (fv f)))"
    if f: "f \<in> set fixed_fields" "is_sampling ?st f" for f
  proof -
    from field [OF f] obtain a b where a: "sample_field pe buf f = Inr (of_nat (length a))"
      "buf = a @ le_bytes 8 (fv f) @ b" by blast
    have "read_u32 buf (of_nat (length a)) = Inr (ucast (fv f))"
      by (rule read_u32_at [OF _ refl assms(2)]) (simp add: a(2) le_bytes_halves)
    moreover have "read_u32 buf (of_nat (length a) + 4) = Inr (ucast (drop_bit 32 (fv f)))"
      by (rule read_u32_at [of buf "a @ le_bytes 4 (ucast (fv f) :: u32)", OF _ _ assms(2)])
         (simp_all add: a(2) le_bytes_halves)
    ultimately show ?thesis using a(1) by blast
  qed
  have mem: "Ip \<in> set fixed_fields" "Time \<in> set fixed_fields" "Pid_tid \<in> set fixed_fields" "Cpu \<in> set fixed_fields"
    by (simp_all add: fixed_fields_def)
  have chain: "is_sampling ?st Callchain \<Longrightarrow> get_callchain pe buf = Inr chain"
    by (rule callchain_read [OF _ type9 assms(3) _ hdr assms(2)]) (use buf in auto)
  show ?thesis
    using u64 [OF mem(1)] u64 [OF mem(2)] u32 [OF mem(3)] u32 [OF mem(4)] chain
    by (auto simp: get_ip_def get_time_def get_pid_def get_tid_def get_cpu_def)
qed

text \<open>
  For every sample type that does not ask for \<^verbatim>\<open>PERF_SAMPLE_READ\<close>, each getter returns the field
  the kernel wrote into the sample, whichever other fields the sample has and whatever follows it.
\<close>

theorem sample_fields_read_back:
  assumes "buf = encode_record (9, misc, encode_sample (pe_sample_type pe) fv read_part chain @ extra) @ rest"
    and "length buf \<le> 4096" "pe_sample_type pe AND 0x10 = 0"
  shows "(is_sampling (pe_sample_type pe) Ip \<longrightarrow> get_ip pe buf = Inr (fv Ip)) \<and>
    (is_sampling (pe_sample_type pe) Time \<longrightarrow> get_time pe buf = Inr (fv Time)) \<and>
    (is_sampling (pe_sample_type pe) Pid_tid \<longrightarrow>
       get_pid pe buf = Inr (ucast (ucast (fv Pid_tid) :: u32)) \<and>
       get_tid pe buf = Inr (ucast (ucast (drop_bit 32 (fv Pid_tid)) :: u32))) \<and>
    (is_sampling (pe_sample_type pe) Cpu \<longrightarrow> get_cpu pe buf = Inr (ucast (fv Cpu))) \<and>
    (is_sampling (pe_sample_type pe) Callchain \<longrightarrow> get_callchain pe buf = Inr chain)"
  using sample_fields_read [OF assms] .

theorem sample_fields_read_back_witness:
  "get_callchain \<lparr>pe_fd = 5, pe_mapping = Some 0, pe_sample_type = 0x25, pe_read_format = 0\<rparr>
     (encode_record (9, 0, encode_sample 0x25 (\<lambda>_. 7) [] [11, 12])) = Inr [11, 12]"
proof -
  let ?pe = "\<lparr>pe_fd = 5, pe_mapping = Some 0, pe_sample_type = 0x25, pe_read_format = 0\<rparr>"
  have "(0x25 :: u64) AND 0x10 = 0" "is_sampling 0x25 Callchain" by (code_simp, code_simp)
  with sample_fields_read_back [of "encode_record (9, 0, encode_sample 0x25 (\<lambda>_. 7) [] [11, 12])" 0 ?pe "\<lambda>_. 7" "[]" "[11, 12]" "[]" "[]"]
  show ?thesis by (simp add: encode_sample_def encode_chain_def fixed_fields_def encode_field_def)
qed

section \<open>The samples of the profiler\<close>

text \<open>
  The record of the profiler that a record of the kernel stands for.
\<close>

fun sampled_as :: "perf_event \<Rightarrow> raw_record \<Rightarrow> perf_record \<Rightarrow> bool" where
  "sampled_as pe (ty, misc, payload) x \<longleftrightarrow>
     (if ty = 9
      then \<exists>fv read_part extra. payload = encode_sample (pe_sample_type pe) fv read_part (callchain x) @ extra \<and>
             x = \<lparr>is_sample = True, sample_ip = fv Ip, callchain = callchain x\<rparr>
      else x = \<lparr>is_sample = False, sample_ip = 0, callchain = []\<rparr>)"

lemma list_all2_partner: "list_all2 P xs ys \<Longrightarrow> x \<in> set xs \<Longrightarrow> \<exists>y. P x y"
  by (induction rule: list_all2_induct) auto

lemma to_record_sampled:
  assumes "sampled_as pe rc x" "length (encode_record rc @ rest) \<le> 4096"
    and "is_sampling (pe_sample_type pe) Ip" "is_sampling (pe_sample_type pe) Callchain" "pe_sample_type pe AND 0x10 = 0"
  shows "to_record pe (encode_record rc @ rest) = Inr x"
proof -
  obtain ty misc payload where rc: "rc = (ty, misc, payload)" by (cases rc) auto
  have ty: "header_type (encode_record rc @ rest) = ty"
    unfolding rc by (rule header_type_record) simp
  show ?thesis
  proof (cases "ty = 9")
    case False
    then show ?thesis using assms(1) ty by (simp add: rc to_record_def record_is_sample_def)
  next
    case True
    then obtain fv read_part extra where
      payload: "payload = encode_sample (pe_sample_type pe) fv read_part (callchain x) @ extra"
      and x: "x = \<lparr>is_sample = True, sample_ip = fv Ip, callchain = callchain x\<rparr>"
      using assms(1) unfolding rc by auto
    have "get_ip pe (encode_record rc @ rest) = Inr (fv Ip)" "get_callchain pe (encode_record rc @ rest) = Inr (callchain x)"
      using sample_fields_read [of "encode_record rc @ rest" misc pe fv read_part "callchain x" extra rest]
        assms(2-5) by (simp_all add: rc True payload del: encode_record.simps)
    then show ?thesis using True ty x by (simp add: to_record_def record_is_sample_def)
  qed
qed

text \<open>
  C40. A thread whose sampler asks for instruction pointers and call chains processes exactly the records
  the kernel has put between the tail and the head of its ring buffer, in order and wherever they wrap
  around, and leaves the buffer empty: the profiler's operation on lists of records is what the code
  does on bytes.
\<close>

theorem profiler_reads_kernel_records:
  assumes "is_sampling (pe_sample_type pe) Ip" "is_sampling (pe_sample_type pe) Callchain"
    and "pe_sample_type pe AND 0x10 = 0"
    and "holds r (data_tail r) raws" "list_all2 (sampled_as pe) raws recs" "length stack = 4096"
  shows "process_sampler slept pe stack r pr st =
    Some (Inr (r\<lparr>data_tail := data_head r\<rparr>, process_samples slept recs pr st))"
proof -
  let ?x = "\<lambda>rc. case to_record pe (encode_record rc) of Inr x \<Rightarrow> x"
  let ?body = "\<lambda>buf recs. ebind (to_record pe buf) (\<lambda>x. Inr (recs @ [x]))"
  have size: "length (encode_record rc) \<le> 4096" if "rc \<in> set raws" for rc
    using assms(4) that record_length [of rc] by (simp add: holds_def list_all_iff)
  have x: "to_record pe (encode_record rc @ rest) = Inr (?x rc)"
    if "rc \<in> set raws" "length (encode_record rc @ rest) = 4096" for rc rest
  proof -
    from list_all2_partner [OF assms(5) that(1)] obtain y where y: "sampled_as pe rc y" by blast
    have "to_record pe (encode_record rc @ []) = Inr y"
      using size [OF that(1)] by (intro to_record_sampled [OF y _ assms(1-3)]) simp
    moreover have "to_record pe (encode_record rc @ rest) = Inr y"
      using that(2) by (intro to_record_sampled [OF y _ assms(1-3)]) simp
    ultimately show ?thesis by simp
  qed
  have "fold (\<lambda>rc recs. recs @ [?x rc]) raws acc = acc @ recs" for acc
    using assms(5) size
  proof (induction arbitrary: acc rule: list_all2_induct)
    case (Cons rc raws y recs)
    have "to_record pe (encode_record rc @ []) = Inr y"
      using Cons.prems by (intro to_record_sampled [OF Cons.hyps(1) _ assms(1-3)]) simp
    then show ?case using Cons.IH [of "acc @ [y]"] Cons.prems by simp
  qed simp
  moreover obtain it where "read_loop ?body r (iterator_begin stack r, []) =
      Some (Inr (it, fold (\<lambda>rc recs. recs @ [?x rc]) raws []))" "it_index it = data_head r"
    using read_loop_records [of r "iterator_begin stack r" raws ?body "\<lambda>rc recs. recs @ [?x rc]" "[]"]
      assms(4,6) x by (auto simp: iterator_begin_def)
  ultimately show ?thesis
    by (simp add: process_sampler_def sampler_records_def read_all_def)
qed

text \<open>A ring buffer whose record starts in its last 16 bytes.\<close>

definition wrapped_ring :: ring where
  "wrapped_ring =
     (let e = encode_record (9, 0, encode_sample 0x21 (\<lambda>_. 7) [] [11])
      in \<lparr>ring_data = drop 16 e @ replicate 8160 0 @ take 16 e, data_head = 8208, data_tail = 8176\<rparr>)"

lemma wrapped_ring_holds:
  "holds wrapped_ring 8176 [(9, 0, encode_sample 0x21 (\<lambda>_. 7) [] [11])]"
proof -
  let ?p = "encode_sample 0x21 (\<lambda>_. 7) [] [11]"
  let ?e = "encode_record (9, 0, ?p)" and ?d = "ring_data wrapped_ring"
  have "is_sampling 0x21 f \<longleftrightarrow> f = Ip \<or> f = Callchain" for f by (cases f) (simp_all add: is_sampling_def)
  then have len: "length ?p = 24" by (simp add: encode_sample_def encode_chain_def fixed_fields_def encode_field_def)
  have e: "length ?e = 32" by (simp add: len)
  have d: "?d = drop 16 ?e @ replicate 8160 0 @ take 16 ?e" by (simp add: wrapped_ring_def Let_def del: encode_record.simps)
  have dl: "length ?d = 8192" unfolding d by (simp add: e del: encode_record.simps)
  have "ring_bytes ?d 8176 32 = ring_bytes ?d 8176 16 @ ring_bytes ?d (8176 + 16) 16"
    using ring_bytes_add [of ?d 8176 16 16] by simp
  also have "ring_bytes ?d (8176 + 16) 16 = ring_bytes ?d 0 16" using ring_bytes_mod [of ?d 8192 16] by simp
  also have "\<dots> = drop 16 ?e" using ring_bytes_straight [of 0 16 ?d] dl by (simp add: d e del: encode_record.simps)
  also have "ring_bytes ?d 8176 16 = take 16 ?e"
    using ring_bytes_straight [of 8176 16 ?d] dl by (simp add: d e del: encode_record.simps)
  finally have "ring_bytes ?d 8176 32 = ?e" by simp
  moreover have "record_ok (9, 0, ?p)" using len by (cases ?p) auto
  ultimately show ?thesis using dl
    by (simp add: holds_def wrapped_ring_def [THEN arg_cong, of data_head] Let_def del: encode_record.simps record_ok.simps)
qed

theorem profiler_reads_kernel_records_witness:
  "\<forall>slept pr st. process_sampler slept \<lparr>pe_fd = 5, pe_mapping = Some 0, pe_sample_type = 0x21, pe_read_format = 0\<rparr>
     (replicate 4096 0) wrapped_ring pr st =
     Some (Inr (wrapped_ring\<lparr>data_tail := 8208\<rparr>,
       process_samples slept [\<lparr>is_sample = True, sample_ip = 7, callchain = [11]\<rparr>] pr st))"
proof (intro allI)
  fix slept pr st
  let ?pe = "\<lparr>pe_fd = 5, pe_mapping = Some 0, pe_sample_type = 0x21, pe_read_format = 0\<rparr>"
  let ?x = "\<lparr>is_sample = True, sample_ip = 7, callchain = [11]\<rparr>"
  have bits: "is_sampling 0x21 Ip" "is_sampling 0x21 Callchain" "(0x21 :: u64) AND 0x10 = 0" by (simp_all add: is_sampling_def)
  have as: "sampled_as ?pe (9, 0, encode_sample 0x21 (\<lambda>_. 7) [] [11]) ?x"
    by (auto intro: exI [of _ "\<lambda>_. 7"] exI [of _ "[]"])
  have head: "data_head wrapped_ring = 8208" "data_tail wrapped_ring = 8176" by (simp_all add: wrapped_ring_def Let_def)
  show "process_sampler slept ?pe (replicate 4096 0) wrapped_ring pr st =
     Some (Inr (wrapped_ring\<lparr>data_tail := 8208\<rparr>, process_samples slept [?x] pr st))"
    using profiler_reads_kernel_records [of ?pe wrapped_ring "[(9, 0, encode_sample 0x21 (\<lambda>_. 7) [] [11])]" "[?x]" "replicate 4096 0" slept pr st]
      bits as wrapped_ring_holds by (simp add: head)
qed

section \<open>Limits\<close>

text \<open>With \<^verbatim>\<open>PERF_SAMPLE_READ\<close> the value read is taken for the length of the call chain.\<close>

lemma read_sample_misplaced:
  "get_callchain \<lparr>pe_fd = 5, pe_mapping = Some 0, pe_sample_type = 0x31, pe_read_format = 0\<rparr>
     (encode_record (9, 0, encode_sample 0x31 (\<lambda>_. 7) (le_bytes 8 (0 :: u64)) [11, 12])) = Inr []"
  by code_simp

text \<open>A record that is larger than the iterator's buffer is written past its end.\<close>

lemma large_record_overflows:
  assumes "copy_from_ring_buffer (ring_data r) (it_index it) 8 = Inr hdr" "length hdr = 8" "length (it_buf it) = 4096"
    and "copy_from_ring_buffer (ring_data r) (it_index it) (ucast (header_size hdr)) = Inr bs" "4096 < length bs"
  shows "get_record r it = Inl Out_Of_Bounds"
proof -
  have "header_size (hdr @ drop 8 (it_buf it)) = header_size hdr" using assms(2) by (simp add: header_size_def)
  then show ?thesis using assms by (simp add: get_record_def write_buf_def)
qed

end
