(* ===== verification/Word_Count.thy ===== *)
theory Word_Count
  imports Machine_Bytes
begin

text \<open>
  The word count benchmark, \<^verbatim>\<open>word_count-pthread.c\<close> and \<^verbatim>\<open>sort-pthread.c\<close>: the file is cut at white
  space into one part per processor, every thread counts the words of its part in a sorted table, the
  tables are merged in pairs, and the result is sorted by count. A pointer to a word is kept as the
  string it points to: the bytes of a word do not change after it has been stored. A thread also
  writes a zero behind its part, where the next part has white space, which is as little part of a
  word; with at least one byte per thread the splitter has already read it. The threads of one phase
  share nothing else and are run in order. \<^verbatim>\<open>qsort\<close> is an argument.
\<close>

section \<open>Tables of words\<close>

record wc_count =
  the_word :: "u8 list"
  the_count :: int

text \<open>The table of a thread: \<^verbatim>\<open>words[t]\<close> up to \<^verbatim>\<open>use_len[t]\<close>, and \<^verbatim>\<open>length[t]\<close>, its capacity.\<close>

record wc_table =
  entries :: "wc_count list"
  capacity :: int

definition START_ARRAY_SIZE :: int where "START_ARRAY_SIZE = 2000"

definition use_len :: "wc_table \<Rightarrow> int" where
  "use_len t = int (length (entries t))"

text \<open>The sign of \<^verbatim>\<open>strcmp\<close>: bytes are compared as unsigned numbers.\<close>

fun c_strcmp :: "u8 list \<Rightarrow> u8 list \<Rightarrow> int" where
  "c_strcmp [] [] = 0"
| "c_strcmp [] (b # bs) = - 1"
| "c_strcmp (a # as) [] = 1"
| "c_strcmp (a # as) (b # bs) = (if a = b then c_strcmp as bs else if a < b then - 1 else 1)"

text \<open>The binary search; the result is the last comparison and \<^verbatim>\<open>high\<close>.\<close>

lemma middle_between:
  assumes "1 < high - (low :: int)"
  shows "low < c_div (high + low) 2" "c_div (high + low) 2 < high"
proof -
  have "c_div (high + low) 2 = (high + low) div 2 \<or> c_div (high + low) 2 = - (- (high + low) div 2)"
    by (auto simp: c_div_def signed_divide_int_def sgn_if abs_if)
  with assms show "low < c_div (high + low) 2" "c_div (high + low) 2 < high" by auto
qed

function search_word :: "u8 list \<Rightarrow> wc_count list \<Rightarrow> int \<Rightarrow> int \<Rightarrow> int \<Rightarrow> c_fault + int \<times> int" where
  "search_word word es cmp high low =
     (if high - low > 1 then
        ebind (c_int (high + low)) (\<lambda>_.
        (let mid = c_div (high + low) 2
         in ebind (at_index es mid) (\<lambda>e.
              (let cmp' = c_strcmp word (the_word e)
               in if cmp' = 0 then Inr (cmp', mid)
                  else if cmp' < 0 then search_word word es cmp' mid low
                  else search_word word es cmp' high mid))))
      else Inr (cmp, high))"
  by pat_completeness auto
termination
  by (relation "measure (\<lambda>(_, _, _, high, low). nat (high - low))") (use middle_between in auto)

declare search_word.simps [simp del]

definition grow :: "wc_table \<Rightarrow> c_fault + wc_table" where
  "grow t =
     (if use_len t = capacity t then ebind (c_int (capacity t * 2)) (\<lambda>c. Inr (t\<lparr>capacity := c\<rparr>)) else Inr t)"

text \<open>The entries from \<^verbatim>\<open>pos\<close> on move up; the array must have room for one more.\<close>

definition insert_at :: "int \<Rightarrow> wc_count \<Rightarrow> wc_table \<Rightarrow> c_fault + wc_table" where
  "insert_at pos e t =
     (if use_len t < capacity t
      then Inr (t\<lparr>entries := take (nat pos) (entries t) @ e # drop (nat pos) (entries t)\<rparr>)
      else Inl Out_Of_Bounds)"

definition wordcount_reduce :: "u8 list \<Rightarrow> wc_table \<Rightarrow> c_fault + wc_table" where
  "wordcount_reduce word t =
     ebind (search_word word (entries t) (- 1) (use_len t) (- 1)) (\<lambda>(cmp, pos).
     ebind (let new = \<lparr>the_word = word, the_count = 1\<rparr>
            in if pos \<ge> use_len t then insert_at (use_len t) new t
               else if pos < 0 then insert_at 0 new t
               else if cmp = 0 then
                 (let e = entries t ! nat pos
                  in ebind (c_int (the_count e + 1)) (\<lambda>n. Inr (t\<lparr>entries := (entries t)[nat pos := e\<lparr>the_count := n\<rparr>]\<rparr>)))
               else insert_at pos new t) grow)"

section \<open>The words of a part\<close>

definition toupper_byte :: "u8 \<Rightarrow> u8" where
  "toupper_byte c = (if 97 \<le> c \<and> c \<le> 122 then c - 32 else c)"

text \<open>\<open>Some w\<close>: in a word, whose bytes so far are \<open>w\<close>; \<open>None\<close>: not in a word.\<close>

definition map_letter :: "u8 \<Rightarrow> u8 list option \<times> wc_table \<Rightarrow> c_fault + u8 list option \<times> wc_table" where
  "map_letter c x =
     (let curr_ltr = toupper_byte c
      in case fst x of
           Some w \<Rightarrow>
             (if (curr_ltr < 65 \<or> curr_ltr > 90) \<and> curr_ltr \<noteq> 39
              then ebind (wordcount_reduce w (snd x)) (\<lambda>t. Inr (None, t))
              else Inr (Some (w @ [curr_ltr]), snd x))
         | None \<Rightarrow> Inr (if curr_ltr \<ge> 65 \<and> curr_ltr \<le> 90 then Some [curr_ltr] else None, snd x))"

text \<open>The last word is ended with a zero behind the part, if there is memory.\<close>

definition wordcount_map :: "bool \<Rightarrow> u8 list \<Rightarrow> wc_table \<Rightarrow> c_fault + wc_table" where
  "wordcount_map behind part t =
     ebind (efold map_letter part (None, t)) (\<lambda>x.
       case fst x of
         None \<Rightarrow> Inr (snd x)
       | Some w \<Rightarrow> if behind then wordcount_reduce w (snd x) else Inl Out_Of_Bounds)"

section \<open>The division of the file\<close>

definition is_white :: "u8 \<Rightarrow> bool" where
  "is_white c \<longleftrightarrow> c = 32 \<or> c = 9 \<or> c = 13 \<or> c = 10"

function extend_part :: "u8 list \<Rightarrow> int \<Rightarrow> int \<Rightarrow> int \<Rightarrow> c_fault + int \<times> int" where
  "extend_part fdata flen fpos len =
     (if fpos < flen then
        ebind (at_index fdata fpos) (\<lambda>c.
          if \<not> is_white c
          then ebind (c_int (len + 1)) (\<lambda>len'. extend_part fdata flen (fpos + 1) len')
          else Inr (fpos, len))
      else Inr (fpos, len))"
  by pat_completeness auto
termination by (relation "measure (\<lambda>(_, flen, fpos, _). nat (flen - fpos))") auto

declare extend_part.simps [simp del]

text \<open>The parts of the threads and the position behind the last.\<close>

primrec wc_parts :: "nat \<Rightarrow> u8 list \<Rightarrow> int \<Rightarrow> int \<Rightarrow> int \<Rightarrow> c_fault + (int \<times> int) list \<times> int" where
  "wc_parts 0 fdata flen req_bytes fpos = Inr ([], fpos)"
| "wc_parts (Suc k) fdata flen req_bytes fpos =
     (let avail0 = to_int (flen - fpos);
          available_bytes = (if avail0 < 0 then 0 else avail0);
          len0 = (if req_bytes < available_bytes then req_bytes else available_bytes)
      in ebind (extend_part fdata flen (fpos + len0) len0) (\<lambda>(fpos', len).
         ebind (wc_parts k fdata flen req_bytes fpos') (\<lambda>(parts, stop).
           Inr ((fpos, len) # parts, stop))))"

definition wc_thread :: "u8 list \<Rightarrow> int \<times> int \<Rightarrow> c_fault + wc_table" where
  "wc_thread fdata part =
     (if 0 \<le> fst part \<and> 0 \<le> snd part \<and> fst part + snd part \<le> int (length fdata)
      then wordcount_map (fst part + snd part < int (length fdata)) (take (nat (snd part)) (drop (nat (fst part)) fdata))
             \<lparr>entries = [], capacity = START_ARRAY_SIZE\<rparr>
      else Inl Out_Of_Bounds)"

section \<open>Merging\<close>

text \<open>\<^verbatim>\<open>merge_sections\<close> from \<^verbatim>\<open>curr1\<close> and \<^verbatim>\<open>curr2\<close> on; equal words are added to the first table.\<close>

fun merge_sections :: "wc_count list \<Rightarrow> wc_count list \<Rightarrow> c_fault + wc_count list" where
  "merge_sections (x # xs) (y # ys) =
     (let cmp_ret = c_strcmp (the_word x) (the_word y)
      in if cmp_ret = 0
         then ebind (c_int (the_count x + the_count y)) (\<lambda>n. merge_sections (x\<lparr>the_count := n\<rparr> # xs) ys)
         else if cmp_ret < 0 then ebind (merge_sections xs (y # ys)) (\<lambda>zs. Inr (x # zs))
         else ebind (merge_sections (x # xs) ys) (\<lambda>zs. Inr (y # zs)))"
| "merge_sections xs [] = Inr xs"
| "merge_sections [] ys = Inr ys"

text \<open>
  A round: the pairs are merged, then put in place, and a table without partner moves up.
\<close>

definition merge_round :: "nat \<Rightarrow> nat \<Rightarrow> wc_count list list \<Rightarrow> c_fault + wc_count list list" where
  "merge_round num_threads rem_num ws =
     ebind (emap (\<lambda>i. merge_sections (ws ! (2 * i)) (ws ! (2 * i + 1))) [0..<num_threads]) (\<lambda>mwords.
       let ws' = mwords @ drop num_threads ws
       in Inr (if rem_num = 1 then ws'[num_threads := ws' ! (2 * num_threads)] else ws'))"

function join_arrays :: "nat \<Rightarrow> nat \<Rightarrow> wc_count list list \<Rightarrow> c_fault + wc_count list list" where
  "join_arrays num_threads rem_num ws =
     (if num_threads > 0 then
        ebind (merge_round num_threads rem_num ws) (\<lambda>ws'.
          join_arrays ((num_threads + rem_num) div 2) ((num_threads + rem_num) mod 2) ws')
      else Inr ws)"
  by pat_completeness auto
termination
  by (relation "measure (\<lambda>(n, r, _). 2 * n + r)") (auto simp: mult_div_mod_eq [symmetric] mod_div_decomp)

declare join_arrays.simps [simp del]

section \<open>The program\<close>

definition wordcount_splitter :: "nat \<Rightarrow> u8 list \<Rightarrow> int \<Rightarrow> c_fault + wc_count list" where
  "wordcount_splitter num_procs fdata flen =
     (if num_procs = 0 then Inl (Exited 1)
      else ebind (wc_parts num_procs fdata flen (to_int (c_div flen (int num_procs))) 0) (\<lambda>(parts, _).
           ebind (emap (wc_thread fdata) parts) (\<lambda>tables.
           ebind (join_arrays (num_procs div 2) (num_procs mod 2) (map entries tables)) (\<lambda>ws.
             Inr (ws ! 0)))))"

text \<open>\<^verbatim>\<open>wordcount_cmp\<close>, and the parallel sort: rounds over fewer and fewer, larger and larger sections.\<close>

definition wordcount_cmp :: "wc_count \<Rightarrow> wc_count \<Rightarrow> int" where
  "wordcount_cmp w1 w2 =
     (if the_count w1 < the_count w2 then 1 else if the_count w1 > the_count w2 then - 1 else 0)"

definition sort_round ::
  "(('a \<Rightarrow> 'a \<Rightarrow> int) \<Rightarrow> 'a list \<Rightarrow> 'a list) \<Rightarrow> ('a \<Rightarrow> 'a \<Rightarrow> int) \<Rightarrow> nat \<Rightarrow> 'a list \<Rightarrow> 'a list" where
  "sort_round qsort compar num_threads base =
     (let req_units = length base div num_threads
      in concat (map (\<lambda>i. qsort compar (take (if i = num_threads - 1 then length base - i * req_units else req_units)
                                        (drop (i * req_units) base)))
                   [0..<num_threads]))"

function sort_pthreads ::
  "(('a \<Rightarrow> 'a \<Rightarrow> int) \<Rightarrow> 'a list \<Rightarrow> 'a list) \<Rightarrow> ('a \<Rightarrow> 'a \<Rightarrow> int) \<Rightarrow> nat \<Rightarrow> 'a list \<Rightarrow> 'a list" where
  "sort_pthreads qsort compar num_threads base =
     (if num_threads > 0
      then sort_pthreads qsort compar (num_threads div 2) (sort_round qsort compar num_threads base)
      else base)"
  by pat_completeness auto
termination by (relation "measure (\<lambda>(_, _, n, _). n)") auto

declare sort_pthreads.simps [simp del]

text \<open>
  The program prints the first words of the result; the number of results asked for, the argument of the
  command line as \<^verbatim>\<open>atoi\<close> reads it, must be positive.
\<close>

definition DEFAULT_DISP_NUM :: nat where "DEFAULT_DISP_NUM = 10"

definition wordcount_main ::
  "((wc_count \<Rightarrow> wc_count \<Rightarrow> int) \<Rightarrow> wc_count list \<Rightarrow> wc_count list) \<Rightarrow>
   nat \<Rightarrow> nat \<Rightarrow> int option \<Rightarrow> u8 list \<Rightarrow> c_fault + wc_count list" where
  "wordcount_main qsort page num_procs disp_num_str contents =
     (let disp_num = (case disp_num_str of None \<Rightarrow> int DEFAULT_DISP_NUM | Some n \<Rightarrow> n)
      in if disp_num \<le> 0 then Inl (Exited 1)
         else ebind (wordcount_splitter num_procs (map_file page contents) (int (length contents))) (\<lambda>ws.
                Inr (take DEFAULT_DISP_NUM (sort_pthreads qsort wordcount_cmp num_procs ws))))"

end
