(* ===== verification/Word_Count_Facts.thy ===== *)
theory Word_Count_Facts
  imports Word_Count "HOL-Library.List_Lexorder"
begin

text \<open>
  What the word count program reports: every thread's table is a sorted map from words to counts, the
  merged table has the sum of the counts, and the report lists every word of the part of the file that
  was read once, by decreasing count.
\<close>

section \<open>Comparison and search\<close>

lemma c_strcmp_order: "(c_strcmp xs ys = 0 \<longleftrightarrow> xs = ys) \<and> (c_strcmp xs ys < 0 \<longleftrightarrow> xs < ys)"
  by (induction xs ys rule: c_strcmp.induct) auto

lemma c_strcmp_eq [simp]: "c_strcmp xs ys = 0 \<longleftrightarrow> xs = ys"
  and c_strcmp_less [simp]: "c_strcmp xs ys < 0 \<longleftrightarrow> xs < ys"
  using c_strcmp_order by auto

definition words_sorted :: "wc_count list \<Rightarrow> bool" where
  "words_sorted es \<longleftrightarrow> sorted_wrt (\<lambda>a b. the_word a < the_word b) es"

lemma words_sorted_nth: "words_sorted es \<Longrightarrow> i < j \<Longrightarrow> j < length es \<Longrightarrow> the_word (es ! i) < the_word (es ! j)"
  unfolding words_sorted_def by (rule sorted_wrt_nth_less)

text \<open>Where a word belongs: the entries before are smaller, the entries from there on larger.\<close>

definition belongs :: "u8 list \<Rightarrow> wc_count list \<Rightarrow> nat \<Rightarrow> bool" where
  "belongs w es pos \<longleftrightarrow> pos \<le> length es \<and>
     (\<forall>i<pos. the_word (es ! i) < w) \<and> (\<forall>i. pos \<le> i \<and> i < length es \<longrightarrow> w < the_word (es ! i))"

lemma search_word_ok:
  assumes "words_sorted es" "length es < 2 ^ 29" "- 1 \<le> low" "low < high" "high \<le> int (length es)" "cmp \<noteq> 0"
    and "\<forall>i<length es. int i \<le> low \<longrightarrow> the_word (es ! i) < w"
    and "\<forall>i<length es. high \<le> int i \<longrightarrow> w < the_word (es ! i)"
  shows "\<exists>cmp' pos. search_word w es cmp high low = Inr (cmp', int pos) \<and>
    (if cmp' = 0 then pos < length es \<and> the_word (es ! pos) = w else belongs w es pos)"
  using assms
proof (induction w es cmp high low rule: search_word.induct)
  case (1 w es cmp high low)
  show ?case
  proof (cases "high - low > 1")
    case False
    then have "nat high \<le> length es" "high = int (nat high)" "high = low + 1" using 1(5-7) by auto
    moreover have "belongs w es (nat high)"
      unfolding belongs_def using 1(9,10) calculation by auto
    ultimately show ?thesis using 1(8) False
      by (subst search_word.simps) (auto intro!: exI [of _ cmp] exI [of _ "nat high"])
  next
    case True
    define mid where "mid = c_div (high + low) 2"
    have mid: "low < mid" "mid < high" using middle_between [OF True] by (simp_all add: mid_def)
    have at: "at_index es mid = Inr (es ! nat mid)" "nat mid < length es" "int (nat mid) = mid"
      using mid 1(5,7) by simp_all
    have fits: "c_int (high + low) = Inr (high + low)" using 1(4-7) True by (intro c_int_ok) auto
    have unfold: "search_word w es cmp high low =
        (if w = the_word (es ! nat mid) then Inr (0, mid)
         else if w < the_word (es ! nat mid) then search_word w es (c_strcmp w (the_word (es ! nat mid))) mid low
         else search_word w es (c_strcmp w (the_word (es ! nat mid))) high mid)"
      using True by (subst search_word.simps) (simp add: Let_def at(1) fits flip: mid_def)
    consider "w = the_word (es ! nat mid)" | "w < the_word (es ! nat mid)" | "the_word (es ! nat mid) < w"
      by (metis linorder_less_linear)
    then show ?thesis
    proof cases
      case 1
      then show ?thesis using unfold at by (intro exI [of _ 0] exI [of _ "nat mid"]) simp
    next
      case 2
      then have ne: "w \<noteq> the_word (es ! nat mid)" by simp
      have "w < the_word (es ! i)" if "i < length es" "mid \<le> int i" for i
        using words_sorted_nth [OF "1.prems"(1), of "nat mid" i] that 2 at by (cases "nat mid = i") auto
      moreover have "search_word w es cmp high low = search_word w es (c_strcmp w (the_word (es ! nat mid))) mid low"
        using unfold ne 2 by simp
      ultimately show ?thesis
        using "1.IH"(1) [OF True fits mid_def at(1) refl] "1.prems" mid ne 2 by simp
    next
      case 3
      then have ne: "w \<noteq> the_word (es ! nat mid)" "\<not> w < the_word (es ! nat mid)" by auto
      have "the_word (es ! i) < w" if "i < length es" "int i \<le> mid" for i
        using words_sorted_nth [OF "1.prems"(1), of i "nat mid"] that 3 at by (cases "i = nat mid") auto
      moreover have "search_word w es cmp high low = search_word w es (c_strcmp w (the_word (es ! nat mid))) high mid"
        using unfold ne by simp
      ultimately show ?thesis
        using "1.IH"(2) [OF True fits mid_def at(1) refl] "1.prems" mid ne by simp
    qed
  qed
qed

section \<open>Counting one word\<close>

definition count_of :: "wc_count list \<Rightarrow> u8 list \<Rightarrow> int" where
  "count_of es v = sum_list (map the_count (filter (\<lambda>e. the_word e = v) es))"

definition sum_counts :: "wc_count list \<Rightarrow> int" where
  "sum_counts es = sum_list (map the_count es)"

definition positive :: "wc_count list \<Rightarrow> bool" where
  "positive es \<longleftrightarrow> (\<forall>e\<in>set es. 1 \<le> the_count e)"

definition good_entries :: "int \<Rightarrow> wc_count list \<Rightarrow> bool" where
  "good_entries n es \<longleftrightarrow> words_sorted es \<and> positive es \<and> sum_counts es = n"

definition good_table :: "int \<Rightarrow> wc_table \<Rightarrow> bool" where
  "good_table n t \<longleftrightarrow> good_entries n (entries t) \<and> use_len t < capacity t \<and> capacity t \<le> max 2000 (2 * use_len t)"

lemma count_of_simps [simp]:
  "count_of [] v = 0"
  "count_of (e # es) v = (if the_word e = v then the_count e else 0) + count_of es v"
  "count_of (es @ fs) v = count_of es v + count_of fs v"
  by (simp_all add: count_of_def)

lemma sum_counts_simps [simp]: "sum_counts [] = 0" "sum_counts (e # es) = the_count e + sum_counts es" "sum_counts (es @ fs) = sum_counts es + sum_counts fs"
  by (simp_all add: sum_counts_def)

lemma positive_simps [simp]:
  "positive []" "positive (e # es) \<longleftrightarrow> 1 \<le> the_count e \<and> positive es"
  "positive (es @ fs) \<longleftrightarrow> positive es \<and> positive fs"
  by (auto simp: positive_def)

lemma length_le_total: "positive es \<Longrightarrow> int (length es) \<le> sum_counts es"
  by (induction es) auto

lemma words_sorted_split:
  "words_sorted (es @ e # fs) \<longleftrightarrow>
     words_sorted es \<and> words_sorted fs \<and> (\<forall>a\<in>set es. the_word a < the_word e) \<and>
     (\<forall>b\<in>set fs. the_word e < the_word b) \<and> (\<forall>a\<in>set es. \<forall>b\<in>set fs. the_word a < the_word b)"
  by (auto simp: words_sorted_def sorted_wrt_append)

lemma belongs_sets:
  assumes "belongs w es pos"
  shows "a \<in> set (take pos es) \<Longrightarrow> the_word a < w" "b \<in> set (drop pos es) \<Longrightarrow> w < the_word b"
  using assms by (auto simp: belongs_def in_set_conv_nth)

lemma insert_sorted_table:
  assumes "words_sorted es" "belongs w es pos" "the_word e = w"
  shows "words_sorted (take pos es @ e # drop pos es)"
proof -
  have "words_sorted (take pos es)" "words_sorted (drop pos es)"
    using assms(1) by (simp_all add: words_sorted_def sorted_wrt_take sorted_wrt_drop)
  then show ?thesis
    using belongs_sets [OF assms(2)] assms(3) by (auto simp: words_sorted_split intro: less_trans)
qed

lemma grow_ok:
  assumes "good_entries n (entries t)" "n < 2 ^ 30" "0 < capacity t" "use_len t \<le> capacity t" "capacity t \<le> max 2000 (2 * use_len t)"
  shows "\<exists>t'. grow t = Inr t' \<and> good_table n t' \<and> entries t' = entries t"
proof -
  have "use_len t \<le> n" using assms(1) length_le_total by (auto simp: good_entries_def use_len_def)
  then have "use_len t < 2 ^ 30" using assms(2) by simp
  moreover have "0 \<le> use_len t" by (simp add: use_len_def)
  moreover have "entries t \<noteq> [] \<or> use_len t = 0" by (simp add: use_len_def)
  ultimately show ?thesis using assms unfolding grow_def good_table_def by (auto simp: use_len_def)
qed

lemma insert_entries:
  assumes "good_entries n es" "belongs w es pos" "the_word e = w" "the_count e = 1"
  shows "good_entries (n + 1) (take pos es @ e # drop pos es)"
    and "count_of (take pos es @ e # drop pos es) v = count_of es v + (if v = w then 1 else 0)"
proof -
  have "positive es \<longleftrightarrow> positive (take pos es) \<and> positive (drop pos es)"
    and "sum_counts es = sum_counts (take pos es) + sum_counts (drop pos es)"
    and "count_of es v = count_of (take pos es) v + count_of (drop pos es) v"
    by (simp_all flip: positive_simps(3) sum_counts_simps(3) count_of_simps(3))
  then show "good_entries (n + 1) (take pos es @ e # drop pos es)"
    and "count_of (take pos es @ e # drop pos es) v = count_of es v + (if v = w then 1 else 0)"
    using assms insert_sorted_table [OF _ assms(2,3)] by (auto simp: good_entries_def)
qed

lemma update_entries:
  assumes "good_entries n es" "pos < length es" "the_word (es ! pos) = w"
  defines "e \<equiv> es ! pos"
  shows "good_entries (n + 1) (es[pos := e\<lparr>the_count := the_count e + 1\<rparr>])"
    and "count_of (es[pos := e\<lparr>the_count := the_count e + 1\<rparr>]) v = count_of es v + (if v = w then 1 else 0)"
proof -
  have es: "es = take pos es @ e # drop (Suc pos) es" unfolding e_def by (rule id_take_nth_drop [OF assms(2)])
  have es': "es[pos := e\<lparr>the_count := the_count e + 1\<rparr>] =
      take pos es @ e\<lparr>the_count := the_count e + 1\<rparr> # drop (Suc pos) es"
    by (rule upd_conv_take_nth_drop [OF assms(2)])
  have w: "the_word e = w" using assms(3) by (simp add: e_def)
  show "count_of (es[pos := e\<lparr>the_count := the_count e + 1\<rparr>]) v = count_of es v + (if v = w then 1 else 0)"
    unfolding es' using w arg_cong [OF es, of "\<lambda>x. count_of x v"] by simp
  have "good_entries n (take pos es @ e # drop (Suc pos) es)" using assms(1) es by metis
  then show "good_entries (n + 1) (es[pos := e\<lparr>the_count := the_count e + 1\<rparr>])"
    unfolding es' by (auto simp: good_entries_def words_sorted_split)
qed

lemma total_update:
  assumes "good_entries n es" "pos < length es"
  shows "1 \<le> the_count (es ! pos)" "the_count (es ! pos) \<le> n"
proof -
  have es: "es = take pos es @ es ! pos # drop (Suc pos) es" by (rule id_take_nth_drop [OF assms(2)])
  have "good_entries n (take pos es @ es ! pos # drop (Suc pos) es)" using assms(1) es by metis
  moreover from this have "0 \<le> sum_counts (take pos es)" "0 \<le> sum_counts (drop (Suc pos) es)"
    by (auto simp: good_entries_def intro: order_trans [OF _ length_le_total])
  ultimately show "1 \<le> the_count (es ! pos)" "the_count (es ! pos) \<le> n" by (auto simp: good_entries_def)
qed

lemma reduce_ok:
  assumes "good_table n t" "n < 2 ^ 29"
  shows "\<exists>t'. wordcount_reduce w t = Inr t' \<and> good_table (n + 1) t' \<and>
    (\<forall>v. count_of (entries t') v = count_of (entries t) v + (if v = w then 1 else 0))"
proof -
  have good: "good_entries n (entries t)" "use_len t < capacity t" "capacity t \<le> max 2000 (2 * use_len t)"
    using assms(1) by (simp_all add: good_table_def)
  then have "int (length (entries t)) \<le> n" "words_sorted (entries t)"
    using length_le_total by (auto simp: good_entries_def)
  moreover from this have "length (entries t) < 2 ^ 29" using assms(2) by simp
  ultimately obtain c pos where found: "search_word w (entries t) (- 1) (use_len t) (- 1) = Inr (c, int pos)"
    and pos: "if c = 0 then pos < length (entries t) \<and> the_word (entries t ! pos) = w else belongs w (entries t) pos"
    using search_word_ok [of "entries t" "- 1" "use_len t" "- 1" w] by (auto simp: use_len_def)
  have cap: "0 < capacity t" using good(2) by (simp add: use_len_def)
  show ?thesis
  proof (cases "c = 0")
    case True
    let ?e = "entries t ! pos"
    let ?t = "t\<lparr>entries := (entries t)[pos := ?e\<lparr>the_count := the_count ?e + 1\<rparr>]\<rparr>"
    have p: "pos < length (entries t)" "the_word ?e = w" using pos True by auto
    have "c_int (the_count ?e + 1) = Inr (the_count ?e + 1)"
      using total_update [OF good(1) p(1)] assms(2) by (intro c_int_ok) auto
    then have "wordcount_reduce w t = grow ?t"
      using found True p(1) by (simp add: wordcount_reduce_def use_len_def Let_def)
    moreover have "\<exists>t'. grow ?t = Inr t' \<and> good_table (n + 1) t' \<and> entries t' = entries ?t"
      using update_entries(1) [OF good(1) p] assms(2) good(2,3) cap by (intro grow_ok) (auto simp: use_len_def)
    ultimately show ?thesis using update_entries(2) [OF good(1) p] by auto
  next
    case False
    let ?e = "\<lparr>the_word = w, the_count = 1\<rparr>"
    let ?t = "t\<lparr>entries := take pos (entries t) @ ?e # drop pos (entries t)\<rparr>"
    have p: "belongs w (entries t) pos" "pos \<le> length (entries t)" using pos False by (auto simp: belongs_def)
    have "wordcount_reduce w t = grow ?t"
      using found False p(2) good(2)
      by (cases "pos = length (entries t)") (simp_all add: wordcount_reduce_def insert_at_def use_len_def Let_def)
    moreover have "\<exists>t'. grow ?t = Inr t' \<and> good_table (n + 1) t' \<and> entries t' = entries ?t"
      using insert_entries(1) [OF good(1) p(1)] assms(2) good(2,3) cap p(2) by (intro grow_ok) (auto simp: use_len_def)
    ultimately show ?thesis using insert_entries(2) [OF good(1) p(1), of ?e] by (auto simp del: count_of_simps)
  qed
qed

section \<open>The words of a text\<close>

definition letter :: "u8 \<Rightarrow> bool" where
  "letter c \<longleftrightarrow> 65 \<le> c \<and> c \<le> 90"

definition word_char :: "u8 \<Rightarrow> bool" where
  "word_char c \<longleftrightarrow> letter c \<or> c = 39"

text \<open>A word starts with a letter and goes on to the first byte that is no letter or apostrophe.\<close>

function words_of :: "u8 list \<Rightarrow> u8 list list" where
  "words_of [] = []"
| "words_of (c # cs) =
     (if letter c then (c # takeWhile word_char cs) # words_of (dropWhile word_char cs) else words_of cs)"
  by pat_completeness auto
termination by (relation "measure length") (auto simp: le_imp_less_Suc length_dropWhile_le)

definition text_words :: "u8 list \<Rightarrow> u8 list list" where
  "text_words bs = words_of (map toupper_byte bs)"

text \<open>The same from a state of the loop on, with the beginning of a word.\<close>

fun words_from :: "u8 list option \<Rightarrow> u8 list \<Rightarrow> u8 list list" where
  "words_from None cs = words_of cs"
| "words_from (Some w) cs = (w @ takeWhile word_char cs) # words_of (dropWhile word_char cs)"

lemma letter_word_char: "letter c \<Longrightarrow> word_char c"
  by (simp add: word_char_def)

lemma words_from_Cons:
  "words_from None (c # cs) = words_from (if letter c then Some [c] else None) cs"
  "words_from (Some w) (c # cs) = (if word_char c then words_from (Some (w @ [c])) cs else w # words_from None cs)"
  using letter_word_char [of c] by auto

lemma words_from_append:
  assumes "b = [] \<or> \<not> word_char (hd b)"
  shows "words_from st (a @ b) = words_from st a @ words_of b"
proof (induction a arbitrary: st)
  case Nil
  show ?case using assms letter_word_char [of "hd b"] by (cases st; cases b) auto
next
  case (Cons c a)
  then show ?case by (cases st) (simp_all only: append_Cons words_from_Cons, simp_all)
qed

lemma text_words_append:
  "b = [] \<or> \<not> word_char (toupper_byte (hd b)) \<Longrightarrow> text_words (a @ b) = text_words a @ text_words b"
  using words_from_append [of "map toupper_byte b" None "map toupper_byte a"] by (cases b) (auto simp: text_words_def)

lemma white_no_word: "is_white c \<Longrightarrow> \<not> word_char (toupper_byte c)"
  by (auto simp: is_white_def word_char_def letter_def toupper_byte_def)

lemma length_words_from: "length (words_from st cs) \<le> length cs + (if st = None then 0 else 1)"
proof (induction cs arbitrary: st)
  case Nil
  show ?case by (cases st) simp_all
next
  case (Cons c cs)
  show ?case
  proof (cases st)
    case None
    then show ?thesis using Cons [of None] Cons [of "Some [c]"] unfolding None words_from_Cons by auto
  next
    case (Some w)
    then show ?thesis using Cons [of None] Cons [of "Some (w @ [c])"] unfolding Some words_from_Cons by auto
  qed
qed

section \<open>The table of a part\<close>

definition finish_word :: "u8 list option \<times> wc_table \<Rightarrow> c_fault + wc_table" where
  "finish_word x = (case fst x of None \<Rightarrow> Inr (snd x) | Some w \<Rightarrow> wordcount_reduce w (snd x))"

lemma map_letter_cases:
  "map_letter b (None, t) = Inr (if letter (toupper_byte b) then Some [toupper_byte b] else None, t)"
  "map_letter b (Some w, t) =
     (if word_char (toupper_byte b) then Inr (Some (w @ [toupper_byte b]), t)
      else ebind (wordcount_reduce w t) (\<lambda>t. Inr (None, t)))"
  by (auto simp: map_letter_def letter_def word_char_def Let_def not_less)

lemma count_list_Cons: "count_list (w # ws) v = (if v = w then 1 else 0) + count_list ws v"
  by simp

lemma part_counted:
  assumes "good_table n t" "n + int (length part) + 1 < 2 ^ 29"
  shows "\<exists>t'. ebind (efold map_letter part (st, t)) finish_word = Inr t' \<and>
    good_table (n + int (length (words_from st (map toupper_byte part)))) t' \<and>
    (\<forall>v. count_of (entries t') v = count_of (entries t) v + int (count_list (words_from st (map toupper_byte part)) v))"
  using assms
proof (induction part arbitrary: st t n)
  case Nil
  show ?case
  proof (cases st)
    case None
    then show ?thesis using Nil by (simp add: finish_word_def)
  next
    case (Some w)
    then show ?thesis using reduce_ok [of n t w] Nil by (auto simp: finish_word_def)
  qed
next
  case (Cons b part)
  let ?c = "toupper_byte b"
  show ?case
  proof (cases "\<exists>w. st = Some w \<and> \<not> word_char ?c")
    case False
    then obtain st' where "map_letter b (st, t) = Inr (st', t)"
      and "words_from st (?c # map toupper_byte part) = words_from st' (map toupper_byte part)"
    proof (cases st)
      case None
      then show ?thesis using that by (simp only: map_letter_cases words_from_Cons)
    next
      case (Some w)
      with False have "word_char ?c" by blast
      with Some show ?thesis using that [of "Some (w @ [?c])"] by (simp only: map_letter_cases words_from_Cons if_True)
    qed
    then show ?thesis using Cons.IH [of n t st'] Cons.prems by (simp only: list.map) simp
  next
    case True
    then obtain w where w: "st = Some w" "\<not> word_char ?c" by blast
    obtain t1 where t1: "wordcount_reduce w t = Inr t1" "good_table (n + 1) t1"
      "\<And>v. count_of (entries t1) v = count_of (entries t) v + (if v = w then 1 else 0)"
      using reduce_ok [of n t w] Cons.prems by auto
    have "words_from st (?c # map toupper_byte part) = w # words_from None (map toupper_byte part)"
      unfolding w(1) words_from_Cons using w(2) by simp
    then show ?thesis
      using Cons.IH [of "n + 1" t1 None] Cons.prems t1 w
      by (simp only: list.map) (auto simp: map_letter_cases algebra_simps simp del: words_from.simps)
  qed
qed

section \<open>The parts of the file\<close>

definition file_part :: "u8 list \<Rightarrow> int \<Rightarrow> int \<Rightarrow> u8 list" where
  "file_part fdata i j = take (nat (j - i)) (drop (nat i) fdata)"

definition at_boundary :: "u8 list \<Rightarrow> int \<Rightarrow> int \<Rightarrow> bool" where
  "at_boundary fdata flen j \<longleftrightarrow> j = flen \<or> is_white (fdata ! nat j)"

lemma slice_append:
  assumes "0 \<le> i" "i \<le> j" "j \<le> k"
  shows "file_part fdata i k = file_part fdata i j @ file_part fdata j k"
proof -
  have "nat (k - i) = nat (j - i) + nat (k - j)" "nat j = nat (j - i) + nat i" using assms by auto
  then show ?thesis by (simp add: file_part_def take_add)
qed

lemma text_words_slices:
  assumes "0 \<le> i" "i \<le> j" "j \<le> k" "k \<le> flen" "flen \<le> int (length fdata)" "at_boundary fdata flen j"
  shows "text_words (file_part fdata i k) = text_words (file_part fdata i j) @ text_words (file_part fdata j k)"
proof -
  have "file_part fdata j k = [] \<or> \<not> word_char (toupper_byte (hd (file_part fdata j k)))"
  proof (cases "j = k")
    case True
    then show ?thesis by (simp add: file_part_def)
  next
    case False
    then have "hd (file_part fdata j k) = fdata ! nat j" using assms by (simp add: file_part_def hd_drop_conv_nth)
    then show ?thesis using assms False white_no_word by (auto simp: at_boundary_def)
  qed
  then show ?thesis unfolding slice_append [OF assms(1-3)] by (rule text_words_append)
qed

lemma extend_part_ok:
  assumes "0 \<le> fpos" "fpos \<le> flen" "flen \<le> int (length fdata)" "flen < 2 ^ 29" "0 \<le> len" "len \<le> fpos"
  shows "\<exists>j. extend_part fdata flen fpos len = Inr (j, len + (j - fpos)) \<and>
    fpos \<le> j \<and> j \<le> flen \<and> at_boundary fdata flen j"
  using assms
proof (induction fdata flen fpos len rule: extend_part.induct)
  case (1 fdata flen fpos len)
  show ?case
  proof (cases "fpos < flen \<and> \<not> is_white (fdata ! nat fpos)")
    case True
    then have "extend_part fdata flen fpos len = extend_part fdata flen (fpos + 1) (len + 1)"
      using 1(2-) by (subst extend_part.simps) simp
    moreover have "\<exists>j. extend_part fdata flen (fpos + 1) (len + 1) = Inr (j, len + 1 + (j - (fpos + 1))) \<and>
        fpos + 1 \<le> j \<and> j \<le> flen \<and> at_boundary fdata flen j"
      using 1(2-) True by (intro 1(1) [of "fdata ! nat fpos"]) auto
    ultimately show ?thesis by (auto simp: algebra_simps intro: order_trans)
  next
    case False
    then show ?thesis using 1(2-) by (subst extend_part.simps) (auto simp: at_boundary_def)
  qed
qed

text \<open>Every part ends where a word ends, and at most the remainder of the division is left over.\<close>

lemma wc_parts_ok:
  assumes "0 \<le> fpos" "fpos \<le> flen" "flen \<le> int (length fdata)" "flen < 2 ^ 29" "0 \<le> req" "req \<le> flen"
  shows "\<exists>parts stop. wc_parts k fdata flen req fpos = Inr (parts, stop) \<and> length parts = k \<and>
    (\<forall>(i, n)\<in>set parts. 0 \<le> i \<and> 0 \<le> n \<and> i + n \<le> flen) \<and>
    concat (map (\<lambda>(i, n). text_words (file_part fdata i (i + n))) parts) = text_words (file_part fdata fpos stop) \<and>
    sum_list (map snd parts) = stop - fpos \<and>
    fpos \<le> stop \<and> stop \<le> flen \<and> (0 < k \<longrightarrow> at_boundary fdata flen stop) \<and> flen - stop \<le> max 0 (flen - fpos - int k * req)"
  using assms
proof (induction k arbitrary: fpos)
  case 0
  then show ?case by (simp add: file_part_def text_words_def)
next
  case (Suc k)
  let ?len = "min req (flen - fpos)"
  have "fpos + ?len \<le> flen" by arith
  then obtain j where j: "extend_part fdata flen (fpos + ?len) ?len = Inr (j, j - fpos)"
    "fpos + ?len \<le> j" "j \<le> flen" "at_boundary fdata flen j"
    using extend_part_ok [of "fpos + ?len" flen fdata ?len] Suc.prems by auto
  then have le: "fpos \<le> j" "0 \<le> j" using Suc.prems by auto
  obtain parts stop where IH: "wc_parts k fdata flen req j = Inr (parts, stop)" "length parts = k"
    "\<forall>(i, n)\<in>set parts. 0 \<le> i \<and> 0 \<le> n \<and> i + n \<le> flen"
    "concat (map (\<lambda>(i, n). text_words (file_part fdata i (i + n))) parts) = text_words (file_part fdata j stop)"
    "sum_list (map snd parts) = stop - j" "j \<le> stop" "stop \<le> flen"
    "0 < k \<longrightarrow> at_boundary fdata flen stop" "flen - stop \<le> max 0 (flen - j - int k * req)"
    using Suc.IH [of j] Suc.prems j(3) le by blast
  have "wc_parts (Suc k) fdata flen req fpos = Inr ((fpos, j - fpos) # parts, stop)"
  proof -
    have len: "to_int (flen - fpos) = flen - fpos" "\<not> flen - fpos < 0" "(if req < flen - fpos then req else flen - fpos) = ?len"
      using Suc.prems by (auto intro: to_int_id)
    show ?thesis by (simp only: wc_parts.simps Let_def len if_False j(1) IH(1) ebind.simps prod.case)
  qed
  moreover have "text_words (file_part fdata fpos stop) = text_words (file_part fdata fpos j) @ text_words (file_part fdata j stop)"
    using text_words_slices [of fpos j stop flen fdata] Suc.prems j le IH by blast
  moreover have "at_boundary fdata flen stop"
  proof (cases k)
    case 0
    then have "stop = j" using IH(1) by simp
    then show ?thesis using j(4) by simp
  qed (use IH(8) in simp)
  moreover have "flen - stop \<le> max 0 (flen - fpos - int (Suc k) * req)"
  proof (cases "j = flen")
    case True
    then show ?thesis using IH(6,7) by simp
  next
    case False
    then have "fpos + req \<le> j" using j(2,3) by arith
    then have "flen - j - int k * req \<le> flen - fpos - int (Suc k) * req" by (simp add: algebra_simps)
    then show ?thesis using IH(9) by arith
  qed
  ultimately show ?case using IH j le Suc.prems by (intro exI [of _ "(fpos, j - fpos) # parts"] exI [of _ stop]) auto
qed

lemma wc_thread_ok:
  assumes "0 \<le> i" "0 \<le> n" "i + n < int (length fdata)" "i + n + 1 < 2 ^ 29"
  shows "\<exists>t. wc_thread fdata (i, n) = Inr t \<and> good_table (int (length (text_words (file_part fdata i (i + n))))) t \<and>
    (\<forall>v. count_of (entries t) v = int (count_list (text_words (file_part fdata i (i + n))) v))"
proof -
  let ?part = "file_part fdata i (i + n)" and ?t = "\<lparr>entries = [], capacity = START_ARRAY_SIZE\<rparr>"
  have "wordcount_map True ?part ?t = ebind (efold map_letter ?part (None, ?t)) finish_word"
    unfolding wordcount_map_def by (rule ebind_cong [OF refl]) (simp add: finish_word_def split: option.split)
  then have "wc_thread fdata (i, n) = ebind (efold map_letter ?part (None, ?t)) finish_word"
    using assms by (simp add: wc_thread_def file_part_def)
  moreover have "good_table 0 ?t" by (simp add: good_table_def good_entries_def use_len_def START_ARRAY_SIZE_def words_sorted_def)
  moreover have "0 + int (length ?part) + 1 < 2 ^ 29" using assms by (simp add: file_part_def)
  ultimately show ?thesis using part_counted [of 0 ?t ?part None] by (simp add: text_words_def)
qed

text \<open>A group of tables: each one sorted, with the sums over the tables.\<close>

definition good_words :: "wc_count list \<Rightarrow> bool" where
  "good_words es \<longleftrightarrow> words_sorted es \<and> positive es"

definition over :: "(wc_count list \<Rightarrow> int) \<Rightarrow> wc_count list list \<Rightarrow> int" where
  "over f wss = sum_list (map f wss)"

lemma over_simps [simp]:
  "over f [] = 0" "over f (es # wss) = f es + over f wss" "over f (wss @ wss') = over f wss + over f wss'"
  by (simp_all add: over_def)

lemma threads_ok:
  assumes "flen < int (length fdata)" "flen + 1 < 2 ^ 29" "\<forall>(i, n)\<in>set parts. 0 \<le> i \<and> 0 \<le> n \<and> i + n \<le> flen"
  defines "ws \<equiv> concat (map (\<lambda>(i, n). text_words (file_part fdata i (i + n))) parts)"
  shows "\<exists>ts. emap (wc_thread fdata) parts = Inr ts \<and> length ts = length parts \<and>
    (\<forall>es\<in>set (map entries ts). good_words es) \<and> over sum_counts (map entries ts) = int (length ws) \<and>
    (\<forall>v. over (\<lambda>es. count_of es v) (map entries ts) = int (count_list ws v))"
  using assms(3) unfolding ws_def
proof (induction parts)
  case (Cons part parts)
  obtain i n where part: "part = (i, n)" by fastforce
  then obtain t where "wc_thread fdata part = Inr t"
    and "good_table (int (length (text_words (file_part fdata i (i + n))))) t"
    and "\<And>v. count_of (entries t) v = int (count_list (text_words (file_part fdata i (i + n))) v)"
    using wc_thread_ok [of i n fdata] assms(1,2) Cons.prems by auto
  then show ?case
    using Cons.IH Cons.prems part by (auto simp: good_table_def good_entries_def good_words_def)
qed simp

section \<open>Merging the tables\<close>

lemma merge_adds:
  "merge_sections xs ys = Inr zs \<Longrightarrow> sum_counts zs = sum_counts xs + sum_counts ys \<and> count_of zs v = count_of xs v + count_of ys v"
proof (induction xs ys arbitrary: zs rule: merge_sections.induct)
  case (1 x xs y ys)
  consider "the_word x = the_word y"
    | "the_word x \<noteq> the_word y" "the_word x < the_word y"
    | "the_word x \<noteq> the_word y" "\<not> the_word x < the_word y" "the_word y < the_word x"
    by (cases "the_word x" "the_word y" rule: linorder_cases) auto
  then show ?case
  proof cases
    case eq: 1
    then have "merge_sections (x\<lparr>the_count := the_count x + the_count y\<rparr> # xs) ys = Inr zs"
      "c_int (the_count x + the_count y) = Inr (the_count x + the_count y)"
      using 1(4) by (auto simp: Let_def ebind_Inr_iff c_int_def split: if_splits)
    then show ?thesis using 1(1) [OF refl] eq by auto
  next
    case 2
    then obtain zs' where "merge_sections xs (y # ys) = Inr zs'" "zs = x # zs'"
      using 1(4) by (auto simp: Let_def ebind_Inr_iff)
    then show ?thesis using 1(2) [OF refl] 2 by auto
  next
    case 3
    then obtain zs' where "merge_sections (x # xs) ys = Inr zs'" "zs = y # zs'"
      using 1(4) by (auto simp: Let_def ebind_Inr_iff)
    then show ?thesis using 1(3) [OF refl] 3 by auto
  qed
qed auto

lemma merge_sections_ok:
  assumes "good_words xs" "good_words ys" "sum_counts xs + sum_counts ys < 2 ^ 31"
  shows "\<exists>zs. merge_sections xs ys = Inr zs \<and> good_words zs \<and>
    (\<forall>z\<in>set zs. \<exists>e\<in>set xs \<union> set ys. the_word e = the_word z)"
  using assms
proof (induction xs ys rule: merge_sections.induct)
  case (1 x xs y ys)
  have pos: "0 \<le> sum_counts xs" "0 \<le> sum_counts ys" "1 \<le> the_count x" "1 \<le> the_count y"
    using 1(4,5) by (auto simp: good_words_def intro: order_trans [OF _ length_le_total])
  have tails: "good_words xs" "good_words ys" "\<forall>e\<in>set xs. the_word x < the_word e" "\<forall>e\<in>set ys. the_word y < the_word e"
    using 1(4,5) by (auto simp: good_words_def words_sorted_def)
  consider "the_word x = the_word y"
    | "the_word x \<noteq> the_word y" "the_word x < the_word y"
    | "the_word x \<noteq> the_word y" "\<not> the_word x < the_word y" "the_word y < the_word x"
    by (cases "the_word x" "the_word y" rule: linorder_cases) auto
  then show ?case
  proof cases
    case eq: 1
    let ?x = "x\<lparr>the_count := the_count x + the_count y\<rparr>"
    have n: "c_int (the_count x + the_count y) = Inr (the_count x + the_count y)"
      using pos 1(6) by (intro c_int_ok) auto
    have "good_words (?x # xs)" using 1(4) pos by (auto simp: good_words_def words_sorted_def)
    then have "\<exists>zs. merge_sections (?x # xs) ys = Inr zs \<and> good_words zs \<and>
        (\<forall>z\<in>set zs. \<exists>e\<in>set (?x # xs) \<union> set ys. the_word e = the_word z)"
      using tails 1(6) eq n by (intro 1(1) [OF refl]) auto
    then show ?thesis using eq n by (fastforce simp: Let_def)
  next
    case 2
    then have "\<exists>zs. merge_sections xs (y # ys) = Inr zs \<and> good_words zs \<and>
        (\<forall>z\<in>set zs. \<exists>e\<in>set xs \<union> set (y # ys). the_word e = the_word z)"
      using tails 1(5,6) pos by (intro 1(2) [OF refl]) auto
    then obtain zs where zs: "merge_sections xs (y # ys) = Inr zs" "good_words zs"
      "\<forall>z\<in>set zs. \<exists>e\<in>set xs \<union> set (y # ys). the_word e = the_word z" by blast
    have "the_word x < the_word z" if "z \<in> set zs" for z
      using zs(3) that tails 2 by (fastforce intro: less_trans)
    then have "good_words (x # zs)" using zs(2) pos by (auto simp: good_words_def words_sorted_def)
    then show ?thesis using zs 2 by (auto simp: Let_def)
  next
    case 3
    then have "\<exists>zs. merge_sections (x # xs) ys = Inr zs \<and> good_words zs \<and>
        (\<forall>z\<in>set zs. \<exists>e\<in>set (x # xs) \<union> set ys. the_word e = the_word z)"
      using tails 1(4,6) pos by (intro 1(3) [OF refl]) auto
    then obtain zs where zs: "merge_sections (x # xs) ys = Inr zs" "good_words zs"
      "\<forall>z\<in>set zs. \<exists>e\<in>set (x # xs) \<union> set ys. the_word e = the_word z" by blast
    have "the_word y < the_word z" if "z \<in> set zs" for z
      using zs(3) that tails 3 by (fastforce intro: less_trans)
    then have "good_words (y # zs)" using zs(2) pos by (auto simp: good_words_def words_sorted_def)
    then show ?thesis using zs 3 by (auto simp: Let_def)
  qed
qed auto

lemma over_pairs:
  "2 * n \<le> length ws \<Longrightarrow> over f (take (2 * n) ws) = (\<Sum>i<n. f (ws ! (2 * i)) + f (ws ! (2 * i + 1)))"
proof (induction n)
  case (Suc n)
  then have "take (2 * Suc n) ws = take (2 * n) ws @ [ws ! (2 * n), ws ! (2 * n + 1)]"
    by (simp add: take_Suc_conv_app_nth)
  then show ?case using Suc by simp
qed simp

lemma over_mono: "(\<And>es. es \<in> set wss \<Longrightarrow> 0 \<le> f es) \<Longrightarrow> 0 \<le> over f wss"
  by (induction wss) (auto intro: add_nonneg_nonneg)

text \<open>\<open>f\<close> is a measure that merging adds up: the sum of the counts, or the count of one word.\<close>

definition additive :: "(wc_count list \<Rightarrow> int) \<Rightarrow> bool" where
  "additive f \<longleftrightarrow> (\<forall>xs ys zs. merge_sections xs ys = Inr zs \<longrightarrow> f zs = f xs + f ys)"

lemma additive_counts: "additive sum_counts" "additive (\<lambda>es. count_of es v)"
  by (auto simp: additive_def dest: merge_adds)

lemma good_words_nonneg: "good_words es \<Longrightarrow> 0 \<le> sum_counts es"
  by (auto simp: good_words_def intro: order_trans [OF _ length_le_total])

text \<open>The first \<open>2 * n + r\<close> tables are live before a round, the first \<open>n + r\<close> after it.\<close>

lemma merge_round_ok:
  assumes "0 < n" "r \<le> 1" "2 * n + r \<le> length ws" "\<forall>es\<in>set (take (2 * n + r) ws). good_words es"
    and "over sum_counts (take (2 * n + r) ws) < 2 ^ 31"
  shows "\<exists>ws'. merge_round n r ws = Inr ws' \<and> length ws' = length ws \<and>
    (\<forall>es\<in>set (take (n + r) ws'). good_words es) \<and>
    (\<forall>f. additive f \<longrightarrow> over f (take (n + r) ws') = over f (take (2 * n + r) ws))"
proof -
  let ?pair = "\<lambda>i. merge_sections (ws ! (2 * i)) (ws ! (2 * i + 1))"
  have good: "good_words (ws ! i)" if "i < 2 * n + r" for i
  proof -
    have "take (2 * n + r) ws ! i \<in> set (take (2 * n + r) ws)" using that assms(3) by (intro nth_mem) simp
    then show ?thesis using that assms(4) by simp
  qed
  have split: "take (2 * n + r) ws = take (2 * n) ws @ (if r = 0 then [] else [ws ! (2 * n)])"
    using assms(2,3) by (cases r) (auto simp: take_Suc_conv_app_nth)
  have "\<exists>zs. ?pair i = Inr zs \<and> good_words zs" if "i < n" for i
  proof -
    let ?g = "\<lambda>i. sum_counts (ws ! (2 * i)) + sum_counts (ws ! (2 * i + 1))"
    have "?g i \<le> (\<Sum>i<n. ?g i)"
      using that by (intro member_le_sum) (auto intro!: add_nonneg_nonneg good_words_nonneg good)
    also have "\<dots> = over sum_counts (take (2 * n) ws)" using over_pairs [of n ws] assms(3) by simp
    also have "\<dots> \<le> over sum_counts (take (2 * n + r) ws)"
      unfolding split using good_words_nonneg [OF good [of "2 * n"]] assms(2) by (cases r) auto
    finally show ?thesis
      using merge_sections_ok [of "ws ! (2 * i)" "ws ! (2 * i + 1)"] good [of "2 * i"] good [of "2 * i + 1"]
        that assms(5) by auto
  qed
  then obtain m where m: "\<And>i. i < n \<Longrightarrow> ?pair i = Inr (m i) \<and> good_words (m i)" by metis
  let ?ms = "map m [0..<n]"
  define ws' where "ws' = (if r = 1 then (?ms @ drop n ws)[n := ws ! (2 * n)] else ?ms @ drop n ws)"
  have "emap ?pair [0..<n] = Inr ?ms" using m by (intro emap_Inr) auto
  moreover have "(?ms @ drop n ws) ! (2 * n) = ws ! (2 * n)" if "r = 1"
    using assms(1,3) that by (simp add: nth_append mult_2)
  ultimately have round: "merge_round n r ws = Inr ws'"
    by (simp add: merge_round_def Let_def ws'_def)
  have live: "take (n + r) ws' = ?ms @ (if r = 0 then [] else [ws ! (2 * n)])"
    using assms(1-3) unfolding ws'_def
    by (cases r) (auto simp: list_update_append take_Suc_conv_app_nth nth_append)
  have "over f (take (n + r) ws') = over f (take (2 * n + r) ws)" if "additive f" for f
  proof -
    have "over f ?ms = (\<Sum>i<n. f (m i))"
      by (simp add: over_def interv_sum_list_conv_sum_set_nat atLeast0LessThan comp_def)
    also have "\<dots> = over f (take (2 * n) ws)"
      using that m over_pairs [of n ws f] assms(3) by (auto simp: additive_def intro!: sum.cong)
    finally show ?thesis unfolding live split by simp
  qed
  moreover have "\<forall>es\<in>set (take (n + r) ws'). good_words es"
    unfolding live using m good [of "2 * n"] assms(2) by auto
  moreover have "length ws' = length ws" using assms(3) by (simp add: ws'_def)
  ultimately show ?thesis using round by blast
qed

lemma join_arrays_ok:
  assumes "r \<le> 1" "0 < 2 * n + r" "2 * n + r \<le> length ws" "\<forall>es\<in>set (take (2 * n + r) ws). good_words es"
    and "over sum_counts (take (2 * n + r) ws) < 2 ^ 31"
  shows "\<exists>ws'. join_arrays n r ws = Inr ws' \<and> good_words (ws' ! 0) \<and>
    (\<forall>f. additive f \<longrightarrow> f (ws' ! 0) = over f (take (2 * n + r) ws))"
  using assms
proof (induction n r ws rule: join_arrays.induct)
  case (1 n r ws)
  show ?case
  proof (cases "0 < n")
    case False
    then have "n = 0" "r = 1" using 1(2,3) by auto
    then have "take (2 * n + r) ws = [ws ! 0]" using 1(4) by (cases ws) auto
    then show ?thesis using \<open>n = 0\<close> 1(5) by (subst join_arrays.simps) simp
  next
    case True
    obtain ws' where ws': "merge_round n r ws = Inr ws'" "length ws' = length ws"
      "\<forall>es\<in>set (take (n + r) ws'). good_words es"
      "\<And>f. additive f \<Longrightarrow> over f (take (n + r) ws') = over f (take (2 * n + r) ws)"
      using merge_round_ok [OF True 1(2,4,5,6)] by blast
    have half: "2 * ((n + r) div 2) + (n + r) mod 2 = n + r" by simp
    have "(n + r) mod 2 \<le> 1" "0 < n + r" "n + r \<le> length ws'" using True 1(4) ws'(2) by auto
    moreover have "over sum_counts (take (n + r) ws') < 2 ^ 31" using ws'(4) additive_counts(1) 1(6) by simp
    ultimately have "\<exists>ws''. join_arrays ((n + r) div 2) ((n + r) mod 2) ws' = Inr ws'' \<and> good_words (ws'' ! 0) \<and>
        (\<forall>f. additive f \<longrightarrow> f (ws'' ! 0) = over f (take (n + r) ws'))"
      using 1(1) [OF True ws'(1)] ws'(3) unfolding half by blast
    then show ?thesis using True ws'(1,4) by (subst join_arrays.simps) auto
  qed
qed

lemma splitter_ok:
  assumes "0 < p" "length contents + 1 < 2 ^ 29" "fdata = contents @ 0 # z"
  shows "\<exists>es stop. wordcount_splitter p fdata (int (length contents)) = Inr es \<and> good_words es \<and>
    (\<forall>v. count_of es v = int (count_list (text_words (take stop contents)) v)) \<and>
    stop \<le> length contents \<and> length contents - stop \<le> length contents mod p \<and>
    (stop = length contents \<or> is_white (contents ! stop))"
proof -
  let ?flen = "int (length contents)"
  define req where "req = ?flen div int p"
  have req: "0 \<le> req" "req \<le> ?flen" "to_int (c_div ?flen (int p)) = req"
  proof -
    show "0 \<le> req" "req \<le> ?flen" by (simp_all add: req_def flip: zdiv_int)
    then show "to_int (c_div ?flen (int p)) = req"
      using assms(1,2) by (simp add: c_div_nonneg flip: req_def)
  qed
  have flen: "?flen < int (length fdata)" "?flen < 2 ^ 29" "?flen + 1 < 2 ^ 29" using assms(2,3) by simp_all
  then obtain parts j where parts: "wc_parts p fdata ?flen req 0 = Inr (parts, j)" "length parts = p"
    "\<forall>(i, n)\<in>set parts. 0 \<le> i \<and> 0 \<le> n \<and> i + n \<le> ?flen"
    "concat (map (\<lambda>(i, n). text_words (file_part fdata i (i + n))) parts) = text_words (file_part fdata 0 j)"
    "0 \<le> j" "j \<le> ?flen" "at_boundary fdata ?flen j" "?flen - j \<le> max 0 (?flen - 0 - int p * req)"
    using wc_parts_ok [of 0 ?flen fdata req p] req assms(1) by auto
  define stop where "stop = nat j"
  have j: "j = int stop" using parts(5) by (simp add: stop_def)
  have read: "file_part fdata 0 j = take stop contents" using parts(6) assms(3) j by (simp add: file_part_def)
  let ?ws = "text_words (take stop contents)"
  obtain ts where ts: "emap (wc_thread fdata) parts = Inr ts" "length ts = p"
    "\<forall>es\<in>set (map entries ts). good_words es" "over sum_counts (map entries ts) = int (length ?ws)"
    "\<And>v. over (\<lambda>es. count_of es v) (map entries ts) = int (count_list ?ws v)"
    using threads_ok [OF flen(1,3) parts(3)] parts(2,4) read by auto
  have "length ?ws \<le> length contents"
    using length_words_from [of None "map toupper_byte (take stop contents)"] by (simp add: text_words_def)
  then have few: "over sum_counts (map entries ts) < 2 ^ 31" using ts(4) flen(2) by simp
  have p: "2 * (p div 2) + p mod 2 = p" "p mod 2 \<le> 1" by simp_all
  obtain ws where ws: "join_arrays (p div 2) (p mod 2) (map entries ts) = Inr ws" "good_words (ws ! 0)"
    "\<And>f. additive f \<Longrightarrow> f (ws ! 0) = over f (map entries ts)"
    using join_arrays_ok [of "p mod 2" "p div 2" "map entries ts"] ts(2,3) few assms(1) p(2) unfolding p(1) by auto
  have "wordcount_splitter p fdata ?flen = Inr (ws ! 0)"
    using assms(1) parts(1) ts(1) ws(1) by (simp add: wordcount_splitter_def req(3))
  moreover have "count_of (ws ! 0) v = int (count_list ?ws v)" for v
    using ws(3) [OF additive_counts(2)] ts(5) by simp
  moreover have "stop \<le> length contents" using parts(6) j by simp
  moreover have "?flen - int p * req = int (length contents mod p)"
    by (simp add: req_def zmod_int minus_mult_div_eq_mod)
  then have "length contents - stop \<le> length contents mod p" using parts(8) j by simp
  moreover have "stop = length contents \<or> is_white (contents ! stop)"
    using parts(6,7) j assms(3) by (cases "stop < length contents") (auto simp: at_boundary_def nth_append)
  ultimately show ?thesis using ws(2) by blast
qed

section \<open>The parallel sort\<close>

text \<open>What \<^verbatim>\<open>qsort\<close> does: a permutation, in the order of the comparison.\<close>

definition sorts_by :: "(('a \<Rightarrow> 'a \<Rightarrow> int) \<Rightarrow> 'a list \<Rightarrow> 'a list) \<Rightarrow> ('a \<Rightarrow> 'a \<Rightarrow> int) \<Rightarrow> bool" where
  "sorts_by qsort compar \<longleftrightarrow>
     (\<forall>xs. mset (qsort compar xs) = mset xs \<and> sorted_wrt (\<lambda>a b. compar a b \<le> 0) (qsort compar xs))"

lemma concat_sections: "concat (map (\<lambda>i. take q (drop (i * q) xs)) [0..<k]) = take (k * q) xs"
  by (induction k) (simp_all add: take_add add.commute [of q])

lemma sort_round_permutes:
  assumes "sorts_by qsort compar" "0 < n"
  shows "mset (sort_round qsort compar n base) = mset base"
proof -
  obtain k where k: "n = Suc k" using assms(2) gr0_implies_Suc by blast
  define q where "q = length base div n"
  let ?sec = "\<lambda>i. take (if i = n - 1 then length base - i * q else q) (drop (i * q) base)"
  have "concat (map ?sec [0..<n]) = concat (map (\<lambda>i. take q (drop (i * q) base)) [0..<k]) @ drop (k * q) base"
    unfolding k by (auto intro!: arg_cong [where f = concat] map_cong)
  also have "\<dots> = base" unfolding concat_sections by simp
  finally have "concat (map ?sec [0..<n]) = base" .
  moreover have "mset (concat (map (\<lambda>i. qsort compar (g i)) is)) = mset (concat (map g is))" for g and "is" :: "nat list"
    using assms(1) by (induction "is") (simp_all add: sorts_by_def)
  ultimately show ?thesis unfolding sort_round_def Let_def q_def by metis
qed

lemma sort_pthreads_sorts:
  assumes "sorts_by qsort compar" "0 < n"
  shows "mset (sort_pthreads qsort compar n base) = mset base \<and>
    sorted_wrt (\<lambda>a b. compar a b \<le> 0) (sort_pthreads qsort compar n base)"
  using assms
proof (induction qsort compar n base rule: sort_pthreads.induct)
  case (1 qsort compar n base)
  show ?case
  proof (cases "n = 1")
    case True
    have "sort_pthreads qsort compar 1 base = qsort compar base"
      by (subst sort_pthreads.simps, simp, subst sort_pthreads.simps, simp add: sort_round_def)
    then show ?thesis using True 1(2) by (simp add: sorts_by_def)
  next
    case False
    then have "0 < n div 2" using 1(3) by auto
    then show ?thesis
      using 1(1) [OF 1(3,2)] 1(2,3) sort_round_permutes [OF 1(2,3)] by (subst (1 2) sort_pthreads.simps) simp
  qed
qed

section \<open>The report\<close>

lemma count_of_absent: "v \<notin> the_word ` set es \<Longrightarrow> count_of es v = 0"
  by (induction es) auto

lemma good_words_lookup:
  assumes "good_words es"
  shows "distinct (map the_word es)" "e \<in> set es \<Longrightarrow> count_of es (the_word e) = the_count e"
    "v \<in> the_word ` set es \<longleftrightarrow> count_of es v \<noteq> 0"
proof -
  have "distinct (map the_word es) \<and> (\<forall>e\<in>set es. count_of es (the_word e) = the_count e)"
    using assms
  proof (induction es)
    case (Cons e es)
    then have "good_words es" "the_word e \<notin> the_word ` set es"
      by (auto simp: good_words_def words_sorted_def)
    moreover from this have "\<forall>e'\<in>set es. the_word e \<noteq> the_word e'" "count_of es (the_word e) = 0"
      using count_of_absent by auto
    ultimately show ?case using Cons.IH by simp
  qed simp
  moreover have "\<forall>e\<in>set es. the_count e \<noteq> 0" using assms by (auto simp: good_words_def positive_def)
  ultimately show "distinct (map the_word es)" "e \<in> set es \<Longrightarrow> count_of es (the_word e) = the_count e"
    "v \<in> the_word ` set es \<longleftrightarrow> count_of es v \<noteq> 0"
    using count_of_absent [of v es] by auto
qed

text \<open>
  C39. The program counts words: when the processors are no more than the bytes of the file and the file does not fill its
  last page, the report is the beginning of a list that has every word of the part that was read exactly
  once, with the number of times it occurs there, by decreasing count. That part ends at white space or
  at the end of the file and leaves out at most the remainder of the division of the file's length by the
  number of processors: nothing is lost when they divide it.
\<close>
theorem word_count_reports:
  assumes "sorts_by qsort wordcount_cmp" "0 < p" "p \<le> length contents" "0 < page"
    and "length contents mod page \<noteq> 0" "length contents + 1 < 2 ^ 29" "disp = None \<or> (\<exists>n>0. disp = Some n)"
  shows "\<exists>ws stop. wordcount_main qsort page p disp contents = Inr (take DEFAULT_DISP_NUM ws) \<and>
    distinct (map the_word ws) \<and> sorted_wrt (\<lambda>a b. the_count b \<le> the_count a) ws \<and>
    set (map the_word ws) = set (text_words (take stop contents)) \<and>
    (\<forall>e\<in>set ws. the_count e = int (count_list (text_words (take stop contents)) (the_word e))) \<and>
    stop \<le> length contents \<and> length contents - stop \<le> length contents mod p \<and>
    (stop = length contents \<or> is_white (contents ! stop))"
proof -
  obtain z where "map_file page contents = contents @ 0 # z" using map_file_pads [OF assms(4,5)] by blast
  then obtain es stop where es: "wordcount_splitter p (map_file page contents) (int (length contents)) = Inr es"
    "good_words es" "\<And>v. count_of es v = int (count_list (text_words (take stop contents)) v)"
    and stop: "stop \<le> length contents" "length contents - stop \<le> length contents mod p"
    "stop = length contents \<or> is_white (contents ! stop)"
    using splitter_ok [OF assms(2,6)] by blast
  let ?ws = "sort_pthreads qsort wordcount_cmp p es"
  have sorted: "mset ?ws = mset es" "sorted_wrt (\<lambda>a b. wordcount_cmp a b \<le> 0) ?ws"
    using sort_pthreads_sorts [OF assms(1,2)] by blast+
  have "(\<lambda>a b. wordcount_cmp a b \<le> 0) = (\<lambda>a b. the_count b \<le> the_count a)"
    by (auto simp: wordcount_cmp_def fun_eq_iff)
  with sorted(2) have "sorted_wrt (\<lambda>a b. the_count b \<le> the_count a) ?ws" by simp
  moreover have "set ?ws = set es" using sorted(1) by (rule mset_eq_setD)
  moreover have "distinct (map the_word ?ws)"
    using good_words_lookup(1) [OF es(2)] sorted(1) by (metis mset_map mset_eq_imp_distinct_iff)
  moreover have "set (map the_word es) = set (text_words (take stop contents))"
    using good_words_lookup(3) [OF es(2)] by (auto simp: es(3) count_list_0_iff)
  moreover have "\<forall>e\<in>set es. the_count e = int (count_list (text_words (take stop contents)) (the_word e))"
    using good_words_lookup(2) [OF es(2)] es(3) by metis
  moreover have "wordcount_main qsort page p disp contents = Inr (take DEFAULT_DISP_NUM ?ws)"
    using assms(7) es(1) by (auto simp: wordcount_main_def Let_def DEFAULT_DISP_NUM_def)
  ultimately show ?thesis using stop by (intro exI [of _ ?ws] exI [of _ stop]) simp
qed

definition stable_qsort :: "(wc_count \<Rightarrow> wc_count \<Rightarrow> int) \<Rightarrow> wc_count list \<Rightarrow> wc_count list" where
  "stable_qsort compar = sort_key (\<lambda>e. - the_count e)"

lemma stable_qsort_sorts: "sorts_by stable_qsort wordcount_cmp"
proof -
  have "sorted_wrt (\<lambda>a b. - the_count a \<le> - the_count b) (sort_key (\<lambda>e. - the_count e) xs)" for xs
    using sorted_sort_key [of "\<lambda>e. - the_count e" xs] by (simp only: sorted_map)
  moreover have "(\<lambda>a b. - the_count a \<le> - the_count b) = (\<lambda>a b. wordcount_cmp a b \<le> 0)"
    by (auto simp: wordcount_cmp_def fun_eq_iff)
  ultimately show ?thesis unfolding sorts_by_def stable_qsort_def by (metis mset_sort)
qed

text \<open>The file \<^verbatim>\<open>aa a a c\<close>: with two processors every word is counted, with three the last is lost.\<close>

definition aa_a_a_c :: "u8 list" where
  "aa_a_a_c = [97, 97, 32, 97, 32, 97, 32, 99]"

lemma three_processors_drop_a_word:
  "wordcount_main stable_qsort 16 2 None aa_a_a_c =
     Inr [\<lparr>the_word = [65], the_count = 2\<rparr>, \<lparr>the_word = [65, 65], the_count = 1\<rparr>, \<lparr>the_word = [67], the_count = 1\<rparr>]"
  "wordcount_main stable_qsort 16 3 None aa_a_a_c =
     Inr [\<lparr>the_word = [65], the_count = 2\<rparr>, \<lparr>the_word = [65, 65], the_count = 1\<rparr>]"
  by code_simp+

theorem word_count_reports_witness:
  "\<exists>ws stop. wordcount_main stable_qsort 16 2 None aa_a_a_c = Inr (take DEFAULT_DISP_NUM ws) \<and>
    distinct (map the_word ws) \<and> sorted_wrt (\<lambda>a b. the_count b \<le> the_count a) ws \<and>
    set (map the_word ws) = set (text_words (take stop aa_a_a_c)) \<and>
    (\<forall>e\<in>set ws. the_count e = int (count_list (text_words (take stop aa_a_a_c)) (the_word e))) \<and>
    stop \<le> length aa_a_a_c \<and> length aa_a_a_c - stop \<le> length aa_a_a_c mod 2 \<and>
    (stop = length aa_a_a_c \<or> is_white (aa_a_a_c ! stop))"
  by (rule word_count_reports [OF stable_qsort_sorts]) (simp_all add: aa_a_a_c_def)

end
