(* ===== verification/Pca.thy ===== *)
theory Pca
  imports Work_Split C_Text
begin

text \<open>
  The principal component benchmark, \<^verbatim>\<open>benchmarks/pca/pca-pthread.c\<close>: options, random points, the
  means of the rows (divided among the threads in advance) and the covariances of all pairs of rows.
  The covariance threads take the rows one at a time from the counter \<^verbatim>\<open>next_row\<close>, which a mutex
  guards; they are a state machine of one atomic access per step, run by an arbitrary schedule. The
  mean threads write disjoint elements and are run in order. The results of \<^verbatim>\<open>rand\<close>, the content of
  fresh memory, the number of processors and the schedule are arguments.
\<close>

section \<open>Options and points\<close>

record pca_config =
  num_rows :: int
  num_cols :: int
  grid_size :: int

text \<open>What \<^verbatim>\<open>getopt\<close> returns, with the value of \<^verbatim>\<open>atoi(optarg)\<close>.\<close>

datatype pca_option = Opt_r int | Opt_c int | Opt_s int | Opt_unknown

fun pca_option_step :: "pca_option \<Rightarrow> pca_config \<Rightarrow> c_fault + pca_config" where
  "pca_option_step (Opt_r v) cfg = Inr (cfg\<lparr>num_rows := v\<rparr>)"
| "pca_option_step (Opt_c v) cfg = Inr (cfg\<lparr>num_cols := v\<rparr>)"
| "pca_option_step (Opt_s v) cfg = Inr (cfg\<lparr>grid_size := v\<rparr>)"
| "pca_option_step Opt_unknown cfg = Inl (Exited 1)"

definition pca_parse_args :: "pca_option list \<Rightarrow> c_fault + pca_config" where
  "pca_parse_args opts =
     ebind (efold pca_option_step opts \<lparr>num_rows = 3000, num_cols = 3000, grid_size = 1000\<rparr>) (\<lambda>cfg.
       if num_rows cfg \<le> 0 \<or> num_cols cfg \<le> 0 \<or> grid_size cfg \<le> 0 then Inl (Exited 1) else Inr cfg)"

text \<open>The points are drawn row by row; \<open>rnd k\<close> is the result of the \<open>k\<close>-th call of \<^verbatim>\<open>rand\<close>.\<close>

definition generate_points :: "(nat \<Rightarrow> int) \<Rightarrow> int \<Rightarrow> nat \<Rightarrow> nat \<Rightarrow> int list list" where
  "generate_points rnd grid rows cols =
     map (\<lambda>i. map (\<lambda>j. c_mod (rnd (i * cols + j)) grid) [0..<cols]) [0..<rows]"

text \<open>The text \<^verbatim>\<open>dump_points\<close> prints: each value as \<^verbatim>\<open>%5d \<close>, each row on a line.\<close>

definition eol :: string where "eol = [CHR 0x0A]"

definition pad_left :: "nat \<Rightarrow> string \<Rightarrow> string" where
  "pad_left w s = replicate (w - length s) (CHR '' '') @ s"

definition cell_of :: "int list list \<Rightarrow> int \<Rightarrow> int \<Rightarrow> c_fault + int" where
  "cell_of vals i j = ebind (at_index vals i) (\<lambda>row. at_index row j)"

definition dump_row :: "int list list \<Rightarrow> int \<Rightarrow> int \<Rightarrow> string \<Rightarrow> c_fault + string" where
  "dump_row vals cols i out =
     ebind (efold (\<lambda>j out. ebind (cell_of vals i j) (\<lambda>v. Inr (out @ pad_left 5 (print_int v) @ '' '')))
       (map int [0..<nat cols]) out) (\<lambda>out. Inr (out @ eol))"

definition dump_points :: "int list list \<Rightarrow> int \<Rightarrow> int \<Rightarrow> string \<Rightarrow> c_fault + string" where
  "dump_points vals rows cols out = efold (dump_row vals cols) (map int [0..<nat rows]) out"

section \<open>The means\<close>

record mean_arg =
  first_row :: int
  last_row :: int

record mean_state =
  mean :: "int list"
  visits :: nat

definition row_sum :: "pca_config \<Rightarrow> int list list \<Rightarrow> int \<Rightarrow> c_fault + int" where
  "row_sum cfg M i =
     efold (\<lambda>j sum. ebind (cell_of M i j) (\<lambda>v. c_int (sum + v))) (map int [0..<nat (num_cols cfg)]) 0"

definition mean_step :: "pca_config \<Rightarrow> int list list \<Rightarrow> int \<Rightarrow> mean_state \<Rightarrow> c_fault + mean_state" where
  "mean_step cfg M i st =
     ebind (row_sum cfg M i) (\<lambda>sum.
       if num_cols cfg = 0 then Inl Division_By_Zero
       else ebind (at_index (mean st) i) (\<lambda>_.
         Inr \<lparr>mean = (mean st)[nat i := c_div sum (num_cols cfg)], visits = Suc (visits st)\<rparr>))"

definition calc_mean :: "pca_config \<Rightarrow> int list list \<Rightarrow> mean_arg \<Rightarrow> mean_state \<Rightarrow> c_fault + mean_state" where
  "calc_mean cfg M arg st = efold (mean_step cfg M) (map int [nat (first_row arg)..<nat (last_row arg)]) st"

primrec mean_args :: "nat \<Rightarrow> int \<Rightarrow> int \<Rightarrow> int \<Rightarrow> mean_arg list" where
  "mean_args 0 rows_per_thread excess curr_row = []"
| "mean_args (Suc k) rows_per_thread excess curr_row =
     (let last = (if 0 < excess then curr_row + rows_per_thread + 1 else curr_row + rows_per_thread)
      in \<lparr>first_row = curr_row, last_row = last\<rparr> #
           mean_args k rows_per_thread (if 0 < excess then excess - 1 else excess) last)"

definition pthread_mean :: "pca_config \<Rightarrow> int list list \<Rightarrow> nat \<Rightarrow> mean_state \<Rightarrow> c_fault + mean_state" where
  "pthread_mean cfg M num_procs st =
     (if num_procs = 0 then Inl Assert_Failed
      else let rows_per_thread = c_div (num_rows cfg) (int num_procs);
               excess = num_rows cfg - rows_per_thread * int num_procs
           in efold (calc_mean cfg M) (mean_args num_procs rows_per_thread excess 0) st)"

section \<open>The covariances\<close>

text \<open>
  Where a thread is in \<^verbatim>\<open>calc_cov\<close>. The four places of the critical section exist twice, before the
  loop (\<open>False\<close>) and at its end (\<open>True\<close>, followed by \<^verbatim>\<open>COZ_PROGRESS\<close>).
\<close>

datatype cov_pc =
    Lock_row bool
  | Read_row bool
  | Bump_row bool int
  | Unlock_row bool int
  | Progress int
  | Loop_test int
  | Cell int int
  | Mirror int int int
  | Returned

record cov_state =
  next_row :: int
  row_lock :: "nat option"
  cov :: "int list list"
  cov_visits :: nat
  threads :: "cov_pc list"

definition cov_sum :: "pca_config \<Rightarrow> int list list \<Rightarrow> int list \<Rightarrow> int \<Rightarrow> int \<Rightarrow> c_fault + int" where
  "cov_sum cfg M mu i j =
     efold (\<lambda>k sum.
         ebind (cell_of M i k) (\<lambda>a. ebind (at_index mu i) (\<lambda>ma. ebind (c_int (a - ma)) (\<lambda>x.
         ebind (cell_of M j k) (\<lambda>b. ebind (at_index mu j) (\<lambda>mb. ebind (c_int (b - mb)) (\<lambda>y.
         ebind (c_int (x * y)) (\<lambda>xy. c_int (sum + xy)))))))))
       (map int [0..<nat (num_cols cfg)]) 0"

definition cov_value :: "pca_config \<Rightarrow> int list list \<Rightarrow> int list \<Rightarrow> int \<Rightarrow> int \<Rightarrow> c_fault + int" where
  "cov_value cfg M mu i j =
     ebind (cov_sum cfg M mu i j) (\<lambda>sum.
       if num_cols cfg - 1 = 0 then Inl Division_By_Zero else c_int (c_div sum (num_cols cfg - 1)))"

definition put_cell :: "int \<Rightarrow> int \<Rightarrow> int \<Rightarrow> int list list \<Rightarrow> c_fault + int list list" where
  "put_cell i j v cs =
     ebind (at_index cs i) (\<lambda>row. ebind (at_index row j) (\<lambda>_. Inr (cs[nat i := row[nat j := v]])))"

definition goto :: "nat \<Rightarrow> cov_pc \<Rightarrow> cov_state \<Rightarrow> cov_state" where
  "goto t pc s = s\<lparr>threads := (threads s)[t := pc]\<rparr>"

text \<open>A thread can move unless it has returned or waits for the mutex.\<close>

definition cov_can_step :: "nat \<Rightarrow> cov_state \<Rightarrow> bool" where
  "cov_can_step t s \<longleftrightarrow> t < length (threads s) \<and>
     (case threads s ! t of Returned \<Rightarrow> False | Lock_row again \<Rightarrow> row_lock s = None | _ \<Rightarrow> True)"

definition cov_step ::
  "pca_config \<Rightarrow> int list list \<Rightarrow> int list \<Rightarrow> nat \<Rightarrow> cov_state \<Rightarrow> c_fault + cov_state" where
  "cov_step cfg M mu t s =
     (case threads s ! t of
        Lock_row again \<Rightarrow> Inr (goto t (Read_row again) (s\<lparr>row_lock := Some t\<rparr>))
      | Read_row again \<Rightarrow> Inr (goto t (Bump_row again (next_row s)) s)
      | Bump_row again i \<Rightarrow>
          ebind (c_int (next_row s + 1)) (\<lambda>n. Inr (goto t (Unlock_row again i) (s\<lparr>next_row := n\<rparr>)))
      | Unlock_row again i \<Rightarrow>
          Inr (goto t (if again then Progress i else Loop_test i) (s\<lparr>row_lock := None\<rparr>))
      | Progress i \<Rightarrow> Inr (goto t (Loop_test i) (s\<lparr>cov_visits := Suc (cov_visits s)\<rparr>))
      | Loop_test i \<Rightarrow> Inr (goto t (if i < num_rows cfg then Cell i i else Returned) s)
      | Cell i j \<Rightarrow>
          (if j < num_rows cfg then
             ebind (cov_value cfg M mu i j) (\<lambda>v.
             ebind (put_cell j i v (cov s)) (\<lambda>cs. Inr (goto t (Mirror i j v) (s\<lparr>cov := cs\<rparr>))))
           else Inr (goto t (Lock_row True) s))
      | Mirror i j v \<Rightarrow>
          ebind (put_cell i j v (cov s)) (\<lambda>cs. Inr (goto t (Cell i (j + 1)) (s\<lparr>cov := cs\<rparr>)))
      | Returned \<Rightarrow> Inr s)"

definition cov_start :: "nat \<Rightarrow> int list list \<Rightarrow> cov_state" where
  "cov_start num_procs fresh =
     \<lparr>next_row = 0, row_lock = None, cov = fresh, cov_visits = 0, threads = replicate num_procs (Lock_row False)\<rparr>"

text \<open>The steps in any order, and a run under a schedule, which skips threads that cannot move.\<close>

inductive cov_reachable ::
  "pca_config \<Rightarrow> int list list \<Rightarrow> int list \<Rightarrow> cov_state \<Rightarrow> cov_state \<Rightarrow> bool"
  for cfg M mu s0 where
  start: "cov_reachable cfg M mu s0 s0"
| step: "cov_reachable cfg M mu s0 s \<Longrightarrow> cov_can_step t s \<Longrightarrow> cov_step cfg M mu t s = Inr s' \<Longrightarrow>
    cov_reachable cfg M mu s0 s'"

definition cov_run ::
  "pca_config \<Rightarrow> int list list \<Rightarrow> int list \<Rightarrow> nat list \<Rightarrow> cov_state \<Rightarrow> c_fault + cov_state" where
  "cov_run cfg M mu = efold (\<lambda>t s. if cov_can_step t s then cov_step cfg M mu t s else Inr s)"

section \<open>The program\<close>

text \<open>The threads are joined when all have returned; until then \<^verbatim>\<open>main\<close> prints nothing more (\<open>None\<close>).\<close>

record pca_result =
  printed :: string
  progress :: nat

definition pca_header :: "pca_config \<Rightarrow> string" where
  "pca_header cfg =
     ''Number of rows = '' @ print_int (num_rows cfg) @ eol @
     ''Number of cols = '' @ print_int (num_cols cfg) @ eol @
     ''Max value for each element = '' @ print_int (grid_size cfg) @ eol"

definition pca_main ::
  "(nat \<Rightarrow> int) \<Rightarrow> (nat \<Rightarrow> int) \<Rightarrow> nat \<Rightarrow> nat list \<Rightarrow> pca_option list \<Rightarrow> c_fault + pca_result option" where
  "pca_main rnd heap num_procs schedule opts =
     ebind (pca_parse_args opts) (\<lambda>cfg.
       let n = nat (num_rows cfg);
           M = generate_points rnd (grid_size cfg) n (nat (num_cols cfg));
           fresh = map (\<lambda>i. map (\<lambda>j. heap (n + i * n + j)) [0..<n]) [0..<n]
       in ebind (dump_points M (num_rows cfg) (num_cols cfg) (pca_header cfg)) (\<lambda>out.
          ebind (pthread_mean cfg M num_procs \<lparr>mean = map heap [0..<n], visits = 0\<rparr>) (\<lambda>m.
          ebind (cov_run cfg M (mean m) schedule (cov_start num_procs fresh)) (\<lambda>s.
            if list_all (\<lambda>pc. pc = Returned) (threads s) then
              ebind (dump_points (cov s) (num_rows cfg) (num_rows cfg)
                  (out @ ''The number of processors is '' @ print_int (int num_procs) @ eol)) (\<lambda>out.
                Inr (Some \<lparr>printed = out, progress = visits m + cov_visits s\<rparr>))
            else Inr None))))"

end
