(* ===== verification/Pca_Threads.thy ===== *)
theory Pca_Threads
  imports Pca_Facts
begin

text \<open>
  The covariance threads of the principal component benchmark. The invariant of \<^verbatim>\<open>calc_cov\<close> is
  preserved by every step of every thread, each step lowers a rank, and a state in which no thread
  can move is one in which all have returned; hence every fair schedule ends with the covariances.
\<close>

section \<open>Elements of the shared array\<close>

definition square :: "nat \<Rightarrow> int list list \<Rightarrow> bool" where
  "square n cs \<longleftrightarrow> length cs = n \<and> (\<forall>row\<in>set cs. length row = n)"

abbreviation (input) put_at :: "nat \<Rightarrow> nat \<Rightarrow> int \<Rightarrow> int list list \<Rightarrow> int list list" where
  "put_at i j v cs \<equiv> cs[i := (cs ! i)[j := v]]"

lemma put_cell_ok:
  assumes "square n cs" "i < n" "j < n"
  shows "put_cell (int i) (int j) v cs = Inr (put_at i j v cs)" "square n (put_at i j v cs)"
  using assms by (auto simp: put_cell_def square_def dest!: set_update_subset_insert [THEN subsetD])

lemma put_at_nth:
  "square n cs \<Longrightarrow> i < n \<Longrightarrow> a < n \<Longrightarrow> b < n \<Longrightarrow>
   put_at i j v cs ! a ! b = (if a = i \<and> b = j then v else cs ! a ! b)"
  by (auto simp: square_def nth_list_update)

text \<open>\<open>R i j\<close> is the value for rows \<open>i\<close> and \<open>j\<close>; a pair is settled when both its elements hold it.\<close>

definition settled :: "(nat \<Rightarrow> nat \<Rightarrow> int) \<Rightarrow> int list list \<Rightarrow> nat \<Rightarrow> nat \<Rightarrow> bool" where
  "settled R cs a b \<longleftrightarrow> cs ! a ! b = R a b \<and> cs ! b ! a = R a b"

lemma settled_put:
  assumes "square n cs" "i < n" "j < n" "a < n" "b < n" "v = R i j" "R i j = R j i" "settled R cs a b"
  shows "settled R (put_at i j v cs) a b"
proof -
  have ab: "put_at i j v cs ! a ! b = (if a = i \<and> b = j then v else cs ! a ! b)"
    and ba: "put_at i j v cs ! b ! a = (if b = i \<and> a = j then v else cs ! b ! a)"
    using assms by (intro put_at_nth; simp)+
  have "cs ! a ! b = R a b" "cs ! b ! a = R a b" using assms(8) by (simp_all add: settled_def)
  then show ?thesis unfolding settled_def ab ba by (metis assms(6,7))
qed

section \<open>The invariant\<close>

fun in_critical :: "cov_pc \<Rightarrow> bool" where
  "in_critical (Read_row again) = True"
| "in_critical (Bump_row again i) = True"
| "in_critical (Unlock_row again i) = True"
| "in_critical _ = False"

text \<open>Whether a thread has been given a number past the last row.\<close>

fun past_end :: "int \<Rightarrow> cov_pc \<Rightarrow> nat" where
  "past_end n (Unlock_row again i) = (if i < n then 0 else 1)"
| "past_end n (Progress i) = (if i < n then 0 else 1)"
| "past_end n (Loop_test i) = (if i < n then 0 else 1)"
| "past_end n Returned = 1"
| "past_end n _ = 0"

text \<open>The progress a thread has still to report for the rows it has been given.\<close>

fun owes :: "int \<Rightarrow> cov_pc \<Rightarrow> nat" where
  "owes n (Lock_row again) = of_bool again"
| "owes n (Read_row again) = of_bool again"
| "owes n (Bump_row again i) = of_bool again"
| "owes n (Unlock_row again i) = of_bool again + of_bool (i < n)"
| "owes n (Progress i) = 1 + of_bool (i < n)"
| "owes n (Loop_test i) = of_bool (i < n)"
| "owes n (Cell i j) = 1"
| "owes n (Mirror i j v) = 1"
| "owes n Returned = 0"

fun pc_ok :: "int \<Rightarrow> (nat \<Rightarrow> nat \<Rightarrow> int) \<Rightarrow> int \<Rightarrow> int list list \<Rightarrow> cov_pc \<Rightarrow> bool" where
  "pc_ok n R taken cs (Bump_row again i) \<longleftrightarrow> i = taken"
| "pc_ok n R taken cs (Unlock_row again i) \<longleftrightarrow> 0 \<le> i \<and> i < taken"
| "pc_ok n R taken cs (Progress i) \<longleftrightarrow> 0 \<le> i \<and> i < taken"
| "pc_ok n R taken cs (Loop_test i) \<longleftrightarrow> 0 \<le> i \<and> i < taken"
| "pc_ok n R taken cs (Cell i j) \<longleftrightarrow> 0 \<le> i \<and> i < n \<and> i < taken \<and> i \<le> j \<and> j \<le> n"
| "pc_ok n R taken cs (Mirror i j v) \<longleftrightarrow> 0 \<le> i \<and> i < taken \<and> i \<le> j \<and> j < n \<and>
     v = R (nat i) (nat j) \<and> cs ! nat j ! nat i = v"
| "pc_ok n R taken cs _ \<longleftrightarrow> True"

text \<open>The pairs of rows a thread has still to settle before it asks for the next row.\<close>

fun works_on :: "cov_pc \<Rightarrow> nat \<Rightarrow> nat \<Rightarrow> bool" where
  "works_on (Unlock_row again i) a b \<longleftrightarrow> i = int a"
| "works_on (Progress i) a b \<longleftrightarrow> i = int a"
| "works_on (Loop_test i) a b \<longleftrightarrow> i = int a"
| "works_on (Cell i j) a b \<longleftrightarrow> i = int a \<and> j \<le> int b"
| "works_on (Mirror i j v) a b \<longleftrightarrow> i = int a \<and> j \<le> int b"
| "works_on _ a b \<longleftrightarrow> False"

definition threads_inv :: "nat \<Rightarrow> nat \<Rightarrow> (nat \<Rightarrow> nat \<Rightarrow> int) \<Rightarrow> cov_state \<Rightarrow> bool" where
  "threads_inv n p R s \<longleftrightarrow> length (threads s) = p \<and> square n (cov s) \<and> 0 \<le> next_row s \<and>
     (\<forall>t<p. pc_ok (int n) R (next_row s) (cov s) (threads s ! t)) \<and>
     (\<forall>t<p. in_critical (threads s ! t) \<longleftrightarrow> row_lock s = Some t) \<and>
     (\<forall>t. row_lock s = Some t \<longrightarrow> t < p)"

definition counts_inv :: "nat \<Rightarrow> cov_state \<Rightarrow> bool" where
  "counts_inv n s \<longleftrightarrow>
     nat (next_row s - int n) = sum_list (map (past_end (int n)) (threads s)) \<and>
     cov_visits s + sum_list (map (owes (int n)) (threads s)) = nat (min (next_row s) (int n))"

definition work_inv :: "nat \<Rightarrow> nat \<Rightarrow> (nat \<Rightarrow> nat \<Rightarrow> int) \<Rightarrow> cov_state \<Rightarrow> bool" where
  "work_inv n p R s \<longleftrightarrow> (\<forall>a b. a \<le> b \<longrightarrow> b < n \<longrightarrow> int a < next_row s \<longrightarrow>
     settled R (cov s) a b \<or> (\<exists>t<p. works_on (threads s ! t) a b))"

text \<open>The row a thread has been given.\<close>

fun row_of :: "cov_pc \<Rightarrow> int option" where
  "row_of (Unlock_row again i) = Some i"
| "row_of (Progress i) = Some i"
| "row_of (Loop_test i) = Some i"
| "row_of (Cell i j) = Some i"
| "row_of (Mirror i j v) = Some i"
| "row_of _ = None"

definition rows_inv :: "nat \<Rightarrow> cov_state \<Rightarrow> bool" where
  "rows_inv p s \<longleftrightarrow> (\<forall>t<p. \<forall>u<p. t \<noteq> u \<longrightarrow> row_of (threads s ! t) = None \<or>
     row_of (threads s ! t) \<noteq> row_of (threads s ! u))"

definition cov_inv :: "nat \<Rightarrow> nat \<Rightarrow> (nat \<Rightarrow> nat \<Rightarrow> int) \<Rightarrow> cov_state \<Rightarrow> bool" where
  "cov_inv n p R s \<longleftrightarrow> threads_inv n p R s \<and> counts_inv n s \<and> work_inv n p R s \<and> rows_inv p s"

text \<open>The steps a thread has left before it asks for another row, and those of all threads.\<close>

fun pc_rank :: "int \<Rightarrow> cov_pc \<Rightarrow> nat" where
  "pc_rank n (Lock_row again) = 6"
| "pc_rank n (Read_row again) = 5"
| "pc_rank n (Bump_row again i) = 4"
| "pc_rank n (Unlock_row again i) = (if i < n then nat (2 * (n - i)) + 10 else 3)"
| "pc_rank n (Progress i) = (if i < n then nat (2 * (n - i)) + 9 else 2)"
| "pc_rank n (Loop_test i) = (if i < n then nat (2 * (n - i)) + 8 else 1)"
| "pc_rank n (Cell i j) = nat (2 * (n - j)) + 7"
| "pc_rank n (Mirror i j v) = nat (2 * (n - j)) + 6"
| "pc_rank n Returned = 0"

definition cov_rank :: "nat \<Rightarrow> cov_state \<Rightarrow> nat" where
  "cov_rank n s =
     nat (int n - next_row s) * (2 * n + 7) + sum_list (map (pc_rank (int n)) (threads s))"

section \<open>Every step preserves it\<close>

lemma threads_invD:
  assumes "threads_inv n p R s"
  shows "length (threads s) = p" "square n (cov s)" "0 \<le> next_row s"
    "\<And>t. t < p \<Longrightarrow> pc_ok (int n) R (next_row s) (cov s) (threads s ! t)"
    "\<And>t. t < p \<Longrightarrow> in_critical (threads s ! t) \<longleftrightarrow> row_lock s = Some t"
    "\<And>t. row_lock s = Some t \<Longrightarrow> t < p"
  using assms by (auto simp: threads_inv_def)

text \<open>
  A step changes the shared variables from those of \<open>s\<close> to those of \<open>g\<close> and one program counter.
\<close>

lemma threads_inv_goto:
  assumes "threads_inv n p R s" "t < p" "threads g = threads s"
    and "square n (cov g)" "0 \<le> next_row g"
    and "pc_ok (int n) R (next_row g) (cov g) pc"
    and "\<And>u. u < p \<Longrightarrow> u \<noteq> t \<Longrightarrow> pc_ok (int n) R (next_row s) (cov s) (threads s ! u) \<Longrightarrow>
      (in_critical (threads s ! u) \<longleftrightarrow> row_lock s = Some u) \<Longrightarrow>
      pc_ok (int n) R (next_row g) (cov g) (threads s ! u) \<and>
      (in_critical (threads s ! u) \<longleftrightarrow> row_lock g = Some u)"
    and "in_critical pc \<longleftrightarrow> row_lock g = Some t"
    and "\<And>u. row_lock g = Some u \<Longrightarrow> u < p"
  shows "threads_inv n p R (goto t pc g)"
proof -
  have "pc_ok (int n) R (next_row g) (cov g) ((threads s)[t := pc] ! u) \<and>
      (in_critical ((threads s)[t := pc] ! u) \<longleftrightarrow> row_lock g = Some u)" if "u < p" for u
    using assms(2,6,7,8) threads_invD(1,4,5) [OF assms(1)] that by (cases "u = t") auto
  then show ?thesis
    using assms(3-5,9) threads_invD(1) [OF assms(1)] by (auto simp: threads_inv_def goto_def)
qed

lemma counts_inv_goto:
  assumes "counts_inv n s" "t < length (threads s)" "threads g = threads s"
    and "nat (next_row g - int n) + past_end (int n) (threads s ! t) = nat (next_row s - int n) + past_end (int n) pc"
    and "cov_visits g + owes (int n) pc + nat (min (next_row s) (int n)) =
      cov_visits s + owes (int n) (threads s ! t) + nat (min (next_row g) (int n))"
  shows "counts_inv n (goto t pc g)"
  using assms sum_list_replace [OF assms(2), of "past_end (int n)" pc] sum_list_replace [OF assms(2), of "owes (int n)" pc]
  by (auto simp: counts_inv_def goto_def)

lemma work_inv_goto:
  assumes "work_inv n p R s" "t < p" "length (threads s) = p" "threads g = threads s"
    and "\<And>a b. a < n \<Longrightarrow> b < n \<Longrightarrow> settled R (cov s) a b \<Longrightarrow> settled R (cov g) a b"
    and "\<And>a b. a \<le> b \<Longrightarrow> b < n \<Longrightarrow> works_on (threads s ! t) a b \<Longrightarrow> settled R (cov g) a b \<or> works_on pc a b"
    and "\<And>a b. a \<le> b \<Longrightarrow> b < n \<Longrightarrow> int a < next_row g \<Longrightarrow> int a < next_row s \<or> works_on pc a b"
  shows "work_inv n p R (goto t pc g)"
  unfolding work_inv_def
proof (intro allI impI)
  fix a b assume ab: "a \<le> b" "b < n" and row: "int a < next_row (goto t pc g)"
  then have a: "a < n" by simp
  from row have "int a < next_row s \<or> works_on pc a b" using assms(7) [OF ab] by (simp add: goto_def)
  then consider "works_on pc a b" | "settled R (cov s) a b" | u where "u < p" "works_on (threads s ! u) a b"
    using assms(1) ab by (auto simp: work_inv_def)
  then have "settled R (cov g) a b \<or> (\<exists>u<p. works_on ((threads s)[t := pc] ! u) a b)"
  proof cases
    case 1
    then show ?thesis using assms(2,3) by (intro disjI2 exI [of _ t]) simp
  next
    case 2
    then show ?thesis using assms(5) [OF a ab(2)] by simp
  next
    case 3
    show ?thesis
    proof (cases "u = t")
      case True
      then consider "settled R (cov g) a b" | "works_on pc a b" using assms(6) [OF ab] 3 by blast
      then show ?thesis using assms(2,3) by cases auto
    next
      case False
      then show ?thesis using 3 by (intro disjI2 exI [of _ u]) simp
    qed
  qed
  then show "settled R (cov (goto t pc g)) a b \<or> (\<exists>t'<p. works_on (threads (goto t pc g) ! t') a b)"
    using assms(4) by (simp add: goto_def)
qed

lemma rows_inv_goto:
  assumes "rows_inv p s" "t < p" "length (threads s) = p" "threads g = threads s"
    and "row_of pc = None \<or> row_of pc = row_of (threads s ! t) \<or>
      (\<forall>u<p. u \<noteq> t \<longrightarrow> row_of (threads s ! u) \<noteq> row_of pc)"
  shows "rows_inv p (goto t pc g)"
proof -
  have new: "row_of pc = None \<or> row_of (threads s ! u) \<noteq> row_of pc" if "u < p" "u \<noteq> t" for u
    using assms(1,2,5) that by (fastforce simp: rows_inv_def)
  have old: "row_of (threads s ! u) = None \<or> row_of (threads s ! u) \<noteq> row_of (threads s ! v)"
    if "u < p" "v < p" "u \<noteq> v" for u v
    using assms(1) that by (simp add: rows_inv_def)
  have "row_of ((threads s)[t := pc] ! u) = None \<or> row_of ((threads s)[t := pc] ! u) \<noteq> row_of ((threads s)[t := pc] ! v)"
    if "u < p" "v < p" "u \<noteq> v" for u v
  proof (cases "u = t")
    case True
    then show ?thesis using new [of v] that assms(2,3) by auto
  next
    case False
    then show ?thesis using new [of u] old [of u v] that assms(2,3) by (cases "v = t") auto
  qed
  then show ?thesis using assms(4) by (simp add: rows_inv_def goto_def)
qed

lemma cov_rank_goto:
  assumes "t < length (threads s)" "threads g = threads s"
    and "nat (int n - next_row g) * (2 * n + 7) + pc_rank (int n) pc <
      nat (int n - next_row s) * (2 * n + 7) + pc_rank (int n) (threads s ! t)"
  shows "cov_rank n (goto t pc g) < cov_rank n s"
  using assms sum_list_replace [OF assms(1), of "pc_rank (int n)" pc] by (auto simp: cov_rank_def goto_def)

section \<open>A step of a thread\<close>

text \<open>What a step needs: room in an \<^verbatim>\<open>int\<close> for the row counter, and the values of the pairs.\<close>

definition values_ok ::
  "pca_config \<Rightarrow> int list list \<Rightarrow> int list \<Rightarrow> nat \<Rightarrow> nat \<Rightarrow> (nat \<Rightarrow> nat \<Rightarrow> int) \<Rightarrow> bool" where
  "values_ok cfg M mu n p R \<longleftrightarrow> num_rows cfg = int n \<and> n + p < 2 ^ 31 \<and>
     (\<forall>i<n. \<forall>j<n. cov_value cfg M mu (int i) (int j) = Inr (R i j) \<and> R i j = R j i)"

definition good_step :: "nat \<Rightarrow> nat \<Rightarrow> (nat \<Rightarrow> nat \<Rightarrow> int) \<Rightarrow> cov_state \<Rightarrow> c_fault + cov_state \<Rightarrow> bool" where
  "good_step n p R s r \<longleftrightarrow> (\<exists>s'. r = Inr s' \<and> cov_inv n p R s' \<and> cov_rank n s' < cov_rank n s)"

lemma past_end_bound: "past_end n pc \<le> 1"
  by (cases pc) simp_all

lemma next_row_bound:
  assumes "cov_inv n p R s" "t < p" "past_end (int n) (threads s ! t) = 0"
  shows "next_row s < int (n + p)"
proof -
  have len: "length (threads s) = p" and "0 \<le> next_row s"
    and count: "nat (next_row s - int n) = sum_list (map (past_end (int n)) (threads s))"
    using assms(1) by (auto simp: cov_inv_def threads_inv_def counts_inv_def)
  have "sum_list (map (past_end (int n)) (threads s)) + 1 = sum_list (map (past_end (int n)) ((threads s)[t := Returned]))"
    using sum_list_replace [of t "threads s" "past_end (int n)" Returned] assms(2,3) len by simp
  also have "\<dots> \<le> p"
    using sum_list_mono [of "(threads s)[t := Returned]" "past_end (int n)" "\<lambda>_. 1"] past_end_bound len
    by (simp add: sum_list_triv)
  finally show ?thesis using count by linarith
qed

lemma good_stepI:
  assumes "cov_inv n p R s" "t < p" "threads g = threads s"
    and "threads_inv n p R s \<Longrightarrow> threads_inv n p R (goto t pc g)"
    and "counts_inv n s \<Longrightarrow> t < length (threads s) \<Longrightarrow> counts_inv n (goto t pc g)"
    and "work_inv n p R s \<Longrightarrow> length (threads s) = p \<Longrightarrow> work_inv n p R (goto t pc g)"
    and "row_of pc = None \<or> row_of pc = row_of (threads s ! t) \<or>
      (\<forall>u<p. u \<noteq> t \<longrightarrow> row_of (threads s ! u) \<noteq> row_of pc)"
    and "nat (int n - next_row g) * (2 * n + 7) + pc_rank (int n) pc <
      nat (int n - next_row s) * (2 * n + 7) + pc_rank (int n) (threads s ! t)"
  shows "good_step n p R s (Inr (goto t pc g))"
proof -
  have "length (threads s) = p" using assms(1) by (simp add: cov_inv_def threads_inv_def)
  then show ?thesis using assms(1-7) cov_rank_goto [of t s g n pc] rows_inv_goto [of p s t g pc] assms(8)
    by (simp add: good_step_def cov_inv_def)
qed

lemma step_local:
  assumes "cov_inv n p R s" "t < p"
    and "in_critical pc \<longleftrightarrow> in_critical (threads s ! t)"
    and "pc_ok (int n) R (next_row s) (cov s) pc"
    and "past_end (int n) pc = past_end (int n) (threads s ! t)"
    and "v + owes (int n) pc = cov_visits s + owes (int n) (threads s ! t)"
    and "\<And>a b. a \<le> b \<Longrightarrow> b < n \<Longrightarrow> works_on (threads s ! t) a b \<Longrightarrow> works_on pc a b"
    and "row_of pc = None \<or> row_of pc = row_of (threads s ! t)"
    and "pc_rank (int n) pc < pc_rank (int n) (threads s ! t)"
  shows "good_step n p R s (Inr (goto t pc (s\<lparr>cov_visits := v\<rparr>)))"
  using assms(1,2)
proof (rule good_stepI)
  assume inv: "threads_inv n p R s"
  show "threads_inv n p R (goto t pc (s\<lparr>cov_visits := v\<rparr>))"
    using inv assms(2) by (rule threads_inv_goto) (use threads_invD [OF inv] assms(2-4) in auto)
next
  assume "counts_inv n s" "t < length (threads s)"
  then show "counts_inv n (goto t pc (s\<lparr>cov_visits := v\<rparr>))"
    by (rule counts_inv_goto) (use assms(5,6) in auto)
next
  assume "work_inv n p R s" "length (threads s) = p"
  then show "work_inv n p R (goto t pc (s\<lparr>cov_visits := v\<rparr>))"
    using assms(2) by (intro work_inv_goto) (use assms(7) in auto)
qed (use assms(8,9) in auto)

text \<open>The mutex: only its holder is in the critical section.\<close>

lemma step_mutex:
  assumes "cov_inv n p R s" "t < p" "row_lock s = None \<or> row_lock s = Some t"
    and "in_critical pc \<longleftrightarrow> l = Some t" "l = None \<or> l = Some t"
    and "pc_ok (int n) R (next_row s) (cov s) pc"
    and "past_end (int n) pc = past_end (int n) (threads s ! t)"
    and "owes (int n) pc = owes (int n) (threads s ! t)"
    and "\<And>a b. works_on (threads s ! t) a b = works_on pc a b"
    and "row_of pc = row_of (threads s ! t)"
    and "pc_rank (int n) pc < pc_rank (int n) (threads s ! t)"
  shows "good_step n p R s (Inr (goto t pc (s\<lparr>row_lock := l\<rparr>)))"
  using assms(1,2)
proof (rule good_stepI)
  assume inv: "threads_inv n p R s"
  show "threads_inv n p R (goto t pc (s\<lparr>row_lock := l\<rparr>))"
    using inv assms(2) by (rule threads_inv_goto) (use threads_invD [OF inv] assms(2-6) in auto)
next
  assume "counts_inv n s" "t < length (threads s)"
  then show "counts_inv n (goto t pc (s\<lparr>row_lock := l\<rparr>))"
    by (rule counts_inv_goto) (use assms(7,8) in auto)
next
  assume "work_inv n p R s" "length (threads s) = p"
  then show "work_inv n p R (goto t pc (s\<lparr>row_lock := l\<rparr>))"
    using assms(2) by (intro work_inv_goto) (use assms(9) in auto)
qed (use assms(10,11) in auto)

text \<open>The counter is raised by the thread that holds the mutex, which has just read it.\<close>

lemma step_bump:
  assumes "cov_inv n p R s" "t < p" "threads s ! t = Bump_row again i"
  shows "good_step n p R s (Inr (goto t (Unlock_row again i) (s\<lparr>next_row := next_row s + 1\<rparr>)))"
proof -
  have inv: "threads_inv n p R s" using assms(1) by (simp add: cov_inv_def)
  note D = threads_invD [OF inv]
  have i: "i = next_row s" "0 \<le> i" and lock: "row_lock s = Some t"
    using D(3) D(4,5) [OF assms(2)] assms(3) by simp_all
  let ?pc = "Unlock_row again i" and ?g = "s\<lparr>next_row := next_row s + 1\<rparr>"
  show ?thesis
    using assms(1,2)
  proof (rule good_stepI)
    have "pc_ok (int n) R (next_row s + 1) (cov s) pc" if "pc_ok (int n) R (next_row s) (cov s) pc" "\<not> in_critical pc" for pc
      using that by (cases pc) auto
    then show "threads_inv n p R (goto t ?pc ?g)"
      by (intro threads_inv_goto [OF inv assms(2)]) (use D i lock assms(2) in auto)
  next
    assume "counts_inv n s" "t < length (threads s)"
    then show "counts_inv n (goto t ?pc ?g)"
      by (rule counts_inv_goto) (use i assms(3) in auto)
  next
    assume "work_inv n p R s" "length (threads s) = p"
    then show "work_inv n p R (goto t ?pc ?g)"
      using assms(2) by (intro work_inv_goto) (use i assms(3) in auto)
  next
    have "row_of pc \<noteq> Some i" if "pc_ok (int n) R i (cov s) pc" for pc
      using that by (cases pc) auto
    then show "row_of ?pc = None \<or> row_of ?pc = row_of (threads s ! t) \<or>
        (\<forall>u<p. u \<noteq> t \<longrightarrow> row_of (threads s ! u) \<noteq> row_of ?pc)"
      using D(4) i(1) by simp
  next
    show "nat (int n - next_row ?g) * (2 * n + 7) + pc_rank (int n) ?pc <
        nat (int n - next_row s) * (2 * n + 7) + pc_rank (int n) (threads s ! t)"
    proof (cases "i < int n")
      case True
      define d where "d = nat (int n - (i + 1))"
      have d: "nat (int n - i) = Suc d" "nat (int n - (i + 1)) = d" "nat (2 * (int n - i)) = 2 * Suc d"
        using True by (simp_all add: d_def)
      have "Suc d \<le> n" using d(1) i by simp
      then show ?thesis using True i d assms(3) by simp
    qed (use i assms(3) in simp)
  qed auto
qed

lemma step_put:
  assumes "cov_inv n p R s" "t < p" "a < n" "b < n" "R a b = R b a"
    and "\<not> in_critical pc" "\<not> in_critical (threads s ! t)"
    and "pc_ok (int n) R (next_row s) (put_at a b (R a b) (cov s)) pc"
    and "past_end (int n) pc = past_end (int n) (threads s ! t)"
    and "owes (int n) pc = owes (int n) (threads s ! t)"
    and "\<And>x y. x \<le> y \<Longrightarrow> y < n \<Longrightarrow> works_on (threads s ! t) x y \<Longrightarrow>
      settled R (put_at a b (R a b) (cov s)) x y \<or> works_on pc x y"
    and "row_of pc = row_of (threads s ! t)"
    and "pc_rank (int n) pc < pc_rank (int n) (threads s ! t)"
  shows "good_step n p R s
    (ebind (put_cell (int a) (int b) (R a b) (cov s)) (\<lambda>cs. Inr (goto t pc (s\<lparr>cov := cs\<rparr>))))"
proof -
  have inv: "threads_inv n p R s" using assms(1) by (simp add: cov_inv_def)
  note D = threads_invD [OF inv]
  let ?cs = "put_at a b (R a b) (cov s)"
  have kept: "settled R ?cs x y" if "settled R (cov s) x y" "x < n" "y < n" for x y
    using settled_put [OF D(2) assms(3,4) that(2,3) refl assms(5) that(1)] .
  have others: "pc_ok (int n) R (next_row s) ?cs pc'" if "pc_ok (int n) R (next_row s) (cov s) pc'" for pc'
  proof (cases pc')
    case (Mirror i j v)
    with that have "?cs ! nat j ! nat i = (if nat j = a \<and> nat i = b then R a b else cov s ! nat j ! nat i)"
      by (intro put_at_nth [OF D(2) assms(3)]) auto
    moreover have "cov s ! nat j ! nat i = v" "v = R (nat i) (nat j)" using that Mirror by simp_all
    ultimately have "?cs ! nat j ! nat i = v" using assms(5) by (metis (full_types))
    then show ?thesis using that Mirror by simp
  qed (use that in auto)
  have "good_step n p R s (Inr (goto t pc (s\<lparr>cov := ?cs\<rparr>)))"
    using assms(1,2)
  proof (rule good_stepI)
    show "threads_inv n p R (goto t pc (s\<lparr>cov := ?cs\<rparr>))"
      by (intro threads_inv_goto [OF inv assms(2)])
        (use D assms(2,6-8) others put_cell_ok [OF D(2) assms(3,4)] in auto)
  next
    assume "counts_inv n s" "t < length (threads s)"
    then show "counts_inv n (goto t pc (s\<lparr>cov := ?cs\<rparr>))"
      by (rule counts_inv_goto) (use assms(9,10) in auto)
  next
    assume "work_inv n p R s" "length (threads s) = p"
    then show "work_inv n p R (goto t pc (s\<lparr>cov := ?cs\<rparr>))"
      using assms(2) by (intro work_inv_goto) (use assms(11) kept in auto)
  qed (use assms(12,13) in auto)
  then show ?thesis by (simp add: put_cell_ok [OF D(2) assms(3,4)])
qed

lemma step_cell:
  assumes "values_ok cfg M mu n p R" "cov_inv n p R s" "t < p" "threads s ! t = Cell i j" "j < int n"
  shows "good_step n p R s (cov_step cfg M mu t s)"
proof -
  have inv: "threads_inv n p R s" using assms(2) by (simp add: cov_inv_def)
  note D = threads_invD [OF inv]
  have ok: "0 \<le> i" "i < int n" "i < next_row s" "i \<le> j" using D(4) [OF assms(3)] assms(4) by simp_all
  define a b where "a = nat i" and "b = nat j"
  have ab: "i = int a" "j = int b" "a < n" "b < n" using ok assms(5) by (auto simp: a_def b_def)
  have R: "cov_value cfg M mu i j = Inr (R a b)" "R b a = R a b" "num_rows cfg = int n"
    using assms(1) ab by (auto simp: values_ok_def)
  have "put_at b a (R b a) (cov s) ! b ! a = R a b"
    using put_at_nth [OF D(2) ab(4) ab(4) ab(3)] R by simp
  then have "good_step n p R s (ebind (put_cell (int b) (int a) (R b a) (cov s))
      (\<lambda>cs. Inr (goto t (Mirror i j (R a b)) (s\<lparr>cov := cs\<rparr>))))"
    using ok assms(4,5) ab R(2) by (intro step_put [OF assms(2,3) ab(4) ab(3) R(2)]) auto
  then show ?thesis using assms(5) R ab(1,2) by (simp add: cov_step_def assms(4))
qed

lemma step_mirror:
  assumes "values_ok cfg M mu n p R" "cov_inv n p R s" "t < p" "threads s ! t = Mirror i j v"
  shows "good_step n p R s (cov_step cfg M mu t s)"
proof -
  have inv: "threads_inv n p R s" using assms(2) by (simp add: cov_inv_def)
  note D = threads_invD [OF inv]
  have ok: "0 \<le> i" "i < next_row s" "i \<le> j" "j < int n" "v = R (nat i) (nat j)" "cov s ! nat j ! nat i = v"
    using D(4) [OF assms(3)] assms(4) by simp_all
  define a b where "a = nat i" and "b = nat j"
  have ab: "i = int a" "j = int b" "a < n" "b < n" using ok by (auto simp: a_def b_def)
  have "cov s ! b ! a = v" and v: "v = R a b" using ok(5,6) by (simp_all add: a_def b_def)
  then have at: "cov s ! b ! a = R a b" by simp
  have sym: "R a b = R b a" using assms(1) ab(3,4) by (simp add: values_ok_def)
  note R = v sym at
  have "put_at a b (R a b) (cov s) ! a ! b = R a b" by (simp only: put_at_nth [OF D(2) ab(3,3,4)] simp_thms if_True)
  moreover have "put_at a b (R a b) (cov s) ! b ! a = R a b"
    by (simp only: put_at_nth [OF D(2) ab(3,4,3)] at if_cancel)
  ultimately have "settled R (put_at a b (R a b) (cov s)) a b" unfolding settled_def by (rule conjI)
  then have "settled R (put_at a b (R a b) (cov s)) x y \<or> works_on (Cell i (j + 1)) x y"
    if "works_on (threads s ! t) x y" for x y
    using that assms(4) ab by (cases "y = b") auto
  then have "good_step n p R s (ebind (put_cell (int a) (int b) (R a b) (cov s))
      (\<lambda>cs. Inr (goto t (Cell i (j + 1)) (s\<lparr>cov := cs\<rparr>))))"
    using ok assms(4) ab by (intro step_put [OF assms(2,3) ab(3,4) R(2)]) auto
  then show ?thesis using R ab(1,2) by (simp add: cov_step_def assms(4))
qed

text \<open>A thread that can move does so without a fault, keeps the invariant and lowers the rank.\<close>

lemma cov_step_good:
  assumes "values_ok cfg M mu n p R" "cov_inv n p R s" "cov_can_step t s"
  shows "good_step n p R s (cov_step cfg M mu t s)"
proof -
  have inv: "threads_inv n p R s" using assms(2) by (simp add: cov_inv_def)
  note D = threads_invD [OF inv]
  have t: "t < p" using assms(3) D(1) by (simp add: cov_can_step_def)
  have rows: "num_rows cfg = int n" using assms(1) by (simp add: values_ok_def)
  note ok = D(4) [OF t] and crit = D(5) [OF t]
  note local = step_local [OF assms(2) t] and mutex = step_mutex [OF assms(2) t]
  show ?thesis
  proof (cases "threads s ! t")
    case (Lock_row again)
    then show ?thesis using assms(3) mutex [of "Read_row again" "Some t"]
      by (simp add: cov_step_def cov_can_step_def)
  next
    case (Read_row again)
    then show ?thesis using local [of "Bump_row again (next_row s)" "cov_visits s"] by (simp add: cov_step_def)
  next
    case (Bump_row again i)
    have "next_row s < int (n + p)" using next_row_bound [OF assms(2) t] Bump_row by simp
    moreover have "int (n + p) < 2 ^ 31" using assms(1) by (simp add: values_ok_def flip: of_nat_add)
    ultimately have "c_int (next_row s + 1) = Inr (next_row s + 1)" using D(3) by simp
    then show ?thesis using step_bump [OF assms(2) t Bump_row] by (simp add: cov_step_def Bump_row)
  next
    case (Unlock_row again i)
    then show ?thesis using ok crit mutex [of "if again then Progress i else Loop_test i" None]
      by (cases again) (simp_all add: cov_step_def)
  next
    case (Progress i)
    then show ?thesis using ok local [of "Loop_test i" "Suc (cov_visits s)"] by (simp add: cov_step_def)
  next
    case (Loop_test i)
    then show ?thesis
      using ok local [of "if i < int n then Cell i i else Returned" "cov_visits s"]
      by (cases "i < int n") (auto simp: cov_step_def rows)
  next
    case (Cell i j)
    show ?thesis
    proof (cases "j < int n")
      case False
      then show ?thesis using Cell ok local [of "Lock_row True" "cov_visits s"] by (simp add: cov_step_def rows)
    qed (rule step_cell [OF assms(1,2) t Cell])
  next
    case (Mirror i j v)
    then show ?thesis by (rule step_mirror [OF assms(1,2) t])
  next
    case Returned
    then show ?thesis using assms(3) by (simp add: cov_can_step_def)
  qed
qed

section \<open>Runs\<close>

lemma cov_inv_start:
  assumes "square n fresh"
  shows "cov_inv n p R (cov_start p fresh)" "cov_rank n (cov_start p fresh) = n * (2 * n + 7) + 6 * p"
proof -
  have zero: "sum_list (map (past_end (int n)) (replicate p (Lock_row False))) = 0"
    "sum_list (map (owes (int n)) (replicate p (Lock_row False))) = 0"
    by (simp_all add: sum_list_replicate)
  then show "cov_inv n p R (cov_start p fresh)"
    using assms by (simp add: cov_inv_def threads_inv_def counts_inv_def work_inv_def rows_inv_def cov_start_def)
  show "cov_rank n (cov_start p fresh) = n * (2 * n + 7) + 6 * p"
    by (simp add: cov_rank_def cov_start_def sum_list_replicate)
qed

lemma cov_reachable_inv:
  assumes "cov_reachable cfg M mu (cov_start p fresh) s" "values_ok cfg M mu n p R" "square n fresh"
  shows "cov_inv n p R s"
  using assms(1)
proof (induction rule: cov_reachable.induct)
  case start
  show ?case by (rule cov_inv_start(1) [OF assms(3)])
next
  case (step s t s')
  then show ?case using cov_step_good [OF assms(2) step.IH step.hyps(2)] by (simp add: good_step_def)
qed

text \<open>The mutex cannot be held for ever: while a thread has not returned, some thread can move.\<close>

lemma some_thread_moves:
  assumes "cov_inv n p R s" "t < p" "threads s ! t \<noteq> Returned"
  shows "\<exists>u<p. cov_can_step u s"
proof (cases "row_lock s")
  case None
  then have "cov_can_step t s"
    using assms by (auto simp: cov_can_step_def cov_inv_def threads_inv_def split: cov_pc.splits)
  then show ?thesis using assms(2) by blast
next
  case (Some u)
  then have "u < p" "in_critical (threads s ! u)" using assms(1) by (auto simp: cov_inv_def threads_inv_def)
  then have "cov_can_step u s"
    using assms(1) by (cases "threads s ! u") (simp_all add: cov_can_step_def cov_inv_def threads_inv_def)
  with \<open>u < p\<close> show ?thesis by blast
qed

abbreviation (input) all_returned :: "cov_state \<Rightarrow> bool" where
  "all_returned s \<equiv> list_all (\<lambda>pc. pc = Returned) (threads s)"

lemma returned_settled:
  assumes "values_ok cfg M mu n p R" "cov_inv n p R s" "all_returned s" "0 < p"
  shows "cov s = map (\<lambda>a. map (R a) [0..<n]) [0..<n]" "cov_visits s = n"
proof -
  have len: "length (threads s) = p" and sq: "square n (cov s)" and nn: "0 \<le> next_row s"
    using assms(2) by (auto simp: cov_inv_def threads_inv_def)
  have rep: "threads s = replicate p Returned"
    using assms(3) len by (intro replicate_eqI) (auto simp: list_all_iff)
  then have "nat (next_row s - int n) = p" using assms(2) by (simp add: cov_inv_def counts_inv_def sum_list_replicate)
  with assms(4) have past: "int n < next_row s" by simp
  have pair: "settled R (cov s) a b" if "a \<le> b" "b < n" for a b
  proof -
    have "int a < next_row s" using that past by simp
    then have "settled R (cov s) a b \<or> (\<exists>t<p. works_on (threads s ! t) a b)"
      using assms(2) that unfolding cov_inv_def work_inv_def by blast
    moreover have "\<not> works_on (threads s ! t) a b" if "t < p" for t using that rep by simp
    ultimately show ?thesis by blast
  qed
  have "cov s ! a ! b = R a b" if "a < n" "b < n" for a b
  proof -
    have "R b a = R a b" using assms(1) that by (simp add: values_ok_def)
    then show ?thesis using that pair [of a b]
        pair [of b a]
      by (cases "a \<le> b") (simp_all add: settled_def)
  qed
  then show "cov s = map (\<lambda>a. map (R a) [0..<n]) [0..<n]"
    using sq by (intro nth_equalityI) (auto simp: square_def intro!: nth_equalityI)
  show "cov_visits s = n"
    using assms(2) rep past by (simp add: cov_inv_def counts_inv_def sum_list_replicate)
qed

section \<open>Schedules\<close>

lemma cov_run_append: "cov_run cfg M mu (xs @ ys) s = ebind (cov_run cfg M mu xs s) (cov_run cfg M mu ys)"
  by (simp add: cov_run_def efold_append)

lemma cov_run_Cons:
  "cov_run cfg M mu (t # ts) s =
     ebind (if cov_can_step t s then cov_step cfg M mu t s else Inr s) (cov_run cfg M mu ts)"
  by (simp add: cov_run_def)

text \<open>A schedule never faults and never raises the rank; it lowers it if one of its threads can move at the start.\<close>

lemma cov_run_good:
  assumes "values_ok cfg M mu n p R" "cov_inv n p R s"
  shows "\<exists>s'. cov_run cfg M mu ts s = Inr s' \<and> cov_inv n p R s' \<and> cov_rank n s' \<le> cov_rank n s \<and>
    ((\<exists>t\<in>set ts. cov_can_step t s) \<longrightarrow> cov_rank n s' < cov_rank n s)"
  using assms(2)
proof (induction ts arbitrary: s)
  case Nil
  then show ?case by (simp add: cov_run_def)
next
  case (Cons t ts)
  show ?case
  proof (cases "cov_can_step t s")
    case True
    then obtain s1 where s1: "cov_step cfg M mu t s = Inr s1" "cov_inv n p R s1" "cov_rank n s1 < cov_rank n s"
      using cov_step_good [OF assms(1) Cons.prems] by (auto simp: good_step_def)
    from Cons.IH [OF this(2)] s1 True show ?thesis by (fastforce simp: cov_run_Cons)
  next
    case False
    with Cons.IH [OF Cons.prems] show ?thesis by (auto simp: cov_run_Cons)
  qed
qed

lemma cov_run_finishes:
  assumes "values_ok cfg M mu n p R" "cov_inv n p R s"
    and "\<forall>ts\<in>set rounds. {..<p} \<subseteq> set ts" "cov_rank n s \<le> length rounds"
  shows "\<exists>s'. cov_run cfg M mu (concat rounds) s = Inr s' \<and> cov_inv n p R s' \<and> all_returned s'"
  using assms(2-4)
proof (induction rounds arbitrary: s)
  case Nil
  then have inv: "threads_inv n p R s" and rank: "cov_rank n s = 0" by (simp_all add: cov_inv_def)
  have "\<not> cov_can_step u s" for u
    using cov_step_good [OF assms(1) Nil.prems(1)] rank by (auto simp: good_step_def)
  then have "\<forall>t<p. threads s ! t = Returned" using some_thread_moves [OF Nil.prems(1)] by blast
  then show ?case
    using Nil.prems(1) threads_invD(1) [OF inv] by (simp add: cov_run_def list_all_length)
next
  case (Cons ts rounds)
  obtain s1 where s1: "cov_run cfg M mu ts s = Inr s1" "cov_inv n p R s1" "cov_rank n s1 \<le> cov_rank n s"
    "(\<exists>t\<in>set ts. cov_can_step t s) \<Longrightarrow> cov_rank n s1 < cov_rank n s"
    using cov_run_good [OF assms(1) Cons.prems(1), of ts] by blast
  show ?case
  proof (cases "\<exists>t\<in>set ts. cov_can_step t s")
    case True
    then have "cov_rank n s1 \<le> length rounds" using s1(4) Cons.prems(3) by simp
    with Cons.IH [OF s1(2)] Cons.prems(2) s1(1) show ?thesis by (simp add: cov_run_append)
  next
    case False
    then have "\<not> cov_can_step u s" if "u < p" for u using Cons.prems(2) that by auto
    then have fin: "\<forall>t<p. threads s ! t = Returned" using some_thread_moves [OF Cons.prems(1)] by blast
    have inv: "threads_inv n p R s" using Cons.prems(1) by (simp add: cov_inv_def)
    have "\<not> cov_can_step u s" for u
      using fin threads_invD(1) [OF inv] by (simp add: cov_can_step_def)
    then have "cov_run cfg M mu us s = Inr s" for us by (induction us) (simp_all add: cov_run_Cons, simp add: cov_run_def)
    then show ?thesis using fin Cons.prems(1) threads_invD(1) [OF inv] by (simp add: list_all_length)
  qed
qed

section \<open>The program\<close>

definition table_text :: "int list list \<Rightarrow> string" where
  "table_text vals =
     concat (map (\<lambda>row. concat (map (\<lambda>v. pad_left 5 (print_int v) @ '' '') row) @ eol) vals)"

lemma dump_points_ok:
  assumes "length vals = n" "\<forall>row\<in>set vals. length row = c"
  shows "dump_points vals (int n) (int c) out = Inr (out @ table_text vals)"
proof -
  let ?cells = "\<lambda>row k. concat (map (\<lambda>v. pad_left 5 (print_int v) @ '' '') (take k row))"
  let ?line = "\<lambda>row. ?cells row c @ eol"
  have row: "dump_row vals (int c) (int i) out = Inr (out @ ?line (vals ! i))" if "i < n" for i out
  proof -
    have len: "length (vals ! i) = c" using assms that by simp
    have "efold (\<lambda>j out. ebind (cell_of vals (int i) j) (\<lambda>v. Inr (out @ pad_left 5 (print_int v) @ '' '')))
        (map int [0..<c]) (out @ ?cells (vals ! i) 0) = Inr (out @ ?cells (vals ! i) c)"
      using assms(1) that len
      by (intro efold_steps [where G = "\<lambda>k. out @ ?cells (vals ! i) k"])
        (auto simp: cell_of_def take_Suc_conv_app_nth)
    then show ?thesis by (simp add: dump_row_def)
  qed
  have "efold (dump_row vals (int c)) (map int [0..<n]) (out @ concat (map ?line (take 0 vals))) =
      Inr (out @ concat (map ?line (take n vals)))"
    using row assms(1)
    by (intro efold_steps [where G = "\<lambda>k. out @ concat (map ?line (take k vals))"])
      (auto simp: take_Suc_conv_app_nth)
  moreover have "map ?line vals = map (\<lambda>row. concat (map (\<lambda>v. pad_left 5 (print_int v) @ '' '') row) @ eol) vals"
    using assms(2) by (intro map_cong) auto
  ultimately show ?thesis using assms(1) by (simp add: dump_points_def table_text_def)
qed

lemma pca_points_ok:
  assumes "\<forall>k. 0 \<le> rnd k" "1 \<le> g"
  shows "points_ok n c g (generate_points rnd g n c)"
  using assms by (auto simp: points_ok_def generate_points_def c_mod_nonneg)

lemma values_ok_cov_of:
  assumes "points_ok n c g M" "pca_sizes c g" "num_cols cfg = int c" "num_rows cfg = int n" "n + p < 2 ^ 31"
  shows "values_ok cfg M (map (mean_of c M) [0..<n]) n p (cov_of c M)"
  using assms cov_value_ok [OF assms(1,2)] cov_of_sym [of c M] by (simp add: values_ok_def)

lemma pca_parse_args_pos:
  "pca_parse_args opts = Inr cfg \<Longrightarrow> 0 < num_rows cfg \<and> 0 < num_cols cfg \<and> 0 < grid_size cfg"
  by (auto simp: pca_parse_args_def ebind_Inr_iff split: if_splits)

text \<open>
  C34. The covariance threads of the PCA benchmark, in every state any interleaving of them can
  reach: at most one is in the critical section of \<^verbatim>\<open>row_lock\<close>, no two are working on the same row, none
  faults by its next step, one can move unless all have returned, the steps already made are bounded, and
  once all have returned the matrix holds every covariance and each row was reported once.
\<close>

theorem covariance_threads_safe:
  assumes "cov_reachable cfg M mu (cov_start p fresh) s" "0 < p"
    and "points_ok n c g M" "pca_sizes c g" "num_cols cfg = int c" "num_rows cfg = int n" "n + p < 2 ^ 31"
    and "mu = map (mean_of c M) [0..<n]" "square n fresh"
  shows "(\<forall>t<p. \<forall>u<p. in_critical (threads s ! t) \<and> in_critical (threads s ! u) \<longrightarrow> t = u) \<and>
    (\<forall>t<p. \<forall>u<p. t \<noteq> u \<longrightarrow> row_of (threads s ! t) = None \<or> row_of (threads s ! t) \<noteq> row_of (threads s ! u)) \<and>
    (\<forall>t. cov_can_step t s \<longrightarrow> (\<exists>s'. cov_step cfg M mu t s = Inr s' \<and> cov_rank n s' < cov_rank n s)) \<and>
    (list_all (\<lambda>pc. pc = Returned) (threads s) \<or> (\<exists>t<p. cov_can_step t s)) \<and>
    (list_all (\<lambda>pc. pc = Returned) (threads s) \<longrightarrow>
      cov s = map (\<lambda>a. map (cov_of c M a) [0..<n]) [0..<n] \<and> cov_visits s = n)"
proof -
  have ok: "values_ok cfg M mu n p (cov_of c M)" using values_ok_cov_of assms(3-8) by simp
  have inv: "cov_inv n p (cov_of c M) s" using cov_reachable_inv [OF assms(1) ok assms(9)] .
  then have "threads_inv n p (cov_of c M) s" "rows_inv p s" by (simp_all add: cov_inv_def)
  note D = threads_invD [OF this(1)]
  show ?thesis
  proof (intro conjI)
    show "\<forall>t<p. \<forall>u<p. in_critical (threads s ! t) \<and> in_critical (threads s ! u) \<longrightarrow> t = u"
      using D(5) by auto
    show "\<forall>t. cov_can_step t s \<longrightarrow> (\<exists>s'. cov_step cfg M mu t s = Inr s' \<and> cov_rank n s' < cov_rank n s)"
      using cov_step_good [OF ok inv] by (auto simp: good_step_def)
    show "list_all (\<lambda>pc. pc = Returned) (threads s) \<or> (\<exists>t<p. cov_can_step t s)"
      using some_thread_moves [OF inv] D(1) by (auto simp: list_all_length)
    show "list_all (\<lambda>pc. pc = Returned) (threads s) \<longrightarrow>
      cov s = map (\<lambda>a. map (cov_of c M a) [0..<n]) [0..<n] \<and> cov_visits s = n"
      using returned_settled [OF ok inv _ assms(2)] by blast
  qed (use \<open>rows_inv p s\<close> in \<open>simp add: rows_inv_def\<close>)
qed

theorem covariance_threads_safe_witness:
  "\<exists>s'. cov_step \<lparr>num_rows = 2, num_cols = 2, grid_size = 10\<rparr> [[1, 3], [4, 8]] [2, 6] 1 (cov_start 2 [[0, 0], [0, 0]]) = Inr s' \<and>
     cov_rank 2 s' < cov_rank 2 (cov_start 2 [[0, 0], [0, 0]])"
proof -
  let ?cfg = "\<lparr>num_rows = 2, num_cols = 2, grid_size = 10\<rparr>" and ?M = "[[1, 3], [4, 8]] :: int list list"
  let ?s = "cov_start 2 [[0, 0], [0, 0]]"
  have reach: "cov_reachable ?cfg ?M [2, 6] ?s ?s" by (rule cov_reachable.start)
  have "(\<Sum>k<2. f k) = f 0 + f 1" for f :: "nat \<Rightarrow> int" by (simp add: numeral_2_eq_2)
  then have mu: "[2, 6] = map (mean_of 2 ?M) [0..<2]" by (simp add: mean_of_def upt_rec)
  have pts: "points_ok 2 2 10 ?M" and sizes: "pca_sizes 2 10" and sq: "square 2 [[0, 0], [0, 0]]"
    by (simp_all add: points_ok_def pca_sizes_def square_def)
  have can: "cov_can_step 1 ?s" by (simp add: cov_can_step_def cov_start_def)
  from covariance_threads_safe [OF reach _ pts sizes _ _ _ mu sq] can
  show ?thesis by auto
qed

text \<open>
  C35. The PCA benchmark as a whole: with any number of processors, any numbers from \<^verbatim>\<open>rand\<close>, any content of
  fresh memory and any schedule made of sufficiently many rounds in each of which every thread gets a
  turn (in any order, any number of times), the program ends and prints the points and the covariances of their
  rows, and reports each row twice (once for its mean, once for its covariances).
\<close>

theorem pca_prints_covariances:
  assumes "pca_parse_args opts = Inr cfg" "0 < p" "\<forall>k. 0 \<le> rnd k"
    and "n = nat (num_rows cfg)" "c = nat (num_cols cfg)" "g = grid_size cfg" "M = generate_points rnd g n c"
    and "2 \<le> c" "int c * (g * g) < 2 ^ 31" "n + p < 2 ^ 31"
    and "\<forall>ts\<in>set rounds. {..<p} \<subseteq> set ts" "n * (2 * n + 7) + 6 * p \<le> length rounds"
  shows "pca_main rnd heap p (concat rounds) opts = Inr (Some
    \<lparr>printed = pca_header cfg @ table_text M @ ''The number of processors is '' @ print_int (int p) @ eol @
       table_text (map (\<lambda>i. map (cov_of c M i) [0..<n]) [0..<n]),
     progress = 2 * n\<rparr>)"
proof -
  note pos = pca_parse_args_pos [OF assms(1)]
  have cfg: "num_rows cfg = int n" "num_cols cfg = int c" using pos assms(4,5) by simp_all
  have sizes: "pca_sizes c g" using assms(6,8,9) pos by (simp add: pca_sizes_def)
  have pts: "points_ok n c g M" using pca_points_ok [of rnd g n c] assms(3,6,7) pos by simp
  then have dump: "dump_points M (num_rows cfg) (num_cols cfg) out = Inr (out @ table_text M)" for out
    unfolding cfg by (intro dump_points_ok) (auto simp: points_ok_def)
  let ?fresh = "map (\<lambda>i. map (\<lambda>j. heap (n + i * n + j)) [0..<n]) [0..<n]"
  let ?cov = "map (\<lambda>i. map (cov_of c M i) [0..<n]) [0..<n]"
  have mean: "pthread_mean cfg M p \<lparr>mean = map heap [0..<n], visits = 0\<rparr> = Inr \<lparr>mean = map (mean_of c M) [0..<n], visits = n\<rparr>"
    by (rule pthread_mean_ok [OF pts sizes assms(2) cfg(2,1)]) simp
  have ok: "values_ok cfg M (map (mean_of c M) [0..<n]) n p (cov_of c M)"
    using values_ok_cov_of [OF pts sizes cfg(2,1) assms(10)] .
  have "square n ?fresh" by (auto simp: square_def)
  note start = cov_inv_start [OF this]
  obtain s where s: "cov_run cfg M (map (mean_of c M) [0..<n]) (concat rounds) (cov_start p ?fresh) = Inr s"
    "cov_inv n p (cov_of c M) s" "all_returned s"
    using cov_run_finishes [OF ok start(1) assms(11)] start(2) assms(12) by auto
  have "dump_points ?cov (num_rows cfg) (num_rows cfg) out = Inr (out @ table_text ?cov)" for out
    unfolding cfg by (rule dump_points_ok) auto
  then show ?thesis
    using assms(1,4-7) dump mean s(1,3) returned_settled [OF ok s(2,3) assms(2)]
    by (simp add: pca_main_def Let_def)
qed

theorem pca_prints_covariances_witness:
  "\<exists>r. pca_main int (\<lambda>_. 7) 2 (concat (replicate 34 [1, 0])) [Opt_r 2, Opt_c 2, Opt_s 10] = Inr (Some r) \<and> progress r = 4"
proof -
  have opts: "pca_parse_args [Opt_r 2, Opt_c 2, Opt_s 10] = Inr \<lparr>num_rows = 2, num_cols = 2, grid_size = 10\<rparr>"
    by (simp add: pca_parse_args_def)
  have fair: "\<forall>ts\<in>set (replicate 34 [1, 0]). {..<2 :: nat} \<subseteq> set ts" by auto
  show ?thesis
    by (rule exI, rule conjI [OF pca_prints_covariances [OF opts _ _ refl refl refl refl _ _ _ fair]]) simp_all
qed

text \<open>One column passes the check of the options and divides by zero.\<close>

lemma one_column_divides_by_zero:
  "pca_main (\<lambda>_. 5) (\<lambda>_. 0) 1 (replicate 20 0) [Opt_r 1, Opt_c 1] = Inl Division_By_Zero"
  by code_simp

end
