(* ===== verification/Symbol_Resolution.thy ===== *)
theory Symbol_Resolution
  imports Main
begin

text \<open>
  How libcoz finds the C library's own functions, \<^verbatim>\<open>libcoz/real.cpp\<close> and \<^verbatim>\<open>real.h\<close>: every pointer in
  the namespace \<^verbatim>\<open>real\<close> first points to a resolver, which looks the symbol up, stores its address in the
  pointer and calls it. Threads run the resolvers at the same time, one atomic access per step; a thread
  is created by a successful call of \<^verbatim>\<open>pthread_create\<close>. The results of \<^verbatim>\<open>dlopen\<close> and \<^verbatim>\<open>dlsym\<close> are arguments,
  and neither of them calls an interposed function.
\<close>

section \<open>The functions\<close>

datatype real_fn =
    R_exit | R_exit_now | R_Exit_now | R_fork | R_sigaction | R_signal | R_kill | R_sigprocmask
  | R_sigwait | R_sigwaitinfo | R_sigtimedwait | R_pthread_create | R_pthread_exit
  | R_pthread_join | R_pthread_tryjoin_np | R_pthread_timedjoin_np | R_pthread_sigmask
  | R_pthread_kill | R_pthread_sigqueue | R_pthread_mutex_lock | R_pthread_mutex_trylock
  | R_pthread_mutex_unlock | R_pthread_cond_wait | R_pthread_cond_timedwait
  | R_pthread_cond_signal | R_pthread_cond_broadcast | R_pthread_barrier_wait
  | R_pthread_rwlock_rdlock | R_pthread_rwlock_tryrdlock | R_pthread_rwlock_timedrdlock
  | R_pthread_rwlock_wrlock | R_pthread_rwlock_trywrlock | R_pthread_rwlock_timedwrlock
  | R_pthread_rwlock_unlock

fun fn_name :: "real_fn \<Rightarrow> string" where
  "fn_name R_exit = ''exit''"
| "fn_name R_exit_now = ''_exit''"
| "fn_name R_Exit_now = ''_Exit''"
| "fn_name R_fork = ''fork''"
| "fn_name R_sigaction = ''sigaction''"
| "fn_name R_signal = ''signal''"
| "fn_name R_kill = ''kill''"
| "fn_name R_sigprocmask = ''sigprocmask''"
| "fn_name R_sigwait = ''sigwait''"
| "fn_name R_sigwaitinfo = ''sigwaitinfo''"
| "fn_name R_sigtimedwait = ''sigtimedwait''"
| "fn_name R_pthread_create = ''pthread_create''"
| "fn_name R_pthread_exit = ''pthread_exit''"
| "fn_name R_pthread_join = ''pthread_join''"
| "fn_name R_pthread_tryjoin_np = ''pthread_tryjoin_np''"
| "fn_name R_pthread_timedjoin_np = ''pthread_timedjoin_np''"
| "fn_name R_pthread_sigmask = ''pthread_sigmask''"
| "fn_name R_pthread_kill = ''pthread_kill''"
| "fn_name R_pthread_sigqueue = ''pthread_sigqueue''"
| "fn_name R_pthread_mutex_lock = ''pthread_mutex_lock''"
| "fn_name R_pthread_mutex_trylock = ''pthread_mutex_trylock''"
| "fn_name R_pthread_mutex_unlock = ''pthread_mutex_unlock''"
| "fn_name R_pthread_cond_wait = ''pthread_cond_wait''"
| "fn_name R_pthread_cond_timedwait = ''pthread_cond_timedwait''"
| "fn_name R_pthread_cond_signal = ''pthread_cond_signal''"
| "fn_name R_pthread_cond_broadcast = ''pthread_cond_broadcast''"
| "fn_name R_pthread_barrier_wait = ''pthread_barrier_wait''"
| "fn_name R_pthread_rwlock_rdlock = ''pthread_rwlock_rdlock''"
| "fn_name R_pthread_rwlock_tryrdlock = ''pthread_rwlock_tryrdlock''"
| "fn_name R_pthread_rwlock_timedrdlock = ''pthread_rwlock_timedrdlock''"
| "fn_name R_pthread_rwlock_wrlock = ''pthread_rwlock_wrlock''"
| "fn_name R_pthread_rwlock_trywrlock = ''pthread_rwlock_trywrlock''"
| "fn_name R_pthread_rwlock_timedwrlock = ''pthread_rwlock_timedwrlock''"
| "fn_name R_pthread_rwlock_unlock = ''pthread_rwlock_unlock''"

text \<open>Those of libpthread are looked up in its handle, the others behind libcoz (\<^verbatim>\<open>RTLD_NEXT\<close>).\<close>

definition uses_pthread_handle :: "real_fn \<Rightarrow> bool" where
  "uses_pthread_handle f \<longleftrightarrow> f \<notin>
     {R_exit, R_exit_now, R_Exit_now, R_fork, R_sigaction, R_signal, R_kill, R_sigprocmask, R_sigwait,
      R_sigwaitinfo, R_sigtimedwait}"

text \<open>What a resolver does when the symbol is not found.\<close>

datatype missing_result = Abort | Return int | Return_SIG_ERR

definition if_missing :: "real_fn \<Rightarrow> missing_result" where
  "if_missing f =
     (if f \<in> {R_exit, R_exit_now, R_Exit_now, R_pthread_exit} then Abort
      else if f = R_signal then Return_SIG_ERR
      else if f \<in> {R_fork, R_sigaction, R_kill, R_sigprocmask, R_sigwait, R_sigwaitinfo, R_sigtimedwait,
        R_pthread_create, R_pthread_join, R_pthread_tryjoin_np, R_pthread_timedjoin_np, R_pthread_kill,
        R_pthread_sigqueue, R_pthread_sigmask} then Return (- 1)
      else Return 0)"

definition never_returns :: "real_fn \<Rightarrow> bool" where
  "never_returns f \<longleftrightarrow> f \<in> {R_exit, R_exit_now, R_Exit_now, R_pthread_exit}"

section \<open>State\<close>

text \<open>The null handle is \<^verbatim>\<open>RTLD_DEFAULT\<close>, whose search begins at the program and libcoz itself.\<close>

datatype dl_handle = RTLD_DEFAULT | RTLD_NEXT | Lib nat

record link_env =
  dlopen :: "nat option"
  dlsym :: "dl_handle \<Rightarrow> string \<Rightarrow> nat"

text \<open>Where a thread is in a call of a pointer of \<^verbatim>\<open>real\<close>; an address 0 is the null pointer.\<close>

datatype link_pc =
    Idle
  | Spin real_fn
  | Get_handle real_fn
  | Try_dlopen real_fn
  | Dlopen real_fn
  | Close_dlopen real_fn
  | Return_handle real_fn
  | Dlsym real_fn dl_handle
  | Store real_fn nat
  | Clear real_fn nat
  | Missing real_fn
  | Call real_fn nat
  | Gone

datatype call_outcome = Called nat | Not_Found missing_result

record link_state =
  resolving :: bool
  in_dlopen :: bool
  pthread_handle :: "nat option"
  wrapper :: "real_fn \<Rightarrow> nat option"
  link_threads :: "link_pc list"
  call_log :: "(nat \<times> real_fn \<times> call_outcome) list"

definition link_start :: link_state where
  "link_start = \<lparr>resolving = False, in_dlopen = False, pthread_handle = None, wrapper = (\<lambda>_. None),
     link_threads = [Idle], call_log = []\<rparr>"

section \<open>Steps\<close>

text \<open>What the program or the system chooses: the function called, and whether a thread was created.\<close>

datatype link_choice = Call_fn real_fn | Created bool | Go

definition link_goto :: "nat \<Rightarrow> link_pc \<Rightarrow> link_state \<Rightarrow> link_state" where
  "link_goto t pc s = s\<lparr>link_threads := (link_threads s)[t := pc]\<rparr>"

definition log_call :: "nat \<Rightarrow> real_fn \<Rightarrow> call_outcome \<Rightarrow> link_state \<Rightarrow> link_state" where
  "log_call t f r s = s\<lparr>call_log := call_log s @ [(t, f, r)]\<rparr>"

definition add_thread :: "link_state \<Rightarrow> link_state" where
  "add_thread s = s\<lparr>link_threads := link_threads s @ [Idle]\<rparr>"

text \<open>
  \<^verbatim>\<open>get_pthread_handle\<close>, which the macro \<^verbatim>\<open>GET_SYMBOL_HANDLE\<close> evaluates after its loop: the handle is opened
  by the first thread that finds it null and \<^verbatim>\<open>in_dlopen\<close> clear.
\<close>

fun handle_step :: "link_env \<Rightarrow> nat \<Rightarrow> link_pc \<Rightarrow> link_state \<Rightarrow> link_state" where
  "handle_step env t (Get_handle f) s =
     link_goto t (if \<not> uses_pthread_handle f then Dlsym f RTLD_NEXT
                  else if pthread_handle s = None then Try_dlopen f else Return_handle f) s"
| "handle_step env t (Try_dlopen f) s =
     link_goto t (if in_dlopen s then Return_handle f else Dlopen f) (s\<lparr>in_dlopen := True\<rparr>)"
| "handle_step env t (Dlopen f) s =
     (case dlopen env of
        None \<Rightarrow> link_goto t Gone (s\<lparr>pthread_handle := None\<rparr>)
      | Some h \<Rightarrow> link_goto t (Close_dlopen f) (s\<lparr>pthread_handle := Some h\<rparr>))"
| "handle_step env t (Close_dlopen f) s = link_goto t (Return_handle f) (s\<lparr>in_dlopen := False\<rparr>)"
| "handle_step env t (Return_handle f) s =
     link_goto t (Dlsym f (case pthread_handle s of None \<Rightarrow> RTLD_DEFAULT | Some h \<Rightarrow> Lib h)) s"
| "handle_step env t pc s = s"

text \<open>The exchange of \<^verbatim>\<open>resolving\<close> repeats while the old value was false.\<close>

fun link_step :: "link_env \<Rightarrow> nat \<Rightarrow> link_choice \<Rightarrow> link_pc \<Rightarrow> link_state \<Rightarrow> link_state option" where
  "link_step env t ch Idle s =
     (case ch of
        Call_fn f \<Rightarrow>
          Some (link_goto t (case wrapper s f of None \<Rightarrow> Spin f | Some a \<Rightarrow> Call f a) s)
      | _ \<Rightarrow> None)"
| "link_step env t ch (Spin f) s =
     Some (link_goto t (if \<not> resolving s then Spin f else Get_handle f) (s\<lparr>resolving := True\<rparr>))"
| "link_step env t ch (Dlsym f h) s = Some (link_goto t (Store f (dlsym env h (fn_name f))) s)"
| "link_step env t ch (Store f a) s =
     Some (link_goto t (Clear f a) (if a \<noteq> 0 then s\<lparr>wrapper := (wrapper s)(f := Some a)\<rparr> else s))"
| "link_step env t ch (Clear f a) s =
     Some (link_goto t (if a \<noteq> 0 then Call f a else Missing f) (s\<lparr>resolving := False\<rparr>))"
| "link_step env t ch (Missing f) s =
     Some (log_call t f (Not_Found (if_missing f)) (link_goto t (if if_missing f = Abort then Gone else Idle) s))"
| "link_step env t ch (Call f a) s =
     (let s1 = log_call t f (Called a) (link_goto t (if never_returns f then Gone else Idle) s)
      in Some (if f = R_pthread_create \<and> ch = Created True then add_thread s1 else s1))"
| "link_step env t ch Gone s = None"
| "link_step env t ch pc s = Some (handle_step env t pc s)"

definition link_move :: "link_env \<Rightarrow> nat \<times> link_choice \<Rightarrow> link_state \<Rightarrow> link_state option" where
  "link_move env m s =
     (if fst m < length (link_threads s) then link_step env (fst m) (snd m) (link_threads s ! fst m) s else None)"

inductive link_reachable :: "link_env \<Rightarrow> link_state \<Rightarrow> bool" for env where
  start: "link_reachable env link_start"
| move: "link_reachable env s \<Longrightarrow> link_move env m s = Some s' \<Longrightarrow> link_reachable env s'"

fun link_run :: "link_env \<Rightarrow> (nat \<times> link_choice) list \<Rightarrow> link_state \<Rightarrow> link_state option" where
  "link_run env [] s = Some s"
| "link_run env (m # ms) s = (case link_move env m s of None \<Rightarrow> None | Some s' \<Rightarrow> link_run env ms s')"

section \<open>Every call reaches the C library\<close>

definition right_handle :: "nat \<Rightarrow> real_fn \<Rightarrow> dl_handle" where
  "right_handle h f = (if uses_pthread_handle f then Lib h else RTLD_NEXT)"

definition right_address :: "link_env \<Rightarrow> nat \<Rightarrow> real_fn \<Rightarrow> nat" where
  "right_address env h f = dlsym env (right_handle h f) (fn_name f)"

abbreviation (input) handle_open :: "nat \<Rightarrow> real_fn \<Rightarrow> link_state \<Rightarrow> bool" where
  "handle_open h f s \<equiv> uses_pthread_handle f \<longrightarrow> pthread_handle s = Some h"

fun link_pc_ok :: "link_env \<Rightarrow> nat \<Rightarrow> link_state \<Rightarrow> link_pc \<Rightarrow> bool" where
  "link_pc_ok env h s (Try_dlopen f) \<longleftrightarrow> uses_pthread_handle f \<and> pthread_handle s = None"
| "link_pc_ok env h s (Dlopen f) \<longleftrightarrow> uses_pthread_handle f \<and> pthread_handle s = None"
| "link_pc_ok env h s (Close_dlopen f) \<longleftrightarrow> uses_pthread_handle f \<and> pthread_handle s = Some h"
| "link_pc_ok env h s (Return_handle f) \<longleftrightarrow> uses_pthread_handle f \<and> pthread_handle s = Some h"
| "link_pc_ok env h s (Dlsym f d) \<longleftrightarrow> d = right_handle h f \<and> handle_open h f s"
| "link_pc_ok env h s (Store f a) \<longleftrightarrow> a = right_address env h f \<and> handle_open h f s"
| "link_pc_ok env h s (Clear f a) \<longleftrightarrow> a = right_address env h f \<and> handle_open h f s"
| "link_pc_ok env h s (Missing f) \<longleftrightarrow> right_address env h f = 0"
| "link_pc_ok env h s (Call f a) \<longleftrightarrow> a = right_address env h f \<and> a \<noteq> 0 \<and> handle_open h f s"
| "link_pc_ok env h s _ \<longleftrightarrow> True"

definition right_outcome :: "link_env \<Rightarrow> nat \<Rightarrow> real_fn \<Rightarrow> call_outcome" where
  "right_outcome env h f =
     (if right_address env h f = 0 then Not_Found (if_missing f) else Called (right_address env h f))"

definition link_inv :: "link_env \<Rightarrow> nat \<Rightarrow> link_state \<Rightarrow> bool" where
  "link_inv env h s \<longleftrightarrow>
     (\<forall>pc\<in>set (link_threads s). link_pc_ok env h s pc) \<and>
     (pthread_handle s = None \<and> length (link_threads s) = 1 \<or> pthread_handle s = Some h) \<and>
     (in_dlopen s \<longrightarrow> (\<exists>f. link_threads s = [Dlopen f] \<or> link_threads s = [Close_dlopen f])) \<and>
     (\<forall>f a. wrapper s f = Some a \<longrightarrow> a = right_address env h f \<and> a \<noteq> 0 \<and> handle_open h f s) \<and>
     (\<forall>(t, f, r)\<in>set (call_log s). r = right_outcome env h f)"


lemma link_invD:
  assumes "link_inv env h s"
  shows "\<And>t. t < length (link_threads s) \<Longrightarrow> link_pc_ok env h s (link_threads s ! t)"
    "pthread_handle s = None \<and> length (link_threads s) = 1 \<or> pthread_handle s = Some h"
    "\<And>f a. wrapper s f = Some a \<Longrightarrow> a = right_address env h f \<and> a \<noteq> 0 \<and> handle_open h f s"
  using assms by (auto simp: link_inv_def)

text \<open>A step that leaves the handle and the flag of \<^verbatim>\<open>dlopen\<close> alone and gives its thread a good place.\<close>

lemma link_inv_goto:
  assumes "link_inv env h s" "link_pc_ok env h s pc"
    and "\<not> in_dlopen s"
    and "\<And>f a. w f = Some a \<Longrightarrow> a = right_address env h f \<and> a \<noteq> 0 \<and> handle_open h f s"
  shows "link_inv env h (link_goto t pc (s\<lparr>resolving := b, wrapper := w\<rparr>))"
proof -
  have same: "link_pc_ok env h (s\<lparr>resolving := b, wrapper := w, link_threads := ts\<rparr>) pc' = link_pc_ok env h s pc'" for ts pc'
    by (cases pc') simp_all
  have "\<forall>pc'\<in>set ((link_threads s)[t := pc]). link_pc_ok env h s pc'"
    using assms(1,2) set_update_subset_insert [of "link_threads s" t pc] by (auto simp: link_inv_def)
  then show ?thesis using assms(1,3,4) by (auto simp: link_inv_def link_goto_def same)
qed

lemma not_in_dlopen:
  assumes "link_inv env h s" "t < length (link_threads s)"
    and "\<forall>f. link_threads s ! t \<noteq> Dlopen f \<and> link_threads s ! t \<noteq> Close_dlopen f"
  shows "\<not> in_dlopen s"
proof
  assume "in_dlopen s"
  then obtain f where "link_threads s = [Dlopen f] \<or> link_threads s = [Close_dlopen f]"
    using assms(1) by (auto simp: link_inv_def)
  then show False using assms(2,3) by auto
qed

lemma link_inv_log:
  "link_inv env h s \<Longrightarrow> r = right_outcome env h f \<Longrightarrow> link_inv env h (log_call t f r s)"
proof -
  assume "link_inv env h s" "r = right_outcome env h f"
  moreover have "link_pc_ok env h (log_call t f r s) pc = link_pc_ok env h s pc" for pc
    by (cases pc) (simp_all add: log_call_def)
  ultimately show ?thesis by (auto simp: link_inv_def log_call_def)
qed

lemma link_inv_add_thread:
  "link_inv env h s \<Longrightarrow> pthread_handle s = Some h \<Longrightarrow> \<not> in_dlopen s \<Longrightarrow> link_inv env h (add_thread s)"
proof -
  assume "link_inv env h s" "pthread_handle s = Some h" "\<not> in_dlopen s"
  moreover have "link_pc_ok env h (add_thread s) pc = link_pc_ok env h s pc" for pc
    by (cases pc) (simp_all add: add_thread_def)
  ultimately show ?thesis by (auto simp: link_inv_def add_thread_def)
qed

text \<open>The handle is opened while there is one thread.\<close>

lemma link_inv_single:
  assumes "link_inv env h s" "pthread_handle s = None \<or> pthread_handle s = Some h" "t < 1" "length (link_threads s) = 1"
    and "hd' = None \<or> hd' = Some h" "pthread_handle s = Some h \<longrightarrow> hd' = Some h"
    and "link_pc_ok env h (s\<lparr>pthread_handle := hd'\<rparr>) pc"
    and "b \<longrightarrow> (\<exists>f. pc = Dlopen f \<or> pc = Close_dlopen f)"
  shows "link_inv env h (link_goto t pc (s\<lparr>pthread_handle := hd', in_dlopen := b\<rparr>))"
proof -
  have t: "t = 0" "(link_threads s)[0 := pc] = [pc]" using assms(3,4) by (auto simp: length_Suc_conv)
  have same: "link_pc_ok env h (s\<lparr>pthread_handle := hd', in_dlopen := b, link_threads := ts\<rparr>) pc =
      link_pc_ok env h (s\<lparr>pthread_handle := hd'\<rparr>) pc" for ts
    by (cases pc) simp_all
  show ?thesis
    using assms(1,2,5-8) t same by (auto simp: link_inv_def link_goto_def)
qed

lemma handle_step_inv:
  assumes "dlopen env = Some h" "link_inv env h s" "t < length (link_threads s)" "link_threads s ! t = pc"
    and "\<exists>f. pc \<in> {Get_handle f, Try_dlopen f, Dlopen f, Close_dlopen f, Return_handle f}"
  shows "link_inv env h (handle_step env t pc s)"
proof -
  note D = link_invD [OF assms(2)]
  have ok: "link_pc_ok env h s pc" using D(1) [OF assms(3)] assms(4) by simp
  have keep: "link_inv env h (link_goto t pc' s)" if "link_pc_ok env h s pc'" "\<not> in_dlopen s" for pc'
    using link_inv_goto [OF assms(2) that D(3), where w = "wrapper s" and t = t and b = "resolving s"] by simp
  from assms(5) obtain f where "pc \<in> {Get_handle f, Try_dlopen f, Dlopen f, Close_dlopen f, Return_handle f}" by blast
  then consider "pc = Get_handle f" | "pc = Try_dlopen f" | "pc = Dlopen f" | "pc = Close_dlopen f" | "pc = Return_handle f"
    by blast
  then show ?thesis
  proof cases
    case 1
    then have free: "\<not> in_dlopen s" using not_in_dlopen [OF assms(2,3)] assms(4) by simp
    have "link_pc_ok env h s (if \<not> uses_pthread_handle f then Dlsym f RTLD_NEXT
        else if pthread_handle s = None then Try_dlopen f else Return_handle f)"
      using D(2) by (auto simp: right_handle_def)
    then show ?thesis unfolding 1 handle_step.simps using free by (rule keep)
  next
    case 2
    then have "\<not> in_dlopen s" using not_in_dlopen [OF assms(2,3)] assms(4) by simp
    moreover have "pthread_handle s = None" "length (link_threads s) = 1" using ok 2 D(2) by auto
    ultimately have "link_inv env h (link_goto t (Dlopen f) (s\<lparr>pthread_handle := pthread_handle s, in_dlopen := True\<rparr>))"
      using ok 2 assms(3) by (intro link_inv_single [OF assms(2)]) auto
    then show ?thesis using 2 \<open>\<not> in_dlopen s\<close> by simp
  next
    case 3
    then show ?thesis
      using link_inv_single [OF assms(2), of t "Some h" "Close_dlopen f" "in_dlopen s"] ok D(2) assms(1,3) by auto
  next
    case 4
    show ?thesis
    proof (cases "in_dlopen s")
      case True
      then have "length (link_threads s) = 1" using assms(2) by (auto simp: link_inv_def)
      then have "link_inv env h (link_goto t (Return_handle f) (s\<lparr>pthread_handle := pthread_handle s, in_dlopen := False\<rparr>))"
        using ok 4 assms(3) by (intro link_inv_single [OF assms(2)]) auto
      then show ?thesis using 4 by simp
    next
      case False
      then have eq: "s\<lparr>in_dlopen := False\<rparr> = s" by (cases s) simp
      show ?thesis unfolding 4 handle_step.simps eq using ok 4 False by (intro keep) simp_all
    qed
  next
    case 5
    then have "\<not> in_dlopen s" using not_in_dlopen [OF assms(2,3)] assms(4) by simp
    then show ?thesis using keep ok 5 by (simp add: right_handle_def)
  qed
qed

lemma link_move_inv:
  assumes "dlopen env = Some h" "link_inv env h s" "link_move env (t, ch) s = Some s'"
  shows "link_inv env h s'"
proof -
  note D = link_invD [OF assms(2)]
  have t: "t < length (link_threads s)" and step: "link_step env t ch (link_threads s ! t) s = Some s'"
    using assms(3) by (simp_all add: link_move_def split: if_splits)
  note ok = D(1) [OF t]
  have keep: "link_inv env h (link_goto t pc (s\<lparr>resolving := b\<rparr>))" if "link_pc_ok env h s pc" "\<not> in_dlopen s" for pc b
    using link_inv_goto [OF assms(2) that D(3), where w = "wrapper s" and t = t and b = b] by simp
  note keep' = keep [where b = "resolving s", simplified]
  note free = not_in_dlopen [OF assms(2) t]
  show ?thesis
  proof (cases "link_threads s ! t")
    case Idle
    then obtain f where s': "s' = link_goto t (case wrapper s f of None \<Rightarrow> Spin f | Some a \<Rightarrow> Call f a) s"
      using step by (auto split: link_choice.splits)
    have "link_pc_ok env h s (case wrapper s f of None \<Rightarrow> Spin f | Some a \<Rightarrow> Call f a)"
      using D(3) by (auto split: option.splits)
    then show ?thesis using keep' free Idle s' by simp
  next
    case (Spin f)
    then show ?thesis using step keep free by auto
  next
    case (Dlsym f d)
    then show ?thesis using step keep' [of "Store f (dlsym env d (fn_name f))"] ok free
      by (auto simp: right_address_def)
  next
    case (Store f a)
    let ?w = "if a \<noteq> 0 then (wrapper s)(f := Some a) else wrapper s"
    have "link_inv env h (link_goto t (Clear f a) (s\<lparr>resolving := resolving s, wrapper := ?w\<rparr>))"
      using ok Store D(3) free by (intro link_inv_goto [OF assms(2)]) (auto split: if_splits)
    then show ?thesis using step Store by (auto split: if_splits)
  next
    case (Clear f a)
    have "link_pc_ok env h s (if a \<noteq> 0 then Call f a else Missing f)" using ok Clear by auto
    then have "link_inv env h (link_goto t (if a \<noteq> 0 then Call f a else Missing f) (s\<lparr>resolving := False\<rparr>))"
      using free Clear by (intro keep) simp_all
    then show ?thesis using Clear step by (auto split: if_splits)
  next
    case (Missing f)
    let ?s = "link_goto t (if if_missing f = Abort then Gone else Idle) s"
    have inv: "link_inv env h ?s" using keep' free Missing by simp
    have "s' = log_call t f (Not_Found (if_missing f)) ?s" using step Missing by simp
    moreover have "Not_Found (if_missing f) = right_outcome env h f" using ok Missing by (simp add: right_outcome_def)
    ultimately show ?thesis using link_inv_log [OF inv] by blast
  next
    case (Call f a)
    let ?s = "log_call t f (Called a) (link_goto t (if never_returns f then Gone else Idle) s)"
    have "link_inv env h (link_goto t (if never_returns f then Gone else Idle) s)" using keep' free Call by simp
    then have inv: "link_inv env h ?s" using ok Call by (intro link_inv_log) (auto simp: right_outcome_def)
    have s': "s' = (if f = R_pthread_create \<and> ch = Created True then add_thread ?s else ?s)"
      using step Call by (simp add: Let_def)
    have "pthread_handle ?s = pthread_handle s" "in_dlopen ?s = in_dlopen s" by (simp_all add: log_call_def link_goto_def)
    moreover have "uses_pthread_handle R_pthread_create" by (simp add: uses_pthread_handle_def)
    ultimately show ?thesis using inv s' ok Call free link_inv_add_thread [OF inv] by auto
  next
    case Gone
    then show ?thesis using step by simp
  qed (use step handle_step_inv [OF assms(1,2) t] in auto)
qed


lemma link_reachable_inv:
  assumes "link_reachable env s" "dlopen env = Some h"
  shows "link_inv env h s"
  using assms(1)
proof (induction rule: link_reachable.induct)
  case start
  show ?case by (simp add: link_inv_def link_start_def)
next
  case (move s m s')
  then show ?case using link_move_inv [OF assms(2) move.IH, of "fst m" "snd m"] by simp
qed

text \<open>
  C22. Whatever the threads of a program call and however their resolutions interleave, if every thread was
  created with \<^verbatim>\<open>pthread_create\<close> and libpthread can be opened, every call through \<^verbatim>\<open>real\<close> that has been made
  went to the symbol looked up behind libcoz (in libpthread for the thread functions) or, when there is no such
  symbol, had the result the resolver gives instead; a pointer that no longer holds its resolver holds that
  address. In particular no call goes to the default search, which would find libcoz's own function.
\<close>

theorem calls_reach_library:
  assumes "link_reachable env s" "dlopen env = Some h"
  shows "(\<forall>(t, f, r)\<in>set (call_log s). r =
      (let a = dlsym env (if uses_pthread_handle f then Lib h else RTLD_NEXT) (fn_name f)
       in if a = 0 then Not_Found (if_missing f) else Called a)) \<and>
    (\<forall>f a. wrapper s f = Some a \<longrightarrow> a \<noteq> 0 \<and>
      a = dlsym env (if uses_pthread_handle f then Lib h else RTLD_NEXT) (fn_name f)) \<and>
    (1 < length (link_threads s) \<longrightarrow> pthread_handle s = Some h)"
  using link_reachable_inv [OF assms]
  by (auto simp: link_inv_def right_outcome_def right_address_def right_handle_def Let_def split: if_splits)

text \<open>A run under a list of moves is reachable.\<close>

lemma link_run_reachable: "link_reachable env s \<Longrightarrow> link_run env ms s = Some s' \<Longrightarrow> link_reachable env s'"
  by (induction ms arbitrary: s) (auto split: option.splits intro: link_reachable.move)

definition example_env :: link_env where
  "example_env = \<lparr>dlopen = Some 3, dlsym = (\<lambda>h n. case h of RTLD_DEFAULT \<Rightarrow> 99 | RTLD_NEXT \<Rightarrow> 1000 | Lib k \<Rightarrow> 2000 + k)\<rparr>"

text \<open>The first call of \<^verbatim>\<open>pthread_create\<close>, step by step: two exchanges, the handle, the symbol, the call.\<close>

definition create_moves :: "(nat \<times> link_choice) list" where
  "create_moves = (0, Call_fn R_pthread_create) # replicate 10 (0, Go) @ [(0, Created True)]"

theorem calls_reach_library_witness:
  "\<exists>s. link_run example_env create_moves link_start = Some s \<and> call_log s = [(0, R_pthread_create, Called 2003)] \<and>
     1 < length (link_threads s) \<and> pthread_handle s = Some 3"
proof -
  have run: "map_option (\<lambda>s. (call_log s, length (link_threads s))) (link_run example_env create_moves link_start) =
      Some ([(0, R_pthread_create, Called 2003)], 2)"
    by code_simp
  then obtain s where s: "link_run example_env create_moves link_start = Some s"
    "call_log s = [(0, R_pthread_create, Called 2003)]" "length (link_threads s) = 2" by auto
  have "link_reachable example_env s" using link_run_reachable [OF link_reachable.start s(1)] .
  then have "1 < length (link_threads s) \<longrightarrow> pthread_handle s = Some 3"
    using calls_reach_library [of example_env s 3] by (simp add: example_env_def)
  then show ?thesis using s by simp
qed

section \<open>What the flag does\<close>

text \<open>
  The loop on \<^verbatim>\<open>resolving\<close> goes on while the flag was clear and stops when it was set. A thread that finds it
  clear sets it and passes at its next exchange; one that finds it set passes at once, so the flag keeps nobody
  out: two threads can be inside their resolvers.
\<close>

lemma set_flag_lets_through:
  "link_threads s ! t = Spin f \<Longrightarrow> resolving s \<Longrightarrow> t < length (link_threads s) \<Longrightarrow>
   link_move env (t, ch) s = Some (link_goto t (Get_handle f) (s\<lparr>resolving := True\<rparr>))"
  by (simp add: link_move_def)

theorem resolvers_run_together:
  "\<exists>s. link_reachable example_env s \<and> link_threads s = [Dlsym R_kill RTLD_NEXT, Dlsym R_signal RTLD_NEXT]"
proof -
  let ?ms = "create_moves @ [(0, Call_fn R_kill), (1, Call_fn R_signal)] @ replicate 3 (0, Go) @ replicate 2 (1, Go)"
  have run: "map_option link_threads (link_run example_env ?ms link_start) =
      Some [Dlsym R_kill RTLD_NEXT, Dlsym R_signal RTLD_NEXT]"
    by code_simp
  then obtain s where "link_run example_env ?ms link_start = Some s"
    "link_threads s = [Dlsym R_kill RTLD_NEXT, Dlsym R_signal RTLD_NEXT]" by auto
  then show ?thesis using link_run_reachable [OF link_reachable.start] by blast
qed

end
