(* ===== verification/Producer_Consumer.thy ===== *)
theory Producer_Consumer
  imports Coz_Prelude
begin

text \<open>
  The producer-consumer demonstration, \<^verbatim>\<open>benchmarks/producer_consumer/producer_consumer.cpp\<close>: producers
  and consumers share a bounded queue under a mutex with a condition variable for each side, and
  \<^verbatim>\<open>main\<close> waits on a third one. A step is what a thread does between two synchronization calls.
  \<^verbatim>\<open>pthread_cond_wait\<close> releases the mutex and waits; a signal wakes one of the waiting threads, which then
  competes for the mutex. Wake-ups without a signal, which POSIX allows, are left out. When
  \<^verbatim>\<open>main\<close> returns the process ends.
\<close>

section \<open>State\<close>

record pc_params =
  items :: nat
  queue_size :: nat
  producer_count :: nat
  consumer_count :: nat

definition code_params :: pc_params where
  "code_params = \<lparr>items = 1000000, queue_size = 10, producer_count = 5, consumer_count = 3\<rparr>"

text \<open>
  Where a thread is. The number of a producer's place counts the items it has to push after the
  current one; \<open>In\<close> is the inside of the loop that tests the queue, with the mutex held.
\<close>

datatype thread_pc =
    P_lock nat | P_in nat | P_wait nat | P_woken nat | P_unlock nat | P_signal nat
  | P_final_lock | P_final_signal | P_final_unlock | P_done
  | C_lock | C_in | C_wait | C_woken | C_unlock | C_signal | C_progress
  | M_lock | M_in | M_wait | M_woken | M_unlock | M_done

datatype condvar = Producer_Condvar | Consumer_Condvar | Main_Condvar

record pc_state =
  produced :: nat
  consumed :: nat
  the_queue :: "int list"
  queue_lock :: "nat option"
  pc_progress :: nat
  pc_threads :: "thread_pc list"

section \<open>Condition variables\<close>

fun waits_for :: "thread_pc \<Rightarrow> condvar option" where
  "waits_for (P_wait n) = Some Producer_Condvar"
| "waits_for C_wait = Some Consumer_Condvar"
| "waits_for M_wait = Some Main_Condvar"
| "waits_for pc = None"

fun woken :: "thread_pc \<Rightarrow> thread_pc" where
  "woken (P_wait n) = P_woken n"
| "woken C_wait = C_woken"
| "woken M_wait = M_woken"
| "woken pc = pc"

definition pc_goto :: "nat \<Rightarrow> thread_pc \<Rightarrow> pc_state \<Rightarrow> pc_state" where
  "pc_goto t pc s = s\<lparr>pc_threads := (pc_threads s)[t := pc]\<rparr>"

text \<open>The signal wakes the waiting thread \<open>u\<close>, if any thread waits; another choice is not a step.\<close>

definition cond_signal :: "condvar \<Rightarrow> nat \<Rightarrow> pc_state \<Rightarrow> pc_state option" where
  "cond_signal c u s =
     (if list_ex (\<lambda>pc. waits_for pc = Some c) (pc_threads s) then
        if u < length (pc_threads s) \<and> waits_for (pc_threads s ! u) = Some c
        then Some (pc_goto u (woken (pc_threads s ! u)) s) else None
      else Some s)"

definition take_lock :: "nat \<Rightarrow> thread_pc \<Rightarrow> pc_state \<Rightarrow> (c_fault + pc_state) option" where
  "take_lock t pc s =
     (if queue_lock s = None then Some (Inr (pc_goto t pc (s\<lparr>queue_lock := Some t\<rparr>))) else None)"

definition release_lock :: "nat \<Rightarrow> thread_pc \<Rightarrow> pc_state \<Rightarrow> (c_fault + pc_state) option" where
  "release_lock t pc s = Some (Inr (pc_goto t pc (s\<lparr>queue_lock := None\<rparr>)))"

definition signal_then :: "condvar \<Rightarrow> nat \<Rightarrow> nat \<Rightarrow> thread_pc \<Rightarrow> pc_state \<Rightarrow> (c_fault + pc_state) option" where
  "signal_then c u t pc s = map_option (\<lambda>s'. Inr (pc_goto t pc s')) (cond_signal c u s)"

section \<open>Steps\<close>

definition next_item :: "nat \<Rightarrow> thread_pc" where
  "next_item n = (case n of 0 \<Rightarrow> P_final_lock | Suc m \<Rightarrow> P_lock m)"

fun producer_step :: "pc_params \<Rightarrow> nat \<Rightarrow> nat \<Rightarrow> thread_pc \<Rightarrow> pc_state \<Rightarrow> (c_fault + pc_state) option" where
  "producer_step k t u (P_lock n) s = take_lock t (P_in n) s"
| "producer_step k t u (P_woken n) s = take_lock t (P_in n) s"
| "producer_step k t u (P_in n) s =
     (if length (the_queue s) = queue_size k then release_lock t (P_wait n) s
      else Some (Inr (pc_goto t (P_unlock n) (s\<lparr>the_queue := the_queue s @ [123], produced := produced s + 1\<rparr>))))"
| "producer_step k t u (P_unlock n) s = release_lock t (P_signal n) s"
| "producer_step k t u (P_signal n) s = signal_then Consumer_Condvar u t (next_item n) s"
| "producer_step k t u P_final_lock s = take_lock t P_final_signal s"
| "producer_step k t u P_final_signal s = signal_then Main_Condvar u t P_final_unlock s"
| "producer_step k t u P_final_unlock s = release_lock t P_done s"
| "producer_step k t u pc s = None"

fun consumer_step :: "nat \<Rightarrow> nat \<Rightarrow> thread_pc \<Rightarrow> pc_state \<Rightarrow> (c_fault + pc_state) option" where
  "consumer_step t u C_lock s = take_lock t C_in s"
| "consumer_step t u C_woken s = take_lock t C_in s"
| "consumer_step t u C_in s =
     (case the_queue s of
        [] \<Rightarrow> release_lock t C_wait s
      | front # rest \<Rightarrow>
          Some (if front = 123 then Inr (pc_goto t C_unlock (s\<lparr>the_queue := rest, consumed := consumed s + 1\<rparr>))
                else Inl Assert_Failed))"
| "consumer_step t u C_unlock s = release_lock t C_signal s"
| "consumer_step t u C_signal s = signal_then Producer_Condvar u t C_progress s"
| "consumer_step t u C_progress s = Some (Inr (pc_goto t C_lock (s\<lparr>pc_progress := pc_progress s + 1\<rparr>)))"
| "consumer_step t u pc s = None"

fun main_step :: "pc_params \<Rightarrow> nat \<Rightarrow> thread_pc \<Rightarrow> pc_state \<Rightarrow> (c_fault + pc_state) option" where
  "main_step k t M_lock s = take_lock t M_in s"
| "main_step k t M_woken s = take_lock t M_in s"
| "main_step k t M_in s =
     (if consumed s < items k then release_lock t M_wait s else Some (Inr (pc_goto t M_unlock s)))"
| "main_step k t M_unlock s = release_lock t M_done s"
| "main_step k t pc s = None"

datatype role = Main | Producer | Consumer

fun role_of :: "thread_pc \<Rightarrow> role" where
  "role_of (P_lock n) = Producer"
| "role_of (P_in n) = Producer"
| "role_of (P_wait n) = Producer"
| "role_of (P_woken n) = Producer"
| "role_of (P_unlock n) = Producer"
| "role_of (P_signal n) = Producer"
| "role_of P_final_lock = Producer"
| "role_of P_final_signal = Producer"
| "role_of P_final_unlock = Producer"
| "role_of P_done = Producer"
| "role_of C_lock = Consumer"
| "role_of C_in = Consumer"
| "role_of C_wait = Consumer"
| "role_of C_woken = Consumer"
| "role_of C_unlock = Consumer"
| "role_of C_signal = Consumer"
| "role_of C_progress = Consumer"
| "role_of pc = Main"

text \<open>Thread \<open>t\<close> moves, its signal waking \<open>u\<close>; nobody moves once \<^verbatim>\<open>main\<close> has returned.\<close>

definition pc_move :: "pc_params \<Rightarrow> nat \<Rightarrow> nat \<Rightarrow> pc_state \<Rightarrow> (c_fault + pc_state) option" where
  "pc_move k t u s =
     (if t < length (pc_threads s) \<and> M_done \<notin> set (pc_threads s) then
        case role_of (pc_threads s ! t) of
          Main \<Rightarrow> main_step k t (pc_threads s ! t) s
        | Producer \<Rightarrow> producer_step k t u (pc_threads s ! t) s
        | Consumer \<Rightarrow> consumer_step t u (pc_threads s ! t) s
      else None)"

text \<open>\<^verbatim>\<open>main\<close> is thread 0 and takes the mutex after it has created the others.\<close>

definition pc_start :: "pc_params \<Rightarrow> pc_state" where
  "pc_start k =
     \<lparr>produced = 0, consumed = 0, the_queue = [], queue_lock = None, pc_progress = 0,
      pc_threads = M_lock # replicate (producer_count k) (next_item (items k div producer_count k)) @
        replicate (consumer_count k) C_lock\<rparr>"

text \<open>A run: the threads that move, each with the thread its signal wakes.\<close>

fun pc_run :: "pc_params \<Rightarrow> (nat \<times> nat) list \<Rightarrow> pc_state \<Rightarrow> pc_state option" where
  "pc_run k [] s = Some s"
| "pc_run k (m # ms) s =
     (case pc_move k (fst m) (snd m) s of Some (Inr s') \<Rightarrow> pc_run k ms s' | _ \<Rightarrow> None)"

end
