(* ===== verification/Producer_Consumer_Facts.thy ===== *)
theory Producer_Consumer_Facts
  imports Producer_Consumer
begin

text \<open>
  Properties of the producer-consumer demonstration: no signal between producers and consumers is lost, so
  every item is consumed after a bounded number of moves; but the signal to \<^verbatim>\<open>main\<close> can come too early, and
  then \<^verbatim>\<open>main\<close> waits for ever.
\<close>

section \<open>The invariant\<close>

fun holds_lock :: "thread_pc \<Rightarrow> bool" where
  "holds_lock (P_in n) = True"
| "holds_lock (P_unlock n) = True"
| "holds_lock P_final_signal = True"
| "holds_lock P_final_unlock = True"
| "holds_lock C_in = True"
| "holds_lock C_unlock = True"
| "holds_lock M_in = True"
| "holds_lock M_unlock = True"
| "holds_lock pc = False"

text \<open>Items a producer has still to push; consumed items a consumer has not reported yet.\<close>

fun to_push :: "thread_pc \<Rightarrow> nat" where
  "to_push (P_lock n) = Suc n"
| "to_push (P_in n) = Suc n"
| "to_push (P_wait n) = Suc n"
| "to_push (P_woken n) = Suc n"
| "to_push (P_unlock n) = n"
| "to_push (P_signal n) = n"
| "to_push pc = 0"

definition unreported :: "thread_pc \<Rightarrow> nat" where
  "unreported pc = of_bool (pc \<in> {C_unlock, C_signal, C_progress})"

text \<open>
  Threads that will use, or signal, a free place of the queue; and those that will use, or signal, an item.
\<close>

fun serves_producers :: "thread_pc \<Rightarrow> nat" where
  "serves_producers C_unlock = 1"
| "serves_producers C_signal = 1"
| "serves_producers (P_woken n) = 1"
| "serves_producers (P_in n) = 1"
| "serves_producers pc = 0"

fun serves_consumers :: "thread_pc \<Rightarrow> nat" where
  "serves_consumers (P_unlock n) = 1"
| "serves_consumers (P_signal n) = 1"
| "serves_consumers C_woken = 1"
| "serves_consumers C_in = 1"
| "serves_consumers pc = 0"

abbreviation sum_of :: "(thread_pc \<Rightarrow> nat) \<Rightarrow> pc_state \<Rightarrow> nat" where
  "sum_of f s \<equiv> sum_list (map f (pc_threads s))"

definition all_items :: "pc_params \<Rightarrow> nat" where
  "all_items k = producer_count k * (items k div producer_count k)"

definition lock_inv :: "pc_state \<Rightarrow> bool" where
  "lock_inv s \<longleftrightarrow> (\<forall>t<length (pc_threads s). holds_lock (pc_threads s ! t) \<longleftrightarrow> queue_lock s = Some t) \<and>
     (\<forall>t. queue_lock s = Some t \<longrightarrow> t < length (pc_threads s))"

definition roles_inv :: "pc_params \<Rightarrow> pc_state \<Rightarrow> bool" where
  "roles_inv k s \<longleftrightarrow>
     map role_of (pc_threads s) = Main # replicate (producer_count k) Producer @ replicate (consumer_count k) Consumer"

definition queue_inv :: "pc_params \<Rightarrow> pc_state \<Rightarrow> bool" where
  "queue_inv k s \<longleftrightarrow> produced s + sum_of to_push s = all_items k \<and> produced s = consumed s + length (the_queue s) \<and>
     pc_progress s + sum_of unreported s = consumed s \<and> length (the_queue s) \<le> queue_size k \<and>
     set (the_queue s) \<subseteq> {123} \<and> (M_unlock \<in> set (pc_threads s) \<or> M_done \<in> set (pc_threads s) \<longrightarrow> items k \<le> consumed s)"

text \<open>
  No signal is lost: when a producer waits, the free places are covered by threads that serve the
  producers, with \<open>d\<close> to spare; and the same for the consumers and the items.
\<close>

definition waiting :: "condvar \<Rightarrow> pc_state \<Rightarrow> bool" where
  "waiting c s \<longleftrightarrow> (\<exists>pc\<in>set (pc_threads s). waits_for pc = Some c)"

definition producers_served :: "pc_params \<Rightarrow> nat \<Rightarrow> pc_state \<Rightarrow> bool" where
  "producers_served k d s \<longleftrightarrow>
     (waiting Producer_Condvar s \<longrightarrow> queue_size k + d \<le> length (the_queue s) + sum_of serves_producers s)"

definition consumers_served :: "nat \<Rightarrow> pc_state \<Rightarrow> bool" where
  "consumers_served d s \<longleftrightarrow>
     (waiting Consumer_Condvar s \<longrightarrow> length (the_queue s) + d \<le> sum_of serves_consumers s)"

definition basic_inv :: "pc_params \<Rightarrow> pc_state \<Rightarrow> bool" where
  "basic_inv k s \<longleftrightarrow> lock_inv s \<and> roles_inv k s \<and> queue_inv k s"

definition pc_inv :: "pc_params \<Rightarrow> pc_state \<Rightarrow> bool" where
  "pc_inv k s \<longleftrightarrow> basic_inv k s \<and> producers_served k 0 s \<and> consumers_served 0 s"

section \<open>Changing the place of one thread\<close>

lemma sum_of_goto:
  "t < length (pc_threads s) \<Longrightarrow> pc_threads g = pc_threads s \<Longrightarrow>
   sum_of f (pc_goto t pc g) + f (pc_threads s ! t) = sum_of f s + f pc"
  by (simp add: pc_goto_def sum_list_replace)

lemma lock_inv_goto:
  assumes "lock_inv s" "t < length (pc_threads s)" "pc_threads g = pc_threads s"
    and "holds_lock pc \<longleftrightarrow> queue_lock g = Some t"
    and "\<And>u. u \<noteq> t \<Longrightarrow> queue_lock g = Some u \<longleftrightarrow> queue_lock s = Some u"
  shows "lock_inv (pc_goto t pc g)"
proof -
  have "holds_lock ((pc_threads s)[t := pc] ! u) \<longleftrightarrow> queue_lock g = Some u" if "u < length (pc_threads s)" for u
    using assms that by (cases "u = t") (auto simp: lock_inv_def)
  moreover have "u < length (pc_threads s)" if "queue_lock g = Some u" for u
    using assms(1,2,5) that by (cases "u = t") (auto simp: lock_inv_def)
  ultimately show ?thesis using assms(3) by (simp add: lock_inv_def pc_goto_def)
qed

lemma roles_inv_goto:
  assumes "roles_inv k s" "t < length (pc_threads s)" "pc_threads g = pc_threads s"
    and "role_of pc = role_of (pc_threads s ! t)"
  shows "roles_inv k (pc_goto t pc g)"
proof -
  have "map role_of ((pc_threads s)[t := pc]) = map role_of (pc_threads s)"
    using assms(2,4) list_update_id [of "map role_of (pc_threads s)" t] by (simp add: map_update)
  then show ?thesis using assms(1,3) by (simp add: roles_inv_def pc_goto_def)
qed

lemma queue_inv_goto:
  assumes "queue_inv k s" "t < length (pc_threads s)" "pc_threads g = pc_threads s"
    and "produced g + to_push pc = produced s + to_push (pc_threads s ! t)"
    and "produced g = consumed g + length (the_queue g)" "consumed s \<le> consumed g"
    and "pc_progress g + unreported pc + consumed s = pc_progress s + unreported (pc_threads s ! t) + consumed g"
    and "length (the_queue g) \<le> queue_size k" "set (the_queue g) \<subseteq> {123}"
    and "pc \<in> {M_unlock, M_done} \<longrightarrow> items k \<le> consumed g"
  shows "queue_inv k (pc_goto t pc g)"
proof -
  have fin: "items k \<le> consumed g" if "pc' \<in> {M_unlock, M_done}" "pc' \<in> set ((pc_threads s)[t := pc])" for pc'
    using that assms(1,6,10) set_update_subset_insert [of "pc_threads s" t pc] by (fastforce simp: queue_inv_def)
  show ?thesis
    using assms(1,4-9) fin sum_of_goto [OF assms(2,3), of to_push pc] sum_of_goto [OF assms(2,3), of unreported pc] assms(3)
    unfolding queue_inv_def by (auto simp: pc_goto_def)
qed

lemma waiting_goto:
  "waiting c (pc_goto t pc g) \<Longrightarrow> pc_threads g = pc_threads s \<Longrightarrow> waits_for pc = Some c \<or> waiting c s"
  using set_update_subset_insert [of "pc_threads s" t pc] by (auto simp: waiting_def pc_goto_def)

lemma producers_served_goto:
  assumes "producers_served k d s" "t < length (pc_threads s)" "pc_threads g = pc_threads s"
    and "waits_for pc = Some Producer_Condvar \<and> e = 0 \<and> queue_size k \<le> length (the_queue g) \<or>
      waits_for pc \<noteq> Some Producer_Condvar \<and> length (the_queue s) + serves_producers (pc_threads s ! t) + e \<le>
        length (the_queue g) + serves_producers pc + d"
  shows "producers_served k e (pc_goto t pc g)"
  using assms(1,4) waiting_goto [of Producer_Condvar t pc g s] assms(3)
    sum_of_goto [OF assms(2,3), of serves_producers pc]
  by (auto simp: producers_served_def pc_goto_def)

lemma consumers_served_goto:
  assumes "consumers_served d s" "t < length (pc_threads s)" "pc_threads g = pc_threads s"
    and "waits_for pc = Some Consumer_Condvar \<and> e = 0 \<and> the_queue g = [] \<or>
      waits_for pc \<noteq> Some Consumer_Condvar \<and> length (the_queue g) + serves_consumers (pc_threads s ! t) + e \<le>
        length (the_queue s) + serves_consumers pc + d"
  shows "consumers_served e (pc_goto t pc g)"
  using assms(1,4) waiting_goto [of Consumer_Condvar t pc g s] assms(3)
    sum_of_goto [OF assms(2,3), of serves_consumers pc]
  by (auto simp: consumers_served_def pc_goto_def)


lemma basic_inv_goto:
  assumes "basic_inv k s" "t < length (pc_threads s)" "pc_threads g = pc_threads s"
    and "holds_lock pc \<longleftrightarrow> queue_lock g = Some t"
    and "\<And>u. u \<noteq> t \<Longrightarrow> queue_lock g = Some u \<longleftrightarrow> queue_lock s = Some u"
    and "role_of pc = role_of (pc_threads s ! t)"
    and "produced g + to_push pc = produced s + to_push (pc_threads s ! t)"
    and "produced g = consumed g + length (the_queue g)" "consumed s \<le> consumed g"
    and "pc_progress g + unreported pc + consumed s = pc_progress s + unreported (pc_threads s ! t) + consumed g"
    and "length (the_queue g) \<le> queue_size k" "set (the_queue g) \<subseteq> {123}"
    and "pc \<in> {M_unlock, M_done} \<longrightarrow> items k \<le> consumed g"
  shows "basic_inv k (pc_goto t pc g)"
  using assms(1) lock_inv_goto [of s t g pc] roles_inv_goto [of k s t g pc] queue_inv_goto [of k s t g pc] assms(2-)
  by (simp add: basic_inv_def)

section \<open>Signals\<close>

lemma woken_same:
  "holds_lock (woken pc) = holds_lock pc" "role_of (woken pc) = role_of pc" "to_push (woken pc) = to_push pc"
  "unreported (woken pc) = unreported pc" "waits_for (woken pc) = None"
  "woken pc \<in> {M_unlock, M_done} \<longleftrightarrow> pc \<in> {M_unlock, M_done}"
  by (cases pc; simp add: unreported_def)+

lemma basic_inv_wake:
  assumes "basic_inv k s" "u < length (pc_threads s)" "waits_for (pc_threads s ! u) = Some c"
  shows "basic_inv k (pc_goto u (woken (pc_threads s ! u)) s)"
proof -
  have "\<not> holds_lock (pc_threads s ! u)" "pc_threads s ! u \<notin> {M_unlock, M_done}"
    using assms(3) by (cases "pc_threads s ! u"; simp)+
  moreover have "queue_inv k s" "lock_inv s" using assms(1) by (simp_all add: basic_inv_def)
  ultimately show ?thesis
    using assms(1,2) woken_same [of "pc_threads s ! u"]
    by (intro basic_inv_goto) (auto simp: queue_inv_def lock_inv_def)
qed

lemma served_wake:
  assumes "u < length (pc_threads s)" "waits_for (pc_threads s ! u) = Some c"
  shows "producers_served k 0 s \<Longrightarrow>
      producers_served k (of_bool (c = Producer_Condvar)) (pc_goto u (woken (pc_threads s ! u)) s)"
    "consumers_served 0 s \<Longrightarrow>
      consumers_served (of_bool (c = Consumer_Condvar)) (pc_goto u (woken (pc_threads s ! u)) s)"
proof -
  have "serves_producers (pc_threads s ! u) + of_bool (c = Producer_Condvar) = serves_producers (woken (pc_threads s ! u))"
    "serves_consumers (pc_threads s ! u) + of_bool (c = Consumer_Condvar) = serves_consumers (woken (pc_threads s ! u))"
    using assms(2) by (cases "pc_threads s ! u"; auto)+
  then show "producers_served k 0 s \<Longrightarrow>
      producers_served k (of_bool (c = Producer_Condvar)) (pc_goto u (woken (pc_threads s ! u)) s)"
    "consumers_served 0 s \<Longrightarrow>
      consumers_served (of_bool (c = Consumer_Condvar)) (pc_goto u (woken (pc_threads s ! u)) s)"
    using assms(1) woken_same(5) by (auto intro!: producers_served_goto consumers_served_goto)
qed

text \<open>After a signal the other side is served with one thread to spare.\<close>

lemma cond_signal_inv:
  assumes "cond_signal c u s = Some s1" "pc_inv k s"
  shows "basic_inv k s1" "producers_served k (of_bool (c = Producer_Condvar)) s1"
    "consumers_served (of_bool (c = Consumer_Condvar)) s1"
proof -
  have "basic_inv k s1 \<and> producers_served k (of_bool (c = Producer_Condvar)) s1 \<and>
    consumers_served (of_bool (c = Consumer_Condvar)) s1"
  proof (cases "waiting c s")
    case True
    then have "u < length (pc_threads s)" "waits_for (pc_threads s ! u) = Some c"
      "s1 = pc_goto u (woken (pc_threads s ! u)) s"
      using assms(1) by (auto simp: cond_signal_def waiting_def list_ex_iff split: if_splits)
    then show ?thesis
      using assms(2) basic_inv_wake [of k s u c] served_wake(1) [of u s c k] served_wake(2) [of u s c] by (simp add: pc_inv_def)
  next
    case False
    then have "s1 = s" using assms(1) by (auto simp: cond_signal_def waiting_def list_ex_iff)
    with False assms(2) show ?thesis
      by (cases c) (auto simp: pc_inv_def producers_served_def consumers_served_def)
  qed
  then show "basic_inv k s1" "producers_served k (of_bool (c = Producer_Condvar)) s1"
    "consumers_served (of_bool (c = Consumer_Condvar)) s1" by simp_all
qed

lemma cond_signal_same:
  assumes "cond_signal c u s = Some s1"
  shows "produced s1 = produced s" "consumed s1 = consumed s" "the_queue s1 = the_queue s"
    "queue_lock s1 = queue_lock s" "pc_progress s1 = pc_progress s" "length (pc_threads s1) = length (pc_threads s)"
    "waits_for (pc_threads s ! t) = None \<Longrightarrow> pc_threads s1 ! t = pc_threads s ! t"
  using assms by (auto simp: cond_signal_def pc_goto_def nth_list_update split: if_splits)

section \<open>The rank\<close>

fun place_rank :: "thread_pc \<Rightarrow> nat" where
  "place_rank (P_lock n) = 2"
| "place_rank (P_in n) = 1"
| "place_rank (P_wait n) = 0"
| "place_rank (P_woken n) = 2"
| "place_rank (P_unlock n) = 13"
| "place_rank (P_signal n) = 12"
| "place_rank P_final_lock = 6"
| "place_rank P_final_signal = 5"
| "place_rank P_final_unlock = 1"
| "place_rank P_done = 0"
| "place_rank C_lock = 2"
| "place_rank C_in = 1"
| "place_rank C_wait = 0"
| "place_rank C_woken = 2"
| "place_rank C_unlock = 8"
| "place_rank C_signal = 7"
| "place_rank C_progress = 3"
| "place_rank M_lock = 3"
| "place_rank M_in = 2"
| "place_rank M_wait = 0"
| "place_rank M_woken = 3"
| "place_rank M_unlock = 1"
| "place_rank M_done = 0"

definition pc_rank :: "pc_params \<Rightarrow> pc_state \<Rightarrow> nat" where
  "pc_rank k s = 20 * sum_of to_push s + 20 * (all_items k - consumed s) + sum_of place_rank s"

lemma pc_rank_goto:
  assumes "t < length (pc_threads s)" "pc_threads g = pc_threads s" "consumed s \<le> consumed g"
    and "20 * to_push pc + 20 * (all_items k - consumed g) + place_rank pc <
      20 * to_push (pc_threads s ! t) + 20 * (all_items k - consumed s) + place_rank (pc_threads s ! t) + d"
  shows "pc_rank k (pc_goto t pc g) < pc_rank k s + d"
proof -
  have "consumed (pc_goto t pc g) = consumed g" by (simp add: pc_goto_def)
  with assms(4) sum_of_goto [OF assms(1,2), of to_push pc] sum_of_goto [OF assms(1,2), of place_rank pc]
  show ?thesis unfolding pc_rank_def by linarith
qed

lemma cond_signal_rank: "cond_signal c u s = Some s1 \<Longrightarrow> pc_rank k s1 \<le> pc_rank k s + 3"
proof -
  assume sig: "cond_signal c u s = Some s1"
  show ?thesis
  proof (cases "waiting c s")
    case True
    then have u: "u < length (pc_threads s)" "waits_for (pc_threads s ! u) = Some c"
      "s1 = pc_goto u (woken (pc_threads s ! u)) s"
      using sig by (auto simp: cond_signal_def waiting_def list_ex_iff split: if_splits)
    have "place_rank (woken (pc_threads s ! u)) \<le> place_rank (pc_threads s ! u) + 3"
      using u(2) by (cases "pc_threads s ! u") auto
    then show ?thesis
      using pc_rank_goto [OF u(1) refl, of "woken (pc_threads s ! u)" k 4] woken_same(3) u(3) by simp
  next
    case False
    then have "s1 = s" using sig by (auto simp: cond_signal_def waiting_def list_ex_iff)
    then show ?thesis by simp
  qed
qed


section \<open>Every move\<close>

definition good_move :: "pc_params \<Rightarrow> pc_state \<Rightarrow> c_fault + pc_state \<Rightarrow> bool" where
  "good_move k s r \<longleftrightarrow> (\<exists>s'. r = Inr s' \<and> pc_inv k s' \<and> pc_rank k s' < pc_rank k s)"

text \<open>A move that signals nobody; the shared variables become those of \<open>g\<close>.\<close>

lemma quiet_move:
  assumes "pc_inv k s" "t < length (pc_threads s)" "pc_threads g = pc_threads s"
    and "holds_lock pc \<longleftrightarrow> queue_lock g = Some t"
    and "\<And>u. u \<noteq> t \<Longrightarrow> queue_lock g = Some u \<longleftrightarrow> queue_lock s = Some u"
    and "role_of pc = role_of (pc_threads s ! t)"
    and "produced g + to_push pc = produced s + to_push (pc_threads s ! t)"
    and "produced g = consumed g + length (the_queue g)" "consumed s \<le> consumed g"
    and "pc_progress g + unreported pc + consumed s = pc_progress s + unreported (pc_threads s ! t) + consumed g"
    and "length (the_queue g) \<le> queue_size k" "set (the_queue g) \<subseteq> {123}"
    and "pc \<in> {M_unlock, M_done} \<longrightarrow> items k \<le> consumed g"
    and "waits_for pc = Some Producer_Condvar \<and> queue_size k \<le> length (the_queue g) \<or>
      waits_for pc \<noteq> Some Producer_Condvar \<and> length (the_queue s) + serves_producers (pc_threads s ! t) \<le>
        length (the_queue g) + serves_producers pc"
    and "waits_for pc = Some Consumer_Condvar \<and> the_queue g = [] \<or>
      waits_for pc \<noteq> Some Consumer_Condvar \<and> length (the_queue g) + serves_consumers (pc_threads s ! t) \<le>
        length (the_queue s) + serves_consumers pc"
    and "20 * to_push pc + 20 * (all_items k - consumed g) + place_rank pc <
      20 * to_push (pc_threads s ! t) + 20 * (all_items k - consumed s) + place_rank (pc_threads s ! t)"
  shows "good_move k s (Inr (pc_goto t pc g))"
proof -
  have "basic_inv k (pc_goto t pc g)"
    using assms(1) by (intro basic_inv_goto [OF _ assms(2-13)]) (simp add: pc_inv_def)
  moreover have "producers_served k 0 (pc_goto t pc g)"
    using assms(1,14) by (intro producers_served_goto [OF _ assms(2,3)]) (auto simp: pc_inv_def)
  moreover have "consumers_served 0 (pc_goto t pc g)"
    using assms(1,15) by (intro consumers_served_goto [OF _ assms(2,3)]) (auto simp: pc_inv_def)
  moreover have "pc_rank k (pc_goto t pc g) < pc_rank k s + 0"
    using assms(16) by (intro pc_rank_goto [OF assms(2,3,9)]) simp
  ultimately show ?thesis by (simp add: good_move_def pc_inv_def)
qed

lemma pc_invD:
  assumes "pc_inv k s"
  shows "queue_inv k s" "\<And>t. t < length (pc_threads s) \<Longrightarrow> holds_lock (pc_threads s ! t) \<longleftrightarrow> queue_lock s = Some t"
    "produced s = consumed s + length (the_queue s)" "length (the_queue s) \<le> queue_size k" "set (the_queue s) \<subseteq> {123}"
  using assms by (auto simp: pc_inv_def basic_inv_def queue_inv_def lock_inv_def)

text \<open>The mutex is taken or released and nothing else changes.\<close>

lemma lock_move:
  assumes "pc_inv k s" "t < length (pc_threads s)"
    and "queue_lock s = None \<and> holds_lock pc \<and> l = Some t \<or> queue_lock s = Some t \<and> \<not> holds_lock pc \<and> l = None"
    and "role_of pc = role_of (pc_threads s ! t)" "to_push pc = to_push (pc_threads s ! t)"
    and "unreported pc = unreported (pc_threads s ! t)"
    and "pc = M_done \<longrightarrow> items k \<le> consumed s" "pc \<noteq> M_unlock"
    and "waits_for pc = Some Producer_Condvar \<and> queue_size k \<le> length (the_queue s) \<or>
      waits_for pc \<noteq> Some Producer_Condvar \<and> serves_producers (pc_threads s ! t) \<le> serves_producers pc"
    and "waits_for pc = Some Consumer_Condvar \<and> the_queue s = [] \<or>
      waits_for pc \<noteq> Some Consumer_Condvar \<and> serves_consumers (pc_threads s ! t) \<le> serves_consumers pc"
    and "place_rank pc < place_rank (pc_threads s ! t)"
  shows "good_move k s (Inr (pc_goto t pc (s\<lparr>queue_lock := l\<rparr>)))"
  using pc_invD [OF assms(1)] assms(2-)
  by (intro quiet_move [OF assms(1,2)]) auto

text \<open>A signal: the other side is one thread to the good, the signalling thread may stop serving it.\<close>

lemma signal_move:
  assumes "pc_inv k s" "t < length (pc_threads s)" "signal_then c u t pc s = Some r"
    and "waits_for (pc_threads s ! t) = None" "waits_for pc = None"
    and "holds_lock pc = holds_lock (pc_threads s ! t)" "role_of pc = role_of (pc_threads s ! t)"
    and "to_push pc = to_push (pc_threads s ! t)" "unreported pc = unreported (pc_threads s ! t)"
    and "pc \<notin> {M_unlock, M_done}"
    and "serves_producers (pc_threads s ! t) \<le> serves_producers pc + of_bool (c = Producer_Condvar)"
    and "serves_consumers (pc_threads s ! t) \<le> serves_consumers pc + of_bool (c = Consumer_Condvar)"
    and "place_rank pc + 3 < place_rank (pc_threads s ! t)"
  shows "good_move k s r"
proof -
  obtain s1 where s1: "cond_signal c u s = Some s1" "r = Inr (pc_goto t pc s1)"
    using assms(3) by (auto simp: signal_then_def)
  note inv = cond_signal_inv [OF s1(1) assms(1)] and same = cond_signal_same [OF s1(1)]
  have at: "pc_threads s1 ! t = pc_threads s ! t" using same(7) assms(4) by simp
  have t: "t < length (pc_threads s1)" using same(6) assms(2) by simp
  have q: "queue_inv k s1" "lock_inv s1" using inv(1) by (simp_all add: basic_inv_def)
  have "basic_inv k (pc_goto t pc s1)"
    using q t assms(6-10) at by (intro basic_inv_goto [OF inv(1) t]) (auto simp: queue_inv_def lock_inv_def)
  moreover have "producers_served k 0 (pc_goto t pc s1)"
    using assms(5,11) at by (intro producers_served_goto [OF inv(2) t]) auto
  moreover have "consumers_served 0 (pc_goto t pc s1)"
    using assms(5,12) at by (intro consumers_served_goto [OF inv(3) t]) auto
  moreover have "pc_rank k (pc_goto t pc s1) + 3 < pc_rank k s1"
    using assms(8,13) at sum_of_goto [OF t refl, of to_push pc] sum_of_goto [OF t refl, of place_rank pc]
    by (simp add: pc_rank_def pc_goto_def)
  then have "pc_rank k (pc_goto t pc s1) < pc_rank k s" using cond_signal_rank [OF s1(1), of k] by linarith
  ultimately show ?thesis by (simp add: good_move_def pc_inv_def s1(2))
qed


lemma next_item_places:
  "to_push (next_item n) = n" "role_of (next_item n) = Producer" "waits_for (next_item n) = None"
  "\<not> holds_lock (next_item n)" "unreported (next_item n) = 0" "next_item n \<notin> {M_unlock, M_done}"
  "serves_producers (next_item n) = 0" "serves_consumers (next_item n) = 0" "place_rank (next_item n) \<le> 6"
  by (cases n; simp add: next_item_def unreported_def)+

lemma producer_move:
  assumes "pc_inv k s" "t < length (pc_threads s)" "pc_threads s ! t = pc" "producer_step k t u pc s = Some r"
  shows "good_move k s r"
proof -
  note D = pc_invD [OF assms(1)]
  note held = D(2) [OF assms(2)]
  note lock = lock_move [OF assms(1,2)] and signal = signal_move [OF assms(1,2)]
  show ?thesis
  proof (cases pc)
    case (P_lock n)
    then show ?thesis using assms(3,4) lock [of "P_in n" "Some t"]
      by (auto simp: take_lock_def unreported_def split: if_splits)
  next
    case (P_woken n)
    then show ?thesis using assms(3,4) lock [of "P_in n" "Some t"]
      by (auto simp: take_lock_def unreported_def split: if_splits)
  next
    case (P_in n)
    show ?thesis
    proof (cases "length (the_queue s) = queue_size k")
      case True
      then show ?thesis using P_in held assms(3,4) lock [of "P_wait n" None]
        by (auto simp: release_lock_def unreported_def)
    next
      case False
      then have "r = Inr (pc_goto t (P_unlock n) (s\<lparr>the_queue := the_queue s @ [123], produced := produced s + 1\<rparr>))"
        using P_in assms(4) by simp
      moreover have "good_move k s \<dots>"
        using False P_in held assms(3) D(3-5) by (intro quiet_move [OF assms(1,2)]) (auto simp: unreported_def)
      ultimately show ?thesis by simp
    qed
  next
    case (P_unlock n)
    then show ?thesis using held assms(3,4) lock [of "P_signal n" None] by (auto simp: release_lock_def unreported_def)
  next
    case (P_signal n)
    then show ?thesis
      using assms(3,4) signal [of Consumer_Condvar u "next_item n" r] next_item_places [of n] by (simp add: unreported_def)
  next
    case P_final_lock
    then show ?thesis using assms(3,4) lock [of P_final_signal "Some t"]
      by (auto simp: take_lock_def unreported_def split: if_splits)
  next
    case P_final_signal
    then show ?thesis
      using assms(3,4) signal [of Main_Condvar u P_final_unlock r] by (simp add: unreported_def)
  next
    case P_final_unlock
    then show ?thesis using held assms(3,4) lock [of P_done None] by (auto simp: release_lock_def unreported_def)
  qed (use assms(4) in simp_all)
qed

lemma consumer_move:
  assumes "pc_inv k s" "t < length (pc_threads s)" "pc_threads s ! t = pc" "consumer_step t u pc s = Some r"
  shows "good_move k s r"
proof -
  note D = pc_invD [OF assms(1)]
  note held = D(2) [OF assms(2)]
  note lock = lock_move [OF assms(1,2)] and signal = signal_move [OF assms(1,2)]
  show ?thesis
  proof (cases pc)
    case C_lock
    then show ?thesis using assms(3,4) lock [of C_in "Some t"] by (auto simp: take_lock_def unreported_def split: if_splits)
  next
    case C_woken
    then show ?thesis using assms(3,4) lock [of C_in "Some t"] by (auto simp: take_lock_def unreported_def split: if_splits)
  next
    case C_in
    show ?thesis
    proof (cases "the_queue s")
      case Nil
      then show ?thesis using C_in held assms(3,4) lock [of C_wait None] by (auto simp: release_lock_def unreported_def)
    next
      case (Cons x rest)
      then have r: "r = Inr (pc_goto t C_unlock (s\<lparr>the_queue := rest, consumed := consumed s + 1\<rparr>))"
        using C_in assms(4) D(5) by simp
      have "consumed s < all_items k"
        using D(1,3) Cons by (simp add: queue_inv_def)
      then have "good_move k s (Inr (pc_goto t C_unlock (s\<lparr>the_queue := rest, consumed := consumed s + 1\<rparr>)))"
        using Cons C_in held assms(3) D(3-5) by (intro quiet_move [OF assms(1,2)]) (auto simp: unreported_def)
      then show ?thesis by (simp add: r)
    qed
  next
    case C_unlock
    then show ?thesis using held assms(3,4) lock [of C_signal None] by (auto simp: release_lock_def unreported_def)
  next
    case C_signal
    then show ?thesis using assms(3,4) signal [of Producer_Condvar u C_progress r] by (simp add: unreported_def)
  next
    case C_progress
    have "good_move k s (Inr (pc_goto t C_lock (s\<lparr>pc_progress := pc_progress s + 1\<rparr>)))"
      using C_progress held assms(3) D(3-5) by (intro quiet_move [OF assms(1,2)]) (auto simp: unreported_def)
    then show ?thesis using C_progress assms(4) by simp
  qed (use assms(4) in simp_all)
qed

lemma main_move:
  assumes "pc_inv k s" "t < length (pc_threads s)" "pc_threads s ! t = pc" "main_step k t pc s = Some r"
  shows "good_move k s r"
proof -
  note D = pc_invD [OF assms(1)]
  note held = D(2) [OF assms(2)]
  note lock = lock_move [OF assms(1,2)]
  show ?thesis
  proof (cases pc)
    case M_lock
    then show ?thesis using assms(3,4) lock [of M_in "Some t"] by (auto simp: take_lock_def unreported_def split: if_splits)
  next
    case M_woken
    then show ?thesis using assms(3,4) lock [of M_in "Some t"] by (auto simp: take_lock_def unreported_def split: if_splits)
  next
    case M_in
    show ?thesis
    proof (cases "consumed s < items k")
      case True
      then show ?thesis using M_in held assms(3,4) lock [of M_wait None] by (auto simp: release_lock_def unreported_def)
    next
      case False
      then have "good_move k s (Inr (pc_goto t M_unlock s))"
        using M_in held assms(3) D(3-5) by (intro quiet_move [OF assms(1,2)]) (auto simp: unreported_def)
      then show ?thesis using M_in False assms(4) by simp
    qed
  next
    case M_unlock
    then have "items k \<le> consumed s" using D(1) assms(2,3) nth_mem [OF assms(2)] by (auto simp: queue_inv_def)
    then show ?thesis using M_unlock held assms(3,4) lock [of M_done None] by (auto simp: release_lock_def unreported_def)
  qed (use assms(4) in simp_all)
qed

lemma pc_move_good: "pc_inv k s \<Longrightarrow> pc_move k t u s = Some r \<Longrightarrow> good_move k s r"
  using producer_move [of k s t _ u r] consumer_move [of k s t _ u r] main_move [of k s t _ r]
  by (auto simp: pc_move_def split: if_splits role.splits)


section \<open>Runs\<close>

lemma pc_inv_start: "pc_inv k (pc_start k)"
proof -
  let ?i = "items k div producer_count k"
  have quiet: "waits_for (next_item n) = None" "\<not> holds_lock (next_item n)" for n
    by (cases n; simp add: next_item_def)+
  have other: "M_unlock \<noteq> next_item n" "M_done \<noteq> next_item n" for n using next_item_places(6) [of n] by auto
  have "\<forall>pc\<in>set (pc_threads (pc_start k)). waits_for pc = None \<and> \<not> holds_lock pc \<and> pc \<notin> {M_unlock, M_done}"
    using quiet other other [symmetric] by (auto simp: pc_start_def)
  moreover have "sum_of to_push (pc_start k) = all_items k" "sum_of unreported (pc_start k) = 0"
    using next_item_places(1,5) [of ?i]
    by (simp_all add: pc_start_def all_items_def sum_list_replicate unreported_def)
  moreover have "roles_inv k (pc_start k)"
    using next_item_places(2) [of ?i] by (simp add: roles_inv_def pc_start_def)
  moreover have "\<not> waiting c (pc_start k)" for c using calculation(1) by (auto simp: waiting_def)
  moreover have "queue_lock (pc_start k) = None" "produced (pc_start k) = 0" "consumed (pc_start k) = 0"
    "the_queue (pc_start k) = []" "pc_progress (pc_start k) = 0"
    by (simp_all add: pc_start_def)
  ultimately show ?thesis
    by (auto simp: pc_inv_def basic_inv_def lock_inv_def queue_inv_def producers_served_def consumers_served_def)
qed

lemma pc_rank_start: "pc_rank k (pc_start k) \<le> 40 * items k + 6 * producer_count k + 2 * consumer_count k + 3"
proof -
  let ?i = "items k div producer_count k"
  have "all_items k \<le> items k" by (simp add: all_items_def)
  moreover have "sum_of to_push (pc_start k) = all_items k"
    using next_item_places(1) [of ?i] by (simp add: pc_start_def all_items_def sum_list_replicate)
  moreover have "sum_of place_rank (pc_start k) \<le> 6 * producer_count k + 2 * consumer_count k + 3"
    using next_item_places(9) [of ?i] by (simp add: pc_start_def sum_list_replicate mult.commute)
  ultimately show ?thesis by (simp add: pc_rank_def pc_start_def)
qed

lemma pc_run_inv: "pc_inv k s \<Longrightarrow> pc_run k ms s = Some s' \<Longrightarrow> pc_inv k s' \<and> pc_rank k s' + length ms \<le> pc_rank k s"
proof (induction ms arbitrary: s)
  case (Cons m ms)
  then obtain s1 where s1: "pc_move k (fst m) (snd m) s = Some (Inr s1)" "pc_run k ms s1 = Some s'"
    by (auto split: option.splits sum.splits)
  have "pc_inv k s1" "pc_rank k s1 < pc_rank k s" using pc_move_good [OF Cons.prems(1) s1(1)] by (auto simp: good_move_def)
  with Cons.IH [OF this(1) s1(2)] show ?case by simp
qed simp

lemma signal_possible: "\<exists>u r. signal_then c u t pc s = Some r"
proof (cases "waiting c s")
  case True
  then obtain u where "u < length (pc_threads s)" "waits_for (pc_threads s ! u) = Some c"
    by (auto simp: waiting_def in_set_conv_nth)
  then have "signal_then c u t pc s \<noteq> None" by (simp add: signal_then_def cond_signal_def)
  then show ?thesis by blast
next
  case False
  then have "signal_then c 0 t pc s \<noteq> None" by (auto simp: signal_then_def cond_signal_def waiting_def list_ex_iff)
  then show ?thesis by blast
qed

lemma can_move:
  assumes "t < length (pc_threads s)" "M_done \<notin> set (pc_threads s)" "waits_for (pc_threads s ! t) = None"
    and "pc_threads s ! t \<noteq> P_done" "holds_lock (pc_threads s ! t) \<or> queue_lock s = None"
  shows "\<exists>u r. pc_move k t u s = Some r"
proof -
  have "pc_threads s ! t \<noteq> M_done" using assms(1,2) nth_mem by metis
  then show ?thesis
    using assms by (cases "pc_threads s ! t")
      (auto simp: pc_move_def take_lock_def release_lock_def signal_possible split: list.split)
qed

text \<open>When nobody can move and \<^verbatim>\<open>main\<close> has not returned, every item has been consumed.\<close>

lemma stuck_all_consumed:
  assumes "pc_inv k s" "\<forall>t u. pc_move k t u s = None" "M_done \<notin> set (pc_threads s)"
    and "0 < queue_size k" "0 < consumer_count k"
  shows "consumed s = all_items k"
proof -
  note D = pc_invD [OF assms(1)]
  have "queue_lock s = None"
  proof (rule ccontr)
    assume "queue_lock s \<noteq> None"
    then obtain t where t: "queue_lock s = Some t" "t < length (pc_threads s)"
      using assms(1) by (auto simp: pc_inv_def basic_inv_def lock_inv_def)
    then have "holds_lock (pc_threads s ! t)" using D(2) by simp
    moreover from this have "waits_for (pc_threads s ! t) = None \<and> pc_threads s ! t \<noteq> P_done"
      by (cases "pc_threads s ! t") simp_all
    ultimately show False using can_move [OF t(2) assms(3), of k] assms(2) by auto
  qed
  then have "waits_for (pc_threads s ! t) \<noteq> None \<or> pc_threads s ! t = P_done" if "t < length (pc_threads s)" for t
    using can_move [OF that assms(3), of k] assms(2) by fastforce
  then have places: "\<forall>pc\<in>set (pc_threads s). waits_for pc \<noteq> None \<or> pc = P_done"
    by (metis in_set_conv_nth)
  have "serves_producers pc = 0 \<and> serves_consumers pc = 0" if "waits_for pc \<noteq> None \<or> pc = P_done" for pc
    using that by (cases pc) auto
  with places have none: "sum_of serves_producers s = 0" "sum_of serves_consumers s = 0" by auto
  have "Consumer \<in> set (map role_of (pc_threads s))"
    using assms(1,5) by (simp add: pc_inv_def basic_inv_def roles_inv_def)
  then obtain pc where pc: "pc \<in> set (pc_threads s)" "role_of pc = Consumer" by auto
  have "waits_for pc \<noteq> None \<or> pc = P_done" using pc(1) places by blast
  then have "waits_for pc = Some Consumer_Condvar" using pc(2) by (cases pc) simp_all
  then have "waiting Consumer_Condvar s" using pc(1) by (auto simp: waiting_def)
  then have empty: "the_queue s = []" using assms(1) none by (simp add: pc_inv_def consumers_served_def)
  then have "\<not> waiting Producer_Condvar s" using assms(1,4) none by (auto simp: pc_inv_def producers_served_def)
  then have "to_push pc = 0" if "pc \<in> set (pc_threads s)" for pc
  proof -
    have "waits_for pc \<noteq> None \<or> pc = P_done" "waits_for pc \<noteq> Some Producer_Condvar"
      using that places \<open>\<not> waiting Producer_Condvar s\<close> by (auto simp: waiting_def)
    then show ?thesis by (cases pc) simp_all
  qed
  then have "sum_of to_push s = 0" by simp
  moreover have "produced s + sum_of to_push s = all_items k" using D(1) by (simp add: queue_inv_def)
  ultimately show ?thesis using D(3) empty by (simp only: list.size add_0_right)
qed

text \<open>
  C36. Every run of the producer-consumer program has at most \<open>40 * items + 6 * producers + 2 * consumers + 3\<close>
  moves; during it the queue never holds more than its size and the assertion on its items never fails; and
  when no thread can move any more, every item has been pushed, consumed and reported, or \<^verbatim>\<open>main\<close> has ended the
  process after the last one was consumed. No wake-up between producers and consumers is lost.
\<close>

theorem every_item_is_consumed:
  assumes "pc_run k ms (pc_start k) = Some s" "0 < queue_size k" "0 < consumer_count k" "producer_count k dvd items k"
  shows "length ms \<le> 40 * items k + 6 * producer_count k + 2 * consumer_count k + 3 \<and>
    length (the_queue s) \<le> queue_size k \<and> produced s = consumed s + length (the_queue s) \<and> produced s \<le> items k \<and>
    (\<forall>t u e. pc_move k t u s \<noteq> Some (Inl e)) \<and>
    ((\<forall>t u. pc_move k t u s = None) \<longrightarrow> consumed s = items k)"
proof -
  have inv: "pc_inv k s" and rank: "pc_rank k s + length ms \<le> pc_rank k (pc_start k)"
    using pc_run_inv [OF pc_inv_start assms(1)] by simp_all
  note D = pc_invD [OF inv]
  have all: "all_items k = items k" using assms(4) by (simp add: all_items_def)
  have le: "produced s \<le> items k" using D(1) all by (simp add: queue_inv_def)
  have "consumed s = items k" if "\<forall>t u. pc_move k t u s = None"
  proof (cases "M_done \<in> set (pc_threads s)")
    case True
    then have "items k \<le> consumed s" using D(1) by (simp add: queue_inv_def)
    with le D(3) show ?thesis by simp
  next
    case False
    then show ?thesis using stuck_all_consumed [OF inv that _ assms(2,3)] all by simp
  qed
  moreover have "pc_move k t u s \<noteq> Some (Inl e)" for t u e
    using pc_move_good [OF inv, of t u "Inl e"] by (auto simp: good_move_def)
  ultimately show ?thesis using rank pc_rank_start [of k] D(3,4) le by auto
qed


section \<open>The signal to main\<close>

text \<open>States between two items: all that was pushed has been consumed and reported.\<close>

definition quiet :: "nat \<Rightarrow> thread_pc list \<Rightarrow> pc_state" where
  "quiet c pcs =
     \<lparr>produced = c, consumed = c, the_queue = [], queue_lock = None, pc_progress = c, pc_threads = pcs\<rparr>"

definition leads :: "pc_params \<Rightarrow> pc_state \<Rightarrow> pc_state \<Rightarrow> bool" where
  "leads k s s' \<longleftrightarrow> (\<exists>ms. pc_run k ms s = Some s')"

lemma leadsI: "pc_run k ms s = Some s' \<Longrightarrow> leads k s s'"
  unfolding leads_def by (rule exI)

lemma pc_run_append: "pc_run k (ms @ ns) s = (case pc_run k ms s of None \<Rightarrow> None | Some s' \<Rightarrow> pc_run k ns s')"
  by (induction ms arbitrary: s) (auto split: option.splits sum.splits)

lemma leads_trans [trans]: "leads k s s' \<Longrightarrow> leads k s' s'' \<Longrightarrow> leads k s s''"
  unfolding leads_def by (auto simp: pc_run_append intro: exI [of _ "_ @ _"]) (metis pc_run_append option.simps(5))

definition calm :: "thread_pc \<Rightarrow> bool" where
  "calm pc \<longleftrightarrow> waits_for pc \<noteq> Some Producer_Condvar \<and> waits_for pc \<noteq> Some Consumer_Condvar \<and> pc \<noteq> M_done"

text \<open>Producer \<open>i\<close> pushes an item and consumer \<open>j\<close> takes it.\<close>

lemma leads_item:
  assumes "pcs ! i = P_lock n" "pcs ! j = C_lock" "i < length pcs" "j < length pcs" "\<forall>pc\<in>set pcs. calm pc" "0 < queue_size k"
  shows "leads k (quiet c pcs) (quiet (Suc c) (pcs[i := next_item n]))"
proof -
  have ij: "i \<noteq> j" using assms(1,2) by auto
  have calm_upd: "\<forall>pc\<in>set (pcs[i := a]). calm pc" "\<forall>pc\<in>set (pcs[i := a, j := b]). calm pc" if "calm a" "calm b" for a b
    using assms(5) that by (auto dest!: set_update_subset_insert [THEN subsetD])
  have silent: "\<not> list_ex (\<lambda>pc. waits_for pc = Some c) qs" if "\<forall>pc\<in>set qs. calm pc" "c \<noteq> Main_Condvar" for qs c
    using that by (cases c) (auto simp: list_ex_iff calm_def)
  have alive: "M_done \<notin> set qs" if "\<forall>pc\<in>set qs. calm pc" for qs using that by (auto simp: calm_def)
  have places: "calm (P_in n)" "calm (P_unlock n)" "calm (P_signal n)" "calm (next_item n)" "calm C_lock" "calm C_in"
    "calm C_unlock" "calm C_signal" "calm C_progress"
    by (simp_all add: calm_def next_item_def split: nat.split)
  have again: "pcs[i := next_item n, j := C_lock] = pcs[i := next_item n]"
    using assms(2,4) ij list_update_id [of "pcs[i := next_item n]" j] by simp
  have "pc_run k (replicate 4 (i, 0) @ replicate 5 (j, 0)) (quiet c pcs) = Some (quiet (Suc c) (pcs[i := next_item n]))"
    using assms(1-4,6) ij alive [OF assms(5)] alive [OF calm_upd(1)] alive [OF calm_upd(2)] places
      silent [OF calm_upd(1)] silent [OF calm_upd(2)] again
    by (simp add: numeral_eq_Suc pc_move_def take_lock_def release_lock_def signal_then_def cond_signal_def pc_goto_def quiet_def
        next_item_places)
  then show ?thesis by (rule leadsI)
qed


lemma leads_items:
  assumes "pcs ! i = P_lock n" "pcs ! j = C_lock" "i < length pcs" "j < length pcs" "\<forall>pc\<in>set pcs. calm pc" "0 < queue_size k"
    and "d \<le> n"
  shows "leads k (quiet c pcs) (quiet (c + d) (pcs[i := P_lock (n - d)]))"
  using assms(7)
proof (induction d)
  case 0
  have "pcs[i := P_lock n] = pcs" using assms(1) list_update_id [of pcs i] by simp
  then show ?case by (auto simp: leads_def intro: exI [of _ "[]"])
next
  case (Suc d)
  let ?pcs = "pcs[i := P_lock (n - d)]"
  have "i \<noteq> j" using assms(1,2) by auto
  moreover have "\<forall>pc\<in>set ?pcs. calm pc"
    using assms(5) by (auto simp: calm_def dest!: set_update_subset_insert [THEN subsetD])
  ultimately have "leads k (quiet (c + d) ?pcs) (quiet (Suc (c + d)) (?pcs[i := next_item (n - d)]))"
    using assms(2-4,6) leads_item [of ?pcs i "n - d" j k "c + d"] by simp
  moreover have "next_item (n - d) = P_lock (n - Suc d)"
    using Suc.prems by (cases "n - d") (auto simp: next_item_def)
  ultimately show ?case using Suc leads_trans [OF Suc.IH] by simp
qed

text \<open>A producer that has pushed all its items wakes \<^verbatim>\<open>main\<close>, which tests the count and waits again.\<close>

lemma leads_finish:
  assumes "pcs ! i = P_lock n" "pcs ! j = C_lock" "i < length pcs" "j < length pcs" "\<forall>pc\<in>set pcs. calm pc" "0 < queue_size k"
    and "pcs ! 0 = M_wait" "c + Suc n < items k"
  shows "leads k (quiet c pcs) (quiet (c + Suc n) (pcs[i := P_done]))"
proof -
  let ?c = "c + Suc n" and ?last = "pcs[i := P_lock 0]" and ?fin = "pcs[i := P_final_lock]"
  have "pcs ! i \<noteq> pcs ! j" "pcs ! i \<noteq> pcs ! 0" using assms(1,2,7) by simp_all
  then have i: "i \<noteq> j" "i \<noteq> 0" by metis+
  have calm_upd: "\<forall>pc\<in>set (pcs[i := a]). calm pc" if "calm a" for a
    using assms(5) that by (auto dest!: set_update_subset_insert [THEN subsetD])
  have "leads k (quiet c pcs) (quiet (c + n) ?last)"
    using leads_items [OF assms(1-6) order_refl] by simp
  moreover have "leads k (quiet (c + n) ?last) (quiet ?c (?last[i := next_item 0]))"
    using assms(2-4,6) i calm_upd [of "P_lock 0"] leads_item [of ?last i 0 j k "c + n"] by (simp add: calm_def)
  moreover have "leads k (quiet ?c ?fin) (quiet ?c (pcs[i := P_done]))"
  proof -
    have alive: "M_done \<notin> set (pcs[i := a])" if "calm a" for a using calm_upd [OF that] by (auto simp: calm_def)
    have alive2: "M_done \<notin> set (pcs[i := a, 0 := b])" if "calm a" "calm b" for a b
      using alive [OF that(1)] that(2) by (auto simp: calm_def dest!: set_update_subset_insert [THEN subsetD])
    have wait: "list_ex (\<lambda>pc. waits_for pc = Some Main_Condvar) (pcs[i := a])" for a
      using assms(3,7) i by (auto simp: list_ex_length nth_list_update intro!: exI [of _ 0])
    have again: "pcs[i := P_done, 0 := M_wait] = pcs[i := P_done]"
      using assms(7) i list_update_id [of "pcs[i := P_done]" 0] by simp
    have swap: "pcs[i := a, 0 := b, i := a'] = pcs[i := a', 0 := b]" for a b a'
      using i by (simp add: list_update_swap)
    have "0 < length pcs" using assms(3) by (rule le_less_trans [OF le0])
    have "pc_run k (replicate 3 (i, 0) @ replicate 2 (0, 0)) (quiet ?c ?fin) = Some (quiet ?c (pcs[i := P_done]))"
      using assms(3,7,8) i wait again alive alive2 \<open>0 < length pcs\<close>
      by (simp add: numeral_eq_Suc pc_move_def take_lock_def release_lock_def signal_then_def cond_signal_def pc_goto_def quiet_def
          calm_def swap)
    then show ?thesis by (rule leadsI)
  qed
  ultimately show ?thesis by (auto simp: next_item_def intro: leads_trans)
qed


text \<open>The last item: its producer finishes before the item is consumed.\<close>

definition lost_signal_state :: pc_state where
  "lost_signal_state = quiet 1000000 [M_wait, P_done, P_done, P_done, P_done, P_done, C_wait, C_wait, C_wait]"

lemma leads_last:
  "leads code_params (quiet 999999 [M_wait, P_done, P_done, P_done, P_done, P_lock 0, C_lock, C_lock, C_lock]) lost_signal_state"
proof -
  have "pc_run code_params
      [(5, 0), (5, 0), (5, 0), (5, 0), (5, 0), (5, 0), (5, 0), (0, 0), (0, 0), (6, 0), (6, 0), (6, 0), (6, 0), (6, 0),
       (6, 0), (6, 0), (7, 0), (7, 0), (8, 0), (8, 0)]
      (quiet 999999 [M_wait, P_done, P_done, P_done, P_done, P_lock 0, C_lock, C_lock, C_lock]) = Some lost_signal_state"
    by (simp add: pc_move_def take_lock_def release_lock_def signal_then_def cond_signal_def pc_goto_def quiet_def
        next_item_def code_params_def lost_signal_state_def)
  then show ?thesis by (rule leadsI)
qed

lemma reaches_lost_signal: "leads code_params (pc_start code_params) lost_signal_state"
proof -
  let ?p = "P_lock 199999"
  have start: "pc_start code_params = \<lparr>produced = 0, consumed = 0, the_queue = [], queue_lock = None, pc_progress = 0,
      pc_threads = [M_lock, ?p, ?p, ?p, ?p, ?p, C_lock, C_lock, C_lock]\<rparr>"
  proof -
    have rep: "replicate 5 a = [a, a, a, a, a]" "replicate 3 a = [a, a, a]" for a :: thread_pc
      by (simp_all add: numeral_eq_Suc)
    have "next_item 200000 = ?p" by (simp add: next_item_def)
    then show ?thesis by (simp add: pc_start_def code_params_def rep)
  qed
  have "pc_run code_params [(0, 0), (0, 0)] (pc_start code_params) = Some (quiet 0 [M_wait, ?p, ?p, ?p, ?p, ?p, C_lock, C_lock, C_lock])"
    unfolding start by (simp add: pc_move_def take_lock_def release_lock_def pc_goto_def quiet_def code_params_def)
  then have "leads code_params (pc_start code_params) (quiet 0 [M_wait, ?p, ?p, ?p, ?p, ?p, C_lock, C_lock, C_lock])"
    by (rule leadsI)
  also have "leads code_params \<dots> (quiet 200000 [M_wait, P_done, ?p, ?p, ?p, ?p, C_lock, C_lock, C_lock])"
    using leads_finish [of "[M_wait, ?p, ?p, ?p, ?p, ?p, C_lock, C_lock, C_lock]" 1 199999 6 code_params 0]
    by (simp add: calm_def code_params_def)
  also have "leads code_params \<dots> (quiet 400000 [M_wait, P_done, P_done, ?p, ?p, ?p, C_lock, C_lock, C_lock])"
    using leads_finish [of "[M_wait, P_done, ?p, ?p, ?p, ?p, C_lock, C_lock, C_lock]" 2 199999 6 code_params 200000]
    by (simp add: calm_def code_params_def)
  also have "leads code_params \<dots> (quiet 600000 [M_wait, P_done, P_done, P_done, ?p, ?p, C_lock, C_lock, C_lock])"
    using leads_finish [of "[M_wait, P_done, P_done, ?p, ?p, ?p, C_lock, C_lock, C_lock]" 3 199999 6 code_params 400000]
    by (simp add: calm_def code_params_def)
  also have "leads code_params \<dots> (quiet 800000 [M_wait, P_done, P_done, P_done, P_done, ?p, C_lock, C_lock, C_lock])"
    using leads_finish [of "[M_wait, P_done, P_done, P_done, ?p, ?p, C_lock, C_lock, C_lock]" 4 199999 6 code_params 600000]
    by (simp add: calm_def code_params_def)
  also have "leads code_params \<dots> (quiet 999999 [M_wait, P_done, P_done, P_done, P_done, P_lock 0, C_lock, C_lock, C_lock])"
    using leads_items [of "[M_wait, P_done, P_done, P_done, P_done, ?p, C_lock, C_lock, C_lock]" 5 199999 6 code_params 199999 800000]
    by (simp add: calm_def code_params_def)
  also note leads_last
  finally show ?thesis .
qed

text \<open>
  C37. With the constants of the program there is a run in which every item is produced, consumed and reported, every
  thread waits or has returned, and \<^verbatim>\<open>main\<close> waits on \<^verbatim>\<open>main_condvar\<close>: the producers signalled it while items were
  still in the queue, and nobody signals it again.
\<close>

theorem main_waits_for_ever:
  "\<exists>ms s. pc_run code_params ms (pc_start code_params) = Some s \<and> consumed s = items code_params \<and>
     pc_threads s ! 0 = M_wait \<and> (\<forall>t u. pc_move code_params t u s = None)"
proof -
  obtain ms where run: "pc_run code_params ms (pc_start code_params) = Some lost_signal_state"
    using reaches_lost_signal by (auto simp: leads_def)
  have "pc_threads lost_signal_state = [M_wait, P_done, P_done, P_done, P_done, P_done, C_wait, C_wait, C_wait]"
    by (simp add: lost_signal_state_def quiet_def)
  then have "pc_move code_params t u lost_signal_state = None" for t u
    by (auto simp: pc_move_def less_Suc_eq nth_Cons split: nat.splits)
  moreover have "consumed lost_signal_state = items code_params" "pc_threads lost_signal_state ! 0 = M_wait"
    by (simp_all add: lost_signal_state_def quiet_def code_params_def)
  ultimately show ?thesis using run by blast
qed


theorem every_item_is_consumed_witness:
  "\<exists>ms. pc_run code_params ms (pc_start code_params) = Some lost_signal_state \<and> length ms \<le> 40000039"
proof -
  obtain ms where run: "pc_run code_params ms (pc_start code_params) = Some lost_signal_state"
    using reaches_lost_signal by (auto simp: leads_def)
  have "0 < queue_size code_params" "0 < consumer_count code_params" "producer_count code_params dvd items code_params"
    by (simp_all add: code_params_def)
  from every_item_is_consumed [OF run this] have "length ms \<le> 40000039" by (simp add: code_params_def)
  with run show ?thesis by blast
qed

end
