(* ===== verification/Delay_Api.thy ===== *)
theory Delay_Api
  imports Crd_Sync
begin

text \<open>
  The update service of the global delay, \<^verbatim>\<open>examples/update_api.cpp\<close>: an HTTP server that adds to the value
  of the Kubernetes resource by optimistic writes, with a cache of the object it wrote or read last. Several
  processes may serve the same resource, and each handles requests in several threads. A step is a call of the
  Kubernetes API or an operation on the process's mutex; what the API answers is an argument. JSON texts are
  their parsed values: the fields used, the rest of the object as it is.
\<close>

section \<open>Objects and answers\<close>

text \<open>
  Integers of 64 bits, booleans and texts; \<open>J_Other\<close> is null, an array or an object. Fractions are left out: the
  resource's schema has integers only.
\<close>

datatype json_scalar = J_Int int | J_Bool bool | J_Text string | J_Other

record cr_object =
  obj_value :: "json_scalar option"
  obj_version :: "json_scalar option"
  obj_rv :: "json_scalar option"
  obj_rest :: string

text \<open>
  The body is \<open>None\<close> when it is not JSON; a JSON text without the objects \<^verbatim>\<open>spec\<close> and \<^verbatim>\<open>metadata\<close> is left out.
\<close>

record http_resp =
  code :: int
  resp_object :: "cr_object option"

datatype api_exn = Json_Exception | Stoll_Exception | Value_Overflow

text \<open>
  \<open>Value_Overflow\<close> stands for a signed overflow of 64 bits, which C++ leaves undefined.
  \<^verbatim>\<open>j.value(key, default)\<close> converts to the type of the default: an \<^verbatim>\<open>int\<close> when the default is the literal 0,
  64 bits when it is an \<^verbatim>\<open>int64_t\<close>. A value of another type throws.
\<close>

definition json_number :: "json_scalar \<Rightarrow> int option" where
  "json_number j = (case j of J_Int z \<Rightarrow> Some z | J_Bool b \<Rightarrow> Some (of_bool b) | _ \<Rightarrow> None)"

definition json_int :: "json_scalar option \<Rightarrow> int \<Rightarrow> api_exn + int" where
  "json_int f d =
     (case f of
        None \<Rightarrow> Inr d
      | Some j \<Rightarrow> (case json_number j of Some z \<Rightarrow> Inr (to_int z) | None \<Rightarrow> Inl Json_Exception))"

definition json_int64 :: "json_scalar option \<Rightarrow> int \<Rightarrow> api_exn + int" where
  "json_int64 f d =
     (case f of
        None \<Rightarrow> Inr d
      | Some j \<Rightarrow> (case json_number j of Some z \<Rightarrow> Inr (sint (word_of_int z :: i64)) | None \<Rightarrow> Inl Json_Exception))"

definition json_text :: "json_scalar option \<Rightarrow> string \<Rightarrow> api_exn + string" where
  "json_text f d = (case f of None \<Rightarrow> Inr d | Some (J_Text t) \<Rightarrow> Inr t | _ \<Rightarrow> Inl Json_Exception)"

section \<open>Reading and writing\<close>

record global_delay =
  gd_value :: int
  gd_version :: int
  gd_rv :: string
  gd_full :: cr_object

definition fetch_globaldelay :: "http_resp \<Rightarrow> api_exn + global_delay option" where
  "fetch_globaldelay r =
     (if code r \<noteq> 200 then Inr None
      else case resp_object r of
             None \<Rightarrow> Inl Json_Exception
           | Some j \<Rightarrow>
               ebind (json_int (obj_value j) 0) (\<lambda>v.
               ebind (json_int (obj_version j) 0) (\<lambda>ver.
               ebind (json_text (obj_rv j) []) (\<lambda>rv.
                 Inr (Some \<lparr>gd_value = v, gd_version = ver, gd_rv = rv, gd_full = j\<rparr>)))))"

text \<open>The object \<^verbatim>\<open>put_globaldelay\<close> sends.\<close>

definition put_object :: "global_delay \<Rightarrow> cr_object" where
  "put_object gd =
     (gd_full gd)\<lparr>obj_value := Some (J_Int (gd_value gd)), obj_version := Some (J_Int (gd_version gd)),
        obj_rv := Some (J_Text (gd_rv gd))\<rparr>"

section \<open>The cache\<close>

record delay_cache =
  ready :: bool
  cache_full :: cr_object
  cache_value :: int
  cache_version :: int
  cache_rv :: string

definition empty_cache :: delay_cache where
  "empty_cache = \<lparr>ready = False, cache_full = \<lparr>obj_value = None, obj_version = None, obj_rv = None, obj_rest = []\<rparr>,
     cache_value = 0, cache_version = 0, cache_rv = []\<rparr>"

definition refresh_cache :: "http_resp \<Rightarrow> delay_cache \<Rightarrow> api_exn + bool \<times> delay_cache" where
  "refresh_cache r c =
     ebind (fetch_globaldelay r) (\<lambda>cur.
       Inr (case cur of
              None \<Rightarrow> (False, c)
            | Some g \<Rightarrow> (True, \<lparr>ready = True, cache_full = gd_full g, cache_value = gd_value g,
                cache_version = gd_version g, cache_rv = gd_rv g\<rparr>)))"

definition make_next :: "int \<Rightarrow> delay_cache \<Rightarrow> api_exn + global_delay" where
  "make_next delta c =
     (if fits_signed 64 (cache_value c + delta) \<and> fits_signed 64 (cache_version c + 1)
      then Inr \<lparr>gd_value = cache_value c + delta, gd_version = cache_version c + 1, gd_rv = cache_rv c, gd_full = cache_full c\<rparr>
      else Inl Value_Overflow)"

text \<open>
  After an accepted write the cache takes over the object in the answer. An exception on the way leaves the
  assignments made so far and then sets the value and the version to those written.
\<close>

definition cache_next :: "global_delay \<Rightarrow> delay_cache \<Rightarrow> delay_cache" where
  "cache_next g c = c\<lparr>cache_value := gd_value g, cache_version := gd_version g\<rparr>"

definition after_put :: "http_resp \<Rightarrow> global_delay \<Rightarrow> delay_cache \<Rightarrow> delay_cache" where
  "after_put r g c =
     (case resp_object r of
        None \<Rightarrow> cache_next g c
      | Some u \<Rightarrow>
          (let c1 = c\<lparr>cache_full := u\<rparr>
           in case json_int64 (obj_value u) (gd_value g) of
                Inl e \<Rightarrow> cache_next g c1
              | Inr v \<Rightarrow>
                  (let c2 = c1\<lparr>cache_value := v\<rparr>
                   in case json_int64 (obj_version u) (gd_version g) of
                        Inl e \<Rightarrow> cache_next g c2
                      | Inr ver \<Rightarrow>
                          (let c3 = c2\<lparr>cache_version := ver\<rparr>
                           in case obj_rv u of
                                Some (J_Text t) \<Rightarrow> c3\<lparr>cache_rv := t\<rparr>
                              | Some j \<Rightarrow>
                                  (case json_number j of Some z \<Rightarrow> c3\<lparr>cache_rv := print_int z\<rparr> | None \<Rightarrow> cache_next g c3)
                              | None \<Rightarrow> cache_next g c3))))"

section \<open>Requests\<close>

definition stoll :: "string \<Rightarrow> api_exn + int" where
  "stoll s = (case strtoll (c_str s) of (v, r, err) \<Rightarrow> if err \<or> r = c_str s then Inl Stoll_Exception else Inr (sint v))"

text \<open>The parameters of \<^verbatim>\<open>/update\<close>; \<open>Inr None\<close> is the answer 400.\<close>

definition request_delta :: "(string \<rightharpoonup> string) \<Rightarrow> api_exn + int option" where
  "request_delta params =
     (case params ''add'' of
        Some a \<Rightarrow> ebind (stoll a) (\<lambda>d. Inr (Some d))
      | None \<Rightarrow>
          (case params ''minus'' of
             Some m \<Rightarrow> ebind (stoll m) (\<lambda>d. if fits_signed 64 (- d) then Inr (Some (- d)) else Inl Value_Overflow)
           | None \<Rightarrow> Inr None))"

datatype update_answer =
    Updated int int     \<comment> \<open>200: value and version\<close>
  | Bad_Request         \<comment> \<open>400\<close>
  | Conflict            \<comment> \<open>409\<close>
  | Failed int          \<comment> \<open>502: the code of the API or of the failed refresh\<close>
  | Exception api_exn   \<comment> \<open>500\<close>

text \<open>
  Where a handler is: waiting for the mutex, before a call of the API with the mutex held, after
  \<^verbatim>\<open>update_with_cache\<close> has returned 200, or done. The delta is kept in every place.
\<close>

datatype upd_pc =
    Waiting int
  | Seeding int
  | Putting int global_delay
  | Resyncing int
  | Putting_Again int global_delay
  | Snapshot int
  | Answered int update_answer

record 's api_state =
  caches :: "delay_cache list"
  mutexes :: "nat option list"
  handlers :: "(nat \<times> upd_pc) list"
  store :: 's

text \<open>The Kubernetes API: the answer of a GET, and the answer and the effect of a PUT; the first argument is a choice.\<close>

record 's kube_api =
  api_get :: "nat \<Rightarrow> 's \<Rightarrow> http_resp"
  api_put :: "nat \<Rightarrow> 's \<Rightarrow> cr_object \<Rightarrow> http_resp \<times> 's"

definition set_handler :: "nat \<Rightarrow> nat \<Rightarrow> upd_pc \<Rightarrow> 's api_state \<Rightarrow> 's api_state" where
  "set_handler t p pc s = s\<lparr>handlers := (handlers s)[t := (p, pc)]\<rparr>"

definition set_mutex :: "nat \<Rightarrow> nat option \<Rightarrow> 's api_state \<Rightarrow> 's api_state" where
  "set_mutex p m s = s\<lparr>mutexes := (mutexes s)[p := m]\<rparr>"

definition set_cache :: "nat \<Rightarrow> delay_cache \<Rightarrow> 's api_state \<Rightarrow> 's api_state" where
  "set_cache p c s = s\<lparr>caches := (caches s)[p := c]\<rparr>"

text \<open>Leaving \<^verbatim>\<open>update_with_cache\<close>, by return or exception, releases the mutex.\<close>

definition leave :: "nat \<Rightarrow> nat \<Rightarrow> upd_pc \<Rightarrow> 's api_state \<Rightarrow> 's api_state" where
  "leave t p pc s = set_handler t p pc (set_mutex p None s)"

definition first_try :: "nat \<Rightarrow> nat \<Rightarrow> int \<Rightarrow> 's api_state \<Rightarrow> 's api_state" where
  "first_try t p d s =
     (case make_next d (caches s ! p) of
        Inl e \<Rightarrow> leave t p (Answered d (Exception e)) s
      | Inr g \<Rightarrow> set_handler t p (Putting d g) s)"

definition second_try :: "nat \<Rightarrow> nat \<Rightarrow> int \<Rightarrow> 's api_state \<Rightarrow> 's api_state" where
  "second_try t p d s =
     (case make_next d (caches s ! p) of
        Inl e \<Rightarrow> leave t p (Answered d (Exception e)) s
      | Inr g \<Rightarrow> set_handler t p (Putting_Again d g) s)"

definition take_mutex :: "nat \<Rightarrow> nat \<Rightarrow> int \<Rightarrow> 's api_state \<Rightarrow> 's api_state option" where
  "take_mutex t p d s =
     (if mutexes s ! p \<noteq> None then None
      else let s1 = set_mutex p (Some t) s
           in Some (if ready (caches s ! p) then first_try t p d s1 else set_handler t p (Seeding d) s1))"

text \<open>A refresh with the mutex held, after which \<open>go\<close> goes on.\<close>

definition with_refresh ::
  "(nat \<Rightarrow> nat \<Rightarrow> int \<Rightarrow> 's api_state \<Rightarrow> 's api_state) \<Rightarrow> http_resp \<Rightarrow> nat \<Rightarrow> nat \<Rightarrow> int \<Rightarrow> 's api_state \<Rightarrow> 's api_state" where
  "with_refresh go r t p d s =
     (case refresh_cache r (caches s ! p) of
        Inl e \<Rightarrow> leave t p (Answered d (Exception e)) s
      | Inr (ok, c) \<Rightarrow> if ok then go t p d (set_cache p c s) else leave t p (Answered d (Failed 502)) s)"

definition put_result :: "bool \<Rightarrow> http_resp \<Rightarrow> nat \<Rightarrow> nat \<Rightarrow> int \<Rightarrow> global_delay \<Rightarrow> 's api_state \<Rightarrow> 's api_state" where
  "put_result again r t p d g s =
     (if code r = 200 then leave t p (Snapshot d) (set_cache p (after_put r g (caches s ! p)) s)
      else if code r = 409 then
        (if again then leave t p (Answered d Conflict) s else set_handler t p (Resyncing d) s)
      else leave t p (Answered d (Failed (code r))) s)"

fun handler_step :: "'s kube_api \<Rightarrow> nat \<Rightarrow> nat \<Rightarrow> nat \<times> upd_pc \<Rightarrow> 's api_state \<Rightarrow> 's api_state option" where
  "handler_step api e t (p, Waiting d) s = take_mutex t p d s"
| "handler_step api e t (p, Seeding d) s = Some (with_refresh first_try (api_get api e (store s)) t p d s)"
| "handler_step api e t (p, Putting d g) s =
     (case api_put api e (store s) (put_object g) of
        (r, st) \<Rightarrow> Some (put_result False r t p d g (s\<lparr>store := st\<rparr>)))"
| "handler_step api e t (p, Resyncing d) s = Some (with_refresh second_try (api_get api e (store s)) t p d s)"
| "handler_step api e t (p, Putting_Again d g) s =
     (case api_put api e (store s) (put_object g) of
        (r, st) \<Rightarrow> Some (put_result True r t p d g (s\<lparr>store := st\<rparr>)))"
| "handler_step api e t (p, Snapshot d) s =
     (if mutexes s ! p \<noteq> None then None
      else Some (set_handler t p (Answered d (Updated (cache_value (caches s ! p)) (cache_version (caches s ! p)))) s))"
| "handler_step api e t (p, Answered d a) s = None"

text \<open>A request arrives at process \<open>p\<close>.\<close>

definition receive :: "nat \<Rightarrow> (string \<rightharpoonup> string) \<Rightarrow> 's api_state \<Rightarrow> 's api_state" where
  "receive p params s =
     (let pc = (case request_delta params of
                  Inl e \<Rightarrow> Answered 0 (Exception e)
                | Inr None \<Rightarrow> Answered 0 Bad_Request
                | Inr (Some d) \<Rightarrow> Waiting d)
      in s\<lparr>handlers := handlers s @ [(p, pc)]\<rparr>)"

text \<open>Before it serves requests a process fills its cache; a failed read is left to the first request.\<close>

definition start_cache :: "http_resp \<Rightarrow> api_exn + delay_cache" where
  "start_cache r = ebind (refresh_cache r empty_cache) (\<lambda>(ok, c). Inr c)"

inductive api_reachable :: "'s kube_api \<Rightarrow> 's \<Rightarrow> 's api_state \<Rightarrow> bool" for api s0 where
  start: "api_reachable api s0 \<lparr>caches = [], mutexes = [], handlers = [], store = s0\<rparr>"
| process: "api_reachable api s0 s \<Longrightarrow> start_cache (api_get api e (store s)) = Inr c \<Longrightarrow>
    api_reachable api s0 (s\<lparr>caches := caches s @ [c], mutexes := mutexes s @ [None]\<rparr>)"
| request: "api_reachable api s0 s \<Longrightarrow> p < length (caches s) \<Longrightarrow> api_reachable api s0 (receive p params s)"
| handle: "api_reachable api s0 s \<Longrightarrow> t < length (handlers s) \<Longrightarrow> handler_step api e t (handlers s ! t) s = Some s' \<Longrightarrow>
    api_reachable api s0 s'"

end
