(* ===== verification/Delay_Api_Facts.thy ===== *)
theory Delay_Api_Facts
  imports Delay_Api
begin

text \<open>
  Properties of the update service: over an API that stores a write only when it names the current resource
  version, no update answered with success is lost or counted twice, however many processes and threads
  serve the resource; but a value past 32 bits is cut when it is read.
\<close>

section \<open>The API\<close>

text \<open>
  What the Kubernetes documentation promises, for a function that gives the stored revisions, newest first. A GET
  answers with the current object. A PUT stores nothing, or it named the current resource version and its object
  is stored under a new one. The answer 200 is given only to a stored write, with the new object or a text that
  got lost, and 409 only to one that is not stored; after any other answer the write may be stored or not.
\<close>

definition stores :: "cr_object list \<Rightarrow> cr_object \<Rightarrow> cr_object list \<Rightarrow> bool" where
  "stores objs obj objs' \<longleftrightarrow> obj_rv obj = obj_rv (hd objs) \<and>
     (\<exists>t. Some (J_Text t) \<notin> obj_rv ` set objs \<and> objs' = obj\<lparr>obj_rv := Some (J_Text t)\<rparr> # objs)"

definition optimistic_api :: "'s kube_api \<Rightarrow> ('s \<Rightarrow> cr_object list) \<Rightarrow> bool" where
  "optimistic_api api hist \<longleftrightarrow>
     (\<forall>e s. code (api_get api e s) = 200 \<longrightarrow> resp_object (api_get api e s) = Some (hd (hist s))) \<and>
     (\<forall>e s obj r s'. api_put api e s obj = (r, s') \<longrightarrow>
        (hist s' = hist s \<and> code r \<noteq> 200 \<or> stores (hist s) obj (hist s') \<and> code r \<noteq> 409) \<and>
        (code r = 200 \<longrightarrow> resp_object r = None \<or> resp_object r = Some (hd (hist s'))))"

text \<open>An object with numbers of 32 bits and a textual resource version.\<close>

definition int_of :: "json_scalar option \<Rightarrow> int" where
  "int_of f = (case f of Some (J_Int z) \<Rightarrow> z | _ \<Rightarrow> 0)"

definition small_object :: "cr_object \<Rightarrow> bool" where
  "small_object j \<longleftrightarrow> (\<exists>v ver t. obj_value j = Some (J_Int v) \<and> obj_version j = Some (J_Int ver) \<and> obj_rv j = Some (J_Text t) \<and>
     fits_signed 32 v \<and> fits_signed 32 ver)"

lemma small_objectD:
  assumes "small_object j"
  shows "json_int (obj_value j) d = Inr (int_of (obj_value j))" "json_int (obj_version j) d = Inr (int_of (obj_version j))"
    "json_int64 (obj_value j) d = Inr (int_of (obj_value j))" "json_int64 (obj_version j) d = Inr (int_of (obj_version j))"
    "\<exists>t. obj_rv j = Some (J_Text t)"
proof -
  have "sint (word_of_int z :: i64) = z" if "fits_signed 32 z" for z
    using that by (intro sint_word_of_int_fits) (simp add: fits_signed_def)
  moreover have "to_int z = z" if "fits_signed 32 z" for z using that by (intro to_int_id) (auto simp: fits_signed_def)
  ultimately show "json_int (obj_value j) d = Inr (int_of (obj_value j))" "json_int (obj_version j) d = Inr (int_of (obj_version j))"
    "json_int64 (obj_value j) d = Inr (int_of (obj_value j))" "json_int64 (obj_version j) d = Inr (int_of (obj_version j))"
    "\<exists>t. obj_rv j = Some (J_Text t)"
    using assms by (auto simp: small_object_def json_int_def json_int64_def json_number_def int_of_def)
qed

section \<open>The invariant\<close>

text \<open>
  What is known of a copy of a revision: its resource version was given to some revision, and if that is still the
  current one, the copy has its value and version.
\<close>

definition tracks :: "cr_object list \<Rightarrow> string \<Rightarrow> int \<Rightarrow> int \<Rightarrow> bool" where
  "tracks objs rv v ver \<longleftrightarrow> Some (J_Text rv) \<in> obj_rv ` set objs \<and>
     (obj_rv (hd objs) = Some (J_Text rv) \<longrightarrow> v = int_of (obj_value (hd objs)) \<and> ver = int_of (obj_version (hd objs)))"

definition cache_ok :: "cr_object list \<Rightarrow> delay_cache \<Rightarrow> bool" where
  "cache_ok objs c \<longleftrightarrow> (ready c \<longrightarrow> tracks objs (cache_rv c) (cache_value c) (cache_version c))"

fun pc_tracks :: "cr_object list \<Rightarrow> upd_pc \<Rightarrow> bool" where
  "pc_tracks objs (Putting d g) \<longleftrightarrow> tracks objs (gd_rv g) (gd_value g - d) (gd_version g - 1)"
| "pc_tracks objs (Putting_Again d g) \<longleftrightarrow> tracks objs (gd_rv g) (gd_value g - d) (gd_version g - 1)"
| "pc_tracks objs pc \<longleftrightarrow> True"

text \<open>
  The requests whose write is stored: those answered with success, and some of those answered that the write
  failed. The flag tells which.
\<close>

fun applied :: "bool \<Rightarrow> upd_pc \<Rightarrow> bool" where
  "applied b (Snapshot d) \<longleftrightarrow> True"
| "applied b (Answered d (Updated v ver)) \<longleftrightarrow> True"
| "applied b (Answered d (Failed c)) \<longleftrightarrow> b"
| "applied b pc \<longleftrightarrow> False"

fun delta_of :: "upd_pc \<Rightarrow> int" where
  "delta_of (Waiting d) = d"
| "delta_of (Seeding d) = d"
| "delta_of (Putting d g) = d"
| "delta_of (Resyncing d) = d"
| "delta_of (Putting_Again d g) = d"
| "delta_of (Snapshot d) = d"
| "delta_of (Answered d a) = d"

definition applied_sum :: "(upd_pc \<Rightarrow> int) \<Rightarrow> bool list \<Rightarrow> (nat \<times> upd_pc) list \<Rightarrow> int" where
  "applied_sum f bs hs = sum_list (map (\<lambda>(b, p, pc). if applied b pc then f pc else 0) (zip bs hs))"

definition places_ok :: "('s \<Rightarrow> cr_object list) \<Rightarrow> 's api_state \<Rightarrow> bool" where
  "places_ok hist s \<longleftrightarrow> hist (store s) \<noteq> [] \<and> (\<forall>c\<in>set (caches s). cache_ok (hist (store s)) c) \<and>
     (\<forall>(p, pc)\<in>set (handlers s). p < length (caches s) \<and> pc_tracks (hist (store s)) pc)"

definition totals_are :: "cr_object \<Rightarrow> cr_object \<Rightarrow> bool list \<Rightarrow> (nat \<times> upd_pc) list \<Rightarrow> bool" where
  "totals_are j0 j bs hs \<longleftrightarrow> length bs = length hs \<and>
     int_of (obj_value j) = int_of (obj_value j0) + applied_sum delta_of bs hs \<and>
     int_of (obj_version j) = int_of (obj_version j0) + applied_sum (\<lambda>pc. 1) bs hs"

definition totals_ok :: "('s \<Rightarrow> cr_object list) \<Rightarrow> 's \<Rightarrow> 's api_state \<Rightarrow> bool" where
  "totals_ok hist s0 s \<longleftrightarrow> (\<exists>bs. totals_are (hd (hist s0)) (hd (hist (store s))) bs (handlers s))"

lemma tracks_new:
  "tracks objs rv v ver \<Longrightarrow> obj_rv j \<notin> obj_rv ` set objs \<Longrightarrow> tracks (j # objs) rv v' ver'"
  by (auto simp: tracks_def)

lemma tracks_pc_new: "pc_tracks objs pc \<Longrightarrow> obj_rv j \<notin> obj_rv ` set objs \<Longrightarrow> pc_tracks (j # objs) pc"
  by (cases pc) (auto intro: tracks_new)

lemma sum_list_set: "t < length xs \<Longrightarrow> sum_list (xs[t := x]) = sum_list xs + x - xs ! t" for x :: int
proof (induction xs arbitrary: t)
  case (Cons y ys)
  then show ?case by (cases t) auto
qed simp

lemma applied_sum_set:
  assumes "length bs = length hs" "t < length hs" "hs ! t = (p, pc)"
  shows "applied_sum f (bs[t := b]) (hs[t := (p', pc')]) =
    applied_sum f bs hs + (if applied b pc' then f pc' else 0) - (if applied (bs ! t) pc then f pc else 0)"
proof -
  have "zip (bs[t := b]) (hs[t := (p', pc')]) = (zip bs hs)[t := (b, p', pc')]"
    using update_zip [of bs hs t "(b, p', pc')"] by simp
  then show ?thesis using assms by (simp add: applied_sum_def map_update sum_list_set)
qed

lemma totals_are_set:
  assumes "totals_are j0 j bs hs" "t < length hs" "hs ! t = (p, pc)" "\<And>b. \<not> applied b pc"
  shows "totals_are j0 j' (bs[t := b]) (hs[t := (p', pc')]) \<longleftrightarrow>
    int_of (obj_value j') = int_of (obj_value j) + (if applied b pc' then delta_of pc' else 0) \<and>
    int_of (obj_version j') = int_of (obj_version j) + of_bool (applied b pc')"
  using assms by (auto simp: totals_are_def applied_sum_set)

section \<open>One process\<close>

lemma set_simps [simp]:
  "caches (set_handler t p pc s) = caches s" "mutexes (set_handler t p pc s) = mutexes s" "store (set_handler t p pc s) = store s"
  "handlers (set_handler t p pc s) = (handlers s)[t := (p, pc)]"
  "caches (set_mutex p m s) = caches s" "handlers (set_mutex p m s) = handlers s" "store (set_mutex p m s) = store s"
  "caches (set_cache p c s) = (caches s)[p := c]" "handlers (set_cache p c s) = handlers s" "store (set_cache p c s) = store s"
  "handlers (leave t p pc s) = (handlers s)[t := (p, pc)]" "caches (leave t p pc s) = caches s" "store (leave t p pc s) = store s"
  by (simp_all add: set_handler_def set_mutex_def set_cache_def leave_def)

lemma refresh_cache_ok:
  assumes "optimistic_api api hist" "refresh_cache (api_get api e st) c = Inr (ok, c')" "small_object (hd (hist st))" "hist st \<noteq> []"
    and "cache_ok (hist st) c"
  shows "cache_ok (hist st) c'" "ok \<Longrightarrow> ready c'"
proof -
  let ?r = "api_get api e st" and ?j = "hd (hist st)"
  have "cache_ok (hist st) c' \<and> (ok \<longrightarrow> ready c')"
  proof (cases "code ?r = 200")
    case True
    then have body: "resp_object ?r = Some ?j" using assms(1) by (simp add: optimistic_api_def)
    obtain t where t: "obj_rv ?j = Some (J_Text t)" using small_objectD(5) [OF assms(3)] by blast
    have "Some (J_Text t) \<in> obj_rv ` set (hist st)" using assms(4) t by (metis imageI list.set_sel(1))
    then show ?thesis
      using assms(2) True body t small_objectD(1,2) [OF assms(3), of 0]
      by (auto simp: refresh_cache_def fetch_globaldelay_def json_text_def cache_ok_def tracks_def)
  next
    case False
    then show ?thesis using assms(2,5) by (auto simp: refresh_cache_def fetch_globaldelay_def)
  qed
  then show "cache_ok (hist st) c'" "ok \<Longrightarrow> ready c'" by simp_all
qed

lemma make_next_tracks:
  "make_next d c = Inr g \<Longrightarrow> cache_ok objs c \<Longrightarrow> ready c \<Longrightarrow> tracks objs (gd_rv g) (gd_value g - d) (gd_version g - 1)"
  by (auto simp: make_next_def cache_ok_def split: if_splits)

lemma after_put_ok:
  assumes "resp_object r = None \<or> resp_object r = Some j" "small_object j" "obj_rv j \<notin> obj_rv ` set objs" "cache_ok objs c"
  shows "cache_ok (j # objs) (after_put r g c)"
proof (cases "resp_object r")
  case None
  then show ?thesis
    using assms(3,4) tracks_new [of objs "cache_rv c" _ _ j] by (auto simp: after_put_def cache_next_def cache_ok_def)
next
  case (Some u)
  then have u: "u = j" using assms(1) by simp
  obtain t where t: "obj_rv j = Some (J_Text t)" using small_objectD(5) [OF assms(2)] by blast
  then show ?thesis
    using Some u small_objectD(3,4) [OF assms(2)]
    by (auto simp: after_put_def cache_ok_def tracks_def)
qed

text \<open>A handler goes to another place, its process takes a new cache; the store stays.\<close>

lemma places_ok_set:
  assumes "places_ok hist s" "t < length (handlers s)" "handlers s ! t = (p, pc)"
    and "handlers g = handlers s" "store g = store s" "caches g = caches s \<or> (\<exists>c. caches g = (caches s)[p := c] \<and> cache_ok (hist (store s)) c)"
    and "pc_tracks (hist (store s)) pc'"
  shows "places_ok hist (set_handler t p pc' g)"
proof -
  have p: "p < length (caches s)" using assms(1-3) nth_mem [OF assms(2)] by (auto simp: places_ok_def)
  have len: "length (caches g) = length (caches s)" using assms(6) by auto
  have "\<forall>c\<in>set (caches g). cache_ok (hist (store s)) c"
    using assms(1,6) by (auto simp: places_ok_def dest!: set_update_subset_insert [THEN subsetD])
  moreover have "\<forall>(p', pc'')\<in>set ((handlers s)[t := (p, pc')]). p' < length (caches s) \<and> pc_tracks (hist (store s)) pc''"
    using assms(1,7) p set_update_subset_insert [of "handlers s" t "(p, pc')"] by (auto simp: places_ok_def)
  ultimately show ?thesis using assms(1,4,5) len by (simp add: places_ok_def)
qed

section \<open>Every step\<close>

definition service_ok :: "('s \<Rightarrow> cr_object list) \<Rightarrow> 's \<Rightarrow> 's api_state \<Rightarrow> bool" where
  "service_ok hist s0 s \<longleftrightarrow> places_ok hist s \<and> totals_ok hist s0 s"

lemma quiet_step:
  assumes "service_ok hist s0 s" "t < length (handlers s)" "handlers s ! t = (p, pc)" "\<And>b. \<not> applied b pc"
    and "handlers g = handlers s" "store g = store s" "caches g = caches s \<or> (\<exists>c. caches g = (caches s)[p := c] \<and> cache_ok (hist (store s)) c)"
    and "pc_tracks (hist (store s)) pc'" "\<not> applied False pc'"
  shows "service_ok hist s0 (set_handler t p pc' g)"
proof -
  obtain bs where "totals_are (hd (hist s0)) (hd (hist (store s))) bs (handlers s)"
    using assms(1) by (auto simp: service_ok_def totals_ok_def)
  then have "totals_are (hd (hist s0)) (hd (hist (store s))) (bs[t := False]) ((handlers s)[t := (p, pc')])"
    using totals_are_set [OF _ assms(2-4)] assms(9) by simp
  moreover have "places_ok hist (set_handler t p pc' g)"
    by (rule places_ok_set [of hist s]) (use assms in \<open>auto simp: service_ok_def\<close>)
  ultimately show ?thesis using assms(5,6) by (auto simp: service_ok_def totals_ok_def)
qed

text \<open>Building the object to write, from a ready cache.\<close>

lemma try_step:
  assumes "service_ok hist s0 s" "t < length (handlers s)" "handlers s ! t = (p, pc)" "\<And>b. \<not> applied b pc"
    and "handlers g = handlers s" "store g = store s" "caches g = caches s \<or> (\<exists>c. caches g = (caches s)[p := c] \<and> cache_ok (hist (store s)) c)"
    and "ready (caches g ! p)"
  shows "service_ok hist s0 (first_try t p d g)" "service_ok hist s0 (second_try t p d g)"
proof -
  have p: "p < length (caches s)" using assms(1-3) nth_mem [OF assms(2)] by (auto simp: places_ok_def service_ok_def)
  then have ok: "cache_ok (hist (store s)) (caches g ! p)"
    using assms(1,7) by (auto simp: service_ok_def places_ok_def)
  note q = quiet_step [OF assms(1-4)]
  have "service_ok hist s0 (leave t p (Answered d (Exception x)) g)" for x
    unfolding leave_def by (rule q) (use assms(5-7) in auto)
  moreover have "service_ok hist s0 (set_handler t p (Putting d n) g)" "service_ok hist s0 (set_handler t p (Putting_Again d n) g)"
    if "make_next d (caches g ! p) = Inr n" for n
    using make_next_tracks [OF that ok assms(8)] assms(5-7) by (auto intro!: q)
  ultimately show "service_ok hist s0 (first_try t p d g)" "service_ok hist s0 (second_try t p d g)"
    by (simp_all add: first_try_def second_try_def split: sum.split)
qed

lemma with_refresh_step:
  assumes "service_ok hist s0 s" "t < length (handlers s)" "handlers s ! t = (p, pc)" "\<And>b. \<not> applied b pc"
    and "optimistic_api api hist" "small_object (hd (hist (store s)))" "go = first_try \<or> go = second_try"
  shows "service_ok hist s0 (with_refresh go (api_get api e (store s)) t p d s)"
proof -
  have p: "p < length (caches s)" and ok: "cache_ok (hist (store s)) (caches s ! p)" and ne: "hist (store s) \<noteq> []"
    using assms(1-3) nth_mem [OF assms(2)] by (auto simp: places_ok_def service_ok_def)
  have fail: "service_ok hist s0 (leave t p (Answered d a) s)" if "\<not> applied False (Answered d a)" for a
    unfolding leave_def by (rule quiet_step [OF assms(1-4)]) (use that in auto)
  show ?thesis
  proof (cases "refresh_cache (api_get api e (store s)) (caches s ! p)")
    case (Inr b)
    then obtain r c where b: "refresh_cache (api_get api e (store s)) (caches s ! p) = Inr (r, c)" by (cases b) auto
    note c = refresh_cache_ok [OF assms(5) b assms(6) ne ok]
    have "service_ok hist s0 (go t p d (set_cache p c s))" if r
      using try_step [OF assms(1-4), of "set_cache p c s" d] c(1) c(2) [OF that] p assms(7) by auto
    then show ?thesis using b fail by (auto simp: with_refresh_def)
  qed (simp add: with_refresh_def fail)
qed

text \<open>A write that is stored, from a handler whose copy was current.\<close>

lemma stored_step:
  assumes "service_ok hist s0 s" "t < length (handlers s)" "handlers s ! t = (p, pc)" "\<And>b. \<not> applied b pc"
    and "tracks (hist (store s)) (gd_rv g) (gd_value g - delta_of pc') (gd_version g - 1)"
    and "stores (hist (store s)) (put_object g) (hist st)" "small_object (hd (hist st))"
    and "handlers k = handlers s" "store k = st" "caches k = caches s \<or> (\<exists>c. caches k = (caches s)[p := c] \<and> cache_ok (hist st) c)"
    and "applied True pc'" "pc_tracks (hist st) pc'"
  shows "service_ok hist s0 (set_handler t p pc' k)"
proof -
  let ?objs = "hist (store s)" and ?j = "hd (hist st)"
  obtain rv where new: "Some (J_Text rv) \<notin> obj_rv ` set ?objs" "hist st = (put_object g)\<lparr>obj_rv := Some (J_Text rv)\<rparr> # ?objs"
    using assms(6) by (auto simp: stores_def)
  then have hist: "hist st = ?j # ?objs" and rv: "obj_rv ?j \<notin> obj_rv ` set ?objs" by simp_all
  have places: "places_ok hist s" using assms(1) by (simp add: service_ok_def)
  have p: "p < length (caches s)" using places assms(2,3) nth_mem [OF assms(2)] by (auto simp: places_ok_def)
  have "cache_ok (hist st) c" if "c \<in> set (caches s)" for c
    using places that tracks_new [OF _ rv] hist by (metis cache_ok_def places_ok_def)
  then have caches: "\<forall>c\<in>set (caches k). cache_ok (hist st) c" "length (caches k) = length (caches s)"
    using assms(10) by (auto dest!: set_update_subset_insert [THEN subsetD])
  have "p' < length (caches s) \<and> pc_tracks (hist st) q" if "(p', q) \<in> set (handlers s)" for p' q
    using places that tracks_pc_new [OF _ rv] hist by (force simp: places_ok_def)
  then have "places_ok hist (set_handler t p pc' k)"
    using caches p assms(8,9,12) new(2) by (auto simp: places_ok_def dest!: set_update_subset_insert [THEN subsetD])
  moreover have now: "int_of (obj_value ?j) = int_of (obj_value (hd ?objs)) + delta_of pc'"
    "int_of (obj_version ?j) = int_of (obj_version (hd ?objs)) + 1"
    using assms(5,6) new(2) by (auto simp: tracks_def stores_def put_object_def int_of_def)
  obtain bs where "totals_are (hd (hist s0)) (hd ?objs) bs (handlers s)"
    using assms(1) by (auto simp: service_ok_def totals_ok_def)
  then have "totals_are (hd (hist s0)) ?j (bs[t := True]) ((handlers s)[t := (p, pc')])"
    using totals_are_set [OF _ assms(2-4)] assms(11) now by simp
  then have "totals_ok hist s0 (set_handler t p pc' k)" using assms(8,9) by (auto simp: totals_ok_def)
  ultimately show ?thesis by (simp add: service_ok_def)
qed

text \<open>The answer of a PUT.\<close>

lemma put_step:
  assumes "service_ok hist s0 s" "t < length (handlers s)" "handlers s ! t = (p, pc)" "\<And>b. \<not> applied b pc"
    and "tracks (hist (store s)) (gd_rv g) (gd_value g - d) (gd_version g - 1)"
    and "optimistic_api api hist" "api_put api e (store s) (put_object g) = (r, st)" "small_object (hd (hist st))"
  shows "service_ok hist s0 (put_result again r t p d g (s\<lparr>store := st\<rparr>))"
proof -
  let ?objs = "hist (store s)" and ?s = "s\<lparr>store := st\<rparr>"
  have answer: "hist st = ?objs \<and> code r \<noteq> 200 \<or> stores ?objs (put_object g) (hist st) \<and> code r \<noteq> 409"
    "code r = 200 \<longrightarrow> resp_object r = None \<or> resp_object r = Some (hd (hist st))"
    using assms(6,7) by (simp_all add: optimistic_api_def)
  have places: "places_ok hist s" using assms(1) by (simp add: service_ok_def)
  have p: "p < length (caches s)" and cache: "cache_ok ?objs (caches s ! p)"
    using places assms(2,3) nth_mem [OF assms(2)] by (auto simp: places_ok_def)
  show ?thesis
  proof (cases "hist st = ?objs \<and> code r \<noteq> 200")
    case True
    have same: "service_ok hist s0 ?s"
      using assms(1) True by (simp add: service_ok_def places_ok_def totals_ok_def)
    have "service_ok hist s0 (set_handler t p pc' k)" if "handlers k = handlers s" "store k = st" "caches k = caches s"
      "pc_tracks (hist st) pc'" "\<not> applied False pc'" for pc' k
      by (rule quiet_step [OF same, of t p pc]) (use assms(2-4) that in auto)
    then show ?thesis using True by (auto simp: put_result_def leave_def)
  next
    case False
    then have st: "stores ?objs (put_object g) (hist st)" "code r \<noteq> 409" using answer(1) by auto
    have stored: "service_ok hist s0 (set_handler t p pc' k)" if "handlers k = handlers s" "store k = st" "delta_of pc' = d"
      "caches k = caches s \<or> (\<exists>c. caches k = (caches s)[p := c] \<and> cache_ok (hist st) c)"
      "applied True pc'" "pc_tracks (hist st) pc'" for pc' k
      by (rule stored_step [OF assms(1-4) _ st(1) assms(8)]) (use assms(5) that in auto)
    show ?thesis
    proof (cases "code r = 200")
      case True
      obtain rv where "Some (J_Text rv) \<notin> obj_rv ` set ?objs" "hist st = (put_object g)\<lparr>obj_rv := Some (J_Text rv)\<rparr> # ?objs"
        using st(1) by (auto simp: stores_def)
      then have "cache_ok (hist st) (after_put r g (caches s ! p))"
        using after_put_ok [of r "hd (hist st)" ?objs "caches s ! p" g] answer(2) True assms(8) cache by simp
      then show ?thesis using True p unfolding put_result_def leave_def by (auto intro!: stored)
    next
      case other: False
      then show ?thesis using st(2) unfolding put_result_def leave_def by (auto intro!: stored)
    qed
  qed
qed

lemma put_result_store [simp]: "store (put_result again r t p d g s) = store s"
  by (simp add: put_result_def)

lemma first_try_store [simp]: "store (first_try t p d s) = store s"
  by (simp add: first_try_def split: sum.split)

lemma second_try_store [simp]: "store (second_try t p d s) = store s"
  by (simp add: second_try_def split: sum.split)

lemma with_refresh_store:
  "go = first_try \<or> go = second_try \<Longrightarrow> store (with_refresh go r t p d s) = store s"
  by (auto simp: with_refresh_def split: sum.split prod.split)

text \<open>Revisions are only added.\<close>

lemma put_grows:
  assumes "optimistic_api api hist" "api_put api e st obj = (r, st')"
  shows "set (hist st) \<subseteq> set (hist st')" "hist st \<noteq> [] \<Longrightarrow> hist st' \<noteq> []"
proof -
  have "hist st' = hist st \<or> stores (hist st) obj (hist st')"
    using assms unfolding optimistic_api_def by blast
  then show "set (hist st) \<subseteq> set (hist st')" "hist st \<noteq> [] \<Longrightarrow> hist st' \<noteq> []" by (auto simp: stores_def)
qed

lemma step_store:
  assumes "handler_step api e t (p, pc) s = Some s'"
  shows "store s' = store s \<or> (\<exists>g. store s' = snd (api_put api e (store s) (put_object g)))"
proof (cases pc)
  case (Putting d g)
  then show ?thesis using assms by (cases "api_put api e (store s) (put_object g)") (auto intro!: exI [of _ g])
next
  case (Putting_Again d g)
  then show ?thesis using assms by (cases "api_put api e (store s) (put_object g)") (auto intro!: exI [of _ g])
qed (use assms in \<open>auto simp: take_mutex_def Let_def with_refresh_store split: if_splits\<close>)

lemma step_grows:
  assumes "optimistic_api api hist" "handler_step api e t (p, pc) s = Some s'"
  shows "set (hist (store s)) \<subseteq> set (hist (store s'))"
  using step_store [OF assms(2)] put_grows(1) [OF assms(1)] by (metis prod.collapse subset_refl)

lemma put_handler_ok:
  assumes "service_ok hist s0 s" "t < length (handlers s)" "handlers s ! t = (p, pc)" "pc = Putting d g \<or> pc = Putting_Again d g"
    and "optimistic_api api hist" "api_put api e (store s) (put_object g) = (r, st)" "\<forall>j\<in>set (hist st). small_object j"
  shows "service_ok hist s0 (put_result again r t p d g (s\<lparr>store := st\<rparr>))"
proof (rule put_step [OF assms(1-3) _ _ assms(5,6)])
  have "hist (store s) \<noteq> []" and "pc_tracks (hist (store s)) pc"
    using assms(1-3) nth_mem [OF assms(2)] by (auto simp: service_ok_def places_ok_def)
  then show "tracks (hist (store s)) (gd_rv g) (gd_value g - d) (gd_version g - 1)" "small_object (hd (hist st))"
    using assms(4,7) put_grows(2) [OF assms(5,6)] by auto
qed (use assms(4) in auto)

text \<open>The success becomes the answer.\<close>

lemma snapshot_ok:
  assumes "service_ok hist s0 s" "t < length (handlers s)" "handlers s ! t = (p, Snapshot d)"
  shows "service_ok hist s0 (set_handler t p (Answered d (Updated v ver)) s)"
proof -
  obtain bs where bs: "totals_are (hd (hist s0)) (hd (hist (store s))) bs (handlers s)"
    using assms(1) by (auto simp: service_ok_def totals_ok_def)
  then have "totals_are (hd (hist s0)) (hd (hist (store s))) (bs[t := True]) ((handlers s)[t := (p, Answered d (Updated v ver))])"
    using assms(2,3) by (simp add: totals_are_def applied_sum_set)
  moreover have "places_ok hist (set_handler t p (Answered d (Updated v ver)) s)"
    by (rule places_ok_set [of hist s]) (use assms in \<open>auto simp: service_ok_def\<close>)
  ultimately show ?thesis by (auto simp: service_ok_def totals_ok_def)
qed

lemma handler_step_ok:
  assumes "service_ok hist s0 s" "t < length (handlers s)" "handler_step api e t (handlers s ! t) s = Some s'"
    and "optimistic_api api hist" "\<forall>j\<in>set (hist (store s')). small_object j"
  shows "service_ok hist s0 s'"
proof -
  obtain p pc where at: "handlers s ! t = (p, pc)" by fastforce
  have "hist (store s) \<noteq> []" using assms(1) by (auto simp: service_ok_def places_ok_def)
  then have small: "small_object (hd (hist (store s)))"
    using assms(3,5) at step_grows [OF assms(4), of e t p pc s s'] by (metis list.set_sel(1) subsetD)
  note quiet = quiet_step [OF assms(1,2) at] and refreshed = with_refresh_step [OF assms(1,2) at _ assms(4) small]
  show ?thesis
  proof (cases pc)
    case (Waiting d)
    then show ?thesis
      using assms(3) at try_step(1) [OF assms(1,2) at, of "set_mutex p (Some t) s"]
      by (auto simp: take_mutex_def Let_def intro!: quiet split: if_splits)
  next
    case (Putting d g)
    then show ?thesis
      using assms(3,5) at put_handler_ok [OF assms(1,2) at _ assms(4)]
      by (cases "api_put api e (store s) (put_object g)") auto
  next
    case (Putting_Again d g)
    then show ?thesis
      using assms(3,5) at put_handler_ok [OF assms(1,2) at _ assms(4)]
      by (cases "api_put api e (store s) (put_object g)") auto
  next
    case (Snapshot d)
    then show ?thesis
      using assms(3) at snapshot_ok [OF assms(1,2)] by (auto split: if_splits)
  qed (use assms(3) at refreshed in auto)
qed

section \<open>The service\<close>

lemma receive_ok: "service_ok hist s0 s \<Longrightarrow> p < length (caches s) \<Longrightarrow> service_ok hist s0 (receive p params s)"
proof -
  assume ok: "service_ok hist s0 s" and p: "p < length (caches s)"
  obtain pc where pc: "receive p params s = s\<lparr>handlers := handlers s @ [(p, pc)]\<rparr>" "\<not> applied False pc" "\<And>objs. pc_tracks objs pc"
    by (auto simp: receive_def Let_def split: sum.splits option.splits)
  obtain bs where "totals_are (hd (hist s0)) (hd (hist (store s))) bs (handlers s)"
    using ok by (auto simp: service_ok_def totals_ok_def)
  then have "totals_are (hd (hist s0)) (hd (hist (store s))) (bs @ [False]) (handlers s @ [(p, pc)])"
    using pc(2) by (simp add: totals_are_def applied_sum_def)
  then show ?thesis using ok p pc(1,3) by (auto simp: service_ok_def places_ok_def totals_ok_def)
qed

lemma process_ok:
  assumes "service_ok hist s0 s" "start_cache (api_get api e (store s)) = Inr c" "optimistic_api api hist"
    and "small_object (hd (hist (store s)))"
  shows "service_ok hist s0 (s\<lparr>caches := caches s @ [c], mutexes := mutexes s @ [None]\<rparr>)"
proof -
  have ne: "hist (store s) \<noteq> []" using assms(1) by (auto simp: service_ok_def places_ok_def)
  obtain ok where "refresh_cache (api_get api e (store s)) empty_cache = Inr (ok, c)"
    using assms(2) by (cases "refresh_cache (api_get api e (store s)) empty_cache") (auto simp: start_cache_def split: prod.splits)
  from refresh_cache_ok(1) [OF assms(3) this assms(4) ne] have "cache_ok (hist (store s)) c"
    by (simp add: cache_ok_def empty_cache_def)
  then show ?thesis using assms(1) by (auto simp: service_ok_def places_ok_def totals_ok_def)
qed

lemma reachable_ok:
  assumes "api_reachable api s0 s" "optimistic_api api hist" "hist s0 \<noteq> []"
  shows "(\<forall>j\<in>set (hist (store s)). small_object j) \<Longrightarrow> service_ok hist s0 s"
  using assms(1)
proof (induction rule: api_reachable.induct)
  case start
  have "totals_are (hd (hist s0)) (hd (hist s0)) [] []" by (simp add: totals_are_def applied_sum_def)
  then show ?case using assms(3) by (auto simp: service_ok_def places_ok_def totals_ok_def)
next
  case (process s e c)
  then have ok: "service_ok hist s0 s" by simp
  then have "hist (store s) \<noteq> []" by (auto simp: service_ok_def places_ok_def)
  then show ?case using process_ok [OF ok process.hyps(2) assms(2)] process.prems by simp
next
  case (request s p params)
  then show ?case using receive_ok by (auto simp: receive_def Let_def)
next
  case (handle s t e s')
  obtain p pc where "handlers s ! t = (p, pc)" by fastforce
  then have "\<forall>j\<in>set (hist (store s)). small_object j"
    using step_grows [OF assms(2)] handle.hyps(3) handle.prems by (metis subsetD)
  then show ?case using handler_step_ok [OF _ handle.hyps(2,3) assms(2) handle.prems] handle.IH by simp
qed


section \<open>A concrete API\<close>

text \<open>
  The stored revisions; a new resource version longer than all before; the choice 0 delivers the answer of a stored
  write, any other loses it.
\<close>

definition texts :: "cr_object list \<Rightarrow> string list" where
  "texts objs = concat (map (\<lambda>j. case obj_rv j of Some (J_Text t) \<Rightarrow> [t] | _ \<Rightarrow> []) objs)"

definition next_rv :: "cr_object list \<Rightarrow> string" where
  "next_rv objs = CHR ''1'' # concat (texts objs)"

definition list_api :: "cr_object list kube_api" where
  "list_api = \<lparr>api_get = \<lambda>e objs. \<lparr>code = 200, resp_object = Some (hd objs)\<rparr>,
     api_put = \<lambda>e objs j.
       if obj_rv j = obj_rv (hd objs)
       then let new = j\<lparr>obj_rv := Some (J_Text (next_rv objs))\<rparr>
            in (if e = 0 then \<lparr>code = 200, resp_object = Some new\<rparr> else \<lparr>code = 0, resp_object = None\<rparr>, new # objs)
       else (\<lparr>code = 409, resp_object = None\<rparr>, objs)\<rparr>"

lemma length_le_concat: "x \<in> set xs \<Longrightarrow> length x \<le> length (concat xs)"
  by (induction xs) auto

lemma next_rv_fresh: "Some (J_Text (next_rv objs)) \<notin> obj_rv ` set objs"
proof
  assume "Some (J_Text (next_rv objs)) \<in> obj_rv ` set objs"
  then have "next_rv objs \<in> set (texts objs)" by (force simp: texts_def split: option.splits json_scalar.splits)
  then have "length (next_rv objs) \<le> length (concat (texts objs))"
    by (rule length_le_concat)
  then show False by (simp add: next_rv_def)
qed

lemma list_api_optimistic: "optimistic_api list_api (\<lambda>objs. objs)"
  using next_rv_fresh by (auto simp: optimistic_api_def list_api_def stores_def Let_def split: if_splits)

text \<open>Runs as lists of moves.\<close>

datatype api_move = Start_Process nat | Request nat "string \<rightharpoonup> string" | Step nat nat

fun api_exec :: "'s kube_api \<Rightarrow> api_move \<Rightarrow> 's api_state \<Rightarrow> 's api_state option" where
  "api_exec api (Start_Process e) s =
     (case start_cache (api_get api e (store s)) of
        Inl x \<Rightarrow> None
      | Inr c \<Rightarrow> Some (s\<lparr>caches := caches s @ [c], mutexes := mutexes s @ [None]\<rparr>))"
| "api_exec api (Request p params) s = (if p < length (caches s) then Some (receive p params s) else None)"
| "api_exec api (Step e t) s =
     (if t < length (handlers s) then handler_step api e t (handlers s ! t) s else None)"

fun api_runs :: "'s kube_api \<Rightarrow> api_move list \<Rightarrow> 's api_state \<Rightarrow> 's api_state option" where
  "api_runs api [] s = Some s"
| "api_runs api (m # ms) s = (case api_exec api m s of None \<Rightarrow> None | Some s' \<Rightarrow> api_runs api ms s')"

lemma api_exec_reachable: "api_exec api m s = Some s' \<Longrightarrow> api_reachable api s0 s \<Longrightarrow> api_reachable api s0 s'"
  by (cases m) (auto split: sum.splits if_splits intro: api_reachable.intros)

lemma api_runs_reachable: "api_runs api ms s = Some s' \<Longrightarrow> api_reachable api s0 s \<Longrightarrow> api_reachable api s0 s'"
  by (induction ms arbitrary: s) (auto split: option.splits intro: api_exec_reachable)

definition first_object :: "int \<Rightarrow> cr_object" where
  "first_object v = \<lparr>obj_value = Some (J_Int v), obj_version = Some (J_Int 0), obj_rv = Some (J_Text ''7''), obj_rest = []\<rparr>"

definition api_begin :: "cr_object \<Rightarrow> cr_object list api_state" where
  "api_begin j = \<lparr>caches = [], mutexes = [], handlers = [], store = [j]\<rparr>"

lemma api_begin_reachable: "api_reachable list_api [j] (api_begin j)"
  unfolding api_begin_def by (rule api_reachable.start)

text \<open>Two processes; the second meets a conflict, writes again and loses the answer.\<close>

definition two_updates :: "api_move list" where
  "two_updates = [Start_Process 0, Start_Process 0, Request 0 [''add'' \<mapsto> ''7''], Request 1 [''minus'' \<mapsto> ''3''],
     Step 0 0, Step 0 1, Step 0 0, Step 0 1, Step 0 1, Step 1 1, Step 0 0]"

lemma two_updates_run:
  "case api_runs list_api two_updates (api_begin (first_object 5)) of
     None \<Rightarrow> False
   | Some s \<Rightarrow> handlers s = [(0, Answered 7 (Updated 12 1)), (1, Answered (-3) (Failed 0))] \<and>
       map (\<lambda>j. int_of (obj_value j)) (store s) = [9, 12, 5] \<and> map (\<lambda>j. int_of (obj_version j)) (store s) = [2, 1, 0]"
  by code_simp

lemma is_text_iff:
  "(case f of Some j \<Rightarrow> (case j of J_Text t \<Rightarrow> True | _ \<Rightarrow> False) | None \<Rightarrow> False) \<longleftrightarrow> (\<exists>t. f = Some (J_Text t))"
  by (cases f) (auto split: json_scalar.split)

lemma two_updates_small:
  "case api_runs list_api two_updates (api_begin (first_object 5)) of
     None \<Rightarrow> False
   | Some s \<Rightarrow> map (\<lambda>j. (obj_value j, obj_version j)) (store s) =
         [(Some (J_Int 9), Some (J_Int 2)), (Some (J_Int 12), Some (J_Int 1)), (Some (J_Int 5), Some (J_Int 0))] \<and>
       list_all (\<lambda>j. case obj_rv j of Some (J_Text t) \<Rightarrow> True | _ \<Rightarrow> False) (store s)"
  by code_simp

text \<open>
  A value past 32 bits, about two seconds of delay, is cut to 32 bits when the cache is read: adding one
  nanosecond to 3 seconds stores a negative delay and answers with success.
\<close>

theorem large_value_is_cut:
  "case api_runs list_api [Start_Process 0, Request 0 [''add'' \<mapsto> ''1''], Step 0 0, Step 0 0, Step 0 0] (api_begin (first_object 3000000000)) of
     None \<Rightarrow> False
   | Some s \<Rightarrow> handlers s = [(0, Answered 1 (Updated (-1294967295) 1))] \<and>
       map (\<lambda>j. int_of (obj_value j)) (store s) = [-1294967295, 3000000000]"
  by code_simp

text \<open>
  The value and version of an answer are read from the cache after the mutex was released: two requests of one
  process can both be answered with the version of the later one.
\<close>

theorem answer_of_a_later_update:
  "case api_runs list_api [Start_Process 0, Request 0 [''add'' \<mapsto> ''1''], Request 0 [''add'' \<mapsto> ''2''],
       Step 0 0, Step 0 0, Step 0 1, Step 0 1, Step 0 0, Step 0 1] (api_begin (first_object 5)) of
     None \<Rightarrow> False
   | Some s \<Rightarrow> handlers s = [(0, Answered 1 (Updated 8 2)), (0, Answered 2 (Updated 8 2))]"
  by code_simp


end
