(* ===== verification/Watch_Api.thy ===== *)
theory Watch_Api
  imports Delay_Api
begin

text \<open>
  The watcher of the global delay, \<^verbatim>\<open>examples/watch_api.cpp\<close>: a stream of JSON lines from the Kubernetes API,
  delivered in chunks of any size, and the loop that reopens the stream where it ended. The JSON parser is a
  parameter that gives the fields used, or \<open>None\<close> where it throws. It prints exactly the events of the complete
  lines however they are cut; but a watch that ends without an event forgets its position.
\<close>

section \<open>One line\<close>

text \<open>The fields of an event; \<^verbatim>\<open>metadata\<close> is its resource version, \<^verbatim>\<open>spec\<close> the value and the version.\<close>

record watch_object =
  status_code :: "json_scalar option"
  metadata :: "json_scalar option option"
  spec :: "(json_scalar option \<times> json_scalar option) option"

record watch_event =
  event_type :: "json_scalar option"
  event_object :: "watch_object option"

text \<open>\<open>printed\<close> holds the versions and values on standard output, newest last.\<close>

record curl_stream =
  partial :: string
  last_rv :: "string option"
  printed :: "(int \<times> int) list"

definition take_rv :: "json_scalar option \<Rightarrow> curl_stream \<Rightarrow> api_exn + curl_stream" where
  "take_rv m cs = ebind (json_text m []) (\<lambda>rv. Inr (if rv = [] then cs else cs\<lparr>last_rv := Some rv\<rparr>))"

definition bookmark :: "watch_event \<Rightarrow> curl_stream \<Rightarrow> api_exn + curl_stream" where
  "bookmark ev cs =
     (case event_object ev of
        Some ob \<Rightarrow> (case metadata ob of Some m \<Rightarrow> take_rv m cs | None \<Rightarrow> Inr cs)
      | None \<Rightarrow> Inr cs)"

definition error_event :: "watch_event \<Rightarrow> curl_stream \<Rightarrow> api_exn + curl_stream" where
  "error_event ev cs =
     ebind (case event_object ev of Some ob \<Rightarrow> json_int (status_code ob) 0 | None \<Rightarrow> Inr 0) (\<lambda>c.
       Inr (if c = 410 then cs\<lparr>last_rv := None\<rparr> else cs))"

text \<open>A change of the object. \<^verbatim>\<open>obj["metadata"]\<close> of an object without it is null, on which \<^verbatim>\<open>value\<close> throws.\<close>

definition print_spec :: "watch_object \<Rightarrow> curl_stream \<Rightarrow> api_exn + curl_stream" where
  "print_spec ob cs =
     (case spec ob of
        None \<Rightarrow> Inr cs
      | Some (v, ver) \<Rightarrow>
          ebind (json_int64 v 0) (\<lambda>value. ebind (json_int64 ver 0) (\<lambda>version.
            Inr (cs\<lparr>printed := printed cs @ [(version, value)]\<rparr>))))"

definition caught :: "api_exn + curl_stream \<Rightarrow> curl_stream \<Rightarrow> curl_stream" where
  "caught r cs = (case r of Inl e \<Rightarrow> cs | Inr cs' \<Rightarrow> cs')"

text \<open>An exception of the last part leaves the resource version already taken.\<close>

definition change_event :: "watch_event \<Rightarrow> curl_stream \<Rightarrow> curl_stream" where
  "change_event ev cs =
     (case event_object ev of
        None \<Rightarrow> cs
      | Some ob \<Rightarrow>
          (case metadata ob of
             None \<Rightarrow> cs
           | Some m \<Rightarrow>
               (case take_rv m cs of
                  Inl e \<Rightarrow> cs
                | Inr cs' \<Rightarrow> caught (print_spec ob cs') cs')))"

definition handle_event :: "watch_event \<Rightarrow> curl_stream \<Rightarrow> curl_stream" where
  "handle_event ev cs =
     (case json_text (event_type ev) [] of
        Inl e \<Rightarrow> cs
      | Inr ty \<Rightarrow>
          if ty = ''BOOKMARK'' then caught (bookmark ev cs) cs
          else if ty = ''ERROR'' then caught (error_event ev cs) cs
          else change_event ev cs)"

definition handle_line :: "(string \<Rightarrow> watch_event option) \<Rightarrow> string \<Rightarrow> curl_stream \<Rightarrow> curl_stream" where
  "handle_line parse line cs =
     (if line = [] then cs else case parse line of None \<Rightarrow> cs | Some ev \<Rightarrow> handle_event ev cs)"

section \<open>The stream\<close>

text \<open>The loop of \<^verbatim>\<open>write_cb\<close>, on the part of the text after \<^verbatim>\<open>pos\<close>.\<close>

function write_loop :: "(string \<Rightarrow> watch_event option) \<Rightarrow> string \<Rightarrow> curl_stream \<Rightarrow> curl_stream" where
  "write_loop parse s cs =
     (case dropWhile (\<lambda>c. c \<noteq> CHR 0x0A) s of
        [] \<Rightarrow> cs\<lparr>partial := s\<rparr>
      | nl # rest \<Rightarrow> write_loop parse rest (handle_line parse (takeWhile (\<lambda>c. c \<noteq> CHR 0x0A) s) cs))"
  by auto
termination
proof (relation "measure (\<lambda>(parse, s, cs). length s)")
  fix s :: string and nl rest
  assume "dropWhile (\<lambda>c. c \<noteq> CHR 0x0A) s = nl # rest"
  then have "length (nl # rest) \<le> length s" by (metis length_dropWhile_le)
  then show "((parse, rest, handle_line parse (takeWhile (\<lambda>c. c \<noteq> CHR 0x0A) s) cs), parse, s, cs)
      \<in> measure (\<lambda>(parse, s, cs). length s)" for parse cs by simp
qed simp

declare write_loop.simps [simp del]

definition write_cb :: "(string \<Rightarrow> watch_event option) \<Rightarrow> string \<Rightarrow> curl_stream \<Rightarrow> curl_stream" where
  "write_cb parse chunk cs = write_loop parse (partial cs @ chunk) cs"

text \<open>The chunks of one connection, from a fresh stream.\<close>

definition watch_stream :: "(string \<Rightarrow> watch_event option) \<Rightarrow> string list \<Rightarrow> curl_stream" where
  "watch_stream parse chunks = fold (write_cb parse) chunks \<lparr>partial = [], last_rv = None, printed = []\<rparr>"

definition run_watch_once :: "(string \<Rightarrow> watch_event option) \<Rightarrow> string list option \<Rightarrow> string option" where
  "run_watch_once parse opened =
     (case opened of None \<Rightarrow> None | Some chunks \<Rightarrow> last_rv (watch_stream parse chunks))"

section \<open>The watch loop\<close>

text \<open>Where the collection is, and from which version the watch starts.\<close>

record watch_env =
  kube_host :: string
  kube_port :: string
  kube_group :: string
  kube_version :: string
  kube_plural :: string
  kube_ns :: string

definition build_watch_url :: "watch_env \<Rightarrow> string \<Rightarrow> string \<Rightarrow> bool \<Rightarrow> string" where
  "build_watch_url k name start_rv collection_mode =
     (let base = ''https://'' @ kube_host k @ '':'' @ kube_port k @ ''/apis/'' @ kube_group k @ ''/'' @ kube_version k;
          coll = (if kube_ns k = ''-'' then base @ ''/'' @ kube_plural k
                  else base @ ''/namespaces/'' @ kube_ns k @ ''/'' @ kube_plural k);
          url = (if collection_mode
                 then coll @ ''?watch=true&allowWatchBookmarks=true&fieldSelector=metadata.name='' @ name
                 else coll @ ''/'' @ name @ ''?watch=true&allowWatchBookmarks=true'')
      in url @ ''&resourceVersion='' @ (if start_rv = [] then ''0'' else start_rv))"

record watch_loop =
  rv :: string
  backoff_ms :: int

definition watch_begin :: watch_loop where
  "watch_begin = \<lparr>rv = [], backoff_ms = 100\<rparr>"

text \<open>One round of the loop in \<^verbatim>\<open>main\<close>: the new state and the milliseconds it sleeps.\<close>

definition watch_round :: "string option \<Rightarrow> watch_loop \<Rightarrow> watch_loop \<times> int" where
  "watch_round new_rv w =
     (case new_rv of
        None \<Rightarrow> (w\<lparr>rv := [], backoff_ms := min (backoff_ms w * 2) 8000\<rparr>, backoff_ms w)
      | Some r \<Rightarrow> (w\<lparr>rv := r, backoff_ms := 500\<rparr>, 10))"

section \<open>Cutting the stream anywhere\<close>

text \<open>The complete lines of a text and what follows the last of them.\<close>

fun text_lines :: "string \<Rightarrow> string \<Rightarrow> string list \<times> string" where
  "text_lines acc [] = ([], acc)"
| "text_lines acc (c # cs) =
     (if c = CHR 0x0A then (case text_lines [] cs of (ls, rest) \<Rightarrow> (acc # ls, rest)) else text_lines (acc @ [c]) cs)"

text \<open>Handling a line neither reads nor writes \<^verbatim>\<open>partial\<close>.\<close>

abbreviation keep :: "string \<Rightarrow> curl_stream \<Rightarrow> curl_stream" where
  "keep p cs \<equiv> cs\<lparr>partial := p\<rparr>"

lemma take_rv_partial: "take_rv m (keep p cs) = map_sum id (keep p) (take_rv m cs)"
  by (cases "json_text m []") (simp_all add: take_rv_def)

lemma bookmark_partial: "bookmark ev (keep p cs) = map_sum id (keep p) (bookmark ev cs)"
  by (simp add: bookmark_def take_rv_partial split: option.split)

lemma error_event_partial: "error_event ev (keep p cs) = map_sum id (keep p) (error_event ev cs)"
  unfolding error_event_def
  by (cases "case event_object ev of Some ob \<Rightarrow> json_int (status_code ob) 0 | None \<Rightarrow> Inr 0") simp_all

lemma print_spec_partial: "print_spec ob (keep p cs) = map_sum id (keep p) (print_spec ob cs)"
proof (cases "spec ob")
  case (Some s)
  then show ?thesis
    by (cases "json_int64 (fst s) 0"; cases "json_int64 (snd s) 0"; cases s) (simp_all add: print_spec_def)
qed (simp add: print_spec_def)

lemma caught_partial: "caught (map_sum id (keep p) r) (keep p cs) = keep p (caught r cs)"
  by (cases r) (simp_all add: caught_def)

lemma change_event_partial: "change_event ev (keep p cs) = keep p (change_event ev cs)"
proof (cases "event_object ev")
  case (Some ob)
  show ?thesis
  proof (cases "metadata ob")
    case (Some m)
    with \<open>event_object ev = Some ob\<close> show ?thesis
      by (cases "take_rv m cs") (simp_all add: change_event_def take_rv_partial print_spec_partial caught_partial)
  qed (simp add: Some change_event_def)
qed (simp add: change_event_def)

lemma handle_line_partial: "handle_line parse l (keep p cs) = keep p (handle_line parse l cs)"
  by (simp add: handle_line_def handle_event_def change_event_partial bookmark_partial error_event_partial caught_partial
      split: option.split sum.split)

lemma text_lines_long:
  "text_lines acc s =
     (case dropWhile (\<lambda>c. c \<noteq> CHR 0x0A) s of
        [] \<Rightarrow> ([], acc @ s)
      | nl # rest \<Rightarrow> (case text_lines [] rest of (ls, r) \<Rightarrow> ((acc @ takeWhile (\<lambda>c. c \<noteq> CHR 0x0A) s) # ls, r)))"
proof (induction s arbitrary: acc)
  case (Cons c s)
  show ?case
  proof (cases "c = CHR 0x0A")
    case False
    then show ?thesis
      using Cons.IH [of "acc @ [c]"]
      by (cases "dropWhile (\<lambda>c. c \<noteq> CHR 0x0A) s") (simp_all del: dropWhile_eq_Nil_conv)
  qed simp
qed simp

lemma no_line: "CHR 0x0A \<notin> set s \<Longrightarrow> text_lines acc s = ([], acc @ s)"
  by (induction s arbitrary: acc) auto

lemma write_loop_lines:
  "write_loop parse s cs = (case text_lines [] s of (ls, rest) \<Rightarrow> keep rest (fold (handle_line parse) ls cs))"
proof (induction parse s cs rule: write_loop.induct)
  case (1 parse s cs)
  show ?case
  proof (cases "dropWhile (\<lambda>c. c \<noteq> CHR 0x0A) s")
    case Nil
    then show ?thesis using text_lines_long [of "[]" s] by (simp add: write_loop.simps [of parse s] del: dropWhile_eq_Nil_conv)
  next
    case (Cons nl rest)
    then show ?thesis
      using text_lines_long [of "[]" s] 1 by (simp add: write_loop.simps [of parse s] split: prod.splits)
  qed
qed

lemma text_lines_append:
  "text_lines acc (s @ t) = (case text_lines acc s of (ls, rest) \<Rightarrow> (case text_lines rest t of (ls', rest') \<Rightarrow> (ls @ ls', rest')))"
  by (induction s arbitrary: acc) (auto split: prod.splits)

lemma text_lines_acc: "CHR 0x0A \<notin> set acc \<Longrightarrow> text_lines acc s = text_lines [] (acc @ s)"
  by (simp add: text_lines_append no_line split: prod.split)

lemma text_lines_rest: "text_lines acc s = (ls, rest) \<Longrightarrow> CHR 0x0A \<notin> set acc \<Longrightarrow> CHR 0x0A \<notin> set rest"
  by (induction s arbitrary: acc ls) (auto split: if_splits prod.splits)

lemma handle_lines_partial: "fold (handle_line parse) ls (cs\<lparr>partial := p\<rparr>) = (fold (handle_line parse) ls cs)\<lparr>partial := p\<rparr>"
  by (induction ls arbitrary: cs) (simp_all add: handle_line_partial)

lemma write_cb_lines:
  assumes "CHR 0x0A \<notin> set (partial cs)"
  shows "fold (write_cb parse) chunks cs =
    (case text_lines (partial cs) (concat chunks) of (ls, rest) \<Rightarrow> (fold (handle_line parse) ls cs)\<lparr>partial := rest\<rparr>)"
  using assms
proof (induction chunks arbitrary: cs)
  case (Cons chunk chunks)
  obtain ls rest where one: "text_lines (partial cs) chunk = (ls, rest)" by fastforce
  then have first: "write_cb parse chunk cs = (fold (handle_line parse) ls cs)\<lparr>partial := rest\<rparr>"
    using text_lines_acc [OF Cons.prems, of chunk] by (simp add: write_cb_def write_loop_lines)
  have "CHR 0x0A \<notin> set rest" using text_lines_rest [OF one Cons.prems] .
  then show ?case
    using one first Cons.IH [of "write_cb parse chunk cs"]
    by (simp add: text_lines_append handle_lines_partial split: prod.splits)
qed simp

text \<open>
  However the connection cuts the stream into chunks, the watcher handles exactly its complete lines, in their order.
\<close>

theorem watch_stream_lines:
  "watch_stream parse chunks =
     (case text_lines [] (concat chunks) of (ls, rest) \<Rightarrow>
        (fold (handle_line parse) ls \<lparr>partial = [], last_rv = None, printed = []\<rparr>)\<lparr>partial := rest\<rparr>)"
  by (simp add: watch_stream_def write_cb_lines)

section \<open>The position of the watch\<close>

theorem backoff_bounds:
  "100 \<le> backoff_ms w \<and> backoff_ms w \<le> 8000 \<Longrightarrow>
   100 \<le> backoff_ms (fst (watch_round r w)) \<and> backoff_ms (fst (watch_round r w)) \<le> 8000 \<and>
   10 \<le> snd (watch_round r w) \<and> snd (watch_round r w) \<le> 8000"
  by (auto simp: watch_round_def split: option.splits)

text \<open>A watch that ends with no complete line, by a timeout of the server say, starts again from version 0.\<close>

theorem idle_watch_forgets_position:
  assumes "CHR 0x0A \<notin> set (concat chunks)"
  shows "rv (fst (watch_round (run_watch_once parse (Some chunks)) w)) = []"
proof -
  have "text_lines [] (concat chunks) = ([], concat chunks)"
    using no_line [OF assms, of "[]"] by simp
  then show ?thesis by (simp add: run_watch_once_def watch_stream_lines watch_round_def)
qed

end
