(* ===== verification/Sampling_Timers.thy ===== *)
theory Sampling_Timers
  imports Profiler
begin

text \<open>
  The utilities under \<^verbatim>\<open>libcoz/ccutil\<close> with state, as the profiler uses them. The timers of \<^verbatim>\<open>timer.h\<close>: moves
  give a POSIX timer to the thread that starts sampling, and none is deleted twice; but \<^verbatim>\<open>end_sampling\<close> leaves
  the timer in the thread's table entry and the assignment of the next thread's forgets it, so a program that
  starts threads one after the other runs out of timers and is aborted. The spin lock of \<^verbatim>\<open>spinlock.h\<close> as the
  main thread and the profiler thread use it at the start.
\<close>

section \<open>POSIX timers\<close>

text \<open>
  What the kernel keeps: the live timers and what they are set to. It refuses a timer past the limit of queued
  signals, and operations on a timer that does not exist.
\<close>

record itimerspec =
  interval_sec :: u64
  interval_nsec :: u64
  value_sec :: u64
  value_nsec :: u64

record kernel_timers =
  fresh_timer :: nat
  live_timers :: "nat list"
  timer_settings :: "nat \<rightharpoonup> itimerspec"

definition timer_create :: "nat \<Rightarrow> kernel_timers \<Rightarrow> (nat \<times> kernel_timers) option" where
  "timer_create limit k =
     (if length (live_timers k) < limit
      then Some (fresh_timer k, k\<lparr>fresh_timer := Suc (fresh_timer k), live_timers := fresh_timer k # live_timers k\<rparr>)
      else None)"

definition timer_delete :: "nat \<Rightarrow> kernel_timers \<Rightarrow> kernel_timers option" where
  "timer_delete i k = (if i \<in> set (live_timers k) then Some (k\<lparr>live_timers := remove1 i (live_timers k)\<rparr>) else None)"

definition timer_settime :: "nat \<Rightarrow> itimerspec \<Rightarrow> kernel_timers \<Rightarrow> kernel_timers option" where
  "timer_settime i ts k =
     (if i \<in> set (live_timers k) then Some (k\<lparr>timer_settings := (timer_settings k)(i \<mapsto> ts)\<rparr>) else None)"

section \<open>The class\<close>

record timer =
  timer_ready :: bool
  timer_id :: nat

definition default_timer :: timer where
  "default_timer = \<lparr>timer_ready = False, timer_id = 0\<rparr>"

definition new_timer :: "nat \<Rightarrow> kernel_timers \<Rightarrow> c_fault + timer \<times> kernel_timers" where
  "new_timer limit k =
     (case timer_create limit k of
        None \<Rightarrow> Inl Aborted
      | Some (i, k') \<Rightarrow> Inr (\<lparr>timer_ready = True, timer_id = i\<rparr>, k'))"

definition destroy_timer :: "timer \<Rightarrow> kernel_timers \<Rightarrow> c_fault + kernel_timers" where
  "destroy_timer t k =
     (if timer_ready t then (case timer_delete (timer_id t) k of None \<Rightarrow> Inl Aborted | Some k' \<Rightarrow> Inr k') else Inr k)"

text \<open>\<^verbatim>\<open>operator=\<close> with a temporary: what it held before is overwritten. The result is the target and the temporary.\<close>

definition move_timer :: "timer \<Rightarrow> timer \<Rightarrow> timer \<times> timer" where
  "move_timer self other = (other, other\<lparr>timer_ready := False\<rparr>)"

definition seconds_of :: "u64 \<Rightarrow> u64" where
  "seconds_of time_ns = (time_ns - time_ns mod 1000000000) div 1000000000"

definition interval_spec :: "u64 \<Rightarrow> itimerspec" where
  "interval_spec time_ns =
     (let ns = time_ns mod 1000000000; s = seconds_of time_ns
      in \<lparr>interval_sec = s, interval_nsec = ns, value_sec = s, value_nsec = ns\<rparr>)"

definition oneshot_spec :: "u64 \<Rightarrow> itimerspec" where
  "oneshot_spec time_ns =
     \<lparr>interval_sec = 0, interval_nsec = 0, value_sec = seconds_of time_ns, value_nsec = time_ns mod 1000000000\<rparr>"

definition set_timer :: "itimerspec \<Rightarrow> timer \<Rightarrow> kernel_timers \<Rightarrow> c_fault + kernel_timers" where
  "set_timer ts t k =
     (if \<not> timer_ready t then Inl Assert_Failed
      else case timer_settime (timer_id t) ts k of None \<Rightarrow> Inl Aborted | Some k' \<Rightarrow> Inr k')"

definition start_interval :: "u64 \<Rightarrow> timer \<Rightarrow> kernel_timers \<Rightarrow> c_fault + kernel_timers" where
  "start_interval time_ns = set_timer (interval_spec time_ns)"

definition start_oneshot :: "u64 \<Rightarrow> timer \<Rightarrow> kernel_timers \<Rightarrow> c_fault + kernel_timers" where
  "start_oneshot time_ns = set_timer (oneshot_spec time_ns)"

section \<open>Threads that come and go\<close>

text \<open>The timers in the entries of the thread table. A thread starts and stops sampling in an entry.\<close>

record sampling =
  kernel :: kernel_timers
  process_timers :: "timer list"

definition begin_sampling_timer :: "nat \<Rightarrow> nat \<Rightarrow> sampling \<Rightarrow> c_fault + sampling" where
  "begin_sampling_timer limit i s =
     ebind (new_timer limit (kernel s)) (\<lambda>(tmp, k1).
       case move_timer (process_timers s ! i) tmp of
         (t, tmp') \<Rightarrow>
           ebind (destroy_timer tmp' k1) (\<lambda>k2.
           ebind (start_interval (of_nat (SamplePeriod * SampleBatchSize)) t k2) (\<lambda>k3.
             Inr \<lparr>kernel = k3, process_timers = (process_timers s)[i := t]\<rparr>)))"

text \<open>\<^verbatim>\<open>end_sampling\<close> stops and closes the sampler; the timer stays as it is.\<close>

definition end_sampling_timer :: "nat \<Rightarrow> sampling \<Rightarrow> sampling" where
  "end_sampling_timer i s = s"

datatype thread_event = Begins nat | Ends nat

fun thread_runs :: "nat \<Rightarrow> thread_event list \<Rightarrow> sampling \<Rightarrow> c_fault + sampling" where
  "thread_runs limit [] s = Inr s"
| "thread_runs limit (Begins i # es) s = ebind (begin_sampling_timer limit i s) (thread_runs limit es)"
| "thread_runs limit (Ends i # es) s = thread_runs limit es (end_sampling_timer i s)"

definition no_timers :: "nat \<Rightarrow> sampling" where
  "no_timers n = \<lparr>kernel = \<lparr>fresh_timer = 0, live_timers = [], timer_settings = Map.empty\<rparr>,
     process_timers = replicate n default_timer\<rparr>"

fun begins :: "thread_event list \<Rightarrow> nat" where
  "begins [] = 0"
| "begins (Begins i # es) = Suc (begins es)"
| "begins (Ends i # es) = begins es"

section \<open>Facts\<close>

text \<open>The two fields are the time, in seconds and nanoseconds below a second.\<close>

lemma interval_is_time:
  "unat (interval_sec (interval_spec t)) * 1000000000 + unat (interval_nsec (interval_spec t)) = unat t"
  "unat (interval_nsec (interval_spec t)) < 1000000000"
proof -
  let ?b = "1000000000 :: u64"
  have "unat (t mod ?b) = unat t mod 1000000000" by (simp add: unat_mod)
  moreover have "unat (t - t mod ?b) = unat t - unat t mod 1000000000"
    by (subst unat_sub) (simp_all add: unat_mod word_le_nat_alt)
  then have "unat (seconds_of t) = unat t div 1000000000"
    by (simp add: seconds_of_def unat_div minus_mod_eq_mult_div)
  ultimately show "unat (interval_sec (interval_spec t)) * 1000000000 + unat (interval_nsec (interval_spec t)) = unat t"
    "unat (interval_nsec (interval_spec t)) < 1000000000"
    by (simp_all add: interval_spec_def Let_def)
qed

text \<open>
  Each thread that samples has its own timer: the timers in the entries are alive and distinct.
\<close>

definition owns :: "sampling \<Rightarrow> nat \<Rightarrow> nat \<Rightarrow> bool" where
  "owns s i t \<longleftrightarrow> i < length (process_timers s) \<and> timer_ready (process_timers s ! i) \<and> timer_id (process_timers s ! i) = t"

definition timers_owned :: "sampling \<Rightarrow> bool" where
  "timers_owned s \<longleftrightarrow> (\<forall>t\<in>set (live_timers (kernel s)). t < fresh_timer (kernel s)) \<and>
     (\<forall>i t. owns s i t \<longrightarrow> t \<in> set (live_timers (kernel s))) \<and>
     (\<forall>i j t. owns s i t \<longrightarrow> owns s j t \<longrightarrow> i = j)"

definition after_begin :: "nat \<Rightarrow> sampling \<Rightarrow> sampling" where
  "after_begin i s =
     (let k = kernel s; n = fresh_timer k
      in \<lparr>kernel = \<lparr>fresh_timer = Suc n, live_timers = n # live_timers k,
            timer_settings = (timer_settings k)(n \<mapsto> interval_spec (of_nat (SamplePeriod * SampleBatchSize)))\<rparr>,
          process_timers = (process_timers s)[i := \<lparr>timer_ready = True, timer_id = n\<rparr>]\<rparr>)"

lemma begin_sampling_timer_eq:
  "begin_sampling_timer limit i s =
     (if length (live_timers (kernel s)) < limit then Inr (after_begin i s) else Inl Aborted)"
  by (simp add: begin_sampling_timer_def new_timer_def timer_create_def move_timer_def destroy_timer_def
      start_interval_def set_timer_def timer_settime_def after_begin_def Let_def)

lemma after_begin_owns:
  "owns (after_begin i s) j t \<longleftrightarrow> j < length (process_timers s) \<and> (if j = i then t = fresh_timer (kernel s) else owns s j t)"
  by (auto simp: owns_def after_begin_def Let_def nth_list_update)

lemma after_begin_owned:
  assumes "timers_owned s"
  shows "timers_owned (after_begin i s)"
proof -
  have live: "live_timers (kernel (after_begin i s)) = fresh_timer (kernel s) # live_timers (kernel s)"
    "fresh_timer (kernel (after_begin i s)) = Suc (fresh_timer (kernel s))"
    by (simp_all add: after_begin_def Let_def)
  have old: "t < fresh_timer (kernel s)" if "owns s j t" for j t
    using assms that by (auto simp: timers_owned_def)
  show ?thesis
    unfolding timers_owned_def live after_begin_owns
    using assms old by (auto simp: timers_owned_def less_Suc_eq)
qed

theorem timers_stay_owned:
  "thread_runs limit es s = Inr s' \<Longrightarrow> timers_owned s \<Longrightarrow> timers_owned s'"
  by (induction limit es s rule: thread_runs.induct)
    (auto simp: begin_sampling_timer_eq end_sampling_timer_def after_begin_owned split: if_splits)

lemma thread_runs_timers:
  "thread_runs limit es s = Inr s' \<Longrightarrow> length (live_timers (kernel s')) = length (live_timers (kernel s)) + begins es"
  by (induction limit es s rule: thread_runs.induct)
    (auto simp: begin_sampling_timer_eq end_sampling_timer_def after_begin_def Let_def split: if_splits)

lemma thread_runs_ok:
  "length (live_timers (kernel s)) \<le> limit \<Longrightarrow>
   (\<exists>s'. thread_runs limit es s = Inr s') \<longleftrightarrow> length (live_timers (kernel s)) + begins es \<le> limit"
  by (induction limit es s rule: thread_runs.induct)
    (auto simp: begin_sampling_timer_eq end_sampling_timer_def after_begin_def Let_def)

text \<open>
  Every thread that ever sampled leaves a timer behind, ended or not; the first thread past the limit aborts the
  program, even if only one thread lives at a time.
\<close>

theorem timers_are_never_deleted:
  "(case thread_runs limit es (no_timers n) of
      Inl e \<Rightarrow> limit < begins es
    | Inr s \<Rightarrow> length (live_timers (kernel s)) = begins es \<and> begins es \<le> limit)"
proof (cases "thread_runs limit es (no_timers n)")
  case (Inl e)
  then show ?thesis using thread_runs_ok [of "no_timers n" limit es] by (auto simp: no_timers_def)
next
  case (Inr s)
  then show ?thesis
    using thread_runs_ok [of "no_timers n" limit es] thread_runs_timers [OF Inr] by (auto simp: no_timers_def)
qed

theorem threads_in_turn_abort:
  "thread_runs limit (concat (replicate (Suc limit) [Begins i, Ends i])) (no_timers n) = Inl Aborted"
proof -
  have count: "begins (concat (replicate m [Begins i, Ends i])) = m" for m by (induction m) simp_all
  have fault: "thread_runs l es s = Inl e \<Longrightarrow> e = Aborted" for l es s e
    by (induction l es s rule: thread_runs.induct) (auto simp: begin_sampling_timer_eq split: if_splits)
  show ?thesis
  proof (cases "thread_runs limit (concat (replicate (Suc limit) [Begins i, Ends i])) (no_timers n)")
    case (Inl e)
    then show ?thesis by (simp only: fault [OF Inl])
  next
    case (Inr s)
    then show ?thesis
      using timers_are_never_deleted [of limit "concat (replicate (Suc limit) [Begins i, Ends i])" n]
      unfolding count by simp
  qed
qed

section \<open>The start of the profiler thread\<close>

text \<open>
  \<^verbatim>\<open>spinlock\<close> is one flag. \<open>lock\<close> tests and sets it until it was clear: a turn that finds it set changes nothing.
\<close>

definition try_lock :: "bool \<Rightarrow> bool \<times> bool" where
  "try_lock flag = (\<not> flag, True)"

datatype starter_pc = Lock_First | Create_Thread | Lock_Again | Add_Main_Thread

datatype profiler_pc = Not_Created | Opening | Unlocking | Waiting_For_Points

record handshake =
  lock_flag :: bool
  starter :: starter_pc
  prof_thread :: profiler_pc
  startup_logged :: bool

definition spin :: "starter_pc \<Rightarrow> handshake \<Rightarrow> handshake" where
  "spin go h = (case try_lock (lock_flag h) of
     (got, flag) \<Rightarrow> (h\<lparr>lock_flag := flag\<rparr>)\<lparr>starter := if got then go else starter h\<rparr>)"

fun starter_turn :: "starter_pc \<Rightarrow> handshake \<Rightarrow> handshake" where
  "starter_turn Lock_First h = spin Create_Thread h"
| "starter_turn Create_Thread h = h\<lparr>starter := Lock_Again, prof_thread := Opening\<rparr>"
| "starter_turn Lock_Again h = spin Add_Main_Thread h"
| "starter_turn Add_Main_Thread h = h"

fun profiler_turn :: "profiler_pc \<Rightarrow> handshake \<Rightarrow> handshake" where
  "profiler_turn Opening h = h\<lparr>startup_logged := True, prof_thread := Unlocking\<rparr>"
| "profiler_turn Unlocking h = h\<lparr>lock_flag := False, prof_thread := Waiting_For_Points\<rparr>"
| "profiler_turn pc h = h"

text \<open>A schedule tells whose turn it is: \<open>True\<close> for the thread that calls \<^verbatim>\<open>startup\<close>.\<close>

definition handshake_turn :: "bool \<Rightarrow> handshake \<Rightarrow> handshake" where
  "handshake_turn who h = (if who then starter_turn (starter h) h else profiler_turn (prof_thread h) h)"

definition handshake_start :: handshake where
  "handshake_start = \<lparr>lock_flag = False, starter = Lock_First, prof_thread = Not_Created, startup_logged = False\<rparr>"

definition handshake_ok :: "handshake \<Rightarrow> bool" where
  "handshake_ok h \<longleftrightarrow>
     (starter h = Lock_First \<longrightarrow> \<not> lock_flag h \<and> prof_thread h = Not_Created) \<and>
     (starter h = Create_Thread \<longrightarrow> lock_flag h \<and> prof_thread h = Not_Created) \<and>
     (starter h = Lock_Again \<longrightarrow> prof_thread h \<noteq> Not_Created \<and> (lock_flag h \<longleftrightarrow> prof_thread h \<noteq> Waiting_For_Points)) \<and>
     (starter h = Add_Main_Thread \<longrightarrow> prof_thread h = Waiting_For_Points) \<and>
     (startup_logged h \<longleftrightarrow> prof_thread h \<in> {Unlocking, Waiting_For_Points})"

lemma handshake_turn_ok: "handshake_ok h \<Longrightarrow> handshake_ok (handshake_turn who h)"
  by (cases "starter h"; cases "prof_thread h")
    (auto simp: handshake_ok_def handshake_turn_def spin_def try_lock_def)

text \<open>The calling thread goes on only when the profiler thread has opened the output and logged the start.\<close>

theorem startup_waits_for_profiler:
  "starter (fold handshake_turn who handshake_start) = Add_Main_Thread \<Longrightarrow>
   startup_logged (fold handshake_turn who handshake_start)"
proof -
  have "handshake_ok h \<Longrightarrow> handshake_ok (fold handshake_turn who h)" for h
    by (induction who arbitrary: h) (simp_all add: handshake_turn_ok)
  moreover have "handshake_ok handshake_start" by (simp add: handshake_ok_def handshake_start_def)
  ultimately have "handshake_ok (fold handshake_turn who handshake_start)" by simp
  then show "starter (fold handshake_turn who handshake_start) = Add_Main_Thread \<Longrightarrow> ?thesis"
    by (simp add: handshake_ok_def)
qed

text \<open>And it does go on: once the profiler thread has had two turns after its creation, the next one takes the lock.\<close>

lemma startup_goes_on:
  "starter (fold handshake_turn [True, True, False, True, False, True] handshake_start) = Add_Main_Thread"
  by code_simp

end
